(* ===== verification/Prelude.thy ===== *)
theory Prelude
  imports Main "HOL-Library.Multiset"
begin

text \<open>
  What the components share.

  \<^item> JavaScript arrays whose elements are mutated by index: a read past the end gives
    \<open>undefined\<close>, a write past the end extends the array with holes. An array is a list of
    options, where \<open>None\<close> is \<open>undefined\<close> or a hole.
  \<^item> The outcome of a statement: it completes, or it throws and leaves the state as it was at
    the throw.
  \<^item> A \<open>for\<close> loop whose bound \<open>arr.length\<close> is read again in every round while its body may
    change the array. It may run for ever, so its value is an option.
\<close>

named_theorems js_array \<open>facts about reads and writes of JavaScript arrays\<close>

section \<open>Errors and outcomes\<close>

datatype js_error = TypeError | ReferenceError | SyntaxError

datatype 's outcome = Done 's | Throw js_error 's

primrec outcome_state :: "'s outcome \<Rightarrow> 's" where
  "outcome_state (Done s) = s"
| "outcome_state (Throw e s) = s"

primrec and_then :: "'s outcome \<Rightarrow> ('s \<Rightarrow> 's outcome) \<Rightarrow> 's outcome" where
  "and_then (Done s) f = f s"
| "and_then (Throw e s) f = Throw e s"

lemma and_then_Done [simp]: "and_then r Done = r"
  by (cases r) simp_all

section \<open>JavaScript arrays\<close>

type_synonym 'a jsarr = "'a option list"

definition js_get :: "'a jsarr \<Rightarrow> nat \<Rightarrow> 'a option" where
  "js_get xs i = (if i < length xs then xs ! i else None)"

definition js_set :: "'a jsarr \<Rightarrow> nat \<Rightarrow> 'a option \<Rightarrow> 'a jsarr" where
  "js_set xs i v =
     (if i < length xs then xs[i := v] else xs @ replicate (i - length xs) None @ [v])"

text \<open>\<open>xs[xs.length - 1]\<close>: the property \<open>-1\<close> of an empty array is \<open>undefined\<close>.\<close>

definition js_last :: "'a jsarr \<Rightarrow> 'a option" where
  "js_last xs = (if xs = [] then None else last xs)"

definition js_push :: "'a jsarr \<Rightarrow> 'a \<Rightarrow> 'a jsarr" where
  "js_push xs v = xs @ [Some v]"

definition js_pop :: "'a jsarr \<Rightarrow> 'a jsarr" where
  "js_pop xs = butlast xs"

definition dense :: "'a jsarr \<Rightarrow> bool" where
  "dense xs \<longleftrightarrow> None \<notin> set xs"

lemma dense_Nil [simp, js_array]: "dense []"
  by (simp add: dense_def)

lemma dense_push [simp, js_array]: "dense (js_push xs v) \<longleftrightarrow> dense xs"
  by (auto simp: dense_def js_push_def)

lemma dense_map_Some [simp, js_array]: "dense (map Some ys)"
  by (auto simp: dense_def)

lemma length_push [simp, js_array]: "length (js_push xs v) = Suc (length xs)"
  by (simp add: js_push_def)

lemma dense_iff_map: "dense xs \<longleftrightarrow> (\<exists>ys. xs = map Some ys)"
proof
  assume "dense xs"
  then show "\<exists>ys. xs = map Some ys"
  proof (induction xs)
    case Nil
    then show ?case by simp
  next
    case (Cons x xs)
    then obtain ys where "xs = map Some ys" by (auto simp: dense_def)
    moreover obtain y where "x = Some y" using Cons.prems by (cases x) (auto simp: dense_def)
    ultimately show ?case by (intro exI [of _ "y # ys"]) simp
  qed
qed auto

definition elems :: "'a jsarr \<Rightarrow> 'a list" where
  "elems xs = List.map_filter id xs"

lemma elems_simps [simp, js_array]:
  "elems [] = []" "elems (Some v # xs) = v # elems xs" "elems (None # xs) = elems xs"
  "elems (xs @ ys) = elems xs @ elems ys" "elems (js_push xs v) = elems xs @ [v]"
  by (auto simp: elems_def List.map_filter_def js_push_def)

lemma elems_map_Some [simp, js_array]: "elems (map Some ys) = ys"
  by (induction ys) simp_all

lemma set_elems: "set (elems xs) = {v. Some v \<in> set xs}"
  by (induction xs) (auto simp: elems_def List.map_filter_def split: option.splits)

section \<open>The removal loops of the listener lists\<close>

text \<open>
  The first loop of the unregister functions: the indices, in ascending order, at which the
  test holds.
\<close>

definition match_indices :: "('a option \<Rightarrow> bool) \<Rightarrow> 'a jsarr \<Rightarrow> nat list" where
  "match_indices P xs = filter (\<lambda>i. P (xs ! i)) [0..<length xs]"

text \<open>
  The second loop: for each collected index, copy the last element there and pop. The indices
  are not adjusted as the array shrinks.
\<close>

fun swap_out :: "'a jsarr \<Rightarrow> nat list \<Rightarrow> 'a jsarr" where
  "swap_out xs [] = xs"
| "swap_out xs (i # ks) = swap_out (js_pop (js_set xs i (js_last xs))) ks"

lemma match_indices_sorted: "sorted_wrt (<) (match_indices P xs)"
  by (simp add: match_indices_def sorted_wrt_filter)

lemma match_indices_iff: "i \<in> set (match_indices P xs) \<longleftrightarrow> i < length xs \<and> P (xs ! i)"
  by (auto simp: match_indices_def)

lemma swap_out_inside:
  assumes "i < length xs"
  shows "js_pop (js_set xs i (js_last xs)) = butlast (xs[i := last xs])"
  using assms by (cases xs) (auto simp: js_pop_def js_set_def js_last_def)

lemma swap_out_outside:
  assumes "length xs \<le> i"
  shows "js_pop (js_set xs i (js_last xs)) = xs @ replicate (i - length xs) None"
  using assms by (simp add: js_pop_def js_set_def butlast_append)

lemma mset_swap_inside:
  assumes "i < length xs"
  shows "mset (butlast (xs[i := last xs])) = mset xs - {# xs ! i #}"
proof -
  have "xs \<noteq> []" using assms by auto
  then obtain ys y where xs: "xs = ys @ [y]" by (metis append_butlast_last_id)
  show ?thesis
  proof (cases "i < length ys")
    case True
    then show ?thesis
      by (simp add: xs list_update_append butlast_append nth_append mset_update)
  next
    case False
    with assms have "i = length ys" by (simp add: xs)
    then show ?thesis by (simp add: xs)
  qed
qed

text \<open>
  The loops never lose an element that does not match: every index they work on holds a match
  or lies past the end of the array.
\<close>

lemma swap_out_keeps_others:
  assumes "sorted_wrt (<) ks"
    and "\<forall>i \<in> set ks. i < length xs \<longrightarrow> xs ! i \<noteq> Some v"
  shows "count_list (swap_out xs ks) (Some v) = count_list xs (Some v)"
  using assms
proof (induction ks arbitrary: xs)
  case Nil
  then show ?case by simp
next
  case (Cons i ks)
  let ?ys = "js_pop (js_set xs i (js_last xs))"
  have rest: "j \<in> set ks \<Longrightarrow> j < length ?ys \<longrightarrow> ?ys ! j \<noteq> Some v" for j
  proof (cases "i < length xs")
    case True
    assume "j \<in> set ks"
    with Cons.prems have "i < j" and v: "j < length xs \<longrightarrow> xs ! j \<noteq> Some v" by auto
    then show ?thesis
      using True by (auto simp: swap_out_inside nth_butlast)
  next
    case False
    assume "j \<in> set ks"
    with Cons.prems have "i < j" by auto
    then show ?thesis
      using False by (auto simp: swap_out_outside)
  qed
  have "count_list ?ys (Some v) = count_list xs (Some v)"
  proof (cases "i < length xs")
    case True
    then have "count_list ?ys (Some v) = count (mset xs - {# xs ! i #}) (Some v)"
      by (simp add: swap_out_inside mset_swap_inside flip: count_mset)
    with True Cons.prems(2) show ?thesis by (simp flip: count_mset)
  next
    case False
    then show ?thesis by (simp add: swap_out_outside flip: count_mset)
  qed
  moreover have "count_list (swap_out ?ys ks) (Some v) = count_list ?ys (Some v)"
    using Cons.prems(1) rest by (intro Cons.IH) auto
  ultimately show ?case by simp
qed

lemma swap_out_matches_keeps_others:
  assumes "\<not> P (Some v)"
  shows "count_list (swap_out xs (match_indices P xs)) (Some v) = count_list xs (Some v)"
  using assms
  by (intro swap_out_keeps_others) (auto simp: match_indices_sorted match_indices_iff)

text \<open>With one match the loops remove exactly that element.\<close>

lemma filter_index_eq: "k < n \<Longrightarrow> filter (\<lambda>i. i = k) [0..<n] = [k]"
  by (induction n) (auto simp: filter_empty_conv less_Suc_eq)

lemma match_indices_single:
  assumes "k < length xs" "P (xs ! k)" "\<And>i. i < length xs \<Longrightarrow> P (xs ! i) \<Longrightarrow> i = k"
  shows "match_indices P xs = [k]"
proof -
  have "filter (\<lambda>i. P (xs ! i)) [0..<length xs] = filter (\<lambda>i. i = k) [0..<length xs]"
    by (intro filter_cong refl) (metis assms(2) assms(3) atLeastLessThan_iff set_upt)
  also have "\<dots> = [k]" using assms(1) filter_index_eq by blast
  finally show ?thesis by (simp add: match_indices_def)
qed

lemma mset_swap_out_single:
  assumes "k < length xs" "P (xs ! k)" "\<And>i. i < length xs \<Longrightarrow> P (xs ! i) \<Longrightarrow> i = k"
  shows "mset (swap_out xs (match_indices P xs)) = mset xs - {# xs ! k #}"
proof -
  have "match_indices P xs = [k]" by (rule match_indices_single [where P = P, OF assms(1,2) assms(3)])
  with assms(1) show ?thesis by (simp add: swap_out_inside mset_swap_inside)
qed

lemma match_indices_none:
  assumes "\<And>x. x \<in> set xs \<Longrightarrow> \<not> P x"
  shows "match_indices P xs = []"
  using assms by (auto simp: match_indices_def filter_empty_conv)

text \<open>
  With at most one match the loops remove every match and nothing else.
\<close>

lemma mset_swap_out_filter:
  assumes "length (filter P xs) \<le> 1"
  shows "mset (swap_out xs (match_indices P xs)) = mset (filter (\<lambda>x. \<not> P x) xs)"
proof (cases "\<exists>x \<in> set xs. P x")
  case False
  then have "match_indices P xs = []" by (intro match_indices_none) auto
  with False show ?thesis by simp
next
  case True
  then obtain ys x zs where xs: "xs = ys @ x # zs" and x: "P x" by (meson split_list)
  with assms have none: "filter P ys = []" "filter P zs = []" by auto
  have only: "i = length ys" if "i < length xs" "P (xs ! i)" for i
  proof (rule ccontr)
    assume "i \<noteq> length ys"
    with that(1) have "xs ! i \<in> set ys \<union> set zs"
      by (auto simp: xs nth_append nth_Cons' intro!: nth_mem)
    with that(2) none show False by (auto simp: filter_empty_conv)
  qed
  have "mset (swap_out xs (match_indices P xs)) = mset xs - {# x #}"
    using mset_swap_out_single [of "length ys" xs P] only x by (simp add: xs)
  moreover have "filter (\<lambda>x. \<not> P x) ys = ys" "filter (\<lambda>x. \<not> P x) zs = zs"
    using none by (auto simp: filter_empty_conv filter_id_conv)
  ultimately show ?thesis using x by (simp add: xs)
qed

section \<open>A loop over an array its body may change\<close>

type_synonym 's run = "'s outcome option"

partial_function (option) live_loop ::
  "('s \<Rightarrow> 'a jsarr) \<Rightarrow> ('a option \<Rightarrow> 's \<Rightarrow> 's run) \<Rightarrow> nat \<Rightarrow> 's \<Rightarrow> 's run" where
  "live_loop arr body i s =
     (if i < length (arr s)
      then (case body (arr s ! i) s of
              None \<Rightarrow> None
            | Some (Done s') \<Rightarrow> live_loop arr body (Suc i) s'
            | Some (Throw e s') \<Rightarrow> Some (Throw e s'))
      else Some (Done s))"

definition run_then :: "'s run \<Rightarrow> ('s \<Rightarrow> 's run) \<Rightarrow> 's run" where
  "run_then r f =
     (case r of None \<Rightarrow> None | Some (Done s) \<Rightarrow> f s | Some (Throw e s) \<Rightarrow> Some (Throw e s))"

lemma run_then_simps [simp]:
  "run_then None f = None" "run_then (Some (Done s)) f = f s"
  "run_then (Some (Throw e s)) f = Some (Throw e s)"
  by (simp_all add: run_then_def)

fun each :: "('a \<Rightarrow> 's \<Rightarrow> 's outcome) \<Rightarrow> 'a list \<Rightarrow> 's \<Rightarrow> 's outcome" where
  "each body [] s = Done s"
| "each body (x # xs) s = and_then (body x s) (each body xs)"

text \<open>If the body leaves the array alone, the loop is a loop over the list of its elements.\<close>

lemma live_loop_each:
  assumes body: "\<And>x s. body x s = Some (b x s)"
    and keep: "\<And>x s. arr (outcome_state (b x s)) = arr s"
  shows "live_loop arr body i s = Some (each b (drop i (arr s)) s)"
proof (induction "length (arr s) - i" arbitrary: i s)
  case 0
  then show ?case by (simp add: live_loop.simps)
next
  case (Suc n)
  then have i: "i < length (arr s)" by simp
  then have drop: "drop i (arr s) = arr s ! i # drop (Suc i) (arr s)"
    by (simp add: Cons_nth_drop_Suc)
  show ?case
  proof (cases "b (arr s ! i) s")
    case (Done s')
    with keep [of "arr s ! i" s] have same: "arr s' = arr s" by simp
    with Suc have "live_loop arr body (Suc i) s' = Some (each b (drop (Suc i) (arr s')) s')"
      by (intro Suc.hyps(1)) simp
    with Done i same drop show ?thesis by (simp add: live_loop.simps body)
  next
    case (Throw e s')
    with i drop show ?thesis by (simp add: live_loop.simps body)
  qed
qed

lemma each_append: "each body (xs @ ys) s = and_then (each body xs s) (each body ys)"
proof (induction xs arbitrary: s)
  case (Cons x xs)
  then show ?case by (cases "body x s") simp_all
qed simp

lemma each_pure: "(\<And>x s. x \<in> set xs \<Longrightarrow> body x s = Done (f x s)) \<Longrightarrow> each body xs s = Done (fold f xs s)"
  by (induction xs arbitrary: s) auto

text \<open>The same for a body that behaves as a function only in the states of an invariant.\<close>

lemma live_loop_fold_from:
  assumes body: "\<And>e s. I s \<Longrightarrow> arr s = map Some es \<Longrightarrow> e \<in> set es \<Longrightarrow> body (Some e) s = Some (Done (f e s))"
    and keep: "\<And>e s. I s \<Longrightarrow> arr s = map Some es \<Longrightarrow> e \<in> set es \<Longrightarrow> I (f e s) \<and> arr (f e s) = arr s"
    and "I s" "arr s = map Some es"
  shows "live_loop arr body i s = Some (Done (fold f (drop i es) s))"
  using assms(3,4)
proof (induction "length es - i" arbitrary: i s)
  case 0
  then show ?case by (simp add: live_loop.simps)
next
  case (Suc n)
  then have i: "i < length es" by simp
  then have mem: "es ! i \<in> set es" by simp
  note step = body [OF Suc.prems mem]
  have "live_loop arr body (Suc i) (f (es ! i) s) = Some (Done (fold f (drop (Suc i) es) (f (es ! i) s)))"
    using Suc.hyps(2) keep [OF Suc.prems mem] Suc.prems(2) by (intro Suc.hyps(1)) simp_all
  then show ?case
    using i by (subst live_loop.simps) (simp add: step Suc.prems(2) Cons_nth_drop_Suc [symmetric])
qed

lemma live_loop_fold:
  assumes "\<And>e s. I s \<Longrightarrow> arr s = map Some es \<Longrightarrow> e \<in> set es \<Longrightarrow> body (Some e) s = Some (Done (f e s))"
    and "\<And>e s. I s \<Longrightarrow> arr s = map Some es \<Longrightarrow> e \<in> set es \<Longrightarrow> I (f e s) \<and> arr (f e s) = arr s"
    and "I s" "arr s = map Some es"
  shows "live_loop arr body 0 s = Some (Done (fold f es s))"
proof -
  have "live_loop arr body 0 s = Some (Done (fold f (drop 0 es) s))"
    by (rule live_loop_fold_from [where I = I and arr = arr and es = es and body = body and f = f and s = s and i = 0,
        OF assms])
  then show ?thesis by simp
qed

end
