(* ===== verification/Interfaces.thy ===== *)
theory Interfaces
  imports Prelude
begin

text \<open>
  The interfaces between the components, as locales: what a client calls, and the laws the
  provider promises.

  \<^item> \<open>notifier\<close>, \<open>registry\<close>: the listener lists of \<open>RsApi.js\<close>, \<open>RsXHRConnection.js\<close> and the
    signal-slot server of \<open>gui.jsx\<close>.
  \<^item> \<open>connection\<close>, \<open>reporting_connection\<close>: the object with a \<open>request\<close> function that
    \<open>RsApi\<close> is built on.
\<close>

section \<open>Listener lists\<close>

locale notifier =
  fixes entries :: "'s \<Rightarrow> 'e jsarr"
    and register :: "'e \<Rightarrow> 's \<Rightarrow> 's"
  assumes register_entries: "entries (register e s) = js_push (entries s) e"
begin

lemma register_dense: "dense (entries (register e s)) \<longleftrightarrow> dense (entries s)"
  by (simp add: register_entries)

lemma register_elems: "elems (entries (register e s)) = elems (entries s) @ [e]"
  by (simp add: register_entries)

lemma register_last: "js_last (entries (register e s)) = Some e"
  by (simp add: register_entries js_push_def js_last_def)

end

text \<open>
  A registry also forgets: \<open>unregister l\<close> drops the entries whose key is \<open>l\<close>. It never loses
  an entry with another key, and it is exact while a key is registered at most once.
\<close>

locale registry = notifier entries register
  for entries :: "'s \<Rightarrow> 'e jsarr" and register :: "'e \<Rightarrow> 's \<Rightarrow> 's" +
  fixes key :: "'e \<Rightarrow> 'l"
    and unregister :: "'l \<Rightarrow> 's \<Rightarrow> 's"
  assumes unregister_others:
      "key v \<noteq> l \<Longrightarrow> count_list (entries (unregister l s)) (Some v) = count_list (entries s) (Some v)"
    and unregister_once:
      "dense (entries s) \<Longrightarrow> length (filter (\<lambda>x. map_option key x = Some l) (entries s)) \<le> 1 \<Longrightarrow>
       mset (entries (unregister l s)) = mset (filter (\<lambda>x. map_option key x \<noteq> Some l) (entries s))"
begin

definition at_most_once :: "'s \<Rightarrow> bool" where
  "at_most_once s \<longleftrightarrow> dense (entries s) \<and> distinct (map (map_option key) (entries s))"

lemma at_most_once_dense: "at_most_once s \<Longrightarrow> dense (entries s)"
  by (simp add: at_most_once_def)

lemma distinct_count: "distinct (map f xs) \<Longrightarrow> length (filter (\<lambda>x. f x = y) xs) \<le> 1"
  by (induction xs) (auto simp: filter_empty_conv image_iff)

lemma at_most_once_count:
  "at_most_once s \<Longrightarrow> length (filter (\<lambda>x. map_option key x = Some l) (entries s)) \<le> 1"
  unfolding at_most_once_def by (blast intro: distinct_count)

lemma unregister_mset:
  "at_most_once s \<Longrightarrow>
   mset (entries (unregister l s)) = mset (filter (\<lambda>x. map_option key x \<noteq> Some l) (entries s))"
  by (intro unregister_once at_most_once_dense at_most_once_count)

lemma unregister_set:
  "at_most_once s \<Longrightarrow>
   set (entries (unregister l s)) = {x \<in> set (entries s). map_option key x \<noteq> Some l}"
  using unregister_mset [of s l] by (metis set_filter set_mset_mset)

lemma distinct_map_filter_mset:
  "mset ys = mset (filter P xs) \<Longrightarrow> distinct (map f xs) \<Longrightarrow> distinct (map f ys)"
  by (metis distinct_map_filter mset_eq_imp_distinct_iff mset_map)

lemma unregister_at_most_once: "at_most_once s \<Longrightarrow> at_most_once (unregister l s)"
  using unregister_mset [of s l] unregister_set [of s l]
  by (auto simp: at_most_once_def dense_def intro: distinct_map_filter_mset)

lemma unregister_gone: "at_most_once s \<Longrightarrow> Some e \<in> set (entries (unregister l s)) \<Longrightarrow> key e \<noteq> l"
  by (simp add: unregister_set)

lemma register_at_most_once:
  assumes "at_most_once s" and "\<And>v. Some v \<in> set (entries s) \<Longrightarrow> key v \<noteq> key e"
  shows "at_most_once (register e s)"
proof -
  have "Some (key e) \<notin> map_option key ` set (entries s)"
  proof
    assume "Some (key e) \<in> map_option key ` set (entries s)"
    then obtain x where x: "Some (key e) = map_option key x" "x \<in> set (entries s)"
      by (rule imageE)
    from x(1) obtain v where "x = Some v" "key v = key e" by (cases x) simp_all
    with x(2) assms(2) [of v] show False by simp
  qed
  with assms(1) show ?thesis
    by (auto simp: at_most_once_def register_entries js_push_def dense_def)
qed

text \<open>Unregister, then register again under the same key: the entry is replaced.\<close>

lemma replace_at_most_once: "at_most_once s \<Longrightarrow> at_most_once (register e (unregister (key e) s))"
  by (intro register_at_most_once unregister_at_most_once) (auto dest: unregister_gone)

lemma replace_set:
  "at_most_once s \<Longrightarrow>
   set (entries (register e (unregister (key e) s))) =
     insert (Some e) {x \<in> set (entries s). map_option key x \<noteq> Some (key e)}"
  by (simp add: register_entries js_push_def unregister_set)

end

section \<open>Connections\<close>

record 'd request =
  path :: string
  data :: "'d option" \<comment> \<open>None: the member is missing, i.e. undefined\<close>

locale connection =
  fixes request :: "'d request \<Rightarrow> 'cb option \<Rightarrow> 'ecb option \<Rightarrow> 'w \<Rightarrow> 'w"
    and sent :: "'w \<Rightarrow> ('d request \<times> 'cb option) list"
  assumes request_sent: "sent (request r cb e w) = sent w @ [(r, cb)]"
begin

lemma request_length: "length (sent (request r cb e w)) = Suc (length (sent w))"
  by (simp add: request_sent)

lemma requests_sent:
  "sent (fold (\<lambda>(r, cb, e). request r cb e) rs w) = sent w @ map (\<lambda>(r, cb, e). (r, cb)) rs"
  by (induction rs arbitrary: w) (auto simp: request_sent)

end

text \<open>A connection that also remembers whom to tell about a failed request.\<close>

locale reporting_connection = connection request sent
  for request :: "'d request \<Rightarrow> 'cb option \<Rightarrow> 'ecb option \<Rightarrow> 'w \<Rightarrow> 'w"
    and sent :: "'w \<Rightarrow> ('d request \<times> 'cb option) list" +
  fixes err_cbs :: "'w \<Rightarrow> 'ecb option list"
  assumes request_err: "err_cbs (request r cb e w) = err_cbs w @ [e]"
    and err_cbs_sent: "length (err_cbs w) = length (sent w)"
begin

lemma request_zip: "zip (sent (request r cb e w)) (err_cbs (request r cb e w)) =
    zip (sent w) (err_cbs w) @ [((r, cb), e)]"
  by (simp add: request_sent request_err err_cbs_sent)

end

end
