(* ===== verification/XhrConnection.thy ===== *)
theory XhrConnection
  imports Interfaces
begin

text \<open>
  \<open>webui/RsXHRConnection.js\<close>: requests to the backend over \<open>XMLHttpRequest\<close>, and the list of
  listeners for the state of the connection. The state is a record; its extension is what the
  status listeners may change. \<open>JSON.parse\<close> and \<open>JSON.stringify\<close> are the parameters
  \<open>parse\<close> (\<open>None\<close>: it throws) and \<open>stringify\<close>.
\<close>

record ('d, 'cb, 'ecb) xhr =
  xhr_method :: string
  xhr_url :: string
  xhr_body :: "string option"
  xhr_req :: "'d request"
  xhr_cb :: "'cb option"
  xhr_err_cb :: "'ecb option"

record ('l, 'd, 'cb, 'ecb) xhr_conn =
  server_hostname :: string
  server_port :: string
  status_listeners :: "'l jsarr"
  open_xhrs :: "('d, 'cb, 'ecb) xhr list"

definition RsXHRConnection :: "string \<Rightarrow> string \<Rightarrow> ('l, 'd, 'cb, 'ecb) xhr_conn" where
  "RsXHRConnection hostname port =
     \<lparr>server_hostname = hostname, server_port = port, status_listeners = [], open_xhrs = []\<rparr>"

definition api_root_path :: string where
  "api_root_path = ''/api/v2/''"

section \<open>Status listeners\<close>

definition notify_status ::
  "('l \<Rightarrow> string \<Rightarrow> ('l, 'd, 'cb, 'ecb, 'z) xhr_conn_scheme \<Rightarrow> ('l, 'd, 'cb, 'ecb, 'z) xhr_conn_scheme run)
   \<Rightarrow> string \<Rightarrow> ('l, 'd, 'cb, 'ecb, 'z) xhr_conn_scheme
   \<Rightarrow> ('l, 'd, 'cb, 'ecb, 'z) xhr_conn_scheme run" where
  "notify_status call status s =
     live_loop status_listeners
       (\<lambda>x s. case x of None \<Rightarrow> Some (Throw TypeError s) | Some l \<Rightarrow> call l status s) 0 s"

definition register_status_listener ::
  "'l \<Rightarrow> ('l, 'd, 'cb, 'ecb, 'z) xhr_conn_scheme \<Rightarrow> ('l, 'd, 'cb, 'ecb, 'z) xhr_conn_scheme" where
  "register_status_listener cb s = s\<lparr>status_listeners := js_push (status_listeners s) cb\<rparr>"

text \<open>
  The second loop of \<open>unregister_status_listener\<close> writes to \<open>status_listeners[i]\<close>, with the
  loop counter \<open>i\<close>, and never uses the collected \<open>index\<close>.
\<close>

fun front_out :: "'a jsarr \<Rightarrow> nat \<Rightarrow> nat \<Rightarrow> 'a jsarr" where
  "front_out xs i 0 = xs"
| "front_out xs i (Suc n) = front_out (js_pop (js_set xs i (js_last xs))) (Suc i) n"

definition unregister_status_listener ::
  "'l \<Rightarrow> ('l, 'd, 'cb, 'ecb, 'z) xhr_conn_scheme \<Rightarrow> ('l, 'd, 'cb, 'ecb, 'z) xhr_conn_scheme" where
  "unregister_status_listener cb s =
     (let to_delete = match_indices (\<lambda>x. x = Some cb) (status_listeners s)
      in s\<lparr>status_listeners := front_out (status_listeners s) 0 (length to_delete)\<rparr>)"

section \<open>Requests\<close>

definition request ::
  "('d \<Rightarrow> string) \<Rightarrow> 'd request \<Rightarrow> 'cb option \<Rightarrow> 'ecb option
   \<Rightarrow> ('l, 'd, 'cb, 'ecb, 'z) xhr_conn_scheme \<Rightarrow> ('l, 'd, 'cb, 'ecb, 'z) xhr_conn_scheme" where
  "request stringify req cb err_cb s =
     (let method = (if data req \<noteq> None then ''POST'' else ''GET'');
          url = ''http://'' @ server_hostname s @ '':'' @ server_port s @ api_root_path @ path req;
          body = map_option stringify (data req)
      in s\<lparr>open_xhrs := open_xhrs s @
           [\<lparr>xhr_method = method, xhr_url = url, xhr_body = body,
             xhr_req = req, xhr_cb = cb, xhr_err_cb = err_cb\<rparr>]\<rparr>)"

text \<open>
  \<open>onreadystatechange\<close>: what happens to the connection, and the callback that is called last
  (\<open>CallCb cb None\<close>: called with \<open>undefined\<close>, because the text is no JSON).
\<close>

datatype ('cb, 'ecb, 'j) call = NoCall | CallCb 'cb "'j option" | CallErr 'ecb

definition onreadystatechange ::
  "('l \<Rightarrow> string \<Rightarrow> ('l, 'd, 'cb, 'ecb, 'z) xhr_conn_scheme \<Rightarrow> ('l, 'd, 'cb, 'ecb, 'z) xhr_conn_scheme run)
   \<Rightarrow> (string \<Rightarrow> 'j option) \<Rightarrow> ('d, 'cb, 'ecb) xhr \<Rightarrow> nat \<Rightarrow> nat \<Rightarrow> string
   \<Rightarrow> ('l, 'd, 'cb, 'ecb, 'z) xhr_conn_scheme
   \<Rightarrow> (('l, 'd, 'cb, 'ecb, 'z) xhr_conn_scheme outcome \<times> ('cb, 'ecb, 'j) call) option" where
  "onreadystatechange call parse xhr readyState status responseText s =
     (if readyState = 4 then
        if status \<noteq> 200 then
          (case notify_status call ''not_connected'' s of
             None \<Rightarrow> None
           | Some (Throw e s') \<Rightarrow> Some (Throw e s', NoCall)
           | Some (Done s') \<Rightarrow>
               Some (Done s', case xhr_err_cb xhr of None \<Rightarrow> NoCall | Some e \<Rightarrow> CallErr e))
        else
          (case notify_status call ''connected'' s of
             None \<Rightarrow> None
           | Some (Throw e s') \<Rightarrow> Some (Throw e s', NoCall)
           | Some (Done s') \<Rightarrow>
               Some (Done s', case xhr_cb xhr of None \<Rightarrow> NoCall
                              | Some cb \<Rightarrow> CallCb cb (parse responseText)))
      else Some (Done s, NoCall))"

section \<open>The interfaces it provides\<close>

interpretation status: notifier status_listeners register_status_listener
  by unfold_locales (simp add: register_status_listener_def)

definition sent :: "('l, 'd, 'cb, 'ecb, 'z) xhr_conn_scheme \<Rightarrow> ('d request \<times> 'cb option) list" where
  "sent s = map (\<lambda>x. (xhr_req x, xhr_cb x)) (open_xhrs s)"

definition err_cbs :: "('l, 'd, 'cb, 'ecb, 'z) xhr_conn_scheme \<Rightarrow> 'ecb option list" where
  "err_cbs s = map xhr_err_cb (open_xhrs s)"

interpretation xhr: reporting_connection "request stringify" sent err_cbs
  by unfold_locales (simp_all add: request_def sent_def err_cbs_def Let_def)

section \<open>Lemmas\<close>

lemma front_out_one: "xs \<noteq> [] \<Longrightarrow> front_out xs 0 (Suc 0) = butlast (xs[0 := last xs])"
  by (simp add: swap_out_inside)

lemma unregister_status_single:
  assumes "k < length (status_listeners s)" "status_listeners s ! k = Some cb"
    and "\<And>i. i < length (status_listeners s) \<Longrightarrow> status_listeners s ! i = Some cb \<Longrightarrow> i = k"
  shows "mset (status_listeners (unregister_status_listener cb s)) =
         mset (status_listeners s) - {# status_listeners s ! 0 #}"
proof -
  have "match_indices (\<lambda>x. x = Some cb) (status_listeners s) = [k]"
    by (rule match_indices_single [where P = "\<lambda>x. x = Some cb", OF assms(1,2) assms(3)])
  moreover have "status_listeners s \<noteq> []" using assms(1) by auto
  ultimately show ?thesis
    by (simp add: unregister_status_listener_def swap_out_inside mset_swap_inside)
qed

lemma notify_status_fold:
  assumes keep: "\<And>l s. status_listeners (f l s) = status_listeners s"
    and ls: "status_listeners s = map Some ls"
  shows "notify_status (\<lambda>l st s. Some (Done (f l s))) status s = Some (Done (fold f ls s))"
proof -
  let ?b = "\<lambda>x s. case x of None \<Rightarrow> Throw TypeError s | Some l \<Rightarrow> Done (f l s)"
  have "each ?b (map Some ls) s = Done (fold f ls s)" for s
    by (induction ls arbitrary: s) simp_all
  moreover have "live_loop status_listeners
      (\<lambda>x s. case x of None \<Rightarrow> Some (Throw TypeError s) | Some l \<Rightarrow> Some (Done (f l s))) 0 s =
      Some (each ?b (drop 0 (status_listeners s)) s)"
    by (rule live_loop_each) (auto simp: keep split: option.split)
  ultimately show ?thesis by (simp add: notify_status_def ls)
qed

section \<open>Properties\<close>

text \<open>
  \<open>unregister_status_listener\<close> of \<open>RsXHRConnection.js\<close> does not do what its comment says:
  for a callback registered once, at a position behind the first, the callback stays
  registered and the first listener of the list is removed in its stead. The list with the
  callback at the front (the only use the web interface makes of it) is handled right.
\<close>

theorem unregister_status_listener_removes_first:
  assumes "status_listeners s = map Some (first # others)"
    and "distinct (first # others)"
    and "cb \<in> set (first # others)"
  shows "mset (status_listeners (unregister_status_listener cb s)) = mset (map Some others) \<and>
    (Some cb \<in> set (status_listeners (unregister_status_listener cb s)) \<longleftrightarrow> cb \<noteq> first)"
proof -
  obtain k where k: "k < length (first # others)" "(first # others) ! k = cb"
    using assms(3) by (meson in_set_conv_nth)
  have only: "i = k" if "i < length (status_listeners s)" "status_listeners s ! i = Some cb" for i
    using that k assms(2) nth_eq_iff_index_eq [OF assms(2), of i k]
    by (simp add: assms(1) del: list.map)
  have "mset (status_listeners (unregister_status_listener cb s)) =
        mset (status_listeners s) - {# status_listeners s ! 0 #}"
    by (rule unregister_status_single [OF _ _ only]) (use k in \<open>simp_all add: assms(1) del: list.map\<close>)
  then have m: "mset (status_listeners (unregister_status_listener cb s)) = mset (map Some others)"
    by (simp add: assms(1))
  with mset_eq_setD [OF m] assms(2,3) show ?thesis by auto
qed

theorem unregister_status_listener_removes_first_witness:
  "mset (status_listeners (unregister_status_listener (2::nat)
      ((RsXHRConnection ''h'' ''1'' :: (nat, nat, nat, nat) xhr_conn)\<lparr>status_listeners := [Some 1, Some 2]\<rparr>))) = {# Some 2 #}"
  using unregister_status_listener_removes_first
    [of "(RsXHRConnection ''h'' ''1'' :: (nat, nat, nat, nat) xhr_conn)\<lparr>status_listeners := [Some 1, Some 2]\<rparr>" 1 "[2]" 2]
  by simp

end
