(* ===== verification/Dom.thy ===== *)
theory Dom
  imports Prelude
begin

text \<open>
  The elements a \<open>render\<close> function returns: text, an HTML element, or a component with its
  props. Handlers and component props are the type parameters \<open>'h\<close> and \<open>'c\<close>: each widget names
  its handlers by a datatype. Text of JSX children stands here as the JSX transform leaves it,
  with the line breaks and the indentation removed.
\<close>

datatype 'h attr =
    Str string
  | Num int
  | Flag bool
  | Style "(string \<times> string) list"
  | On 'h

datatype ('c, 'h) vdom =
    Text string
  | El string "(string \<times> 'h attr) list" "('c, 'h) vdom list"
  | Comp 'c

text \<open>The components and the handlers that occur in an element, in document order.\<close>

fun comps :: "('c, 'h) vdom \<Rightarrow> 'c list" where
  "comps (Text t) = []"
| "comps (El tag attrs children) = concat (map comps children)"
| "comps (Comp c) = [c]"

definition attr_handlers :: "(string \<times> 'h attr) list \<Rightarrow> (string \<times> 'h) list" where
  "attr_handlers attrs =
     List.map_filter (\<lambda>(n, a). case a of On h \<Rightarrow> Some (n, h) | _ \<Rightarrow> None) attrs"

fun handlers :: "('c, 'h) vdom \<Rightarrow> (string \<times> 'h) list" where
  "handlers (Text t) = []"
| "handlers (El tag attrs children) = attr_handlers attrs @ concat (map handlers children)"
| "handlers (Comp c) = []"

fun texts :: "('c, 'h) vdom \<Rightarrow> string list" where
  "texts (Text t) = [t]"
| "texts (El tag attrs children) = concat (map texts children)"
| "texts (Comp c) = []"

text \<open>The text of an attribute, and the \<open>src\<close> attributes of an element in document order.\<close>

definition attr_str :: "string \<Rightarrow> (string \<times> 'h attr) list \<Rightarrow> string option" where
  "attr_str n attrs = (case map_of attrs n of Some (Str v) \<Rightarrow> Some v | _ \<Rightarrow> None)"

fun sources :: "('c, 'h) vdom \<Rightarrow> string list" where
  "sources (Text t) = []"
| "sources (El tag attrs children) =
     (case attr_str ''src'' attrs of None \<Rightarrow> [] | Some v \<Rightarrow> [v]) @ concat (map sources children)"
| "sources (Comp c) = []"

text \<open>The \<open>ref\<close> attributes: the form fields a handler can read.\<close>

fun refs :: "('c, 'h) vdom \<Rightarrow> string list" where
  "refs (Text t) = []"
| "refs (El tag attrs children) =
     (case attr_str ''ref'' attrs of None \<Rightarrow> [] | Some v \<Rightarrow> [v]) @ concat (map refs children)"
| "refs (Comp c) = []"

lemma attr_str_simps [simp]:
  "attr_str n [] = None"
  "attr_str n ((m, Str v) # as) = (if m = n then Some v else attr_str n as)"
  "m \<noteq> n \<Longrightarrow> attr_str n ((m, a) # as) = attr_str n as"
  by (simp_all add: attr_str_def)

lemma attr_handlers_simps [simp]:
  "attr_handlers [] = []"
  "attr_handlers ((n, On h) # as) = (n, h) # attr_handlers as"
  "attr_handlers ((n, Str x) # as) = attr_handlers as"
  "attr_handlers ((n, Num i) # as) = attr_handlers as"
  "attr_handlers ((n, Flag b) # as) = attr_handlers as"
  "attr_handlers ((n, Style st) # as) = attr_handlers as"
  by (simp_all add: attr_handlers_def List.map_filter_def)

end
