(* ===== verification/ConnectionStatus.thy ===== *)
theory ConnectionStatus
  imports XhrConnection Dom
begin

text \<open>
  The banner of \<open>webui/gui.jsx\<close> that says whether the server answers
  (\<open>ConnectionStatusWidget\<close>). The widgets are numbered; their state is the extension of the
  connection record, as the connection's status listeners are their
  \<open>onConnectionStatusChanged\<close> methods.
\<close>

record ('d, 'cb, 'ecb) ui_conn = "(nat, 'd, 'cb, 'ecb) xhr_conn" +
  widget_status :: "nat \<Rightarrow> string"

definition csw_getInitialState :: string where
  "csw_getInitialState = ''unknown''"

definition csw_componentWillMount ::
  "nat \<Rightarrow> ('d, 'cb, 'ecb, 'z) ui_conn_scheme \<Rightarrow> ('d, 'cb, 'ecb, 'z) ui_conn_scheme" where
  "csw_componentWillMount w s = register_status_listener w s"

definition csw_componentWillUnmount ::
  "nat \<Rightarrow> ('d, 'cb, 'ecb, 'z) ui_conn_scheme \<Rightarrow> ('d, 'cb, 'ecb, 'z) ui_conn_scheme" where
  "csw_componentWillUnmount w s = unregister_status_listener w s"

definition onConnectionStatusChanged ::
  "nat \<Rightarrow> string \<Rightarrow> ('d, 'cb, 'ecb, 'z) ui_conn_scheme \<Rightarrow> ('d, 'cb, 'ecb, 'z) ui_conn_scheme" where
  "onConnectionStatusChanged w state s = s\<lparr>widget_status := (widget_status s)(w := state)\<rparr>"

definition csw_render :: "string \<Rightarrow> (unit, unit) vdom" where
  "csw_render status =
     (if status = ''unknown'' then El ''div'' [] [Text ''connecting to server...'']
      else if status = ''connected'' then El ''div'' [] []
      else if status = ''not_connected'' then
        El ''div'' [] [Text ''You are not connected to the server anymore. Is the Network connection ok? Is the server up?'']
      else El ''div'' [] [Text ''Error: unexpected status value in ConnectionStatusWidget. Please Report this. this.state.status='',
        Text status])"

text \<open>The status listeners of the web interface are these methods.\<close>

definition call_status ::
  "nat \<Rightarrow> string \<Rightarrow> ('d, 'cb, 'ecb, 'z) ui_conn_scheme \<Rightarrow> ('d, 'cb, 'ecb, 'z) ui_conn_scheme run" where
  "call_status w status s = Some (Done (onConnectionStatusChanged w status s))"

lemma widget_status_fold:
  "widget_status (fold (\<lambda>w. onConnectionStatusChanged w st) ws s) =
   (\<lambda>w. if w \<in> set ws then st else widget_status s w)"
  by (induction ws arbitrary: s) (auto simp: onConnectionStatusChanged_def)

lemma fold_status_frame [simp]:
  "open_xhrs (fold (\<lambda>w. onConnectionStatusChanged w st) ws s) = open_xhrs s"
  "status_listeners (fold (\<lambda>w. onConnectionStatusChanged w st) ws s) = status_listeners s"
  by (induction ws arbitrary: s) (auto simp: onConnectionStatusChanged_def)

lemma notify_widgets:
  assumes "status_listeners s = map Some ws"
  shows "notify_status call_status st s = Some (Done (fold (\<lambda>w. onConnectionStatusChanged w st) ws s))"
proof -
  have call: "call_status = (\<lambda>w st s. Some (Done (onConnectionStatusChanged w st s)))"
    by (simp add: call_status_def fun_eq_iff)
  have "notify_status (\<lambda>w st' s. Some (Done (onConnectionStatusChanged w st s))) st s =
      Some (Done (fold (\<lambda>w. onConnectionStatusChanged w st) ws s))"
    by (rule notify_status_fold) (simp_all add: onConnectionStatusChanged_def assms)
  then show ?thesis by (simp add: call notify_status_def)
qed

section \<open>Properties\<close>

text \<open>
  C9. When a request completes, every registered banner shows the outcome of that request: after
  a reply with status 200 nothing, after any other status the warning; banners that are not
  registered keep their text, no request is lost, and the callback the caller passed for that
  outcome is the one that is called.
\<close>

theorem banner_follows_reply:
  assumes "status_listeners s = map Some ws"
  shows "\<exists>s'. onreadystatechange call_status parse x 4 status text s =
      Some (Done s', if status = 200
        then (case xhr_cb x of None \<Rightarrow> NoCall | Some cb \<Rightarrow> CallCb cb (parse text))
        else (case xhr_err_cb x of None \<Rightarrow> NoCall | Some e \<Rightarrow> CallErr e)) \<and>
    open_xhrs s' = open_xhrs s \<and> status_listeners s' = status_listeners s \<and>
    (\<forall>w. texts (csw_render (widget_status s' w)) =
      (if w \<in> set ws
       then (if status = 200 then []
             else [''You are not connected to the server anymore. Is the Network connection ok? Is the server up?''])
       else texts (csw_render (widget_status s w))))"
  by (simp add: onreadystatechange_def notify_widgets [OF assms] widget_status_fold csw_render_def)

theorem banner_follows_reply_witness:
  "\<exists>s' k. onreadystatechange call_status (\<lambda>t. Some t)
      \<lparr>xhr_method = ''GET'', xhr_url = ''u'', xhr_body = None, xhr_req = \<lparr>path = ''p'', data = None\<rparr>,
        xhr_cb = Some True, xhr_err_cb = None\<rparr> 4 500 ''''
      (\<lparr>server_hostname = ''h'', server_port = ''1'', status_listeners = [Some 3], open_xhrs = [],
        widget_status = (\<lambda>_. ''unknown'')\<rparr> :: (nat, bool, nat) ui_conn) = Some (Done s', k) \<and>
    texts (csw_render (widget_status s' 4)) = [''connecting to server...'']"
  (is "\<exists>s' k. onreadystatechange _ ?parse ?x 4 500 _ ?s = _ \<and> _")
proof -
  have "status_listeners ?s = map Some [3]" by simp
  from banner_follows_reply [OF this, of ?parse ?x 500 "''''"]
  obtain s' k where s': "onreadystatechange call_status ?parse ?x 4 500 '''' ?s = Some (Done s', k)"
    and shown: "\<And>w. texts (csw_render (widget_status s' w)) = (if w \<in> set [3]
       then (if (500::nat) = 200 then []
             else [''You are not connected to the server anymore. Is the Network connection ok? Is the server up?''])
       else texts (csw_render (widget_status ?s w)))"
    by blast
  have "texts (csw_render (widget_status s' 4)) = [''connecting to server...'']"
    by (simp only: shown) (simp add: csw_render_def)
  with s' show ?thesis by blast
qed

end
