(* ===== verification/RsApi.thy ===== *)
theory RsApi
  imports Interfaces
begin

text \<open>
  \<open>webui/RsApi.js\<close>: the client side of the state token system. Components register a listener
  for a token; the object polls the backend's \<open>statetokenservice\<close> with all registered tokens
  and calls the listeners of the tokens that have expired. The connection's \<open>request\<close> is the
  parameter \<open>creq\<close>, calling a listener is the parameter \<open>call\<close>; both may change the extension of
  the record. \<open>timers\<close> holds the delays of the \<open>tick\<close>s handed to \<open>setTimeout\<close> that have not run.

  \<open>running\<close> is no local variable of the constructor (which declares \<open>runnign\<close>): it is an implicit
  global that does not exist until \<open>start\<close> or \<open>stop\<close> has written it.
\<close>

record ('l, 't) token_listener =
  listener :: 'l
  token :: 't

record ('l, 't) rsapi =
  running :: "bool option"
  tokenlisteners :: "('l, 't) token_listener jsarr"
  timers :: "nat list"

datatype ('t, 'u) payload = Tokens "'t list" | Payload 'u

datatype 'k response_cb = ReceivedTokenstates | UserCb 'k

datatype error_cb = ReceivedError

definition TICK_INTERVAL :: nat where
  "TICK_INTERVAL = 3000"

definition RsApi :: "('l, 't) rsapi" where
  "RsApi = \<lparr>running = None, tokenlisteners = [], timers = []\<rparr>"

section \<open>Listeners\<close>

definition register_token_listener ::
  "'l \<Rightarrow> 't \<Rightarrow> ('l, 't, 'z) rsapi_scheme \<Rightarrow> ('l, 't, 'z) rsapi_scheme" where
  "register_token_listener l t s =
     s\<lparr>tokenlisteners := js_push (tokenlisteners s) \<lparr>listener = l, token = t\<rparr>\<rparr>"

text \<open>Reading \<open>tokenlisteners[i].listener\<close> at a hole throws, before anything is changed.\<close>

definition unregister_token_listener ::
  "'l \<Rightarrow> ('l, 't, 'z) rsapi_scheme \<Rightarrow> ('l, 't, 'z) rsapi_scheme outcome" where
  "unregister_token_listener l s =
     (if dense (tokenlisteners s) then
        let to_delete = match_indices (\<lambda>x. map_option listener x = Some l) (tokenlisteners s)
        in Done (s\<lparr>tokenlisteners := swap_out (tokenlisteners s) to_delete\<rparr>)
      else Throw TypeError s)"

section \<open>Requests and polling\<close>

definition api_request ::
  "('d request \<Rightarrow> 'k response_cb option \<Rightarrow> error_cb option \<Rightarrow> 's \<Rightarrow> 's)
   \<Rightarrow> 'd request \<Rightarrow> 'k option \<Rightarrow> 's \<Rightarrow> 's" where
  "api_request creq req cb s = creq req (map_option UserCb cb) None s"

definition start :: "('l, 't, 'z) rsapi_scheme \<Rightarrow> ('l, 't, 'z) rsapi_scheme" where
  "start s = s\<lparr>running := Some True, timers := timers s @ [TICK_INTERVAL]\<rparr>"

definition stop :: "('l, 't, 'z) rsapi_scheme \<Rightarrow> ('l, 't, 'z) rsapi_scheme" where
  "stop s = s\<lparr>running := Some False\<rparr>"

text \<open>\<open>if(running) setTimeout(tick, TICK_INTERVAL)\<close>\<close>

definition reschedule :: "('l, 't, 'z) rsapi_scheme \<Rightarrow> ('l, 't, 'z) rsapi_scheme outcome" where
  "reschedule s =
     (case running s of
        None \<Rightarrow> Throw ReferenceError s
      | Some True \<Rightarrow> Done (s\<lparr>timers := timers s @ [TICK_INTERVAL]\<rparr>)
      | Some False \<Rightarrow> Done s)"

definition notify_token ::
  "('l \<Rightarrow> ('l, 't, 'z) rsapi_scheme \<Rightarrow> ('l, 't, 'z) rsapi_scheme run) \<Rightarrow> 't \<Rightarrow> ('l, 't) token_listener option \<Rightarrow> ('l, 't, 'z) rsapi_scheme \<Rightarrow> ('l, 't, 'z) rsapi_scheme run" where
  "notify_token call t x s =
     (case x of
        None \<Rightarrow> Some (Throw TypeError s)
      | Some e \<Rightarrow> if token e = t then call (listener e) s else Some (Done s))"

fun notify_tokens ::
  "('l \<Rightarrow> ('l, 't, 'z) rsapi_scheme \<Rightarrow> ('l, 't, 'z) rsapi_scheme run) \<Rightarrow> 't list \<Rightarrow> ('l, 't, 'z) rsapi_scheme \<Rightarrow> ('l, 't, 'z) rsapi_scheme run" where
  "notify_tokens call [] s = Some (Done s)"
| "notify_tokens call (t # ts) s =
     run_then (live_loop tokenlisteners (notify_token call t) 0 s) (notify_tokens call ts)"

text \<open>
  The response is \<open>None\<close> when the callback was called with \<open>undefined\<close>, \<open>Some None\<close> when it
  has no data.
\<close>

definition received_tokenstates ::
  "('l \<Rightarrow> ('l, 't, 'z) rsapi_scheme \<Rightarrow> ('l, 't, 'z) rsapi_scheme run) \<Rightarrow> 't list option option \<Rightarrow> ('l, 't, 'z) rsapi_scheme \<Rightarrow> ('l, 't, 'z) rsapi_scheme run" where
  "received_tokenstates call resp s =
     (case resp of
        None \<Rightarrow> Some (Throw TypeError s)
      | Some d \<Rightarrow>
          run_then (case d of None \<Rightarrow> Some (Done s) | Some ts \<Rightarrow> notify_tokens call ts s)
            (\<lambda>s. Some (reschedule s)))"

definition received_error :: "('l, 't, 'z) rsapi_scheme \<Rightarrow> ('l, 't, 'z) rsapi_scheme outcome" where
  "received_error s = reschedule s"

fun tick_data :: "('l, 't) token_listener jsarr \<Rightarrow> 't list option" where
  "tick_data [] = Some []"
| "tick_data (None # xs) = None"
| "tick_data (Some e # xs) = map_option ((#) (token e)) (tick_data xs)"

definition tick ::
  "(('t, 'u) payload request \<Rightarrow> 'k response_cb option \<Rightarrow> error_cb option
     \<Rightarrow> ('l, 't, 'z) rsapi_scheme \<Rightarrow> ('l, 't, 'z) rsapi_scheme)
   \<Rightarrow> ('l, 't, 'z) rsapi_scheme \<Rightarrow> ('l, 't, 'z) rsapi_scheme outcome" where
  "tick creq s =
     (case tick_data (tokenlisteners s) of
        None \<Rightarrow> Throw TypeError s
      | Some ts \<Rightarrow>
          Done (creq \<lparr>path = ''statetokenservice'', data = Some (Tokens ts)\<rparr>
            (Some ReceivedTokenstates) (Some ReceivedError) s))"

section \<open>The listener list is a registry\<close>

lemma unregister_token_listeners:
  "tokenlisteners (outcome_state (unregister_token_listener l s)) =
     (if dense (tokenlisteners s)
      then swap_out (tokenlisteners s)
             (match_indices (\<lambda>x. map_option listener x = Some l) (tokenlisteners s))
      else tokenlisteners s)"
  by (simp add: unregister_token_listener_def Let_def)

interpretation tokens: registry tokenlisteners
    "\<lambda>e. register_token_listener (listener e) (token e)" listener
    "\<lambda>l s. outcome_state (unregister_token_listener l s)"
proof unfold_locales
  fix e and s :: "('l, 't, 'z) rsapi_scheme"
  show "tokenlisteners (register_token_listener (listener e) (token e) s) =
        js_push (tokenlisteners s) e"
    by (cases e) (simp add: register_token_listener_def)
next
  fix v :: "('l, 't) token_listener" and l and s :: "('l, 't, 'z) rsapi_scheme"
  assume "listener v \<noteq> l"
  then show "count_list (tokenlisteners (outcome_state (unregister_token_listener l s))) (Some v) =
        count_list (tokenlisteners s) (Some v)"
    by (simp add: unregister_token_listeners swap_out_matches_keeps_others)
next
  fix l and s :: "('l, 't, 'z) rsapi_scheme"
  assume "dense (tokenlisteners s)"
    and "length (filter (\<lambda>x. map_option listener x = Some l) (tokenlisteners s)) \<le> 1"
  then show "mset (tokenlisteners (outcome_state (unregister_token_listener l s))) =
        mset (filter (\<lambda>x. map_option listener x \<noteq> Some l) (tokenlisteners s))"
    by (simp add: unregister_token_listeners mset_swap_out_filter)
qed

lemma unregister_Done:
  "dense (tokenlisteners s) \<Longrightarrow> \<exists>s'. unregister_token_listener l s = Done s'"
  by (simp add: unregister_token_listener_def Let_def)

section \<open>Lemmas\<close>

lemma tick_data_map_Some [simp]: "tick_data (map Some es) = Some (map token es)"
  by (induction es) simp_all

lemma tick_data_None: "tick_data xs = None \<longleftrightarrow> \<not> dense xs"
  by (induction xs rule: tick_data.induct) (auto simp: dense_def)

lemma tick_data_Some: "tick_data xs = Some ts \<longleftrightarrow> dense xs \<and> ts = map token (elems xs)"
  by (induction xs arbitrary: ts rule: tick_data.induct) (auto simp: dense_def)

lemma reschedule_running:
  "running s = Some True \<Longrightarrow> reschedule s = Done (s\<lparr>timers := timers s @ [TICK_INTERVAL]\<rparr>)"
  by (simp add: reschedule_def)

text \<open>
  Listeners that leave the list alone (those of the web interface only send requests): the
  loops are a fold over the listeners of the expired tokens.
\<close>

definition expired_listeners :: "'t list \<Rightarrow> ('l, 't) token_listener list \<Rightarrow> 'l list" where
  "expired_listeners ts es =
     concat (map (\<lambda>t. map listener (filter (\<lambda>e. token e = t) es)) ts)"

lemma fold_listeners_keep:
  "(\<And>l s. tokenlisteners (f l s) = tokenlisteners s) \<Longrightarrow>
   tokenlisteners (fold f ls s) = tokenlisteners s"
  by (induction ls arbitrary: s) auto

lemma notify_token_loop:
  assumes keep: "\<And>l s. tokenlisteners (f l s) = tokenlisteners s"
    and es: "tokenlisteners s = map Some es"
  shows "live_loop tokenlisteners (notify_token (\<lambda>l s. Some (Done (f l s))) t) 0 s =
    Some (Done (fold f (map listener (filter (\<lambda>e. token e = t) es)) s))"
proof -
  let ?b = "\<lambda>x s. case x of None \<Rightarrow> Throw TypeError s
    | Some e \<Rightarrow> if token e = t then Done (f (listener e) s) else Done s"
  have "each ?b (map Some es) s = Done (fold f (map listener (filter (\<lambda>e. token e = t) es)) s)" for s
    by (induction es arbitrary: s) simp_all
  then show ?thesis
    using live_loop_each [where arr = tokenlisteners and i = 0 and s = s and b = ?b
        and body = "notify_token (\<lambda>l s. Some (Done (f l s))) t"]
    by (simp add: keep es notify_token_def split: option.split)
qed

lemma notify_tokens_fold:
  assumes keep: "\<And>l s. tokenlisteners (f l s) = tokenlisteners s"
    and "tokenlisteners s = map Some es"
  shows "notify_tokens (\<lambda>l s. Some (Done (f l s))) ts s =
    Some (Done (fold f (expired_listeners ts es) s))"
  using assms(2)
proof (induction ts arbitrary: s)
  case Nil
  then show ?case by (simp add: expired_listeners_def)
next
  case (Cons t ts)
  have "tokenlisteners (fold f ls s) = map Some es" for ls
    using fold_listeners_keep [of f ls s] keep Cons.prems by simp
  with Cons show ?case by (simp add: notify_token_loop [OF keep] expired_listeners_def)
qed

lemma received_tokenstates_fold:
  assumes "\<And>l s. tokenlisteners (f l s) = tokenlisteners s"
    and "tokenlisteners s = map Some es"
  shows "received_tokenstates (\<lambda>l s. Some (Done (f l s))) (Some (Some ts)) s =
    Some (reschedule (fold f (expired_listeners ts es) s))"
  using notify_tokens_fold [of f s es ts] assms by (simp add: received_tokenstates_def)

section \<open>Properties\<close>

text \<open>
  C6. \<open>unregister_token_listener\<close> never loses the listener of somebody else, however often the
  given listener is registered; it keeps every other entry with its multiplicity. While every
  listener is registered at most once (the state the web interface keeps) it returns without
  an exception, removes the given listener, and keeps the list free of holes and duplicates.
\<close>

theorem unregister_token_listener_correct:
  "(listener v \<noteq> l \<longrightarrow>
      count_list (tokenlisteners (outcome_state (unregister_token_listener l s))) (Some v) =
      count_list (tokenlisteners s) (Some v)) \<and>
   (tokens.at_most_once s \<longrightarrow>
      (\<exists>s'. unregister_token_listener l s = Done s' \<and> tokens.at_most_once s' \<and>
         set (tokenlisteners s') = {x \<in> set (tokenlisteners s). map_option listener x \<noteq> Some l}))"
proof (intro conjI impI)
  assume "listener v \<noteq> l"
  then show "count_list (tokenlisteners (outcome_state (unregister_token_listener l s))) (Some v) =
      count_list (tokenlisteners s) (Some v)"
    by (rule tokens.unregister_others)
next
  assume once: "tokens.at_most_once s"
  then obtain s' where s': "unregister_token_listener l s = Done s'"
    using unregister_Done [OF tokens.at_most_once_dense [OF once], of l] by blast
  then have os: "outcome_state (unregister_token_listener l s) = s'" by simp
  show "\<exists>s'. unregister_token_listener l s = Done s' \<and> tokens.at_most_once s' \<and>
         set (tokenlisteners s') = {x \<in> set (tokenlisteners s). map_option listener x \<noteq> Some l}"
  proof (intro exI conjI)
    show "unregister_token_listener l s = Done s'" by (rule s')
    show "tokens.at_most_once s'"
      using tokens.unregister_at_most_once [OF once, of l] by (simp only: os)
    show "set (tokenlisteners s') = {x \<in> set (tokenlisteners s). map_option listener x \<noteq> Some l}"
      using tokens.unregister_set [OF once, of l] by (simp only: os)
  qed
qed

theorem unregister_token_listener_correct_witness:
  "unregister_token_listener (7::nat)
     ((RsApi :: (nat, nat) rsapi)\<lparr>tokenlisteners :=
        [Some \<lparr>listener = 7, token = 1\<rparr>, Some \<lparr>listener = 8, token = 1\<rparr>, Some \<lparr>listener = 9, token = 2\<rparr>]\<rparr>) =
   Done (RsApi\<lparr>tokenlisteners :=
        [Some \<lparr>listener = 9, token = 2\<rparr>, Some \<lparr>listener = 8, token = 1\<rparr>]\<rparr>)"
  (is "unregister_token_listener 7 ?s = _")
proof -
  have "tokens.at_most_once ?s" by (simp add: tokens.at_most_once_def dense_def)
  then have "\<exists>s'. unregister_token_listener 7 ?s = Done s'"
    using unregister_token_listener_correct [of "\<lparr>listener = 8, token = 1\<rparr>" 7 ?s] by blast
  then show ?thesis
    by (simp add: unregister_token_listener_def dense_def match_indices_def js_set_def js_last_def
        js_pop_def)
qed

end
