(* ===== verification/AutoUpdate.thy ===== *)
theory AutoUpdate
  imports ConnectionStatus RsApi
begin

text \<open>
  The automatic update of \<open>webui/gui.jsx\<close>: \<open>AutoUpdateMixin\<close> and \<open>start_live_reload\<close>, on top of
  \<open>RsApi\<close> and \<open>RsXHRConnection\<close>. A component instance is a number; \<open>getPath c\<close> is the resource of
  instance \<open>c\<close>. React creates a new instance for every mount, so a number is used once.

  The listener functions are named by a datatype: the bound method \<open>_aum_on_data_changed\<close> of an
  instance, or the closure that \<open>start_live_reload\<close> registers.

  A reply is delivered as the object \<open>JSON.parse\<close> makes of its text (\<open>None\<close>: it throws). A token
  is an \<open>int\<close>; a response without one gives \<open>undefined\<close>, hence \<open>int option\<close>.
\<close>

datatype ui_listener = LiveReload nat | AumDataChanged nat

datatype ui_cb = LiveReloadCb | AumResponse nat

datatype 'd resp_data = TokenList "int option list" | Resource 'd

record 'd response =
  returncode :: string
  statetoken :: "int option"
  resp_data :: "'d resp_data option"

record ('u, 'd) webui = "(ui_listener, int option) rsapi" +
  conn :: "((int option, 'u) payload, ui_cb response_cb, error_cb) ui_conn"
  mounted :: "nat \<Rightarrow> bool"
  next_id :: nat
  cdata :: "nat \<Rightarrow> 'd resp_data option"
  reloads :: nat

section \<open>The connection as \<open>RsApi\<close> uses it\<close>

definition conn_request ::
  "((int option, 'u) payload \<Rightarrow> string) \<Rightarrow> (int option, 'u) payload request
   \<Rightarrow> ui_cb response_cb option \<Rightarrow> error_cb option \<Rightarrow> ('u, 'd) webui \<Rightarrow> ('u, 'd) webui" where
  "conn_request stringify req cb err_cb s =
     s\<lparr>conn := XhrConnection.request stringify req cb err_cb (conn s)\<rparr>"

interpretation ui: reporting_connection "conn_request stringify"
    "\<lambda>s. sent (conn s)" "\<lambda>s. err_cbs (conn s)"
  by unfold_locales (simp_all add: conn_request_def xhr.request_sent xhr.request_err xhr.err_cbs_sent)

section \<open>\<open>AutoUpdateMixin\<close>\<close>

definition aum_on_data_changed ::
  "((int option, 'u) payload \<Rightarrow> string) \<Rightarrow> (nat \<Rightarrow> string) \<Rightarrow> nat \<Rightarrow> ('u, 'd) webui \<Rightarrow> ('u, 'd) webui" where
  "aum_on_data_changed stringify getPath c s =
     api_request (conn_request stringify) \<lparr>path = getPath c, data = None\<rparr> (Some (AumResponse c)) s"

definition aum_componentDidMount ::
  "((int option, 'u) payload \<Rightarrow> string) \<Rightarrow> (nat \<Rightarrow> string) \<Rightarrow> nat \<Rightarrow> ('u, 'd) webui \<Rightarrow> ('u, 'd) webui" where
  "aum_componentDidMount stringify getPath c s = aum_on_data_changed stringify getPath c s"

definition aum_componentWillUnmount :: "nat \<Rightarrow> ('u, 'd) webui \<Rightarrow> ('u, 'd) webui outcome" where
  "aum_componentWillUnmount c s = unregister_token_listener (AumDataChanged c) s"

definition aum_response_callback ::
  "nat \<Rightarrow> 'd response option \<Rightarrow> ('u, 'd) webui \<Rightarrow> ('u, 'd) webui outcome" where
  "aum_response_callback c resp s =
     (if \<not> mounted s c then Done s
      else case resp of
        None \<Rightarrow> Throw TypeError s
      | Some r \<Rightarrow>
          and_then (unregister_token_listener (AumDataChanged c)
                      (s\<lparr>cdata := (cdata s)(c := resp_data r)\<rparr>))
            (\<lambda>s. Done (register_token_listener (AumDataChanged c) (statetoken r) s)))"

section \<open>Live reload\<close>

definition start_live_reload ::
  "((int option, 'u) payload \<Rightarrow> string) \<Rightarrow> ('u, 'd) webui \<Rightarrow> ('u, 'd) webui" where
  "start_live_reload stringify s =
     api_request (conn_request stringify) \<lparr>path = ''livereload'', data = None\<rparr> (Some LiveReloadCb) s"

text \<open>Each call of the callback makes a new closure, numbered like the instances.\<close>

definition live_reload_callback :: "'d response option \<Rightarrow> ('u, 'd) webui \<Rightarrow> ('u, 'd) webui outcome" where
  "live_reload_callback resp s =
     (case resp of
        None \<Rightarrow> Throw TypeError s
      | Some r \<Rightarrow> Done (register_token_listener (LiveReload (next_id s)) (statetoken r)
          (s\<lparr>next_id := Suc (next_id s)\<rparr>)))"

definition call_listener ::
  "((int option, 'u) payload \<Rightarrow> string) \<Rightarrow> (nat \<Rightarrow> string) \<Rightarrow> ui_listener \<Rightarrow> ('u, 'd) webui \<Rightarrow> ('u, 'd) webui" where
  "call_listener stringify getPath l s =
     (case l of
        LiveReload _ \<Rightarrow> s\<lparr>reloads := Suc (reloads s)\<rparr>
      | AumDataChanged c \<Rightarrow> aum_on_data_changed stringify getPath c s)"

section \<open>The events of the page\<close>

text \<open>
  \<open>page_load\<close> is the top level of \<open>gui.jsx\<close> up to \<open>start_live_reload()\<close>. The other events are
  those React, the timer and the network cause: a component is mounted or unmounted, a timer
  runs out, the reply to some open request arrives.
\<close>

definition page_load ::
  "((int option, 'u) payload \<Rightarrow> string) \<Rightarrow> string \<Rightarrow> string \<Rightarrow> ('u, 'd) webui" where
  "page_load stringify hostname port =
     start_live_reload stringify (start (rsapi.extend RsApi
       \<lparr>conn = xhr_conn.extend (RsXHRConnection hostname port)
                 \<lparr>widget_status = (\<lambda>_. csw_getInitialState)\<rparr>,
        mounted = (\<lambda>_. False), next_id = 0, cdata = (\<lambda>_. None), reloads = 0\<rparr>))"

definition mount ::
  "((int option, 'u) payload \<Rightarrow> string) \<Rightarrow> (nat \<Rightarrow> string) \<Rightarrow> ('u, 'd) webui \<Rightarrow> ('u, 'd) webui" where
  "mount stringify getPath s =
     (let c = next_id s
      in aum_componentDidMount stringify getPath c
           (s\<lparr>mounted := (mounted s)(c := True), next_id := Suc c\<rparr>))"

definition unmount :: "nat \<Rightarrow> ('u, 'd) webui \<Rightarrow> ('u, 'd) webui outcome" where
  "unmount c s =
     and_then (aum_componentWillUnmount c s) (\<lambda>s. Done (s\<lparr>mounted := (mounted s)(c := False)\<rparr>))"

definition timer_fires ::
  "((int option, 'u) payload \<Rightarrow> string) \<Rightarrow> ('u, 'd) webui \<Rightarrow> ('u, 'd) webui outcome" where
  "timer_fires stringify s = tick (conn_request stringify) (s\<lparr>timers := tl (timers s)\<rparr>)"

text \<open>\<open>resp.data\<close> as \<open>received_tokenstates\<close> loops over it: an object has no \<open>length\<close>.\<close>

definition token_states :: "'d response \<Rightarrow> int option list option" where
  "token_states r = (case resp_data r of Some (TokenList ts) \<Rightarrow> Some ts | _ \<Rightarrow> None)"

definition call_back ::
  "((int option, 'u) payload \<Rightarrow> string) \<Rightarrow> (nat \<Rightarrow> string)
   \<Rightarrow> (ui_cb response_cb, error_cb, 'd response) call \<Rightarrow> ('u, 'd) webui \<Rightarrow> ('u, 'd) webui run" where
  "call_back stringify getPath k s =
     (case k of
        NoCall \<Rightarrow> Some (Done s)
      | CallErr ReceivedError \<Rightarrow> Some (received_error s)
      | CallCb ReceivedTokenstates r \<Rightarrow>
          received_tokenstates (\<lambda>l s. Some (Done (call_listener stringify getPath l s)))
            (map_option token_states r) s
      | CallCb (UserCb LiveReloadCb) r \<Rightarrow> Some (live_reload_callback r s)
      | CallCb (UserCb (AumResponse c)) r \<Rightarrow> Some (aum_response_callback c r s))"

definition remove_nth :: "nat \<Rightarrow> 'a list \<Rightarrow> 'a list" where
  "remove_nth i xs = take i xs @ drop (Suc i) xs"

definition reply ::
  "((int option, 'u) payload \<Rightarrow> string) \<Rightarrow> (nat \<Rightarrow> string) \<Rightarrow> nat \<Rightarrow> nat \<Rightarrow> 'd response option
   \<Rightarrow> ('u, 'd) webui \<Rightarrow> ('u, 'd) webui run" where
  "reply stringify getPath i status r s =
     (let x = open_xhrs (conn s) ! i;
          s1 = s\<lparr>conn := (conn s)\<lparr>open_xhrs := remove_nth i (open_xhrs (conn s))\<rparr>\<rparr>
      in case onreadystatechange call_status (\<lambda>_. r) x 4 status '''' (conn s1) of
           None \<Rightarrow> None
         | Some (Throw e cn, k) \<Rightarrow> Some (Throw e (s1\<lparr>conn := cn\<rparr>))
         | Some (Done cn, k) \<Rightarrow> call_back stringify getPath k (s1\<lparr>conn := cn\<rparr>))"

text \<open>
  One event. \<open>good\<close> restricts the replies with status 200 (the environment); a thrown exception
  ends the event in the state at the throw.
\<close>

inductive ui_step ::
  "((int option, 'u) payload \<Rightarrow> string) \<Rightarrow> (nat \<Rightarrow> string) \<Rightarrow> ('d response option \<Rightarrow> bool)
   \<Rightarrow> ('u, 'd) webui \<Rightarrow> ('u, 'd) webui \<Rightarrow> bool"
  for stringify getPath good where
  step_mount: "ui_step stringify getPath good s (mount stringify getPath s)"
| step_unmount: "mounted s c \<Longrightarrow> ui_step stringify getPath good s (outcome_state (unmount c s))"
| step_timer: "timers s \<noteq> [] \<Longrightarrow>
    ui_step stringify getPath good s (outcome_state (timer_fires stringify s))"
| step_reply: "i < length (open_xhrs (conn s)) \<Longrightarrow> status = 200 \<longrightarrow> good r \<Longrightarrow>
    reply stringify getPath i status r s = Some out \<Longrightarrow>
    ui_step stringify getPath good s (outcome_state out)"
| step_widget: "w \<notin> set (elems (status_listeners (conn s))) \<Longrightarrow>
    ui_step stringify getPath good s (s\<lparr>conn := csw_componentWillMount w (conn s)\<rparr>)"

inductive ui_reachable ::
  "((int option, 'u) payload \<Rightarrow> string) \<Rightarrow> (nat \<Rightarrow> string) \<Rightarrow> ('d response option \<Rightarrow> bool)
   \<Rightarrow> ('u, 'd) webui \<Rightarrow> bool"
  for stringify getPath good where
  ui_start: "ui_reachable stringify getPath good (page_load stringify hostname port)"
| ui_next: "ui_reachable stringify getPath good s \<Longrightarrow> ui_step stringify getPath good s t \<Longrightarrow>
    ui_reachable stringify getPath good t"

section \<open>What each operation does to the fields\<close>

named_theorems ui_frame \<open>the fields an operation leaves alone or changes\<close>

lemma conn_request_frame [simp, ui_frame]:
  "tokenlisteners (conn_request f r cb e s) = tokenlisteners s"
  "running (conn_request f r cb e s) = running s"
  "timers (conn_request f r cb e s) = timers s"
  "mounted (conn_request f r cb e s) = mounted s"
  "next_id (conn_request f r cb e s) = next_id s"
  "cdata (conn_request f r cb e s) = cdata s"
  "reloads (conn_request f r cb e s) = reloads s"
  "status_listeners (conn (conn_request f r cb e s)) = status_listeners (conn s)"
  by (simp_all add: conn_request_def XhrConnection.request_def Let_def)

lemma aum_on_data_changed_frame [simp, ui_frame]:
  "tokenlisteners (aum_on_data_changed f p c s) = tokenlisteners s"
  "running (aum_on_data_changed f p c s) = running s"
  "timers (aum_on_data_changed f p c s) = timers s"
  "mounted (aum_on_data_changed f p c s) = mounted s"
  "next_id (aum_on_data_changed f p c s) = next_id s"
  "cdata (aum_on_data_changed f p c s) = cdata s"
  "status_listeners (conn (aum_on_data_changed f p c s)) = status_listeners (conn s)"
  by (simp_all add: aum_on_data_changed_def api_request_def)

lemma aum_on_data_changed_sent:
  "sent (conn (aum_on_data_changed f p c s)) =
   sent (conn s) @ [(\<lparr>path = p c, data = None\<rparr>, Some (UserCb (AumResponse c)))]"
  by (simp add: aum_on_data_changed_def api_request_def ui.request_sent)

lemma call_listener_frame [simp, ui_frame]:
  "tokenlisteners (call_listener f p l s) = tokenlisteners s"
  "running (call_listener f p l s) = running s"
  "timers (call_listener f p l s) = timers s"
  "mounted (call_listener f p l s) = mounted s"
  "next_id (call_listener f p l s) = next_id s"
  "cdata (call_listener f p l s) = cdata s"
  "status_listeners (conn (call_listener f p l s)) = status_listeners (conn s)"
  by (simp_all add: call_listener_def split: ui_listener.split)

lemma fold_call_listener_frame [simp, ui_frame]:
  "tokenlisteners (fold (call_listener f p) ls s) = tokenlisteners s"
  "running (fold (call_listener f p) ls s) = running s"
  "timers (fold (call_listener f p) ls s) = timers s"
  "mounted (fold (call_listener f p) ls s) = mounted s"
  "next_id (fold (call_listener f p) ls s) = next_id s"
  "cdata (fold (call_listener f p) ls s) = cdata s"
  "status_listeners (conn (fold (call_listener f p) ls s)) = status_listeners (conn s)"
  by (induction ls arbitrary: s) simp_all

lemma fold_call_listener_sent:
  "sent (conn (fold (call_listener f p) ls s)) = sent (conn s) @
   map (\<lambda>c. (\<lparr>path = p c, data = None\<rparr>, Some (UserCb (AumResponse c))))
     (List.map_filter (\<lambda>l. case l of AumDataChanged c \<Rightarrow> Some c | _ \<Rightarrow> None) ls)"
proof (induction ls arbitrary: s)
  case (Cons l ls)
  then show ?case
    by (cases l) (simp_all add: call_listener_def aum_on_data_changed_sent List.map_filter_def)
qed (simp add: List.map_filter_def)

lemma received_states:
  assumes "dense (tokenlisteners s)"
  shows "received_tokenstates (\<lambda>l s. Some (Done (call_listener f p l s))) (Some d) s =
    Some (reschedule (fold (call_listener f p)
      (case d of None \<Rightarrow> [] | Some ts \<Rightarrow> expired_listeners ts (elems (tokenlisteners s))) s))"
proof (cases d)
  case None
  then show ?thesis by (simp add: received_tokenstates_def)
next
  case (Some ts)
  obtain es where es: "tokenlisteners s = map Some es" using assms dense_iff_map by blast
  then show ?thesis
    using received_tokenstates_fold [where f = "call_listener f p" and s = s, OF _ es]
    by (simp add: Some)
qed

text \<open>A reply changes the banners and the open requests, then the callback runs.\<close>

lemma reply_call_back:
  assumes "dense (status_listeners (conn s))" and x_def: "x = open_xhrs (conn s) ! i"
  obtains s2 where
    "reply f p i status r s = call_back f p
       (if status = 200 then (case xhr_cb x of None \<Rightarrow> NoCall | Some cb \<Rightarrow> CallCb cb r)
        else (case xhr_err_cb x of None \<Rightarrow> NoCall | Some e \<Rightarrow> CallErr e)) s2"
    "tokenlisteners s2 = tokenlisteners s" "running s2 = running s" "timers s2 = timers s"
    "mounted s2 = mounted s" "next_id s2 = next_id s" "cdata s2 = cdata s"
    "status_listeners (conn s2) = status_listeners (conn s)"
    "open_xhrs (conn s2) = remove_nth i (open_xhrs (conn s))"
proof -
  obtain ws where ws: "status_listeners (conn s) = map Some ws"
    using assms(1) dense_iff_map by blast
  let ?s1 = "s\<lparr>conn := (conn s)\<lparr>open_xhrs := remove_nth i (open_xhrs (conn s))\<rparr>\<rparr>"
  have "status_listeners (conn ?s1) = map Some ws" by (simp add: ws)
  from notify_widgets [OF this]
  have n: "notify_status call_status st (conn ?s1) =
      Some (Done (fold (\<lambda>w. onConnectionStatusChanged w st) ws (conn ?s1)))" for st .
  let ?st = "if status = 200 then ''connected'' else ''not_connected''"
  show thesis
    by (rule that [of "?s1\<lparr>conn := fold (\<lambda>w. onConnectionStatusChanged w ?st) ws (conn ?s1)\<rparr>"])
      (use n in \<open>simp_all add: reply_def onreadystatechange_def x_def Let_def\<close>)
qed

section \<open>Invariants\<close>

text \<open>
  \<open>owned\<close>: every registered listener belongs to a mounted instance (or is a live reload
  closure), and no listener is registered twice.
\<close>

definition owner_ok :: "('u, 'd) webui \<Rightarrow> ui_listener \<Rightarrow> bool" where
  "owner_ok s l \<longleftrightarrow> (case l of LiveReload k \<Rightarrow> k < next_id s | AumDataChanged c \<Rightarrow> mounted s c)"

definition owned :: "('u, 'd) webui \<Rightarrow> bool" where
  "owned s \<longleftrightarrow> tokens.at_most_once s \<and> dense (status_listeners (conn s)) \<and>
     (\<forall>e. Some e \<in> set (tokenlisteners s) \<longrightarrow> owner_ok s (listener e)) \<and>
     (\<forall>c. mounted s c \<longrightarrow> c < next_id s)"

lemma owned_cong:
  assumes "tokenlisteners t = tokenlisteners s" "mounted t = mounted s" "next_id t = next_id s"
    "status_listeners (conn t) = status_listeners (conn s)"
  shows "owned t \<longleftrightarrow> owned s"
proof -
  have "owner_ok t = owner_ok s"
    using assms by (auto simp: owner_ok_def fun_eq_iff split: ui_listener.split)
  with assms show ?thesis by (simp add: owned_def tokens.at_most_once_def)
qed

lemma owned_dense: "owned s \<Longrightarrow> dense (tokenlisteners s) \<and> dense (status_listeners (conn s))"
  by (simp add: owned_def tokens.at_most_once_def)

lemma ownedI:
  assumes "tokens.at_most_once t" "dense (status_listeners (conn t))"
    and "\<And>e. Some e \<in> set (tokenlisteners t) \<Longrightarrow> owner_ok t (listener e)"
    and "\<And>c. mounted t c \<Longrightarrow> c < next_id t"
  shows "owned t"
  using assms by (simp add: owned_def)

lemma ownedD:
  assumes "owned s"
  shows "tokens.at_most_once s" "dense (status_listeners (conn s))"
    and "Some e \<in> set (tokenlisteners s) \<Longrightarrow> owner_ok s (listener e)"
    and "mounted s c \<Longrightarrow> c < next_id s"
  using assms by (simp_all add: owned_def)

lemma owned_page_load: "owned (page_load f h p)"
  by (simp add: page_load_def start_live_reload_def api_request_def owned_def start_def
      tokens.at_most_once_def RsApi_def RsXHRConnection_def rsapi.extend_def xhr_conn.extend_def)

lemma owned_mount: "owned s \<Longrightarrow> owned (mount f p s)"
  by (auto simp: owned_def mount_def aum_componentDidMount_def owner_ok_def tokens.at_most_once_def
      Let_def less_Suc_eq split: ui_listener.splits)

text \<open>Unregistering and registering through the registry interface.\<close>

lemma unregister_outcome:
  assumes "tokens.at_most_once s"
  shows "\<exists>xs. unregister_token_listener l s = Done (s\<lparr>tokenlisteners := xs\<rparr>) \<and>
    tokens.at_most_once (s\<lparr>tokenlisteners := xs\<rparr>) \<and>
    (\<forall>e. Some e \<in> set xs \<longleftrightarrow> Some e \<in> set (tokenlisteners s) \<and> listener e \<noteq> l)"
proof -
  have "dense (tokenlisteners s)" by (rule tokens.at_most_once_dense [OF assms])
  then obtain xs where run: "unregister_token_listener l s = Done (s\<lparr>tokenlisteners := xs\<rparr>)"
    by (simp add: unregister_token_listener_def Let_def)
  have "tokens.at_most_once (s\<lparr>tokenlisteners := xs\<rparr>)"
    using tokens.unregister_at_most_once [OF assms, of l] by (simp add: run)
  moreover have "set xs = {x \<in> set (tokenlisteners s). map_option listener x \<noteq> Some l}"
    using tokens.unregister_set [OF assms, of l] by (simp add: run)
  ultimately show ?thesis using run by (intro exI [of _ xs]) auto
qed

lemma owned_unmount:
  assumes "owned s"
  shows "owned (outcome_state (unmount c s))"
proof -
  obtain xs where xs: "unregister_token_listener (AumDataChanged c) s = Done (s\<lparr>tokenlisteners := xs\<rparr>)"
    "tokens.at_most_once (s\<lparr>tokenlisteners := xs\<rparr>)"
    "\<forall>e. Some e \<in> set xs \<longleftrightarrow> Some e \<in> set (tokenlisteners s) \<and> listener e \<noteq> AumDataChanged c"
    using unregister_outcome [OF ownedD(1) [OF assms], of "AumDataChanged c"] by blast
  let ?t = "s\<lparr>tokenlisteners := xs, mounted := (mounted s)(c := False)\<rparr>"
  have t: "outcome_state (unmount c s) = ?t"
    by (simp add: unmount_def aum_componentWillUnmount_def xs(1))
  show ?thesis unfolding t
  proof (rule ownedI)
    show "tokens.at_most_once ?t" using xs(2) by (simp add: tokens.at_most_once_def)
    show "dense (status_listeners (conn ?t))" using ownedD(2) [OF assms] by simp
    show "d < next_id ?t" if "mounted ?t d" for d
      using that ownedD(4) [OF assms] by (simp split: if_splits)
    show "owner_ok ?t (listener e)" if "Some e \<in> set (tokenlisteners ?t)" for e
    proof -
      have "Some e \<in> set (tokenlisteners s)" "listener e \<noteq> AumDataChanged c"
        using that xs(3) by simp_all
      with ownedD(3) [OF assms] show ?thesis
        by (cases "listener e") (auto simp: owner_ok_def dest: ownedD(3) [OF assms])
    qed
  qed
qed

lemma owned_timer: "owned s \<Longrightarrow> owned (outcome_state (timer_fires f s))"
  by (auto simp: timer_fires_def tick_def owned_def owner_ok_def tokens.at_most_once_def
      split: option.splits ui_listener.splits)

lemma owned_reschedule: "owned s \<Longrightarrow> owned (outcome_state (reschedule s))"
  by (auto simp: reschedule_def owned_def owner_ok_def tokens.at_most_once_def
      split: option.splits bool.splits ui_listener.splits)

lemma owned_aum_response:
  assumes "owned s"
  shows "owned (outcome_state (aum_response_callback c r s))"
proof (cases "mounted s c \<and> r \<noteq> None")
  case False
  with assms show ?thesis by (cases r) (auto simp: aum_response_callback_def)
next
  case True
  then obtain a where r: "r = Some a" and c: "mounted s c" by blast
  let ?s1 = "s\<lparr>cdata := (cdata s)(c := resp_data a)\<rparr>"
  have once: "tokens.at_most_once ?s1"
    using assms by (simp add: owned_def tokens.at_most_once_def)
  obtain xs where xs: "unregister_token_listener (AumDataChanged c) ?s1 = Done (?s1\<lparr>tokenlisteners := xs\<rparr>)"
    "\<forall>e. Some e \<in> set xs \<longleftrightarrow> Some e \<in> set (tokenlisteners ?s1) \<and> listener e \<noteq> AumDataChanged c"
    using unregister_outcome [OF once, of "AumDataChanged c"] by blast
  let ?t = "register_token_listener (AumDataChanged c) (statetoken a) (?s1\<lparr>tokenlisteners := xs\<rparr>)"
  have "tokens.at_most_once ?t"
    using tokens.replace_at_most_once [OF once,
        of "\<lparr>listener = AumDataChanged c, token = statetoken a\<rparr>"] by (simp add: xs(1))
  moreover have "aum_response_callback c r s = Done ?t"
    by (simp add: aum_response_callback_def r c xs(1))
  moreover have "owned ?t"
  proof (rule ownedI)
    show "tokens.at_most_once ?t" by fact
    show "dense (status_listeners (conn ?t))"
      using ownedD(2) [OF assms] by (simp add: register_token_listener_def)
    show "d < next_id ?t" if "mounted ?t d" for d
      using that ownedD(4) [OF assms] by (simp add: register_token_listener_def)
    show "owner_ok ?t (listener e)" if "Some e \<in> set (tokenlisteners ?t)" for e
    proof (cases "listener e = AumDataChanged c")
      case True
      with c show ?thesis by (simp add: owner_ok_def register_token_listener_def)
    next
      case False
      have "Some e \<in> set xs \<or> e = \<lparr>listener = AumDataChanged c, token = statetoken a\<rparr>"
        using that by (auto simp: register_token_listener_def js_push_def)
      with False have "Some e \<in> set xs" by auto
      with xs(2) have "Some e \<in> set (tokenlisteners ?s1)" by blast
      then have "Some e \<in> set (tokenlisteners s)" by simp
      from ownedD(3) [OF assms this] show ?thesis
        by (cases "listener e") (simp_all add: owner_ok_def register_token_listener_def)
    qed
  qed
  ultimately show ?thesis by simp
qed

lemma owned_live_reload:
  assumes "owned s"
  shows "owned (outcome_state (live_reload_callback r s))"
proof (cases r)
  case None
  with assms show ?thesis by (simp add: live_reload_callback_def)
next
  case (Some a)
  let ?e = "\<lparr>listener = LiveReload (next_id s), token = statetoken a\<rparr>"
  let ?s1 = "s\<lparr>next_id := Suc (next_id s)\<rparr>"
  let ?t = "register_token_listener (listener ?e) (token ?e) ?s1"
  have fresh: "listener v \<noteq> LiveReload (next_id s)" if "Some v \<in> set (tokenlisteners s)" for v
    using ownedD(3) [OF assms that] by (auto simp: owner_ok_def)
  have "tokens.at_most_once ?s1"
    using ownedD(1) [OF assms] by (simp add: tokens.at_most_once_def)
  then have "tokens.at_most_once ?t"
    by (rule tokens.register_at_most_once) (use fresh in simp)
  moreover have "owner_ok ?t (listener e)" if "Some e \<in> set (tokenlisteners ?t)" for e
  proof -
    have "Some e \<in> set (tokenlisteners s) \<or> e = ?e"
      using that by (auto simp: register_token_listener_def js_push_def)
    then show ?thesis
      using ownedD(3) [OF assms, of e]
      by (cases "listener e") (auto simp: owner_ok_def register_token_listener_def)
  qed
  moreover have "d < next_id ?t" if "mounted ?t d" for d
    using that ownedD(4) [OF assms, of d] by (simp add: register_token_listener_def)
  moreover have "dense (status_listeners (conn ?t))"
    using ownedD(2) [OF assms] by (simp add: register_token_listener_def)
  ultimately have "owned ?t" by (intro ownedI)
  then show ?thesis by (simp add: live_reload_callback_def Some)
qed

lemma owned_call_back:
  assumes "owned s" and "call_back f p k s = Some out"
  shows "owned (outcome_state out)"
proof (cases k)
  case NoCall
  with assms show ?thesis by (auto simp: call_back_def)
next
  case (CallErr e)
  with assms show ?thesis
    by (cases e) (auto simp: call_back_def received_error_def intro: owned_reschedule)
next
  case (CallCb cb r)
  show ?thesis
  proof (cases cb)
    case ReceivedTokenstates
    show ?thesis
    proof (cases r)
      case None
      with assms CallCb ReceivedTokenstates show ?thesis
        by (auto simp: call_back_def received_tokenstates_def)
    next
      case (Some a)
      have "owned (fold (call_listener f p) ls s)" for ls
        using assms(1) owned_cong [of "fold (call_listener f p) ls s" s] by simp
      then show ?thesis
        using assms CallCb ReceivedTokenstates Some owned_dense [OF assms(1)]
        by (auto simp: call_back_def received_states intro: owned_reschedule)
    qed
  next
    case (UserCb u)
    with assms CallCb show ?thesis
      by (cases u) (auto simp: call_back_def intro: owned_live_reload owned_aum_response)
  qed
qed

lemma owned_reply:
  assumes "owned s" and "reply f p i status r s = Some out"
  shows "owned (outcome_state out)"
proof -
  obtain s2 k where "reply f p i status r s = call_back f p k s2"
    "tokenlisteners s2 = tokenlisteners s" "mounted s2 = mounted s" "next_id s2 = next_id s"
    "status_listeners (conn s2) = status_listeners (conn s)"
    using reply_call_back [OF ownedD(2) [OF assms(1)] refl] by metis
  moreover from this have "owned s2" using owned_cong [of s2 s] assms(1) by simp
  ultimately show ?thesis using owned_call_back assms(2) by metis
qed

lemma owned_step: "ui_step f p good s t \<Longrightarrow> owned s \<Longrightarrow> owned t"
proof (induction rule: ui_step.induct)
  case (step_widget w s)
  then show ?case
    by (auto simp: owned_def owner_ok_def csw_componentWillMount_def register_status_listener_def
        tokens.at_most_once_def split: ui_listener.splits)
qed (auto intro: owned_mount owned_unmount owned_timer owned_reply)

lemma owned_reachable: "ui_reachable f p good s \<Longrightarrow> owned s"
  by (induction rule: ui_reachable.induct) (auto intro: owned_page_load owned_step)

section \<open>The polling chain\<close>

text \<open>
  A poll is a \<open>tick\<close> waiting for its timer or an open request of a \<open>tick\<close>.
\<close>

definition is_poll :: "((int option, 'u) payload, ui_cb response_cb, error_cb) xhr \<Rightarrow> bool" where
  "is_poll x \<longleftrightarrow> xhr_cb x = Some ReceivedTokenstates"

definition polls :: "('u, 'd) webui \<Rightarrow> nat" where
  "polls s = length (timers s) + length (filter is_poll (open_xhrs (conn s)))"

definition poll_ok :: "('u, 'd) webui \<Rightarrow> bool" where
  "poll_ok s \<longleftrightarrow> running s = Some True \<and>
     (\<forall>x \<in> set (open_xhrs (conn s)). (xhr_err_cb x \<noteq> None) = is_poll x)"

lemma polls_request:
  "polls (conn_request f r cb e s) = polls s + (if cb = Some ReceivedTokenstates then 1 else 0)"
  by (simp add: polls_def conn_request_def XhrConnection.request_def is_poll_def Let_def)

lemma poll_ok_request:
  "poll_ok (conn_request f r cb e s) \<longleftrightarrow>
   poll_ok s \<and> (e \<noteq> None) = (cb = Some ReceivedTokenstates)"
  by (auto simp: poll_ok_def conn_request_def XhrConnection.request_def is_poll_def Let_def)

lemma polls_data_changed [simp]:
  "polls (aum_on_data_changed f p c s) = polls s"
  "poll_ok (aum_on_data_changed f p c s) \<longleftrightarrow> poll_ok s"
  by (simp_all add: aum_on_data_changed_def api_request_def polls_request poll_ok_request)

lemma polls_cong:
  assumes "timers t = timers s" "open_xhrs (conn t) = open_xhrs (conn s)" "running t = running s"
  shows "polls t = polls s" "poll_ok t \<longleftrightarrow> poll_ok s"
  using assms by (simp_all add: polls_def poll_ok_def)

lemma polls_reloads [simp]:
  "polls (s\<lparr>reloads := n\<rparr>) = polls s" "poll_ok (s\<lparr>reloads := n\<rparr>) \<longleftrightarrow> poll_ok s"
  by (simp_all add: polls_def poll_ok_def)

lemma polls_live_reload [simp]:
  "polls (outcome_state (live_reload_callback r s)) = polls s"
  "poll_ok (outcome_state (live_reload_callback r s)) \<longleftrightarrow> poll_ok s"
  by (simp_all add: live_reload_callback_def register_token_listener_def polls_def poll_ok_def
      split: option.split)

lemma polls_call_listener [simp]:
  "polls (call_listener f p l s) = polls s" "poll_ok (call_listener f p l s) \<longleftrightarrow> poll_ok s"
  by (simp_all add: call_listener_def split: ui_listener.split)

lemma polls_call_listeners [simp]:
  "polls (fold (call_listener f p) ls s) = polls s"
  "poll_ok (fold (call_listener f p) ls s) \<longleftrightarrow> poll_ok s"
  by (induction ls arbitrary: s) simp_all

lemma polls_reschedule:
  "poll_ok s \<Longrightarrow> \<exists>t. reschedule s = Done t \<and> polls t = Suc (polls s) \<and> poll_ok t"
  by (simp add: poll_ok_def reschedule_running polls_def)

lemma poll_ok_page_load: "poll_ok (page_load f h p) \<and> polls (page_load f h p) = 1"
  by (simp add: page_load_def start_live_reload_def api_request_def polls_request poll_ok_request)
    (simp add: polls_def poll_ok_def start_def RsApi_def RsXHRConnection_def rsapi.extend_def
      xhr_conn.extend_def)

lemma polls_mount: "polls (mount f p s) = polls s \<and> poll_ok (mount f p s) = poll_ok s"
  by (simp add: mount_def aum_componentDidMount_def Let_def) (simp add: polls_def poll_ok_def)

lemma unregister_polls:
  "polls (outcome_state (unregister_token_listener l s)) = polls s \<and>
   poll_ok (outcome_state (unregister_token_listener l s)) = poll_ok s"
  by (simp add: unregister_token_listener_def polls_def poll_ok_def Let_def)

lemma polls_unmount:
  "polls (outcome_state (unmount c s)) = polls s \<and> poll_ok (outcome_state (unmount c s)) = poll_ok s"
  using unregister_polls [of "AumDataChanged c" s]
  by (cases "unregister_token_listener (AumDataChanged c) s")
    (auto simp: unmount_def aum_componentWillUnmount_def polls_def poll_ok_def)

lemma polls_timer:
  assumes "poll_ok s" "dense (tokenlisteners s)" "timers s \<noteq> []"
  shows "polls (outcome_state (timer_fires f s)) = polls s \<and> poll_ok (outcome_state (timer_fires f s))"
proof -
  obtain es where "tokenlisteners s = map Some es" using assms(2) dense_iff_map by blast
  moreover have "poll_ok (s\<lparr>timers := tl (timers s)\<rparr>)" using assms(1) by (simp add: poll_ok_def)
  ultimately show ?thesis
    using assms(3) by (simp add: timer_fires_def tick_def polls_request poll_ok_request)
      (simp add: polls_def)
qed

lemma polls_aum_response:
  "polls (outcome_state (aum_response_callback c r s)) = polls s \<and>
   poll_ok (outcome_state (aum_response_callback c r s)) = poll_ok s"
proof (cases "mounted s c \<and> r \<noteq> None")
  case True
  then obtain a where r: "r = Some a" by blast
  let ?s = "s\<lparr>cdata := (cdata s)(c := resp_data a)\<rparr>"
  have "polls ?s = polls s" "poll_ok ?s = poll_ok s" by (simp_all add: polls_def poll_ok_def)
  then show ?thesis
    using True unregister_polls [of "AumDataChanged c" ?s]
    by (cases "unregister_token_listener (AumDataChanged c) ?s")
      (auto simp: aum_response_callback_def r register_token_listener_def polls_def poll_ok_def)
qed (auto simp: aum_response_callback_def)

lemma filter_remove_nth:
  "i < length xs \<Longrightarrow>
   length (filter P xs) = length (filter P (remove_nth i xs)) + (if P (xs ! i) then 1 else 0)"
  by (subst id_take_nth_drop [of i xs]) (auto simp: remove_nth_def)

lemma set_remove_nth: "set (remove_nth i xs) \<subseteq> set xs"
  using set_take_subset [of i xs] set_drop_subset [of "Suc i" xs] by (auto simp: remove_nth_def)

text \<open>
  Every event keeps the number of polls, but for the reply to a poll that is no JSON: the
  callback throws before it schedules the next \<open>tick\<close>.
\<close>

lemma polls_reply:
  assumes "poll_ok s" "owned s" "i < length (open_xhrs (conn s))"
    and "reply f p i status r s = Some out"
  shows "poll_ok (outcome_state out) \<and> polls (outcome_state out) =
    (if is_poll (open_xhrs (conn s) ! i) \<and> status = 200 \<and> r = None then polls s - 1 else polls s)"
proof -
  let ?x = "open_xhrs (conn s) ! i"
  let ?k = "if status = 200 then (case xhr_cb ?x of None \<Rightarrow> NoCall | Some cb \<Rightarrow> CallCb cb r)
        else (case xhr_err_cb ?x of None \<Rightarrow> NoCall | Some e \<Rightarrow> CallErr e)"
  obtain s2 where s2: "reply f p i status r s = call_back f p ?k s2"
    "tokenlisteners s2 = tokenlisteners s" "running s2 = running s" "timers s2 = timers s"
    "open_xhrs (conn s2) = remove_nth i (open_xhrs (conn s))"
    using reply_call_back [OF ownedD(2) [OF assms(2)] refl] by metis
  have ok2: "poll_ok s2"
    using assms(1) s2(3,5) set_remove_nth [of i "open_xhrs (conn s)"] by (auto simp: poll_ok_def)
  have polls2: "polls s = polls s2 + (if is_poll ?x then 1 else 0)"
    using filter_remove_nth [OF assms(3), of is_poll] by (simp add: polls_def s2(4,5))
  have pair: "(xhr_err_cb ?x \<noteq> None) = is_poll ?x"
    using assms(1,3) by (auto simp: poll_ok_def)
  have dense: "dense (tokenlisteners s2)" using owned_dense [OF assms(2)] s2(2) by simp
  show ?thesis
  proof (cases "status = 200")
    case False
    show ?thesis
    proof (cases "is_poll ?x")
      case True
      with pair obtain e where "xhr_err_cb ?x = Some e" by auto
      then have "reply f p i status r s = Some (reschedule s2)"
        using False s2(1) by (cases e) (simp add: call_back_def received_error_def)
      with assms(4) have "out = reschedule s2" by simp
      moreover obtain t where "reschedule s2 = Done t" "polls t = Suc (polls s2)" "poll_ok t"
        using polls_reschedule [OF ok2] by blast
      ultimately show ?thesis using True False polls2 by simp
    next
      case no: False
      with pair have "xhr_err_cb ?x = None" by auto
      with assms(4) False no polls2 s2(1) ok2 show ?thesis by (auto simp: call_back_def)
    qed
  next
    case True
    show ?thesis
    proof (cases "is_poll ?x")
      case poll: True
      show ?thesis
      proof (cases r)
        case None
        with poll True assms(4) s2(1) polls2 ok2 show ?thesis
          by (auto simp: is_poll_def call_back_def received_tokenstates_def)
      next
        case (Some a)
        have "poll_ok (fold (call_listener f p) ls s2)" for ls using ok2 by simp
        with polls_reschedule obtain t where "reschedule (fold (call_listener f p)
            (case token_states a of None \<Rightarrow> [] | Some ts \<Rightarrow>
              expired_listeners ts (elems (tokenlisteners s2))) s2) = Done t"
            "polls t = Suc (polls s2)" "poll_ok t"
          by (metis polls_call_listeners(1))
        with poll True Some assms(4) s2(1) polls2 show ?thesis
          by (auto simp: is_poll_def call_back_def received_states [OF dense])
      qed
    next
      case no: False
      have "call_back f p ?k s2 = Some out" using assms(4) s2(1) by simp
      then have "polls (outcome_state out) = polls s2 \<and> poll_ok (outcome_state out)"
        using True no ok2 polls_aum_response
        by (auto simp: call_back_def is_poll_def
            split: option.splits response_cb.splits ui_cb.splits)
      with no polls2 show ?thesis by simp
    qed
  qed
qed

lemma polls_step:
  assumes "ui_step f p good s t" "poll_ok s" "owned s"
  shows "poll_ok t \<and> polls t \<le> polls s \<and> (\<not> good None \<longrightarrow> polls t = polls s)"
  using assms
proof (induction rule: ui_step.induct)
  case (step_mount s)
  then show ?case by (simp add: polls_mount)
next
  case (step_unmount s c)
  then show ?case by (simp add: polls_unmount)
next
  case (step_timer s)
  then show ?case using polls_timer owned_dense by force
next
  case (step_reply i s status r out)
  then show ?case using polls_reply [OF step_reply.prems step_reply.hyps(1,3)] by auto
next
  case (step_widget w s)
  have "open_xhrs (csw_componentWillMount w (conn s)) = open_xhrs (conn s)"
    by (simp add: csw_componentWillMount_def register_status_listener_def)
  with step_widget show ?case by (auto simp: polls_def poll_ok_def)
qed

lemma polls_reachable:
  "ui_reachable f p good s \<Longrightarrow> poll_ok s \<and> polls s \<le> 1 \<and> (\<not> good None \<longrightarrow> polls s = 1)"
proof (induction rule: ui_reachable.induct)
  case (ui_start hostname port)
  then show ?case by (simp add: poll_ok_page_load)
next
  case (ui_next s t)
  then show ?case using polls_step owned_reachable by fastforce
qed

lemma polls_dead:
  assumes "(ui_step f p good)\<^sup>*\<^sup>* s t" "poll_ok s" "owned s" "polls s = 0"
  shows "polls t = 0"
proof -
  have "poll_ok t \<and> owned t \<and> polls t = 0"
    using assms
  proof (induction rule: rtranclp_induct)
    case (step t u)
    then show ?case using polls_step owned_step by fastforce
  qed simp
  then show ?thesis by simp
qed

section \<open>Properties\<close>

text \<open>
  C5. No listener outlives its component. In every state the page can reach, whatever the
  server replies and in whatever order, every listener in \<open>RsApi\<close>'s list that belongs to a
  component belongs to a mounted one, a component has at most one listener, and the next
  \<open>tick\<close> does not throw: it asks for the tokens of exactly the registered listeners.
\<close>

theorem listeners_belong_to_mounted:
  assumes "ui_reachable f p good s"
  shows "(\<forall>e. Some e \<in> set (tokenlisteners s) \<longrightarrow>
            (\<forall>c. listener e = AumDataChanged c \<longrightarrow> mounted s c)) \<and>
    distinct (map listener (elems (tokenlisteners s))) \<and>
    tick (conn_request f) s = Done (conn_request f
      \<lparr>path = ''statetokenservice'', data = Some (Tokens (map token (elems (tokenlisteners s))))\<rparr>
      (Some ReceivedTokenstates) (Some ReceivedError) s)"
proof -
  have owned: "owned s" by (rule owned_reachable [OF assms])
  then obtain es where es: "tokenlisteners s = map Some es"
    using owned_dense dense_iff_map by blast
  have "distinct (map (map_option listener) (map Some es))"
    using ownedD(1) [OF owned] by (simp add: tokens.at_most_once_def es del: map_map)
  then have "distinct (map listener es)" by (simp add: distinct_map o_def inj_on_def)
  moreover have "mounted s c" if "Some e \<in> set (tokenlisteners s)" "listener e = AumDataChanged c" for e c
    using ownedD(3) [OF owned that(1)] that(2) by (simp add: owner_ok_def)
  ultimately show ?thesis by (simp add: tick_def es)
qed

theorem listeners_belong_to_mounted_witness:
  "distinct (map listener (elems (tokenlisteners
     (mount (\<lambda>_. ''d'') (\<lambda>_. ''peers'') (page_load (\<lambda>_. ''d'') ''h'' ''1'' :: (nat, nat) webui)))))"
proof -
  have "ui_reachable (\<lambda>_. ''d'') (\<lambda>_. ''peers'') (\<lambda>_. True)
      (mount (\<lambda>_. ''d'') (\<lambda>_. ''peers'') (page_load (\<lambda>_. ''d'') ''h'' ''1'' :: (nat, nat) webui))"
    by (rule ui_next [OF ui_start step_mount])
  from listeners_belong_to_mounted [OF this] show ?thesis by simp
qed

text \<open>
  C4. The polling never stops and never doubles: as long as every reply with status 200 is
  JSON, in every reachable state exactly one poll is waiting for its timer or for its reply,
  whatever errors and exceptions happened before.
\<close>

theorem exactly_one_poll:
  assumes "ui_reachable f p good s" and "\<not> good None"
  shows "length (timers s) +
    length (filter (\<lambda>x. xhr_cb x = Some ReceivedTokenstates) (open_xhrs (conn s))) = 1"
  using polls_reachable [OF assms(1)] assms(2) by (simp add: polls_def is_poll_def [abs_def])

theorem exactly_one_poll_witness:
  "length (timers (mount (\<lambda>_. ''d'') (\<lambda>_. ''peers'') (page_load (\<lambda>_. ''d'') ''h'' ''1'' :: (nat, nat) webui))) +
    length (filter (\<lambda>x. xhr_cb x = Some ReceivedTokenstates) (open_xhrs (conn
      (mount (\<lambda>_. ''d'') (\<lambda>_. ''peers'') (page_load (\<lambda>_. ''d'') ''h'' ''1'' :: (nat, nat) webui))))) = 1"
  by (rule exactly_one_poll [where good = "\<lambda>r. r \<noteq> None"], rule ui_next [OF ui_start step_mount]) simp

text \<open>
  One reply to a poll with status 200 whose text is no JSON ends the automatic update for
  good: \<open>RsXHRConnection\<close> swallows the exception of \<open>JSON.parse\<close> and calls the callback with \<open>undefined\<close>, \<open>received_tokenstates\<close> throws before it
  schedules the next \<open>tick\<close>, and no later event starts the polling again.
\<close>

theorem bad_json_stops_polling:
  assumes "ui_reachable f p good s" and "i < length (open_xhrs (conn s))"
    and "xhr_cb (open_xhrs (conn s) ! i) = Some ReceivedTokenstates"
  shows "\<exists>t. reply f p i 200 None s = Some (Throw TypeError t) \<and>
    (\<forall>u. (ui_step f p good)\<^sup>*\<^sup>* t u \<longrightarrow> timers u = [] \<and>
       (\<forall>x \<in> set (open_xhrs (conn u)). xhr_cb x \<noteq> Some ReceivedTokenstates))"
proof -
  let ?x = "open_xhrs (conn s) ! i"
  have owned: "owned s" by (rule owned_reachable [OF assms(1)])
  have ok: "poll_ok s" "polls s \<le> 1" using polls_reachable [OF assms(1)] by simp_all
  have "\<exists>s2. reply f p i 200 None s = call_back f p (CallCb ReceivedTokenstates None) s2"
    by (rule reply_call_back [OF ownedD(2) [OF owned] refl, where f = f and p = p and i = i
          and status = 200 and r = None]) (auto simp: assms(3))
  then obtain s2 where "reply f p i 200 None s = call_back f p (CallCb ReceivedTokenstates None) s2"
    by blast
  then have run: "reply f p i 200 None s = Some (Throw TypeError s2)"
    by (simp add: call_back_def received_tokenstates_def)
  have "poll_ok s2 \<and> polls s2 = 0"
    using polls_reply [OF ok(1) owned assms(2) run] ok(2) assms(3) by (simp add: is_poll_def)
  moreover have "owned s2" using owned_reply [OF owned run] by simp
  ultimately have "polls u = 0" if "(ui_step f p good)\<^sup>*\<^sup>* s2 u" for u
    using polls_dead [OF that] by simp
  then show ?thesis
    using run by (auto simp: polls_def is_poll_def [abs_def] filter_empty_conv)
qed

theorem bad_json_stops_polling_witness:
  "\<exists>t. reply (\<lambda>_. ''d'') (\<lambda>_. ''peers'') 1 200 None
      (outcome_state (timer_fires (\<lambda>_. ''d'') (page_load (\<lambda>_. ''d'') ''h'' ''1'' :: (nat, nat) webui)))
      = Some (Throw TypeError t) \<and> timers t = []"
proof -
  let ?p = "page_load (\<lambda>_. ''d'') ''h'' ''1'' :: (nat, nat) webui"
  let ?s = "outcome_state (timer_fires (\<lambda>_. ''d'') ?p)"
  note defs = page_load_def start_live_reload_def api_request_def conn_request_def
    XhrConnection.request_def Let_def start_def RsApi_def RsXHRConnection_def rsapi.extend_def
    xhr_conn.extend_def timer_fires_def tick_def
  have "timers ?p \<noteq> []" by (simp add: defs)
  then have reach: "ui_reachable (\<lambda>_. ''d'') (\<lambda>_. ''peers'') (\<lambda>_. True) ?s"
    by (rule ui_next [OF ui_start step_timer])
  have poll: "1 < length (open_xhrs (conn ?s))"
    "xhr_cb (open_xhrs (conn ?s) ! 1) = Some ReceivedTokenstates"
    by (simp_all add: defs)
  from bad_json_stops_polling [OF reach poll] obtain t
    where t: "reply (\<lambda>_. ''d'') (\<lambda>_. ''peers'') 1 200 None ?s = Some (Throw TypeError t)"
    and "\<forall>u. (ui_step (\<lambda>_. ''d'') (\<lambda>_. ''peers'') (\<lambda>_. True))\<^sup>*\<^sup>* t u \<longrightarrow> timers u = [] \<and>
      (\<forall>x \<in> set (open_xhrs (conn u)). xhr_cb x \<noteq> Some ReceivedTokenstates)"
    by blast
  then have "timers t = []" by blast
  with t show ?thesis by blast
qed

end
