(* ===== verification/StateTokenServer.thy ===== *)
theory StateTokenServer
  imports Prelude "HOL-Library.Word"
begin

text \<open>
  The backend side of the state token system: \<open>api/StateTokenServer.cpp\<close> and
  \<open>api/LivereloadHandler.cpp\<close>. A state token is a \<open>uint32_t\<close>; 0 means no token. The two
  mutexes make each operation atomic, so an operation is a function on the state. The
  \<open>tick\<close> of a registered client is the parameter \<open>tick_client\<close>; clients may create and discard
  tokens in it.
\<close>

type_synonym state_token = "32 word"

record 'k token_server =
  mNextToken :: state_token
  mValidTokens :: "state_token list"
  mTickClients :: "'k list"

definition StateTokenServer :: "'k token_server" where
  "StateTokenServer = \<lparr>mNextToken = 1, mValidTokens = [], mTickClients = []\<rparr>"

section \<open>Tokens in JSON\<close>

text \<open>
  The stream operators go through \<open>int\<close>: \<open>int value = token.getValue()\<close> one way,
  \<open>StateToken(value)\<close> the other way.
\<close>

definition token_to_json :: "state_token \<Rightarrow> int" where
  "token_to_json t = sint t"

definition json_to_token :: "int \<Rightarrow> state_token" where
  "json_to_token value = word_of_int value"

section \<open>Creating and discarding tokens\<close>

definition locked_getNewToken ::
  "('k, 'z) token_server_scheme \<Rightarrow> state_token \<times> ('k, 'z) token_server_scheme" where
  "locked_getNewToken s =
     (let t = mNextToken s;
          n = mNextToken s + 1
      in (t, s\<lparr>mValidTokens := mValidTokens s @ [t], mNextToken := if n = 0 then 1 else n\<rparr>))"

definition locked_discardToken ::
  "state_token \<Rightarrow> ('k, 'z) token_server_scheme \<Rightarrow> ('k, 'z) token_server_scheme" where
  "locked_discardToken t s =
     (if t \<in> set (mValidTokens s) then s\<lparr>mValidTokens := remove1 t (mValidTokens s)\<rparr> else s)"

definition getNewToken ::
  "('k, 'z) token_server_scheme \<Rightarrow> state_token \<times> ('k, 'z) token_server_scheme" where
  "getNewToken s = locked_getNewToken s"

definition discardToken ::
  "state_token \<Rightarrow> ('k, 'z) token_server_scheme \<Rightarrow> ('k, 'z) token_server_scheme" where
  "discardToken t s = locked_discardToken t s"

definition replaceToken ::
  "state_token \<Rightarrow> ('k, 'z) token_server_scheme \<Rightarrow> state_token \<times> ('k, 'z) token_server_scheme" where
  "replaceToken t s = locked_getNewToken (locked_discardToken t s)"

section \<open>Tick clients\<close>

definition unregisterTickClient ::
  "'k \<Rightarrow> ('k, 'z) token_server_scheme \<Rightarrow> ('k, 'z) token_server_scheme" where
  "unregisterTickClient c s = s\<lparr>mTickClients := remove1 c (mTickClients s)\<rparr>"

definition registerTickClient ::
  "('k \<Rightarrow> ('k, 'z) token_server_scheme \<Rightarrow> ('k, 'z) token_server_scheme) \<Rightarrow> 'k
   \<Rightarrow> ('k, 'z) token_server_scheme \<Rightarrow> ('k, 'z) token_server_scheme" where
  "registerTickClient tick_client c s =
     (let s1 = tick_client c s;
          s2 = unregisterTickClient c s1
      in s2\<lparr>mTickClients := mTickClients s2 @ [c]\<rparr>)"

section \<open>The resource \<open>statetokenservice\<close>\<close>

text \<open>
  All clients are ticked; then the answer lists the tokens of the request that are not valid.
\<close>

definition handleWildcard ::
  "('k \<Rightarrow> ('k, 'z) token_server_scheme \<Rightarrow> ('k, 'z) token_server_scheme) \<Rightarrow> state_token list
   \<Rightarrow> ('k, 'z) token_server_scheme \<Rightarrow> state_token list \<times> ('k, 'z) token_server_scheme" where
  "handleWildcard tick_client req s =
     (let s' = fold tick_client (mTickClients s) s
      in (filter (\<lambda>t. t \<notin> set (mValidTokens s')) req, s'))"

section \<open>Live reload\<close>

record livereload =
  lrStateToken :: state_token

definition LivereloadHandler ::
  "('k, 'z) token_server_scheme \<Rightarrow> livereload \<times> ('k, 'z) token_server_scheme" where
  "LivereloadHandler s = (let (t, s') = getNewToken s in (\<lparr>lrStateToken = t\<rparr>, s'))"

definition livereload_handleWildcard :: "livereload \<Rightarrow> state_token" where
  "livereload_handleWildcard h = lrStateToken h"

definition livereload_handleTrigger ::
  "livereload \<Rightarrow> ('k, 'z) token_server_scheme
   \<Rightarrow> state_token \<times> livereload \<times> ('k, 'z) token_server_scheme" where
  "livereload_handleTrigger h s =
     (let (t, s') = replaceToken (lrStateToken h) s
      in (t, h\<lparr>lrStateToken := t\<rparr>, s'))"

section \<open>Invariant\<close>

text \<open>
  0 is never handed out. Tokens are distinct until the counter wraps around; \<open>below_next\<close> is
  the state before that.
\<close>

definition nonzero :: "('k, 'z) token_server_scheme \<Rightarrow> bool" where
  "nonzero s \<longleftrightarrow> mNextToken s \<noteq> 0 \<and> 0 \<notin> set (mValidTokens s)"

definition below_next :: "('k, 'z) token_server_scheme \<Rightarrow> bool" where
  "below_next s \<longleftrightarrow> distinct (mValidTokens s) \<and> (\<forall>t \<in> set (mValidTokens s). t < mNextToken s)"

lemma nonzero_init: "nonzero StateTokenServer"
  by (simp add: nonzero_def StateTokenServer_def)

lemma getNewToken_nonzero: "nonzero s \<Longrightarrow> getNewToken s = (t, s') \<Longrightarrow> nonzero s' \<and> t \<noteq> 0"
  by (auto simp: nonzero_def getNewToken_def locked_getNewToken_def Let_def split: if_splits)

lemma discardToken_nonzero: "nonzero s \<Longrightarrow> nonzero (discardToken t s)"
  by (auto simp: nonzero_def discardToken_def locked_discardToken_def dest: notin_set_remove1)

lemma replaceToken_conv: "replaceToken t s = getNewToken (discardToken t s)"
  by (simp add: replaceToken_def getNewToken_def discardToken_def)

lemma replaceToken_nonzero: "nonzero s \<Longrightarrow> replaceToken t s = (u, s') \<Longrightarrow> nonzero s' \<and> u \<noteq> 0"
  using getNewToken_nonzero discardToken_nonzero by (metis replaceToken_conv)

section \<open>The token counter\<close>

definition next_token :: "state_token \<Rightarrow> state_token" where
  "next_token w = (if w + 1 = 0 then 1 else w + 1)"

lemma unat_next_token:
  "unat (next_token w) = (if unat w = 2 ^ 32 - 1 then 1 else Suc (unat w))"
proof -
  have lt: "unat w < 2 ^ 32" using unsigned_less [of w] by simp
  have "unat (w + 1) = (unat w + 1) mod 2 ^ 32" by (simp add: unat_word_ariths)
  then have plus: "unat (w + 1) = (if unat w = 2 ^ 32 - 1 then 0 else Suc (unat w))"
    using lt by auto
  moreover have "w + 1 = 0 \<longleftrightarrow> unat (w + 1) = 0" by (simp add: unat_eq_0)
  ultimately show ?thesis by (auto simp: next_token_def)
qed

lemma getNewToken_conv:
  "getNewToken s = (mNextToken s,
     s\<lparr>mValidTokens := mValidTokens s @ [mNextToken s], mNextToken := next_token (mNextToken s)\<rparr>)"
  by (simp add: getNewToken_def locked_getNewToken_def next_token_def Let_def)

text \<open>The token handed out by call number \<open>n\<close> (from 0), starting in state \<open>s\<close>.\<close>

definition nth_token :: "nat \<Rightarrow> ('k, 'z) token_server_scheme \<Rightarrow> state_token" where
  "nth_token n s = fst (getNewToken (((\<lambda>s. snd (getNewToken s)) ^^ n) s))"

lemma nth_token_next: "nth_token n s = (next_token ^^ n) (mNextToken s)"
proof -
  have "mNextToken (((\<lambda>s. snd (getNewToken s)) ^^ n) s) = (next_token ^^ n) (mNextToken s)"
    by (induction n) (simp_all add: getNewToken_conv)
  then show ?thesis by (simp add: nth_token_def getNewToken_conv)
qed

lemma unat_next_token_iter: "unat ((next_token ^^ n) 1) = n mod (2 ^ 32 - 1) + 1"
proof (induction n)
  case (Suc n)
  then show ?case by (auto simp: unat_next_token mod_Suc)
qed simp

lemma below_next_getNewToken:
  assumes "below_next s" and "unat (mNextToken s) < 2 ^ 32 - 1" and "getNewToken s = (t, s')"
  shows "below_next s' \<and> t \<notin> set (mValidTokens s) \<and> mNextToken s < mNextToken s'"
proof -
  have s': "t = mNextToken s"
      "mValidTokens s' = mValidTokens s @ [mNextToken s]"
      "mNextToken s' = next_token (mNextToken s)"
    using assms(3) by (auto simp: getNewToken_conv)
  have less: "mNextToken s < next_token (mNextToken s)"
    using assms(2) by (simp add: word_less_nat_alt unat_next_token)
  then show ?thesis
    using assms(1) by (auto simp: below_next_def s' intro: less_trans)
qed

lemma below_next_discardToken: "below_next s \<Longrightarrow> below_next (discardToken t s)"
  by (auto simp: below_next_def discardToken_def locked_discardToken_def dest: notin_set_remove1)

lemma discardToken_valid:
  "distinct (mValidTokens s) \<Longrightarrow> set (mValidTokens (discardToken t s)) = set (mValidTokens s) - {t}"
  by (auto simp: discardToken_def locked_discardToken_def)

section \<open>Properties\<close>

text \<open>
  C8. The token counter of \<open>StateTokenServer\<close>. Started at 1, the n-th call of \<open>getNewToken\<close>
  (counted from 0) returns \<open>n mod (2^32 - 1) + 1\<close>: the reserved value 0 is never handed out,
  the first 2^32 - 1 tokens are pairwise different, and then the sequence repeats from 1.
\<close>

theorem nth_token_sequence:
  "unat (nth_token n (StateTokenServer :: 'k token_server)) = n mod (2 ^ 32 - 1) + 1"
  by (simp add: nth_token_next StateTokenServer_def unat_next_token_iter)



text \<open>
  A token survives the way through the JSON of a response and back in a later poll, and two
  tokens are equal in JSON exactly when they are equal: the signed conversion loses nothing.
\<close>

theorem token_json_roundtrip:
  "json_to_token (token_to_json t) = t \<and> (token_to_json t = token_to_json u \<longleftrightarrow> t = u)"
  by (auto simp: json_to_token_def token_to_json_def intro: signed_word_eqI)

end
