(* ===== verification/TokenProtocol.thy ===== *)
theory TokenProtocol
  imports AutoUpdate StateTokenServer
begin

text \<open>
  The state token protocol end to end: the page of \<open>AutoUpdate\<close> against the backend of
  \<open>StateTokenServer\<close>, with requests and responses in flight in any number and any order.

  \<^item> A resource of the backend is what its handler answers: its current token and data. A change
    of the resource replaces the token (\<open>replaceToken\<close>), as the handlers of \<open>src/libresapi/src/api\<close> do.
  \<^item> \<open>serve\<close> is \<open>ApiServer::handleRequest\<close>. The tick clients that \<open>statetokenservice\<close> calls
    before it looks the tokens up take the other mutex; what they do are \<open>update\<close> steps of
    their own.
  \<^item> An element of a poll that is no integer (\<open>null\<close> for an \<open>undefined\<close> token) leaves the
    \<open>int\<close> of the stream operator uninitialised: the parameter \<open>junk\<close>.
  \<^item> \<open>update\<close> steps end before the 32-bit counter wraps around (see \<open>nth_token_sequence\<close>).
\<close>

record 'd server = "nat token_server" +
  resources :: "string \<Rightarrow> (state_token \<times> 'd) option"

definition decode_token :: "state_token \<Rightarrow> int option \<Rightarrow> state_token" where
  "decode_token junk j = (case j of None \<Rightarrow> junk | Some v \<Rightarrow> json_to_token v)"

definition statetokenservice ::
  "state_token \<Rightarrow> (int option, 'u) payload option \<Rightarrow> 'd server \<Rightarrow> 'd response \<times> 'd server" where
  "statetokenservice junk d srv =
     (let ts = (case d of Some (Tokens ts) \<Rightarrow> ts | _ \<Rightarrow> []);
          (expired, srv') = handleWildcard (\<lambda>_ s. s) (map (decode_token junk) ts) srv
      in (\<lparr>returncode = ''ok'', statetoken = None,
           resp_data = (if expired = [] then None
                        else Some (TokenList (map (\<lambda>t. Some (token_to_json t)) expired)))\<rparr>, srv'))"

definition serve ::
  "state_token \<Rightarrow> (int option, 'u) payload request \<Rightarrow> 'd server \<Rightarrow> 'd response \<times> 'd server" where
  "serve junk req srv =
     (if path req = ''statetokenservice'' then statetokenservice junk (data req) srv
      else case resources srv (path req) of
        None \<Rightarrow> (\<lparr>returncode = ''fail'', statetoken = None, resp_data = None\<rparr>, srv)
      | Some (t, d) \<Rightarrow>
          (\<lparr>returncode = ''ok'', statetoken = (if t = 0 then None else Some (token_to_json t)),
            resp_data = Some (Resource d)\<rparr>, srv))"

definition update_resource :: "string \<Rightarrow> 'd \<Rightarrow> 'd server \<Rightarrow> 'd server" where
  "update_resource q d srv =
     (case resources srv q of
        None \<Rightarrow> srv
      | Some (t, _) \<Rightarrow>
          (let (u, srv') = replaceToken t srv
           in srv'\<lparr>resources := (resources srv')(q \<mapsto> (u, d))\<rparr>))"

section \<open>The whole system\<close>

text \<open>
  \<open>answers\<close> runs in parallel to the open requests: the response the backend has computed
  for the request with the same index, if it has.
\<close>

record ('u, 'd) sys =
  client :: "('u, 'd) webui"
  server :: "'d server"
  answers :: "'d response jsarr"

abbreviation open_of :: "('u, 'd) sys \<Rightarrow> ((int option, 'u) payload, ui_cb response_cb, error_cb) xhr list" where
  "open_of S \<equiv> open_xhrs (conn (client S))"

definition serve_step :: "state_token \<Rightarrow> nat \<Rightarrow> ('u, 'd) sys \<Rightarrow> ('u, 'd) sys" where
  "serve_step junk i S =
     (let (r, srv') = serve junk (xhr_req (open_of S ! i)) (server S)
      in S\<lparr>server := srv', answers := js_set (answers S) i (Some r)\<rparr>)"

definition deliver_step ::
  "((int option, 'u) payload \<Rightarrow> string) \<Rightarrow> (nat \<Rightarrow> string) \<Rightarrow> nat \<Rightarrow> nat \<Rightarrow> 'd response option
   \<Rightarrow> ('u, 'd) sys \<Rightarrow> ('u, 'd) sys option" where
  "deliver_step f p i status r S =
     map_option (\<lambda>out. S\<lparr>client := outcome_state out, answers := remove_nth i (answers S)\<rparr>)
       (reply f p i status r (client S))"

definition server_ok :: "'d server \<Rightarrow> bool" where
  "server_ok srv \<longleftrightarrow> nonzero srv \<and> below_next srv \<and> mTickClients srv = [] \<and>
     set (mValidTokens srv) = {t. \<exists>q d. resources srv q = Some (t, d)} \<and>
     (\<forall>q q' t d d'. resources srv q = Some (t, d) \<longrightarrow> resources srv q' = Some (t, d') \<longrightarrow> q = q')"

inductive sys_step ::
  "((int option, 'u) payload \<Rightarrow> string) \<Rightarrow> (nat \<Rightarrow> string) \<Rightarrow> state_token
   \<Rightarrow> ('u, 'd) sys \<Rightarrow> ('u, 'd) sys \<Rightarrow> bool" for f p junk where
  sys_mount: "sys_step f p junk S (S\<lparr>client := mount f p (client S)\<rparr>)"
| sys_unmount: "mounted (client S) c \<Longrightarrow>
    sys_step f p junk S (S\<lparr>client := outcome_state (unmount c (client S))\<rparr>)"
| sys_timer: "timers (client S) \<noteq> [] \<Longrightarrow>
    sys_step f p junk S (S\<lparr>client := outcome_state (timer_fires f (client S))\<rparr>)"
| sys_serve: "i < length (open_of S) \<Longrightarrow> js_get (answers S) i = None \<Longrightarrow>
    sys_step f p junk S (serve_step junk i S)"
| sys_deliver: "i < length (open_of S) \<Longrightarrow> js_get (answers S) i = Some r \<Longrightarrow>
    deliver_step f p i 200 (Some r) S = Some T \<Longrightarrow> sys_step f p junk S T"
| sys_fail: "i < length (open_of S) \<Longrightarrow> status \<noteq> 200 \<Longrightarrow>
    deliver_step f p i status None S = Some T \<Longrightarrow> sys_step f p junk S T"
| sys_update: "unat (mNextToken (server S)) < 2 ^ 32 - 1 \<Longrightarrow>
    sys_step f p junk S (S\<lparr>server := update_resource q d (server S)\<rparr>)"

inductive sys_reachable ::
  "((int option, 'u) payload \<Rightarrow> string) \<Rightarrow> (nat \<Rightarrow> string) \<Rightarrow> state_token \<Rightarrow> ('u, 'd) sys \<Rightarrow> bool"
  for f p junk where
  sys_start: "server_ok srv \<Longrightarrow> sys_reachable f p junk
    \<lparr>client = page_load f hostname port, server = srv, answers = []\<rparr>"
| sys_next: "sys_reachable f p junk S \<Longrightarrow> sys_step f p junk S T \<Longrightarrow> sys_reachable f p junk T"

section \<open>The server\<close>

lemma serve_server: "snd (serve junk req srv) = srv" if "mTickClients srv = []"
  using that
  by (auto simp: serve_def statetokenservice_def handleWildcard_def Let_def
      split: option.split payload.split)

lemma update_resource_ok:
  assumes "server_ok srv" "unat (mNextToken srv) < 2 ^ 32 - 1"
  shows "server_ok (update_resource q d srv) \<and> mNextToken srv \<le> mNextToken (update_resource q d srv) \<and>
    (\<forall>t. t < mNextToken srv \<longrightarrow> (\<forall>q' d'. resources (update_resource q d srv) q' = Some (t, d') \<longrightarrow>
       resources srv q' = Some (t, d')))"
proof (cases "resources srv q")
  case None
  then show ?thesis using assms(1) by (simp add: update_resource_def)
next
  case (Some a)
  then obtain t d0 where q: "resources srv q = Some (t, d0)" by (cases a) auto
  let ?d = "discardToken t srv"
  let ?n = "mNextToken srv"
  have ok: "nonzero srv" "below_next srv" "mTickClients srv = []"
    "set (mValidTokens srv) = {t. \<exists>q d. resources srv q = Some (t, d)}"
    "\<And>q q' t d d'. resources srv q = Some (t, d) \<Longrightarrow> resources srv q' = Some (t, d') \<Longrightarrow> q = q'"
    using assms(1) unfolding server_ok_def by blast+
  have same: "mNextToken ?d = ?n" "mTickClients ?d = []" "resources ?d = resources srv"
    using ok(3) by (simp_all add: discardToken_def locked_discardToken_def)
  have valid_d: "set (mValidTokens ?d) = set (mValidTokens srv) - {t}"
    using ok(2) by (simp add: below_next_def discardToken_valid)
  have below_d: "below_next ?d" by (rule below_next_discardToken [OF ok(2)])
  let ?g = "snd (getNewToken ?d)"
  have g: "getNewToken ?d = (?n, ?g)" by (simp add: getNewToken_conv same)
  have g_fields: "mTickClients ?g = []" "resources ?g = resources srv"
    "mValidTokens ?g = mValidTokens ?d @ [?n]"
    by (simp_all add: getNewToken_conv same)
  have up: "update_resource q d srv = ?g\<lparr>resources := (resources srv)(q \<mapsto> (?n, d))\<rparr>"
    by (simp add: update_resource_def q replaceToken_conv getNewToken_conv same)
  have below_g: "below_next ?g" "?n < mNextToken ?g"
    using below_next_getNewToken [OF below_d _ g] assms(2) by (simp_all add: same)
  have nonzero_g: "nonzero ?g"
    using getNewToken_nonzero [OF discardToken_nonzero [OF ok(1)] g] by simp
  have fresh: "t' < ?n" if "resources srv q' = Some (t', d')" for q' t' d'
    using ok(2,4) that by (auto simp: below_next_def)
  have unused: "resources srv q' \<noteq> Some (?n, d')" for q' d' using fresh by blast
  let ?u = "update_resource q d srv"
  have u_fields: "nonzero ?u = nonzero ?g" "below_next ?u = below_next ?g"
    "mTickClients ?u = []" "mValidTokens ?u = mValidTokens ?g"
    "resources ?u = (resources srv)(q \<mapsto> (?n, d))"
    using g_fields(1) by (simp_all add: up below_next_def nonzero_def)
  have valid: "set (mValidTokens ?g) = {t'. \<exists>q' d'. ((resources srv)(q \<mapsto> (?n, d))) q' = Some (t', d')}"
    using ok(4,5) q by (auto simp: g_fields valid_d) (metis option.inject prod.inject)+
  have unique: "q1 = q2" if "((resources srv)(q \<mapsto> (?n, d))) q1 = Some (t', d1)"
    "((resources srv)(q \<mapsto> (?n, d))) q2 = Some (t', d2)" for q1 q2 t' d1 d2
    using that ok(5) unused by (auto split: if_splits)
  have "server_ok ?u"
    unfolding server_ok_def u_fields valid
    using below_g(1) nonzero_g unique by blast
  then show ?thesis
    using below_g(2) by (auto simp: up split: if_splits)
qed

section \<open>Invariant of the whole system\<close>

text \<open>
  A token is fresh for a resource and its data when it has been handed out already and, as long
  as it is valid, it is the token of that resource with that data.
\<close>

definition fresh_for :: "'d server \<Rightarrow> string \<Rightarrow> 'd \<Rightarrow> state_token \<Rightarrow> bool" where
  "fresh_for srv q d t \<longleftrightarrow> t < mNextToken srv \<and>
     (\<forall>q' d'. resources srv q' = Some (t, d') \<longrightarrow> q' = q \<and> d' = d)"

definition answer_ok ::
  "(nat \<Rightarrow> string) \<Rightarrow> 'd server \<Rightarrow> ((int option, 'u) payload, ui_cb response_cb, error_cb) xhr
   \<Rightarrow> 'd response option \<Rightarrow> bool" where
  "answer_ok p srv x a \<longleftrightarrow> (\<forall>c. xhr_cb x = Some (UserCb (AumResponse c)) \<longrightarrow>
     xhr_req x = \<lparr>path = p c, data = None\<rparr> \<and>
     (\<forall>r j. a = Some r \<longrightarrow> statetoken r = Some j \<longrightarrow>
        (\<exists>d t. j = token_to_json t \<and> resp_data r = Some (Resource d) \<and> fresh_for srv (p c) d t))) \<and>
     (xhr_cb x = Some ReceivedTokenstates \<longrightarrow> path (xhr_req x) = ''statetokenservice'')"

definition listener_ok ::
  "(nat \<Rightarrow> string) \<Rightarrow> (nat \<Rightarrow> 'd resp_data option) \<Rightarrow> 'd server
   \<Rightarrow> (ui_listener, int option) token_listener \<Rightarrow> bool" where
  "listener_ok p cd srv e \<longleftrightarrow> (\<forall>c j. listener e = AumDataChanged c \<longrightarrow> token e = Some j \<longrightarrow>
     (\<exists>d t. j = token_to_json t \<and> cd c = Some (Resource d) \<and> fresh_for srv (p c) d t))"

definition sys_inv :: "(nat \<Rightarrow> string) \<Rightarrow> ('u, 'd) sys \<Rightarrow> bool" where
  "sys_inv p S \<longleftrightarrow> owned (client S) \<and> server_ok (server S) \<and>
     length (answers S) \<le> length (open_of S) \<and>
     (\<forall>i < length (open_of S). answer_ok p (server S) (open_of S ! i) (js_get (answers S) i)) \<and>
     (\<forall>e. Some e \<in> set (tokenlisteners (client S)) \<longrightarrow>
        listener_ok p (cdata (client S)) (server S) e)"

lemma sys_invD:
  assumes "sys_inv p S"
  shows "owned (client S)" "server_ok (server S)" "length (answers S) \<le> length (open_of S)"
    and "i < length (open_of S) \<Longrightarrow> answer_ok p (server S) (open_of S ! i) (js_get (answers S) i)"
    and "Some e \<in> set (tokenlisteners (client S)) \<Longrightarrow>
      listener_ok p (cdata (client S)) (server S) e"
  using assms by (simp_all add: sys_inv_def)

text \<open>What the client does beside answering: it sends well-formed requests.\<close>

definition request_ok ::
  "(nat \<Rightarrow> string) \<Rightarrow> ((int option, 'u) payload, ui_cb response_cb, error_cb) xhr \<Rightarrow> bool" where
  "request_ok p x \<longleftrightarrow>
     (\<forall>c. xhr_cb x = Some (UserCb (AumResponse c)) \<longrightarrow> xhr_req x = \<lparr>path = p c, data = None\<rparr>) \<and>
     (xhr_cb x = Some ReceivedTokenstates \<longrightarrow> path (xhr_req x) = ''statetokenservice'')"

lemma answer_ok_None: "answer_ok p srv x None \<longleftrightarrow> request_ok p x"
  by (simp add: answer_ok_def request_ok_def)

definition grows :: "(nat \<Rightarrow> string) \<Rightarrow> ('u, 'd) webui \<Rightarrow> ('u, 'd) webui \<Rightarrow> bool" where
  "grows p s t \<longleftrightarrow>
     (\<exists>xs. open_xhrs (conn t) = open_xhrs (conn s) @ xs \<and> (\<forall>x \<in> set xs. request_ok p x))"

lemma growsI:
  "open_xhrs (conn t) = open_xhrs (conn s) @ xs \<Longrightarrow>
   (\<And>x. x \<in> set xs \<Longrightarrow> request_ok p x) \<Longrightarrow> grows p s t"
  unfolding grows_def by blast

lemma grows_same [simp]: "open_xhrs (conn t) = open_xhrs (conn s) \<Longrightarrow> grows p s t"
  by (rule growsI [where xs = "[]"]) auto

lemma grows_trans [trans]:
  assumes "grows p s t" "grows p t u"
  shows "grows p s u"
proof -
  obtain xs where xs: "open_xhrs (conn t) = open_xhrs (conn s) @ xs"
    "\<forall>x \<in> set xs. request_ok p x"
    using assms(1) unfolding grows_def by blast
  obtain ys where ys: "open_xhrs (conn u) = open_xhrs (conn t) @ ys"
    "\<forall>x \<in> set ys. request_ok p x"
    using assms(2) unfolding grows_def by blast
  show ?thesis
    by (rule growsI [where xs = "xs @ ys"]) (use xs ys in auto)
qed

lemma grows_data_changed: "grows p s (aum_on_data_changed f p c s)"
  by (rule growsI) (auto simp: aum_on_data_changed_def api_request_def conn_request_def
      XhrConnection.request_def request_ok_def Let_def)

lemma grows_call_listener: "grows p s (call_listener f p l s)"
  by (cases l) (simp_all add: call_listener_def grows_data_changed)

lemma grows_call_listeners: "grows p s (fold (call_listener f p) ls s)"
proof (induction ls arbitrary: s)
  case (Cons l ls)
  show ?case using grows_trans [OF grows_call_listener Cons.IH] by simp
qed simp

lemma sys_inv_client:
  assumes inv: "sys_inv p S" and "grows p (client S) t" "owned t"
    and ls: "\<And>e. Some e \<in> set (tokenlisteners t) \<Longrightarrow> listener_ok p (cdata t) (server S) e"
  shows "sys_inv p (S\<lparr>client := t\<rparr>)"
proof -
  obtain xs where xs: "open_xhrs (conn t) = open_of S @ xs"
    "\<forall>x \<in> set xs. request_ok p x"
    using assms(2) unfolding grows_def by blast
  have "answer_ok p (server S) ((open_of S @ xs) ! i) (js_get (answers S) i)"
    if "i < length (open_of S @ xs)" for i
  proof (cases "i < length (open_of S)")
    case True
    then show ?thesis using sys_invD(4) [OF inv] by (simp add: nth_append)
  next
    case False
    then have "js_get (answers S) i = None"
      using sys_invD(3) [OF inv] by (simp add: js_get_def)
    moreover have "(open_of S @ xs) ! i \<in> set xs"
      using False that by (simp add: nth_append)
    ultimately show ?thesis using xs(2) by (simp add: answer_ok_None)
  qed
  then show ?thesis
    using sys_invD(1-3) [OF inv] assms(3) ls by (simp add: sys_inv_def xs(1) trans_le_add1)
qed

lemma sys_inv_same_listeners:
  assumes "sys_inv p S" "grows p (client S) t" "owned t"
    and "set (tokenlisteners t) \<subseteq> set (tokenlisteners (client S))" "cdata t = cdata (client S)"
  shows "sys_inv p (S\<lparr>client := t\<rparr>)"
  using sys_inv_client [OF assms(1-3)] sys_invD(5) [OF assms(1)] assms(4,5) by auto

lemma json_token [simp]: "json_to_token (token_to_json t) = t"
  by (simp add: json_to_token_def token_to_json_def)

text \<open>What the backend answers is fresh, and stays fresh when a resource changes.\<close>

lemma serve_answer_ok:
  fixes req :: "(int option, 'u) payload request" and srv :: "'d server"
  assumes "server_ok srv" "q0 \<noteq> ''statetokenservice''" "path req = q0"
    and "statetoken (fst (serve junk req srv)) = Some j"
  shows "\<exists>d t. j = token_to_json t \<and>
    resp_data (fst (serve junk req srv)) = Some (Resource d) \<and> fresh_for srv q0 d t"
proof -
  obtain t d where r: "resources srv q0 = Some (t, d)" "j = token_to_json t"
    "resp_data (fst (serve junk req srv)) = Some (Resource d)"
    using assms(2-4) by (auto simp: serve_def split: option.splits if_splits)
  have "t \<in> set (mValidTokens srv)" using assms(1) r(1) by (auto simp: server_ok_def)
  then have "t < mNextToken srv" using assms(1) by (auto simp: server_ok_def below_next_def)
  moreover have "q' = q0 \<and> d' = d" if q': "resources srv q' = Some (t, d')" for q' d'
  proof -
    have "q' = q0" using assms(1) r(1) q' unfolding server_ok_def by blast
    with r(1) q' show ?thesis by simp
  qed
  ultimately have "fresh_for srv q0 d t"
    unfolding fresh_for_def by blast
  with r(2,3) show ?thesis by blast
qed

lemma fresh_for_update:
  assumes "server_ok srv" "unat (mNextToken srv) < 2 ^ 32 - 1" "fresh_for srv q0 d0 t"
  shows "fresh_for (update_resource q d srv) q0 d0 t"
proof -
  have upd: "mNextToken srv \<le> mNextToken (update_resource q d srv)"
    "\<And>t q' d'. t < mNextToken srv \<Longrightarrow> resources (update_resource q d srv) q' = Some (t, d') \<Longrightarrow>
       resources srv q' = Some (t, d')"
    using update_resource_ok [OF assms(1,2), of q d] by blast+
  show ?thesis
    using assms(3) upd unfolding fresh_for_def by (blast intro: order.strict_trans2)
qed

lemma answer_ok_update:
  "server_ok srv \<Longrightarrow> unat (mNextToken srv) < 2 ^ 32 - 1 \<Longrightarrow> answer_ok p srv x a \<Longrightarrow>
   answer_ok p (update_resource q d srv) x a"
  unfolding answer_ok_def by (blast intro: fresh_for_update)

lemma listener_ok_update:
  "server_ok srv \<Longrightarrow> unat (mNextToken srv) < 2 ^ 32 - 1 \<Longrightarrow> listener_ok p cd srv e \<Longrightarrow>
   listener_ok p cd (update_resource q d srv) e"
  unfolding listener_ok_def by (blast intro: fresh_for_update)

lemma sys_inv_update:
  assumes "sys_inv p S" "unat (mNextToken (server S)) < 2 ^ 32 - 1"
  shows "sys_inv p (S\<lparr>server := update_resource q d (server S)\<rparr>)"
  using sys_invD [OF assms(1)] update_resource_ok [OF _ assms(2)] assms(2)
  unfolding sys_inv_def by (simp add: answer_ok_update listener_ok_update)

lemma sys_inv_serve:
  assumes inv: "sys_inv p S" and i: "i < length (open_of S)"
    and paths: "\<And>c. p c \<noteq> ''statetokenservice''"
  shows "sys_inv p (serve_step junk i S)"
proof -
  let ?x = "open_of S ! i"
  let ?r = "fst (serve junk (xhr_req ?x) (server S))"
  have srv: "server_ok (server S)" by (rule sys_invD(2) [OF inv])
  have step: "serve_step junk i S = S\<lparr>answers := js_set (answers S) i (Some ?r)\<rparr>"
    using serve_server [of "server S" junk "xhr_req ?x"] srv
    by (cases "serve junk (xhr_req ?x) (server S)") (simp add: serve_step_def server_ok_def)
  have len: "length (js_set (answers S) i (Some ?r)) \<le> length (open_of S)"
    using sys_invD(3) [OF inv] i by (auto simp: js_set_def)
  have req: "request_ok p ?x"
    using sys_invD(4) [OF inv i] by (simp add: answer_ok_def request_ok_def)
  have new: "answer_ok p (server S) ?x (Some ?r)"
    unfolding answer_ok_def
  proof (intro conjI allI impI)
    fix c assume c: "xhr_cb ?x = Some (UserCb (AumResponse c))"
    with req show x: "xhr_req ?x = \<lparr>path = p c, data = None\<rparr>" by (simp add: request_ok_def)
    fix r j assume r: "Some ?r = Some r" "statetoken r = Some j"
    show "\<exists>d t. j = token_to_json t \<and> resp_data r = Some (Resource d) \<and> fresh_for (server S) (p c) d t"
      using serve_answer_ok [OF srv paths [of c], where junk = junk and req = "xhr_req ?x" and j = j] r x
      by simp
  next
    assume "xhr_cb ?x = Some ReceivedTokenstates"
    with req show "path (xhr_req ?x) = ''statetokenservice''" by (simp add: request_ok_def)
  qed
  have get: "js_get (js_set (answers S) i (Some ?r)) k = (if k = i then Some ?r else js_get (answers S) k)" for k
    by (auto simp: js_get_def js_set_def nth_append nth_list_update)
  have "answer_ok p (server S) (open_of S ! k) (js_get (js_set (answers S) i (Some ?r)) k)"
    if "k < length (open_of S)" for k
    using new sys_invD(4) [OF inv that] by (simp add: get)
  then show ?thesis
    using sys_invD(1,2,5) [OF inv] len unfolding step by (simp add: sys_inv_def)
qed

text \<open>Taking an answered request off the list.\<close>

lemma length_remove_nth: "length (remove_nth i xs) = (if i < length xs then length xs - 1 else length xs)"
  by (auto simp: remove_nth_def)

lemma js_get_remove_nth: "js_get (remove_nth i xs) k = js_get xs (if k < i then k else Suc k)"
  by (auto simp: js_get_def remove_nth_def nth_append min_def)

lemma nth_remove_nth:
  "i < length xs \<Longrightarrow> k < length (remove_nth i xs) \<Longrightarrow> remove_nth i xs ! k = xs ! (if k < i then k else Suc k)"
  by (auto simp: remove_nth_def nth_append)

lemma sys_inv_taken:
  assumes inv: "sys_inv p S" and i: "i < length (open_of S)"
    and s2: "open_xhrs (conn s2) = remove_nth i (open_of S)" "owned s2"
      "tokenlisteners s2 = tokenlisteners (client S)" "cdata s2 = cdata (client S)"
  shows "sys_inv p (S\<lparr>client := s2, answers := remove_nth i (answers S)\<rparr>)"
proof -
  have "answer_ok p (server S) (remove_nth i (open_of S) ! k) (js_get (remove_nth i (answers S)) k)"
    if k: "k < length (remove_nth i (open_of S))" for k
  proof -
    have "(if k < i then k else Suc k) < length (open_of S)"
      using k i by (simp add: length_remove_nth) linarith
    from sys_invD(4) [OF inv this] show ?thesis
      by (simp only: js_get_remove_nth nth_remove_nth [OF i k])
  qed
  moreover have "length (remove_nth i (answers S)) \<le> length (remove_nth i (open_of S))"
    using sys_invD(3) [OF inv] i by (auto simp: length_remove_nth)
  ultimately show ?thesis
    using sys_invD(2,5) [OF inv] by (simp add: sys_inv_def s2)
qed

text \<open>The callbacks.\<close>

lemma sys_inv_aum_response:
  assumes inv: "sys_inv p S" and r: "answer_ok p (server S) x (Some r)"
    and x: "xhr_cb x = Some (UserCb (AumResponse c))"
  shows "sys_inv p (S\<lparr>client := outcome_state (aum_response_callback c (Some r) (client S))\<rparr>)"
proof (cases "mounted (client S) c")
  case False
  then show ?thesis using inv by (simp add: aum_response_callback_def)
next
  case True
  let ?s = "client S"
  let ?s1 = "?s\<lparr>cdata := (cdata ?s)(c := resp_data r)\<rparr>"
  have "tokens.at_most_once ?s1"
    using sys_invD(1) [OF inv] by (simp add: owned_def tokens.at_most_once_def)
  from unregister_outcome [OF this, of "AumDataChanged c"] obtain xs where
    xs: "unregister_token_listener (AumDataChanged c) ?s1 = Done (?s1\<lparr>tokenlisteners := xs\<rparr>)"
    "\<forall>e. Some e \<in> set xs \<longleftrightarrow> Some e \<in> set (tokenlisteners ?s1) \<and> listener e \<noteq> AumDataChanged c"
    by blast
  let ?t = "register_token_listener (AumDataChanged c) (statetoken r) (?s1\<lparr>tokenlisteners := xs\<rparr>)"
  have t: "aum_response_callback c (Some r) ?s = Done ?t"
    using True by (simp add: aum_response_callback_def xs(1))
  have "owned ?t" using owned_aum_response [OF sys_invD(1) [OF inv], of c "Some r"] by (simp add: t)
  moreover have "grows p ?s ?t" by (simp add: register_token_listener_def)
  moreover have "listener_ok p (cdata ?t) (server S) e" if e: "Some e \<in> set (tokenlisteners ?t)" for e
  proof (cases "listener e = AumDataChanged c")
    case own: True
    have "Some e \<in> set xs \<or> e = \<lparr>listener = AumDataChanged c, token = statetoken r\<rparr>"
      using e by (auto simp: register_token_listener_def js_push_def)
    with xs(2) own have "token e = statetoken r" by auto
    then show ?thesis
      using r x own by (auto simp: listener_ok_def answer_ok_def register_token_listener_def)
  next
    case other: False
    then have "Some e \<in> set xs"
      using e by (auto simp: register_token_listener_def js_push_def)
    with xs(2) have "Some e \<in> set (tokenlisteners ?s1)" by blast
    then have "Some e \<in> set (tokenlisteners ?s)" by simp
    from sys_invD(5) [OF inv this] other show ?thesis
      by (auto simp: listener_ok_def register_token_listener_def)
  qed
  ultimately show ?thesis unfolding t outcome_state.simps by (intro sys_inv_client [OF inv])
qed

lemma sys_inv_live_reload:
  assumes inv: "sys_inv p S"
  shows "sys_inv p (S\<lparr>client := outcome_state (live_reload_callback r (client S))\<rparr>)"
proof (rule sys_inv_client [OF inv])
  let ?t = "outcome_state (live_reload_callback r (client S))"
  show "owned ?t" by (rule owned_live_reload [OF sys_invD(1) [OF inv]])
  show "grows p (client S) ?t"
    by (cases r) (simp_all add: live_reload_callback_def register_token_listener_def)
  show "listener_ok p (cdata ?t) (server S) e" if "Some e \<in> set (tokenlisteners ?t)" for e
    using that sys_invD(5) [OF inv, of e]
    by (cases r) (auto simp: live_reload_callback_def register_token_listener_def js_push_def
        listener_ok_def)
qed

lemma sys_inv_reschedule:
  assumes "sys_inv p S"
  shows "sys_inv p (S\<lparr>client := outcome_state (reschedule (client S))\<rparr>)"
  by (rule sys_inv_same_listeners [OF assms _ owned_reschedule [OF sys_invD(1) [OF assms]]])
    (simp_all add: reschedule_def split: option.split bool.split)

lemma sys_inv_call_listeners:
  assumes "sys_inv p S"
  shows "sys_inv p (S\<lparr>client := fold (call_listener f p) ls (client S)\<rparr>)"
  using owned_cong [of "fold (call_listener f p) ls (client S)" "client S"] sys_invD(1) [OF assms]
  by (intro sys_inv_same_listeners [OF assms grows_call_listeners]) simp_all

lemma sys_inv_received_states:
  assumes "sys_inv p S"
  shows "sys_inv p (S\<lparr>client := outcome_state
    (reschedule (fold (call_listener f p) ls (client S)))\<rparr>)"
  using sys_inv_reschedule [OF sys_inv_call_listeners [OF assms, of f ls]] by simp

lemma sys_inv_call_back:
  assumes inv: "sys_inv p S" and x: "answer_ok p (server S) x r"
    and k: "k = CallCb cb r \<and> xhr_cb x = Some cb \<and> r \<noteq> None \<or> k = NoCall \<or> k = CallErr e"
    and run: "call_back f p k (client S) = Some out"
  shows "sys_inv p (S\<lparr>client := outcome_state out\<rparr>)"
proof (cases k)
  case NoCall
  with run inv show ?thesis by (auto simp: call_back_def)
next
  case (CallErr e')
  with run sys_inv_reschedule [OF inv] show ?thesis
    by (cases e') (auto simp: call_back_def received_error_def)
next
  case (CallCb cb' r')
  with k obtain a where a: "k = CallCb cb (Some a)" "xhr_cb x = Some cb" "r = Some a" by auto
  show ?thesis
  proof (cases cb)
    case ReceivedTokenstates
    with run a(1) sys_inv_received_states [OF inv] owned_dense [OF sys_invD(1) [OF inv]]
    show ?thesis by (auto simp: call_back_def received_states)
  next
    case (UserCb u)
    with run a x sys_inv_live_reload [OF inv] sys_inv_aum_response [OF inv] show ?thesis
      by (cases u) (auto simp: call_back_def)
  qed
qed

lemma sys_inv_deliver:
  assumes inv: "sys_inv p S" and i: "i < length (open_of S)"
    and r: "status = 200 \<and> js_get (answers S) i = r \<and> r \<noteq> None \<or> status \<noteq> 200 \<and> r = None"
    and step: "deliver_step f p i status r S = Some T"
  shows "sys_inv p T"
proof -
  let ?x = "open_of S ! i"
  let ?k = "if status = 200 then (case xhr_cb ?x of None \<Rightarrow> NoCall | Some cb \<Rightarrow> CallCb cb r)
        else (case xhr_err_cb ?x of None \<Rightarrow> NoCall | Some e \<Rightarrow> CallErr e)"
  obtain s2 where s2: "reply f p i status r (client S) = call_back f p ?k s2"
    "tokenlisteners s2 = tokenlisteners (client S)" "mounted s2 = mounted (client S)"
    "next_id s2 = next_id (client S)" "cdata s2 = cdata (client S)"
    "status_listeners (conn s2) = status_listeners (conn (client S))"
    "open_xhrs (conn s2) = remove_nth i (open_of S)"
    using reply_call_back [OF ownedD(2) [OF sys_invD(1) [OF inv]] refl] by metis
  have "owned s2" using owned_cong [of s2 "client S"] s2 sys_invD(1) [OF inv] by simp
  with inv i s2 have inv2: "sys_inv p (S\<lparr>client := s2, answers := remove_nth i (answers S)\<rparr>)"
    by (intro sys_inv_taken) simp_all
  have x: "answer_ok p (server S) ?x r"
    using sys_invD(4) [OF inv i] r by (auto simp: answer_ok_def)
  obtain out where reply: "reply f p i status r (client S) = Some out"
    and "T = S\<lparr>client := outcome_state out, answers := remove_nth i (answers S)\<rparr>"
    using step unfolding deliver_step_def by blast
  then have T: "T = S\<lparr>answers := remove_nth i (answers S), client := outcome_state out\<rparr>"
    by (cases S) simp
  have out: "call_back f p ?k s2 = Some out" using reply s2(1) by simp
  have k: "?k = CallCb (the (xhr_cb ?x)) r \<and> xhr_cb ?x = Some (the (xhr_cb ?x)) \<and> r \<noteq> None \<or>
      ?k = NoCall \<or> ?k = CallErr (the (xhr_err_cb ?x))"
    using r by (auto split: option.split)
  show ?thesis
    using sys_inv_call_back [OF inv2, of ?x r, OF _ k, of f out] x out by (simp add: T)
qed

lemma sys_inv_mount: 
  assumes "sys_inv p S"
  shows "sys_inv p (S\<lparr>client := mount f p (client S)\<rparr>)"
proof (rule sys_inv_same_listeners [OF assms _ owned_mount [OF sys_invD(1) [OF assms]]])
  let ?c = "next_id (client S)"
  let ?s = "client S\<lparr>mounted := (mounted (client S))(?c := True), next_id := Suc ?c\<rparr>"
  have "grows p (client S) ?s" by simp
  also have "grows p ?s (mount f p (client S))"
    by (simp add: mount_def aum_componentDidMount_def Let_def grows_data_changed)
  finally show "grows p (client S) (mount f p (client S))" .
qed (simp_all add: mount_def aum_componentDidMount_def Let_def)

lemma sys_inv_unmount:
  assumes inv: "sys_inv p S"
  shows "sys_inv p (S\<lparr>client := outcome_state (unmount c (client S))\<rparr>)"
proof (rule sys_inv_same_listeners [OF inv _ owned_unmount [OF sys_invD(1) [OF inv]]])
  obtain xs where "unregister_token_listener (AumDataChanged c) (client S) =
      Done (client S\<lparr>tokenlisteners := xs\<rparr>)"
    "\<forall>e. Some e \<in> set xs \<longleftrightarrow> Some e \<in> set (tokenlisteners (client S)) \<and> listener e \<noteq> AumDataChanged c"
    "tokens.at_most_once (client S\<lparr>tokenlisteners := xs\<rparr>)"
    using unregister_outcome [OF ownedD(1) [OF sys_invD(1) [OF inv]], of "AumDataChanged c"] by blast
  note xs = this
  have t: "outcome_state (unmount c (client S)) =
      client S\<lparr>tokenlisteners := xs, mounted := (mounted (client S))(c := False)\<rparr>"
    by (simp add: unmount_def aum_componentWillUnmount_def xs(1))
  show "grows p (client S) (outcome_state (unmount c (client S)))" by (simp add: t)
  show "cdata (outcome_state (unmount c (client S))) = cdata (client S)" by (simp add: t)
  have "x \<in> set (tokenlisteners (client S))" if "x \<in> set xs" for x
  proof (cases x)
    case None
    then show ?thesis using that xs(3) by (auto simp: tokens.at_most_once_def dense_def)
  next
    case (Some e)
    then show ?thesis using that xs(2) by blast
  qed
  then show "set (tokenlisteners (outcome_state (unmount c (client S)))) \<subseteq> set (tokenlisteners (client S))"
    by (auto simp: t)
qed

lemma sys_inv_timer:
  assumes inv: "sys_inv p S"
  shows "sys_inv p (S\<lparr>client := outcome_state (timer_fires f (client S))\<rparr>)"
proof (rule sys_inv_same_listeners [OF inv _ owned_timer [OF sys_invD(1) [OF inv]]])
  show "grows p (client S) (outcome_state (timer_fires f (client S)))"
  proof (cases "tick_data (tokenlisteners (client S))")
    case (Some ts)
    then show ?thesis
      by (intro growsI) (auto simp: timer_fires_def tick_def conn_request_def
          XhrConnection.request_def request_ok_def Let_def)
  qed (simp add: timer_fires_def tick_def)
qed (auto simp: timer_fires_def tick_def split: option.splits)

lemma sys_inv_step:
  assumes paths: "\<And>c. p c \<noteq> ''statetokenservice''"
  shows "sys_step f p junk S T \<Longrightarrow> sys_inv p S \<Longrightarrow> sys_inv p T"
proof (induction rule: sys_step.induct)
  case (sys_deliver i S r T)
  then show ?case using sys_inv_deliver [where status = 200] by blast
next
  case (sys_fail i S status T)
  then show ?case using sys_inv_deliver by blast
qed (auto intro: sys_inv_mount sys_inv_unmount sys_inv_timer sys_inv_update
      sys_inv_serve [OF _ _ paths])

lemma sys_inv_start:
  "server_ok srv \<Longrightarrow> sys_inv p \<lparr>client = page_load f h q, server = srv, answers = []\<rparr>"
  by (simp add: sys_inv_def owned_page_load)
    (auto simp: page_load_def start_live_reload_def api_request_def start_def
      RsApi_def RsXHRConnection_def rsapi.extend_def xhr_conn.extend_def answer_ok_def
      conn_request_def XhrConnection.request_def Let_def)

lemma sys_inv_reachable:
  assumes "\<And>c. p c \<noteq> ''statetokenservice''"
  shows "sys_reachable f p junk S \<Longrightarrow> sys_inv p S"
  by (induction rule: sys_reachable.induct)
    (auto intro: sys_inv_start sys_inv_step [OF assms])

section \<open>A run of the system\<close>

definition demo_server :: "nat server" where
  "demo_server = \<lparr>mNextToken = 2, mValidTokens = [1], mTickClients = [],
     resources = [''peers'' \<mapsto> (1, 42)]\<rparr>"

definition demo_mounted :: "(nat, nat) sys" where
  "demo_mounted = \<lparr>client = mount (\<lambda>_. ''x'') (\<lambda>_. ''peers'') (page_load (\<lambda>_. ''x'') ''h'' ''1''),
     server = demo_server, answers = []\<rparr>"

definition demo_answered :: "(nat, nat) sys" where
  "demo_answered = serve_step 0 (Suc 0) demo_mounted"

definition demo_shown :: "(nat, nat) sys" where
  "demo_shown = the (deliver_step (\<lambda>_. ''x'') (\<lambda>_. ''peers'') (Suc 0) 200
     (js_get (answers demo_answered) (Suc 0)) demo_answered)"

definition demo_polled :: "(nat, nat) sys" where
  "demo_polled = demo_shown\<lparr>client := outcome_state (timer_fires (\<lambda>_. ''x'') (client demo_shown))\<rparr>"

definition demo_updated :: "(nat, nat) sys" where
  "demo_updated = demo_polled\<lparr>server := update_resource ''peers'' 43 (server demo_polled)\<rparr>"

lemma demo_mounted_reachable: "sys_reachable (\<lambda>_. ''x'') (\<lambda>_. ''peers'') 0 demo_mounted"
proof -
  have "server_ok demo_server"
    by (auto simp: server_ok_def demo_server_def nonzero_def below_next_def split: if_splits)
  from sys_next [OF sys_start [OF this] sys_mount] show ?thesis by (simp add: demo_mounted_def)
qed

lemma demo_mounted_open:
  "map (\<lambda>x. (xhr_req x, xhr_cb x, xhr_err_cb x)) (open_of demo_mounted) =
   [(\<lparr>path = ''livereload'', data = None\<rparr>, Some (UserCb LiveReloadCb), None),
    (\<lparr>path = ''peers'', data = None\<rparr>, Some (UserCb (AumResponse 0)), None)]"
  "length (open_of demo_mounted) = 2"
  "xhr_req (open_of demo_mounted ! Suc 0) = \<lparr>path = ''peers'', data = None\<rparr>"
  "xhr_cb (open_of demo_mounted ! Suc 0) = Some (UserCb (AumResponse 0))"
  "mounted (client demo_mounted) 0" "answers demo_mounted = []"
  "tokenlisteners (client demo_mounted) = []" "timers (client demo_mounted) = [TICK_INTERVAL]"
  "status_listeners (conn (client demo_mounted)) = []" "server demo_mounted = demo_server"
  by (simp_all add: demo_mounted_def mount_def aum_componentDidMount_def aum_on_data_changed_def
      page_load_def start_live_reload_def api_request_def conn_request_def
      XhrConnection.request_def Let_def start_def RsApi_def RsXHRConnection_def rsapi.extend_def
      xhr_conn.extend_def)

lemma demo_answered_reachable:
  "sys_reachable (\<lambda>_. ''x'') (\<lambda>_. ''peers'') 0 demo_answered"
  "demo_answered = demo_mounted\<lparr>answers := [None, Some \<lparr>returncode = ''ok'', statetoken = Some 1, resp_data = Some (Resource 42)\<rparr>]\<rparr>"
proof -
  have "sys_step (\<lambda>_. ''x'') (\<lambda>_. ''peers'') 0 demo_mounted demo_answered"
    unfolding demo_answered_def by (rule sys_serve) (simp_all add: demo_mounted_open js_get_def)
  from sys_next [OF demo_mounted_reachable this]
  show "sys_reachable (\<lambda>_. ''x'') (\<lambda>_. ''peers'') 0 demo_answered" .
  show "demo_answered = demo_mounted\<lparr>answers := [None, Some \<lparr>returncode = ''ok'', statetoken = Some 1, resp_data = Some (Resource 42)\<rparr>]\<rparr>"
    by (simp add: demo_answered_def serve_step_def serve_def demo_mounted_open demo_server_def
        js_set_def token_to_json_def)
qed

lemma demo_shown_delivered:
  "deliver_step (\<lambda>_. ''x'') (\<lambda>_. ''peers'') (Suc 0) 200 (js_get (answers demo_answered) (Suc 0)) demo_answered = Some demo_shown"
  "tokenlisteners (client demo_shown) = [Some \<lparr>listener = AumDataChanged 0, token = Some 1\<rparr>]"
  "timers (client demo_shown) = [TICK_INTERVAL]" "server demo_shown = demo_server"
  "length (open_of demo_shown) = 1" "answers demo_shown = [None]"
proof -
  obtain s2 where s2: "reply (\<lambda>_. ''x'') (\<lambda>_. ''peers'') (Suc 0) 200 (js_get (answers demo_answered) (Suc 0)) (client demo_answered) =
      Some (aum_response_callback 0 (js_get (answers demo_answered) (Suc 0)) s2)"
    "tokenlisteners s2 = []" "mounted s2 = mounted (client demo_mounted)" "timers s2 = [TICK_INTERVAL]"
    "open_xhrs (conn s2) = remove_nth (Suc 0) (open_of demo_mounted)"
    using reply_call_back [of "client demo_answered" "open_of demo_answered ! Suc 0" "Suc 0" "\<lambda>_. ''x''" "\<lambda>_. ''peers''" 200
        "js_get (answers demo_answered) 1" thesis]
    by (auto simp: demo_answered_reachable(2) demo_mounted_open call_back_def dense_def)
  note run = s2 demo_answered_reachable(2) demo_mounted_open deliver_step_def js_get_def dense_def
    aum_response_callback_def unregister_token_listener_def register_token_listener_def
    match_indices_def remove_nth_def js_push_def
  show delivered: "deliver_step (\<lambda>_. ''x'') (\<lambda>_. ''peers'') (Suc 0) 200 (js_get (answers demo_answered) (Suc 0)) demo_answered = Some demo_shown"
    by (simp add: demo_shown_def deliver_step_def s2(1))
  show "tokenlisteners (client demo_shown) = [Some \<lparr>listener = AumDataChanged 0, token = Some 1\<rparr>]"
    "timers (client demo_shown) = [TICK_INTERVAL]" "server demo_shown = demo_server"
    "length (open_of demo_shown) = 1" "answers demo_shown = [None]"
    using s2(1) by (simp_all add: demo_shown_def run)
qed

lemma demo_shown_reachable: "sys_reachable (\<lambda>_. ''x'') (\<lambda>_. ''peers'') 0 demo_shown"
proof -
  have "js_get (answers demo_answered) (Suc 0) =
      Some \<lparr>returncode = ''ok'', statetoken = Some 1, resp_data = Some (Resource 42)\<rparr>"
    "Suc 0 < length (open_of demo_answered)"
    by (simp_all add: demo_answered_reachable(2) demo_mounted_open js_get_def)
  then have "sys_step (\<lambda>_. ''x'') (\<lambda>_. ''peers'') 0 demo_answered demo_shown"
    using sys_deliver demo_shown_delivered(1) by metis
  then show ?thesis by (rule sys_next [OF demo_answered_reachable(1)])
qed

lemma demo_polled_run:
  "sys_reachable (\<lambda>_. ''x'') (\<lambda>_. ''peers'') 0 demo_polled"
  "length (open_of demo_polled) = 2" "answers demo_polled = [None]" "server demo_polled = demo_server"
  "tokenlisteners (client demo_polled) = [Some \<lparr>listener = AumDataChanged 0, token = Some 1\<rparr>]"
  "xhr_cb (open_of demo_polled ! Suc 0) = Some ReceivedTokenstates"
  "data (xhr_req (open_of demo_polled ! Suc 0)) = Some (Tokens [Some 1])"
proof -
  have "sys_step (\<lambda>_. ''x'') (\<lambda>_. ''peers'') 0 demo_shown demo_polled"
    unfolding demo_polled_def by (rule sys_timer) (simp add: demo_shown_delivered)
  from sys_next [OF demo_shown_reachable this]
  show "sys_reachable (\<lambda>_. ''x'') (\<lambda>_. ''peers'') 0 demo_polled" .
qed (simp_all add: demo_polled_def timer_fires_def tick_def demo_shown_delivered conn_request_def
    XhrConnection.request_def Let_def nth_append)

lemma demo_updated_run:
  "sys_reachable (\<lambda>_. ''x'') (\<lambda>_. ''peers'') 0 demo_updated"
  "client demo_updated = client demo_polled" "answers demo_updated = [None]"
  "mValidTokens (server demo_updated) = [2]"
proof -
  have "sys_step (\<lambda>_. ''x'') (\<lambda>_. ''peers'') 0 demo_polled demo_updated"
    unfolding demo_updated_def
    by (rule sys_update) (simp add: demo_polled_run demo_server_def)
  from sys_next [OF demo_polled_run(1) this]
  show "sys_reachable (\<lambda>_. ''x'') (\<lambda>_. ''peers'') 0 demo_updated" .
qed (simp_all add: demo_updated_def demo_polled_run update_resource_def demo_server_def
    replaceToken_conv getNewToken_conv discardToken_def locked_discardToken_def)

section \<open>Properties\<close>



text \<open>What a poll returns.\<close>

definition stale :: "state_token \<Rightarrow> int option list \<Rightarrow> 'd server \<Rightarrow> state_token list" where
  "stale junk ts srv = filter (\<lambda>t. t \<notin> set (mValidTokens srv)) (map (decode_token junk) ts)"

lemma serve_poll:
  assumes "server_ok srv" "path req = ''statetokenservice''" "data req = Some (Tokens ts)"
  shows "serve junk req srv = (\<lparr>returncode = ''ok'', statetoken = None,
    resp_data = (if stale junk ts srv = [] then None
      else Some (TokenList (map (\<lambda>t. Some (token_to_json t)) (stale junk ts srv))))\<rparr>, srv)"
  using assms by (simp add: serve_def statetokenservice_def handleWildcard_def server_ok_def
      stale_def Let_def)

lemma token_states_poll:
  "token_states \<lparr>returncode = ''ok'', statetoken = None,
    resp_data = (if ts = [] then None else Some (TokenList (map g ts)))\<rparr> =
   (if ts = [] then None else Some (map g ts))"
  by (simp add: token_states_def)

lemma token_to_json_eq: "token_to_json t = token_to_json u \<longleftrightarrow> t = u"
  by (metis json_token)

lemma call_back_poll:
  "dense (tokenlisteners s) \<Longrightarrow> call_back f p (CallCb ReceivedTokenstates (Some r)) s =
    Some (reschedule (fold (call_listener f p) (case token_states r of None \<Rightarrow> []
      | Some ts \<Rightarrow> expired_listeners ts (elems (tokenlisteners s))) s))"
  by (simp add: call_back_def received_states)

lemma expired_components:
  "set (List.map_filter (\<lambda>l. case l of AumDataChanged c \<Rightarrow> Some c | _ \<Rightarrow> None)
     (expired_listeners (map (\<lambda>t. Some (token_to_json t)) us) es)) =
   {c. \<exists>t \<in> set us. \<lparr>listener = AumDataChanged c, token = Some (token_to_json t)\<rparr> \<in> set es}"
proof -
  have e: "e \<in> set es \<and> token e = a \<and> listener e = b \<longleftrightarrow>
      e = \<lparr>listener = b, token = a\<rparr> \<and> \<lparr>listener = b, token = a\<rparr> \<in> set es" for e a b
    by (cases e) auto
  have "AumDataChanged c \<in> set (expired_listeners (map (\<lambda>t. Some (token_to_json t)) us) es) \<longleftrightarrow>
      (\<exists>t \<in> set us. \<exists>e. e \<in> set es \<and> token e = Some (token_to_json t) \<and> listener e = AumDataChanged c)" for c
    unfolding expired_listeners_def by (simp add: image_iff) metis
  then show ?thesis
    by (simp only: e) (auto simp: map_filter_def split: ui_listener.splits)
qed





end
