(* ===== verification/SignalSlot.thy ===== *)
theory SignalSlot
  imports Interfaces
begin

text \<open>
  Signals and the page's address in \<open>webui/gui.jsx\<close>: \<open>signalSlotServer\<close>, \<open>SignalSlotMixin\<close> and
  the handling of the url hash, with the two kinds of callbacks the widgets connect
  (\<open>MainWidget\<close>: \<open>url_changed\<close>, \<open>AudioPlayerWidget\<close>: \<open>play_file\<close>).

  The mixin declares \<open>conected_signals: []\<close> as a property that is no function, so React puts this one
  array into the prototype of every class that uses the mixin: all instances of all classes
  push to it and read from it. It is one field of the state here.

  \<open>encode\<close> is what the browser does to a string that is assigned to \<open>location.hash\<close>.
  Component instances are numbered, \<open>setState\<close> on an instance that is not mounted does nothing.
\<close>

datatype client = ChangeUrlListener | Component nat

datatype params = Url string | PlayFile string string

datatype signal_cb = MainUrlChanged nat | PlayFileCb nat

record 'cb connected_signal =
  signal :: string
  callback :: 'cb

record ('c, 'cb) signals =
  clients :: "'c jsarr"
  conected_signals :: "'cb connected_signal jsarr"

record page = "(client, signal_cb) signals" +
  location_hash :: string
  prev_url :: string
  is_mounted :: "nat \<Rightarrow> bool"
  main_page :: "nat \<Rightarrow> string"
  audio_file :: "nat \<Rightarrow> params option"
  set_states :: "nat list"

section \<open>The signal server\<close>

definition registerClient :: "'c \<Rightarrow> ('c, 'cb, 'z) signals_scheme \<Rightarrow> ('c, 'cb, 'z) signals_scheme" where
  "registerClient c s = s\<lparr>clients := js_push (clients s) c\<rparr>"

definition unregisterClient :: "'c \<Rightarrow> ('c, 'cb, 'z) signals_scheme \<Rightarrow> ('c, 'cb, 'z) signals_scheme" where
  "unregisterClient c s =
     (let to_delete = match_indices (\<lambda>x. x = Some c) (clients s)
      in s\<lparr>clients := swap_out (clients s) to_delete\<rparr>)"

definition emitSignal ::
  "('c \<Rightarrow> string \<Rightarrow> 'p \<Rightarrow> ('c, 'cb, 'z) signals_scheme \<Rightarrow> ('c, 'cb, 'z) signals_scheme run)
   \<Rightarrow> string \<Rightarrow> 'p \<Rightarrow> ('c, 'cb, 'z) signals_scheme \<Rightarrow> ('c, 'cb, 'z) signals_scheme run" where
  "emitSignal onSignal signal_name parameters s =
     live_loop clients
       (\<lambda>x s. case x of
          None \<Rightarrow> Some (Throw TypeError s)
        | Some c \<Rightarrow> onSignal c signal_name parameters s) 0 s"

section \<open>The mixin\<close>

definition ssm_componentDidMount :: "nat \<Rightarrow> (client, 'cb, 'z) signals_scheme \<Rightarrow> (client, 'cb, 'z) signals_scheme" where
  "ssm_componentDidMount c s = registerClient (Component c) s"

definition ssm_componentWillUnmount :: "nat \<Rightarrow> (client, 'cb, 'z) signals_scheme \<Rightarrow> (client, 'cb, 'z) signals_scheme" where
  "ssm_componentWillUnmount c s = unregisterClient (Component c) s"

definition connect :: "string \<Rightarrow> 'cb \<Rightarrow> ('c, 'cb, 'z) signals_scheme \<Rightarrow> ('c, 'cb, 'z) signals_scheme" where
  "connect signal_name cb s =
     s\<lparr>conected_signals := js_push (conected_signals s) \<lparr>signal = signal_name, callback = cb\<rparr>\<rparr>"

definition ssm_onSignal ::
  "('cb \<Rightarrow> 'p \<Rightarrow> ('c, 'cb, 'z) signals_scheme \<Rightarrow> ('c, 'cb, 'z) signals_scheme run)
   \<Rightarrow> string \<Rightarrow> 'p \<Rightarrow> ('c, 'cb, 'z) signals_scheme \<Rightarrow> ('c, 'cb, 'z) signals_scheme run" where
  "ssm_onSignal call signal_name parameters s =
     live_loop conected_signals
       (\<lambda>x s. case x of
          None \<Rightarrow> Some (Throw TypeError s)
        | Some e \<Rightarrow> if signal e = signal_name then call (callback e) parameters s else Some (Done s)) 0 s"

section \<open>The callbacks of the widgets\<close>

definition setState :: "nat \<Rightarrow> (page \<Rightarrow> page) \<Rightarrow> page \<Rightarrow> page" where
  "setState c f s =
     (if is_mounted s c then (f s)\<lparr>set_states := set_states (f s) @ [c]\<rparr> else s)"

definition main_url_changed :: "nat \<Rightarrow> params \<Rightarrow> page \<Rightarrow> page outcome" where
  "main_url_changed c ps s =
     (case ps of
        Url url \<Rightarrow>
          (let url = (if length url = 0 then ''menu'' else url)
           in Done (setState c (\<lambda>s. s\<lparr>main_page := (main_page s)(c := url)\<rparr>) s))
      | PlayFile _ _ \<Rightarrow> Throw TypeError s)"

definition play_file :: "nat \<Rightarrow> params \<Rightarrow> page \<Rightarrow> page" where
  "play_file c ps s = setState c (\<lambda>s. s\<lparr>audio_file := (audio_file s)(c := Some ps)\<rparr>) s"

definition call_signal_cb :: "signal_cb \<Rightarrow> params \<Rightarrow> page \<Rightarrow> page run" where
  "call_signal_cb cb ps s =
     (case cb of
        MainUrlChanged c \<Rightarrow> Some (main_url_changed c ps s)
      | PlayFileCb c \<Rightarrow> Some (Done (play_file c ps s)))"

section \<open>The url hash\<close>

text \<open>\<open>window.location.hash.slice(1)\<close>; the hash is empty or begins with \<open>#\<close>.\<close>

definition get_hash :: "page \<Rightarrow> string" where
  "get_hash s = drop 1 (location_hash s)"

definition set_hash :: "(string \<Rightarrow> string) \<Rightarrow> string \<Rightarrow> page \<Rightarrow> page" where
  "set_hash encode url s =
     (let h = encode url in s\<lparr>location_hash := (if h = '''' then '''' else ''#'' @ h)\<rparr>)"

definition hashChanged ::
  "(client \<Rightarrow> string \<Rightarrow> params \<Rightarrow> page \<Rightarrow> page run) \<Rightarrow> page \<Rightarrow> page run" where
  "hashChanged onSignal s =
     (let url = get_hash s
      in run_then (emitSignal onSignal ''url_changed'' (Url url) s)
           (\<lambda>s. Some (Done (s\<lparr>prev_url := url\<rparr>))))"

text \<open>
  The \<open>onSignal\<close> method of a client. \<open>changeUrlListener\<close> emits another signal before it
  returns; the number bounds how deep the signals nest (\<open>None\<close>: deeper).
\<close>

fun onSignal :: "(string \<Rightarrow> string) \<Rightarrow> nat \<Rightarrow> client \<Rightarrow> string \<Rightarrow> params \<Rightarrow> page \<Rightarrow> page run" where
  "onSignal encode n (Component c) signal_name parameters s =
     ssm_onSignal call_signal_cb signal_name parameters s"
| "onSignal encode 0 ChangeUrlListener signal_name parameters s =
     (if signal_name = ''change_url'' then None else Some (Done s))"
| "onSignal encode (Suc n) ChangeUrlListener signal_name parameters s =
     (if signal_name = ''change_url'' then
        hashChanged (onSignal encode n)
          (set_hash encode (case parameters of Url u \<Rightarrow> u | PlayFile _ _ \<Rightarrow> ''undefined'') s)
      else Some (Done s))"

definition emit :: "(string \<Rightarrow> string) \<Rightarrow> string \<Rightarrow> params \<Rightarrow> page \<Rightarrow> page run" where
  "emit encode signal_name parameters s = emitSignal (onSignal encode (Suc 0)) signal_name parameters s"

text \<open>The top level of the file registers \<open>changeUrlListener\<close>.\<close>

definition signals_start :: "string \<Rightarrow> page" where
  "signals_start hash = registerClient ChangeUrlListener
     \<lparr>clients = [], conected_signals = [], location_hash = hash, prev_url = '''',
      is_mounted = (\<lambda>_. False), main_page = (\<lambda>_. ''''), audio_file = (\<lambda>_. None), set_states = []\<rparr>"

definition main_componentWillMount :: "nat \<Rightarrow> page \<Rightarrow> page" where
  "main_componentWillMount c s = connect ''url_changed'' (MainUrlChanged c) s"

definition audio_componentWillMount :: "nat \<Rightarrow> page \<Rightarrow> page" where
  "audio_componentWillMount c s = connect ''play_file'' (PlayFileCb c) s"

section \<open>The client list is a registry\<close>

lemma unregisterClient_clients:
  "clients (unregisterClient c s) =
   swap_out (clients s) (match_indices (\<lambda>x. map_option id x = Some c) (clients s))"
  by (simp add: unregisterClient_def option.map_id Let_def)

interpretation signal_clients: registry clients
    "registerClient :: 'c \<Rightarrow> ('c, 'cb, 'z) signals_scheme \<Rightarrow> ('c, 'cb, 'z) signals_scheme" id unregisterClient
proof unfold_locales
  fix e :: 'c and s :: "('c, 'cb, 'z) signals_scheme"
  show "clients (registerClient e s) = js_push (clients s) e" by (simp add: registerClient_def)
next
  fix v l :: 'c and s :: "('c, 'cb, 'z) signals_scheme"
  assume "id v \<noteq> l"
  then show "count_list (clients (unregisterClient l s)) (Some v) = count_list (clients s) (Some v)"
    unfolding unregisterClient_clients by (intro swap_out_matches_keeps_others) simp
next
  fix l :: 'c and s :: "('c, 'cb, 'z) signals_scheme"
  assume "dense (clients s)" "length (filter (\<lambda>x. map_option id x = Some l) (clients s)) \<le> 1"
  then show "mset (clients (unregisterClient l s)) =
      mset (filter (\<lambda>x. map_option id x \<noteq> Some l) (clients s))"
    unfolding unregisterClient_clients by (intro mset_swap_out_filter)
qed

section \<open>Emitting as a fold\<close>

text \<open>Every connection in the shared array belongs to one of the two signals.\<close>

definition connection_ok :: "signal_cb connected_signal \<Rightarrow> bool" where
  "connection_ok e \<longleftrightarrow> (case callback e of MainUrlChanged _ \<Rightarrow> signal e = ''url_changed''
     | PlayFileCb _ \<Rightarrow> signal e = ''play_file'')"

definition receivers :: "string \<Rightarrow> signal_cb connected_signal list \<Rightarrow> nat list" where
  "receivers sig es = map (\<lambda>e. case callback e of MainUrlChanged c \<Rightarrow> c | PlayFileCb c \<Rightarrow> c)
     (filter (\<lambda>e. signal e = sig) es)"

definition receive :: "params \<Rightarrow> nat \<Rightarrow> page \<Rightarrow> page" where
  "receive ps c s = (case ps of
     Url u \<Rightarrow> setState c (\<lambda>s. s\<lparr>main_page := (main_page s)(c := if u = '''' then ''menu'' else u)\<rparr>) s
   | PlayFile _ _ \<Rightarrow> play_file c ps s)"

definition signal_of :: "params \<Rightarrow> string" where
  "signal_of ps = (case ps of Url _ \<Rightarrow> ''url_changed'' | PlayFile _ _ \<Rightarrow> ''play_file'')"

lemma receive_frame [simp]:
  "clients (receive ps c s) = clients s" "conected_signals (receive ps c s) = conected_signals s"
  "is_mounted (receive ps c s) = is_mounted s" "location_hash (receive ps c s) = location_hash s"
  "prev_url (receive ps c s) = prev_url s"
  by (simp_all add: receive_def setState_def play_file_def split: params.split)

lemma fold_receive_frame [simp]:
  "clients (fold (receive ps) cs s) = clients s"
  "conected_signals (fold (receive ps) cs s) = conected_signals s"
  "is_mounted (fold (receive ps) cs s) = is_mounted s"
  "location_hash (fold (receive ps) cs s) = location_hash s"
  "prev_url (fold (receive ps) cs s) = prev_url s"
  by (induction cs arbitrary: s) simp_all

lemma call_signal_cb_receive:
  assumes "connection_ok e" "signal e = signal_of ps"
  shows "call_signal_cb (callback e) ps s =
    Some (Done (receive ps (case callback e of MainUrlChanged c \<Rightarrow> c | PlayFileCb c \<Rightarrow> c) s))"
  using assms
  by (auto simp: connection_ok_def signal_of_def call_signal_cb_def main_url_changed_def receive_def
      Let_def split: signal_cb.splits params.splits)

lemma onSignal_Component:
  assumes "conected_signals s = map Some es" "\<forall>e \<in> set es. connection_ok e"
  shows "onSignal encode n (Component c) (signal_of ps) ps s =
    Some (Done (fold (receive ps) (receivers (signal_of ps) es) s))"
proof -
  let ?f = "\<lambda>e s. if signal e = signal_of ps
    then receive ps (case callback e of MainUrlChanged c \<Rightarrow> c | PlayFileCb c \<Rightarrow> c) s else s"
  have "onSignal encode n (Component c) (signal_of ps) ps s = Some (Done (fold ?f es s))"
    unfolding onSignal.simps ssm_onSignal_def
    by (rule live_loop_fold [where I = "\<lambda>_. True"])
      (use assms in \<open>simp_all add: call_signal_cb_receive\<close>)
  also have "fold ?f es s = fold (receive ps) (receivers (signal_of ps) es) s"
    by (induction es arbitrary: s) (simp_all add: receivers_def)
  finally show ?thesis .
qed

text \<open>\<open>change_url\<close> is connected by nobody: only \<open>changeUrlListener\<close> reacts to it.\<close>

lemma onSignal_Component_other:
  assumes "conected_signals s = map Some es" "\<forall>e \<in> set es. connection_ok e"
  shows "onSignal encode n (Component c) ''change_url'' ps s = Some (Done s)"
proof -
  have other: "signal e \<noteq> ''change_url''" if "e \<in> set es" for e
  proof -
    have "connection_ok e" using assms(2) that by blast
    then show ?thesis by (cases "callback e") (auto simp: connection_ok_def)
  qed
  have "onSignal encode n (Component c) ''change_url'' ps s = Some (Done (fold (\<lambda>e s. s) es s))"
    unfolding onSignal.simps ssm_onSignal_def
    by (rule live_loop_fold [where I = "\<lambda>_. True"]) (use assms(1) other in simp_all)
  moreover have "fold (\<lambda>e s. s) es s = s" by (induction es) simp_all
  ultimately show ?thesis by simp
qed

text \<open>Every registered component runs all connections of all components.\<close>

definition deliver :: "params \<Rightarrow> client list \<Rightarrow> signal_cb connected_signal list \<Rightarrow> page \<Rightarrow> page" where
  "deliver ps cs es = fold (receive ps)
     (concat (replicate (length (filter (\<lambda>c. c \<noteq> ChangeUrlListener) cs)) (receivers (signal_of ps) es)))"

lemma deliver_frame [simp]:
  "clients (deliver ps cs es s) = clients s"
  "conected_signals (deliver ps cs es s) = conected_signals s"
  "is_mounted (deliver ps cs es s) = is_mounted s"
  "location_hash (deliver ps cs es s) = location_hash s"
  "prev_url (deliver ps cs es s) = prev_url s"
  by (simp_all add: deliver_def)

lemma deliver_Cons:
  "deliver ps (c # cs) es s =
   deliver ps cs es (case c of ChangeUrlListener \<Rightarrow> s
     | Component _ \<Rightarrow> fold (receive ps) (receivers (signal_of ps) es) s)"
  by (cases c) (simp_all add: deliver_def)

lemma deliver_fold:
  "fold (\<lambda>c s. case c of ChangeUrlListener \<Rightarrow> s
     | Component _ \<Rightarrow> fold (receive ps) (receivers (signal_of ps) es) s) cs s = deliver ps cs es s"
proof (induction cs arbitrary: s)
  case Nil
  then show ?case by (simp add: deliver_def)
next
  case (Cons c cs)
  then show ?case by (simp add: deliver_Cons)
qed

lemma emitSignal_deliver:
  assumes "clients s = map Some cs" "conected_signals s = map Some es"
    and "\<forall>e \<in> set es. connection_ok e"
  shows "emitSignal (onSignal encode n) (signal_of ps) ps s = Some (Done (deliver ps cs es s))"
proof -
  let ?f = "\<lambda>c s. case c of ChangeUrlListener \<Rightarrow> s
     | Component _ \<Rightarrow> fold (receive ps) (receivers (signal_of ps) es) s"
  have listener: "onSignal encode n ChangeUrlListener (signal_of ps) ps s = Some (Done s)" for s
    by (cases n) (simp_all add: signal_of_def split: params.split)
  have "emitSignal (onSignal encode n) (signal_of ps) ps s = Some (Done (fold ?f cs s))"
    unfolding emitSignal_def
    by (rule live_loop_fold [where I = "\<lambda>s. conected_signals s = map Some es"])
      (use assms in \<open>auto simp: onSignal_Component listener simp del: onSignal.simps split: client.split\<close>)
  then show ?thesis by (simp add: deliver_fold)
qed

lemma hashChanged_deliver:
  assumes "clients s = map Some cs" "conected_signals s = map Some es"
    and "\<forall>e \<in> set es. connection_ok e"
  shows "hashChanged (onSignal encode n) s =
    Some (Done ((deliver (Url (get_hash s)) cs es s)\<lparr>prev_url := get_hash s\<rparr>))"
  using emitSignal_deliver [OF assms, of encode n "Url (get_hash s)"]
  by (simp add: hashChanged_def signal_of_def Let_def)

lemma get_set_hash [simp]: "get_hash (set_hash encode u s) = encode u"
  by (simp add: get_hash_def set_hash_def Let_def)

lemma set_hash_frame [simp]:
  "clients (set_hash encode u s) = clients s" "is_mounted (set_hash encode u s) = is_mounted s"
  "conected_signals (set_hash encode u s) = conected_signals s"
  by (simp_all add: set_hash_def Let_def)

definition navigate :: "(string \<Rightarrow> string) \<Rightarrow> string \<Rightarrow> client list \<Rightarrow> signal_cb connected_signal list \<Rightarrow> page \<Rightarrow> page" where
  "navigate encode u cs es s =
     (deliver (Url (encode u)) cs es (set_hash encode u s))\<lparr>prev_url := encode u\<rparr>"

lemma navigate_frame [simp]:
  "clients (navigate encode u cs es s) = clients s" "is_mounted (navigate encode u cs es s) = is_mounted s"
  "conected_signals (navigate encode u cs es s) = conected_signals s"
  by (simp_all add: navigate_def)

lemma fold_listener:
  "distinct cs \<Longrightarrow> fold (\<lambda>c s. case c of ChangeUrlListener \<Rightarrow> g s | Component _ \<Rightarrow> s) cs s =
     (if ChangeUrlListener \<in> set cs then g s else s)"
proof (induction cs arbitrary: s)
  case (Cons c cs)
  then show ?case by (cases c) auto
qed simp

lemma emit_change_url:
  assumes "clients s = map Some cs" "conected_signals s = map Some es"
    and "\<forall>e \<in> set es. connection_ok e" and "distinct cs"
  shows "emit encode ''change_url'' (Url u) s =
    Some (Done (if ChangeUrlListener \<in> set cs then navigate encode u cs es s else s))"
proof -
  let ?f = "\<lambda>c s. case c of ChangeUrlListener \<Rightarrow> navigate encode u cs es s | Component _ \<Rightarrow> s"
  have listener: "onSignal encode (Suc 0) ChangeUrlListener ''change_url'' (Url u) s = Some (Done (navigate encode u cs es s))"
    if "clients s = map Some cs" "conected_signals s = map Some es" for s
    using hashChanged_deliver [of "set_hash encode u s" cs es encode 0] that assms(3)
    by (simp add: navigate_def)
  have "emit encode ''change_url'' (Url u) s = Some (Done (fold ?f cs s))"
    unfolding emit_def emitSignal_def
    by (rule live_loop_fold [where I = "\<lambda>s. conected_signals s = map Some es"])
      (use assms(1-3) in \<open>auto simp: onSignal_Component_other listener simp del: onSignal.simps split: client.split\<close>)
  also have "fold ?f cs s = (if ChangeUrlListener \<in> set cs then navigate encode u cs es s else s)"
    by (rule fold_listener [OF assms(4)])
  finally show ?thesis .
qed

section \<open>The life of the page\<close>

text \<open>
  React creates an instance, calls \<open>componentWillMount\<close>, marks it as mounted and calls
  \<open>componentDidMount\<close>. The other widgets with the mixin connect nothing.
\<close>

definition mount_main :: "nat \<Rightarrow> page \<Rightarrow> page" where
  "mount_main c s = ssm_componentDidMount c
     ((main_componentWillMount c
        (s\<lparr>main_page := (main_page s)(c := if get_hash s = '''' then ''menu'' else get_hash s)\<rparr>))
      \<lparr>is_mounted := (is_mounted s)(c := True)\<rparr>)"

definition mount_audio :: "nat \<Rightarrow> page \<Rightarrow> page" where
  "mount_audio c s = ssm_componentDidMount c
     ((audio_componentWillMount c (s\<lparr>audio_file := (audio_file s)(c := None)\<rparr>))
      \<lparr>is_mounted := (is_mounted s)(c := True)\<rparr>)"

definition mount_other :: "nat \<Rightarrow> page \<Rightarrow> page" where
  "mount_other c s = ssm_componentDidMount c (s\<lparr>is_mounted := (is_mounted s)(c := True)\<rparr>)"

definition unmount_signals :: "nat \<Rightarrow> page \<Rightarrow> page" where
  "unmount_signals c s = (ssm_componentWillUnmount c s)\<lparr>is_mounted := (is_mounted s)(c := False)\<rparr>"

inductive signals_step :: "(string \<Rightarrow> string) \<Rightarrow> page \<Rightarrow> page \<Rightarrow> bool" for encode where
  sig_main: "\<not> is_mounted s c \<Longrightarrow> signals_step encode s (mount_main c s)"
| sig_audio: "\<not> is_mounted s c \<Longrightarrow> signals_step encode s (mount_audio c s)"
| sig_other: "\<not> is_mounted s c \<Longrightarrow> signals_step encode s (mount_other c s)"
| sig_unmount: "is_mounted s c \<Longrightarrow> signals_step encode s (unmount_signals c s)"
| sig_change_url: "emit encode ''change_url'' (Url u) s = Some out \<Longrightarrow>
    signals_step encode s (outcome_state out)"
| sig_play: "emit encode ''play_file'' (PlayFile n h) s = Some out \<Longrightarrow>
    signals_step encode s (outcome_state out)"
| sig_hash: "hashChanged (onSignal encode (Suc 0)) (s\<lparr>location_hash := h\<rparr>) = Some out \<Longrightarrow>
    signals_step encode s (outcome_state out)"

inductive signals_reachable :: "(string \<Rightarrow> string) \<Rightarrow> page \<Rightarrow> bool" for encode where
  sig_start: "signals_reachable encode (signals_start hash)"
| sig_next: "signals_reachable encode s \<Longrightarrow> signals_step encode s t \<Longrightarrow> signals_reachable encode t"

definition signals_ok :: "page \<Rightarrow> bool" where
  "signals_ok s \<longleftrightarrow> signal_clients.at_most_once s \<and> Some ChangeUrlListener \<in> set (clients s) \<and>
     (\<forall>c. Some (Component c) \<in> set (clients s) \<longleftrightarrow> is_mounted s c) \<and>
     dense (conected_signals s) \<and> (\<forall>e. Some e \<in> set (conected_signals s) \<longrightarrow> connection_ok e)"

lemma signals_ok_cong:
  "clients t = clients s \<Longrightarrow> conected_signals t = conected_signals s \<Longrightarrow>
   is_mounted t = is_mounted s \<Longrightarrow> signals_ok t \<longleftrightarrow> signals_ok s"
  by (simp add: signals_ok_def signal_clients.at_most_once_def)

lemma signals_ok_lists:
  assumes "signals_ok s"
  shows "clients s = map Some (elems (clients s))"
    "conected_signals s = map Some (elems (conected_signals s))"
    "\<forall>e \<in> set (elems (conected_signals s)). connection_ok e"
    "distinct (elems (clients s))" "ChangeUrlListener \<in> set (elems (clients s))"
proof -
  obtain cs es where lists: "clients s = map Some cs" "conected_signals s = map Some es"
    using assms by (auto simp: signals_ok_def signal_clients.at_most_once_def dense_iff_map)
  then show "clients s = map Some (elems (clients s))"
    "conected_signals s = map Some (elems (conected_signals s))" by simp_all
  show "\<forall>e \<in> set (elems (conected_signals s)). connection_ok e" "ChangeUrlListener \<in> set (elems (clients s))"
    using assms by (simp_all add: set_elems signals_ok_def)
  have "distinct (map (map_option id) (map Some cs))"
    using assms lists(1) by (simp add: signals_ok_def signal_clients.at_most_once_def)
  then show "distinct (elems (clients s))" by (simp add: lists(1) distinct_map o_def inj_on_def)
qed

lemmas emit_navigate = emit_change_url [OF signals_ok_lists(1-4)]

lemma emit_play_file:
  "signals_ok s \<Longrightarrow> emit encode ''play_file'' (PlayFile n h) s =
    Some (Done (deliver (PlayFile n h) (elems (clients s)) (elems (conected_signals s)) s))"
  using emitSignal_deliver [OF signals_ok_lists(1-3), of s encode "Suc 0" "PlayFile n h"]
  by (simp add: emit_def signal_of_def)

lemma signals_ok_mount:
  assumes ok: "signals_ok s" and new: "\<not> is_mounted s c"
    and t: "clients t = js_push (clients s) (Component c)" "is_mounted t = (is_mounted s)(c := True)"
      "conected_signals t = conected_signals s \<or>
       (\<exists>e. connection_ok e \<and> conected_signals t = js_push (conected_signals s) e)"
  shows "signals_ok t"
proof -
  have "signal_clients.at_most_once (registerClient (Component c) s)"
    using ok new by (intro signal_clients.register_at_most_once) (auto simp: signals_ok_def)
  then have "signal_clients.at_most_once t"
    by (simp add: signal_clients.at_most_once_def registerClient_def t(1))
  moreover have "Some e \<in> set (conected_signals t) \<Longrightarrow> connection_ok e" for e
    using t(3) ok by (auto simp: js_push_def signals_ok_def)
  moreover have "dense (conected_signals t)" using t(3) ok by (auto simp: signals_ok_def)
  ultimately show ?thesis
    using ok by (auto simp: signals_ok_def t(1,2) js_push_def)
qed

lemma signals_ok_unmount:
  assumes "signals_ok s"
  shows "signals_ok (unmount_signals c s)"
proof -
  let ?t = "unregisterClient (Component c) s"
  have once: "signal_clients.at_most_once s" using assms by (simp add: signals_ok_def)
  have "set (clients ?t) = {x \<in> set (clients s). map_option id x \<noteq> Some (Component c)}"
    by (rule signal_clients.unregister_set [OF once])
  then have set: "set (clients ?t) = set (clients s) - {Some (Component c)}"
    by (auto simp: option.map_id)
  have "signal_clients.at_most_once ?t" by (rule signal_clients.unregister_at_most_once [OF once])
  then show ?thesis
    using assms set
    by (simp add: signals_ok_def unmount_signals_def ssm_componentWillUnmount_def
        signal_clients.at_most_once_def) (simp add: unregisterClient_def Let_def)
qed

lemma signals_ok_step: "signals_step encode s t \<Longrightarrow> signals_ok s \<Longrightarrow> signals_ok t"
proof (induction rule: signals_step.induct)
  case (sig_change_url u s out)
  then have "out = Done (navigate encode u (elems (clients s)) (elems (conected_signals s)) s)"
    using emit_navigate [of s encode u] signals_ok_lists(5) by force
  with sig_change_url.prems show ?case
    using signals_ok_cong [of "outcome_state out" s] by simp
next
  case (sig_play n h s out)
  then have "out = Done (deliver (PlayFile n h) (elems (clients s)) (elems (conected_signals s)) s)"
    using emit_play_file [of s encode n h] by simp
  with sig_play.prems show ?case using signals_ok_cong [of "outcome_state out" s] by simp
next
  case (sig_hash h s out)
  let ?s = "s\<lparr>location_hash := h\<rparr>"
  have ok: "signals_ok ?s" using sig_hash.prems signals_ok_cong [of ?s s] by simp
  have "out = Done ((deliver (Url (get_hash ?s)) (elems (clients s)) (elems (conected_signals s)) ?s)
      \<lparr>prev_url := get_hash ?s\<rparr>)"
    using hashChanged_deliver [OF signals_ok_lists(1-3) [OF ok], of encode "Suc 0"] sig_hash.hyps
    by simp
  with sig_hash.prems show ?case using signals_ok_cong [of "outcome_state out" s] by simp
next
  case (sig_main s c)
  have "connection_ok \<lparr>signal = ''url_changed'', callback = MainUrlChanged c\<rparr> \<and>
      conected_signals (mount_main c s) = js_push (conected_signals s) \<lparr>signal = ''url_changed'', callback = MainUrlChanged c\<rparr>"
    by (simp add: connection_ok_def mount_main_def ssm_componentDidMount_def registerClient_def
        main_componentWillMount_def connect_def)
  moreover have "clients (mount_main c s) = js_push (clients s) (Component c)"
    "is_mounted (mount_main c s) = (is_mounted s)(c := True)"
    by (simp_all add: mount_main_def ssm_componentDidMount_def registerClient_def
        main_componentWillMount_def connect_def)
  ultimately show ?case
    using signals_ok_mount [OF sig_main.prems sig_main.hyps] by blast
next
  case (sig_audio s c)
  have "connection_ok \<lparr>signal = ''play_file'', callback = PlayFileCb c\<rparr> \<and>
      conected_signals (mount_audio c s) = js_push (conected_signals s) \<lparr>signal = ''play_file'', callback = PlayFileCb c\<rparr>"
    by (simp add: connection_ok_def mount_audio_def ssm_componentDidMount_def registerClient_def
        audio_componentWillMount_def connect_def)
  moreover have "clients (mount_audio c s) = js_push (clients s) (Component c)"
    "is_mounted (mount_audio c s) = (is_mounted s)(c := True)"
    by (simp_all add: mount_audio_def ssm_componentDidMount_def registerClient_def
        audio_componentWillMount_def connect_def)
  ultimately show ?case
    using signals_ok_mount [OF sig_audio.prems sig_audio.hyps] by blast
next
  case (sig_other s c)
  then show ?case
    by (rule_tac signals_ok_mount)
      (auto simp: mount_other_def ssm_componentDidMount_def registerClient_def)
qed (rule signals_ok_unmount)

lemma signals_ok_reachable: "signals_reachable encode s \<Longrightarrow> signals_ok s"
proof (induction rule: signals_reachable.induct)
  case (sig_start hash)
  then show ?case
    by (simp add: signals_ok_def signals_start_def registerClient_def js_push_def dense_def
        signal_clients.at_most_once_def)
qed (rule signals_ok_step)

section \<open>Properties\<close>

lemma fold_receive_page:
  "is_mounted s m \<Longrightarrow> m \<in> set cs \<Longrightarrow>
   main_page (fold (receive (Url u)) cs s) m = (if u = '''' then ''menu'' else u)"
proof (induction cs arbitrary: s)
  case (Cons c cs)
  show ?case
  proof (cases "m \<in> set cs")
    case True
    with Cons show ?thesis by simp
  next
    case False
    then have "main_page (fold (receive (Url u)) cs t) m = main_page t m" for t
      by (induction cs arbitrary: t) (auto simp: receive_def setState_def)
    moreover have "m = c" using False Cons.prems(2) by simp
    moreover have "main_page (receive (Url u) m s) m = (if u = '''' then ''menu'' else u)"
      using Cons.prems(1) by (simp add: receive_def setState_def)
    ultimately show ?thesis by simp
  qed
qed simp

lemma fold_receive_log:
  "set_states (fold (receive ps) cs s) = set_states s @ filter (is_mounted s) cs"
proof (induction cs arbitrary: s)
  case (Cons c cs)
  have "set_states (receive ps c s) = set_states s @ filter (is_mounted s) [c]"
    by (simp add: receive_def play_file_def setState_def split: params.split)
  then show ?case by (simp add: Cons.IH)
qed simp

lemma deliver_log:
  "set_states (deliver ps cs es s) = set_states s @ concat (replicate
     (length (filter (\<lambda>c. c \<noteq> ChangeUrlListener) cs)) (filter (is_mounted s) (receivers (signal_of ps) es)))"
  by (simp add: deliver_def fold_receive_log filter_concat map_replicate)

text \<open>
  C10. Navigation works. In every state the page can reach, emitting \<open>change_url\<close> (which any
  widget may do) returns without an exception; afterwards the address bar holds the url, and
  every mounted \<open>MainWidget\<close> that has connected shows the page of the url, or the menu when it
  is empty. The nested signal \<open>url_changed\<close> does not nest further.
\<close>

theorem change_url_navigates:
  assumes "signals_reachable encode s" and "is_mounted s m"
    and "Some \<lparr>signal = ''url_changed'', callback = MainUrlChanged m\<rparr> \<in> set (conected_signals s)"
  shows "\<exists>t. emit encode ''change_url'' (Url u) s = Some (Done t) \<and>
    get_hash t = encode u \<and> prev_url t = encode u \<and> clients t = clients s \<and>
    main_page t m = (if encode u = '''' then ''menu'' else encode u)"
proof -
  have ok: "signals_ok s" by (rule signals_ok_reachable [OF assms(1)])
  let ?cs = "elems (clients s)" and ?es = "elems (conected_signals s)"
  let ?t = "navigate encode u ?cs ?es s"
  have run: "emit encode ''change_url'' (Url u) s = Some (Done ?t)"
    using emit_navigate [OF ok ok ok ok, of encode u] signals_ok_lists(5) [OF ok] by simp
  have "Component m \<in> set ?cs" using ok assms(2) by (simp add: signals_ok_def set_elems)
  then have "filter (\<lambda>c. c \<noteq> ChangeUrlListener) ?cs \<noteq> []" by (auto simp: filter_empty_conv)
  moreover have "m \<in> set (receivers ''url_changed'' ?es)"
    using assms(3) by (auto simp: receivers_def image_iff set_elems intro!: bexI [rotated])
  ultimately have "m \<in> set (concat (replicate (length (filter (\<lambda>c. c \<noteq> ChangeUrlListener) ?cs))
      (receivers ''url_changed'' ?es)))" by auto
  then have "main_page ?t m = (if encode u = '''' then ''menu'' else encode u)"
    using assms(2) by (simp add: navigate_def deliver_def signal_of_def fold_receive_page)
  moreover have "get_hash ?t = encode u" "prev_url ?t = encode u"
    using get_set_hash [of encode u s] by (simp_all add: navigate_def get_hash_def)
  ultimately show ?thesis using run by simp
qed

text \<open>
  The connections are not destroyed with their component. Unmounting leaves every connection
  in the shared array; when \<open>play_file\<close> is emitted, each connection runs once for every
  registered component, and each run that belongs to a mounted instance sets its state again.
\<close>

theorem connections_outlive_components:
  assumes "signals_reachable encode s"
  shows "conected_signals (unmount_signals c s) = conected_signals s \<and>
    (\<exists>t. emit encode ''play_file'' (PlayFile n h) s = Some (Done t) \<and>
      set_states t = set_states s @ concat (replicate
        (length (filter (\<lambda>c. c \<noteq> ChangeUrlListener) (elems (clients s))))
        (filter (is_mounted s) (receivers ''play_file'' (elems (conected_signals s))))))"
  using emit_play_file [OF signals_ok_reachable [OF assms], of encode n h]
  by (simp add: unmount_signals_def ssm_componentWillUnmount_def unregisterClient_def Let_def
      deliver_log signal_of_def)

section \<open>Witnesses\<close>

definition demo_page :: page where
  "demo_page = mount_other 2 (mount_audio 1 (mount_main 0 (signals_start '''')))"

lemma demo_page_reachable: "signals_reachable encode demo_page"
  unfolding demo_page_def
  by (intro sig_next [OF sig_next [OF sig_next [OF sig_start sig_main] sig_audio] sig_other])
    (simp_all add: signals_start_def mount_main_def mount_audio_def ssm_componentDidMount_def
      registerClient_def main_componentWillMount_def audio_componentWillMount_def connect_def)

lemma demo_page_fields:
  "is_mounted demo_page = (\<lambda>c. c \<in> {0, 1, 2})" "set_states demo_page = []"
  "elems (clients demo_page) = [ChangeUrlListener, Component 0, Component 1, Component 2]"
  "conected_signals demo_page = [Some \<lparr>signal = ''url_changed'', callback = MainUrlChanged 0\<rparr>,
     Some \<lparr>signal = ''play_file'', callback = PlayFileCb 1\<rparr>]"
  by (auto simp: demo_page_def signals_start_def mount_main_def mount_audio_def mount_other_def
      ssm_componentDidMount_def registerClient_def main_componentWillMount_def
      audio_componentWillMount_def connect_def js_push_def fun_eq_iff)

theorem change_url_navigates_witness:
  "\<exists>t. emit id ''change_url'' (Url ''search'') demo_page = Some (Done t) \<and> main_page t 0 = ''search''"
  using change_url_navigates [OF demo_page_reachable, of 0 id "''search''"]
  by (auto simp: demo_page_fields)

theorem connections_outlive_components_witness:
  "\<exists>t. emit id ''play_file'' (PlayFile ''a.mp3'' ''h'') demo_page = Some (Done t) \<and>
     set_states t = [1, 1, 1]"
  using connections_outlive_components [OF demo_page_reachable, of 0 id "''a.mp3''" "''h''"]
  by (auto simp: demo_page_fields receivers_def numeral_2_eq_2)

end
