(* ===== verification/UiTypes.thy ===== *)
theory UiTypes
  imports Dom SignalSlot
begin

text \<open>
  What the widgets of \<open>webui/gui.jsx\<close> share: the values that travel in requests, what an event
  handler does, and what a \<open>render\<close> function may do.

  A handler is a function from the state of its component to the new state and the list of its
  effects in order: requests (with the callback it passes, named by a datatype of the widget) and
  signals. \<open>render\<close> returns an element, \<open>undefined\<close> (\<open>None\<close>), or throws.
\<close>

datatype json =
    JNull
  | JBool bool
  | JNum int
  | JStr string
  | JArr "json list"
  | JObj "(string \<times> json) list"

datatype 'cb effect =
    Request string "json option" "'cb option"
  | Emit string params

type_synonym 'a throws = "js_error + 'a"

text \<open>String concatenation turns \<open>undefined\<close> into a word.\<close>

definition js_str :: "string option \<Rightarrow> string" where
  "js_str x = (case x of None \<Rightarrow> ''undefined'' | Some s \<Rightarrow> s)"

lemma js_str_simps [simp]: "js_str None = ''undefined''" "js_str (Some s) = s"
  by (simp_all add: js_str_def)

text \<open>The paths of the requests among some effects.\<close>

definition request_paths :: "'cb effect list \<Rightarrow> string list" where
  "request_paths es = List.map_filter (\<lambda>e. case e of Request p _ _ \<Rightarrow> Some p | Emit _ _ \<Rightarrow> None) es"

lemma request_paths_simps [simp]:
  "request_paths [] = []"
  "request_paths (Request p d c # es) = p # request_paths es"
  "request_paths (Emit n ps # es) = request_paths es"
  by (simp_all add: request_paths_def List.map_filter_def)


end
