(* ===== verification/PeersWidgets.thy ===== *)
theory PeersWidgets
  imports UiTypes
begin

text \<open>
  The friend list and the dialogue that adds a friend (\<open>Peers2\<close>, \<open>Peers3\<close>, \<open>OwnCert\<close> and
  \<open>AddPeerWidget\<close> of \<open>webui/gui.jsx\<close>). \<open>api_url\<close> is the variable of that name. A field the
  backend may leave out is an option (\<open>None\<close>: \<open>undefined\<close>).
\<close>

record peer_location =
  location :: string
  peer_id :: string
  is_online :: bool
  avatar_address :: "string option"

record peer =
  peer_name :: string
  pgp_id :: string
  locations :: "peer_location list"

datatype peers_comp = Peer string peer

datatype peers_handler = AddFriend | RemovePeer peer

definition peers_getPath :: string where
  "peers_getPath = ''peers''"

definition add_friend_handler :: "unit effect list" where
  "add_friend_handler = [Emit ''change_url'' (Url ''add_friend'')]"

text \<open>\<open>yes\<close> is what the user answers to \<open>window.confirm\<close>.\<close>

definition remove_peer_handler :: "bool \<Rightarrow> peer \<Rightarrow> unit effect list" where
  "remove_peer_handler yes d =
     (if yes then [Request (peers_getPath @ ''/'' @ pgp_id d @ ''/delete'') None None] else [])"

section \<open>\<open>Peers2\<close>\<close>

definition online_style :: "peer_location \<Rightarrow> (string \<times> string) list" where
  "online_style loc =
     [(''width'', ''1em''), (''height'', ''1em''), (''borderRadius'', ''0.5em''),
      (''backgroundColor'', if is_online loc then ''lime'' else ''grey'')]"

definition peers2_Peer_render :: "string \<Rightarrow> peer \<Rightarrow> (peers_comp, peers_handler) vdom" where
  "peers2_Peer_render api_url d =
     (let locs = map (\<lambda>loc. El ''li'' [(''key'', Str (peer_id loc))]
            [Text (location loc), Text '' '', El ''div'' [(''style'', Style (online_style loc))] []])
            (locations d);
          avatar_url = (if length (locations d) > 0 \<and> avatar_address (locations d ! 0) \<noteq> Some ''''
            then api_url @ peers_getPath @ js_str (avatar_address (locations d ! 0)) else '''');
          remove_button = El ''div''
            [(''onClick'', On (RemovePeer d)),
             (''style'', Style [(''color'', ''red''), (''fontSize'', ''1.5em''), (''padding'', ''0.2em''),
                (''cursor'', ''pointer'')])] [Text ''X'']
      in El ''tr'' []
        [El ''td'' [] [El ''img'' [(''src'', Str avatar_url)] []],
         El ''td'' [] [Text (peer_name d)],
         El ''td'' [] [El ''ul'' [] locs],
         El ''td'' [] [remove_button]])"

text \<open>\<open>this.state.data\<close> is \<open>undefined\<close> after a response without data.\<close>

definition peers2_render :: "peer list option \<Rightarrow> (peers_comp, peers_handler) vdom throws" where
  "peers2_render dat =
     (case dat of
        None \<Rightarrow> Inl TypeError
      | Some ps \<Rightarrow> Inr (El ''div'' []
          [El ''div'' [(''onClick'', On AddFriend), (''className'', Str ''btn2'')] [Text ''+ add friend''],
           El ''table'' []
             (El ''tr'' [] [El ''th'' [] [Text ''avatar''], El ''th'' [] [Text '' name ''],
                El ''th'' [] [Text '' locations''], El ''th'' [] []]
              # map (\<lambda>p. Comp (Peer (peer_name p) p)) ps)]))"

section \<open>\<open>Peers3\<close>\<close>

definition lime_or_grey :: "bool \<Rightarrow> string" where
  "lime_or_grey on = (if on then ''lime'' else ''grey'')"

definition peers3_avatar :: "string \<Rightarrow> peer_location \<Rightarrow> (peers_comp, peers_handler) vdom" where
  "peers3_avatar api_url loc =
     (if is_online loc \<and> avatar_address loc \<noteq> Some '''' then
        El ''img'' [(''style'', Style [(''borderRadius'', ''3mm''), (''margin'', ''2mm'')]),
          (''src'', Str (api_url @ peers_getPath @ js_str (avatar_address loc)))] []
      else El ''span'' [] [])"

text \<open>The loop \<open>for(var i in locations)\<close>.\<close>

fun any_online :: "peer_location list \<Rightarrow> bool \<Rightarrow> bool" where
  "any_online [] b = b"
| "any_online (loc # locs) b = any_online locs (if is_online loc then True else b)"

definition peers3_Peer_render :: "string \<Rightarrow> peer \<Rightarrow> (peers_comp, peers_handler) vdom" where
  "peers3_Peer_render api_url d =
     (let locs = map (\<lambda>loc. El ''div''
            [(''key'', Str (peer_id loc)), (''style'', Style [(''color'', lime_or_grey (is_online loc))])]
            [Text (location loc)]) (locations d);
          avatars = map (peers3_avatar api_url) (locations d);
          remove_button = El ''div''
            [(''onClick'', On (RemovePeer d)),
             (''style'', Style [(''color'', ''red''), (''fontSize'', ''10mm''), (''padding'', ''0.2em''),
                (''cursor'', ''pointer'')])] [Text ''X''];
          online = any_online (locations d) False
      in El ''div'' [(''className'', Str ''flexbox''), (''style'', Style [(''color'', lime_or_grey online)])]
        [El ''div'' [] avatars,
         El ''div'' [(''className'', Str ''flexwidemember'')]
           [El ''h1'' [(''style'', Style [(''marginBottom'', ''1mm'')])] [Text (peer_name d)],
            El ''div'' [] locs],
         remove_button])"

definition peers3_render :: "peer list option \<Rightarrow> (peers_comp, peers_handler) vdom throws" where
  "peers3_render dat =
     (case dat of
        None \<Rightarrow> Inl TypeError
      | Some ps \<Rightarrow> Inr (El ''div'' []
          (El ''div'' [(''onClick'', On AddFriend), (''className'', Str ''btn2'')] [Text ''+ add friend'']
           # map (\<lambda>p. Comp (Peer (pgp_id p) p)) ps)))"

section \<open>\<open>OwnCert\<close>\<close>

definition own_cert_getPath :: string where
  "own_cert_getPath = ''peers/self/certificate''"

text \<open>\<open>data\<close>: the object, with its \<open>cert_string\<close>.\<close>

definition own_cert_render :: "string option option \<Rightarrow> (unit, unit) vdom throws" where
  "own_cert_render dat =
     (case dat of
        None \<Rightarrow> Inl TypeError
      | Some cert \<Rightarrow> Inr (El ''pre'' [] (case cert of None \<Rightarrow> [] | Some c \<Rightarrow> [Text c])))"

section \<open>\<open>AddPeerWidget\<close>\<close>

record examined =
  examined_name :: "string option"

record add_peer =
  ap_page :: string
  ap_cert_string :: "string option"
  ap_data :: "examined option"

datatype add_peer_cb = ExamineCertCallback

datatype add_peer_comp = OwnCert

datatype add_peer_handler = ReadKey | FinalAdd

definition add_peer_getInitialState :: add_peer where
  "add_peer_getInitialState = \<lparr>ap_page = ''start'', ap_cert_string = None, ap_data = None\<rparr>"

text \<open>\<open>cert\<close> is the value of the text area.\<close>

definition add_peer_add_friend_handler ::
  "string option \<Rightarrow> add_peer \<Rightarrow> add_peer \<times> add_peer_cb effect list" where
  "add_peer_add_friend_handler cert s =
     (case cert of
        None \<Rightarrow> (s, [])
      | Some c \<Rightarrow>
          (s\<lparr>ap_page := ''waiting'', ap_cert_string := Some c\<rparr>,
           [Request ''peers/examine_cert'' (Some (JObj [(''cert_string'', JStr c)])) (Some ExamineCertCallback)]))"

text \<open>The response: \<open>undefined\<close>, or an object whose \<open>data\<close> may be missing.\<close>

definition examine_cert_callback :: "examined option option \<Rightarrow> add_peer \<Rightarrow> add_peer throws" where
  "examine_cert_callback resp s =
     (case resp of
        None \<Rightarrow> Inl TypeError
      | Some d \<Rightarrow> Inr (s\<lparr>ap_page := ''peer'', ap_data := d\<rparr>))"

text \<open>
  \<open>direct\<close> and \<open>push\<close> are the check boxes. \<open>setState\<close> in an event handler takes effect when the
  handler has returned. A \<open>cert_string\<close> that is \<open>undefined\<close> is left out by \<open>JSON.stringify\<close>.
\<close>

definition final_add_handler ::
  "bool \<Rightarrow> bool \<Rightarrow> add_peer \<Rightarrow> add_peer \<times> add_peer_cb effect list" where
  "final_add_handler direct push s =
     (s\<lparr>ap_page := ''start''\<rparr>,
      [Request ''peers'' (Some (JObj
         ((case ap_cert_string s of None \<Rightarrow> [] | Some c \<Rightarrow> [(''cert_string'', JStr c)]) @
          [(''flags'', JObj [(''allow_direct_download'', JBool direct), (''allow_push'', JBool push),
             (''require_whitelist'', JBool False)])]))) None])"

definition add_peer_render :: "add_peer \<Rightarrow> (add_peer_comp, add_peer_handler) vdom option throws" where
  "add_peer_render s =
     (if ap_page s = ''start'' then Inr (Some (El ''div'' []
        [El ''p'' [] [Text ''Your own key, give it to your friends''],
         Comp OwnCert,
         El ''p'' [] [Text ''paste your friends key below''],
         El ''textarea'' [(''ref'', Str ''cert''), (''cols'', Str ''70''), (''rows'', Str ''16'')] [],
         El ''br'' [] [],
         El ''input'' [(''type'', Str ''button''), (''value'', Str ''read key''), (''onClick'', On ReadKey)] []]))
      else if ap_page s = ''waiting'' then Inr (Some (El ''div'' [] [Text ''waiting for response from server...'']))
      else if ap_page s = ''peer'' then
        (case ap_data s of
           None \<Rightarrow> Inl TypeError
         | Some d \<Rightarrow> Inr (Some (El ''div'' []
             [El ''p'' [] (Text ''Do you want to add '' #
                (case examined_name d of None \<Rightarrow> [] | Some n \<Rightarrow> [Text n]) @ [Text '' to your friendslist?'']),
              El ''input'' [(''className'', Str ''checkbox''), (''type'', Str ''checkbox''), (''ref'', Str ''cb_direct_dl'')] [],
              Text '' Allow direct downloads from this node'', El ''br'' [] [],
              El ''input'' [(''className'', Str ''checkbox''), (''type'', Str ''checkbox''), (''ref'', Str ''cb_push'')] [],
              Text '' Auto download recommended files from this node'', El ''br'' [] [],
              El ''div'' [(''onClick'', On FinalAdd), (''className'', Str ''btn2'')] [Text ''add to friendslist'']])))
      else Inr None)"

section \<open>Lemmas\<close>

lemma any_online_iff [simp]: "any_online locs b \<longleftrightarrow> b \<or> (\<exists>loc \<in> set locs. is_online loc)"
  by (induction locs b rule: any_online.induct) auto

lemma concat_single: "concat (map (\<lambda>x. [f x]) xs) = map f xs"
  by (induction xs) simp_all

lemma concat_empty: "concat (map (\<lambda>x. []) xs) = []"
  by (induction xs) simp_all

lemmas row_simps = Let_def o_def concat_single concat_empty

lemma sources_avatar [simp]:
  "sources (peers3_avatar api_url loc) =
   (if is_online loc \<and> avatar_address loc \<noteq> Some ''''
    then [api_url @ ''peers'' @ js_str (avatar_address loc)] else [])"
  "texts (peers3_avatar api_url loc) = []" "handlers (peers3_avatar api_url loc) = []"
  by (simp_all add: peers3_avatar_def peers_getPath_def)

lemma concat_filter: "concat (map (\<lambda>x. if P x then [f x] else []) xs) = map f (filter P xs)"
  by (induction xs) simp_all

section \<open>Properties\<close>

text \<open>
  The friend list. With the list of peers it renders one entry per peer, in order, with
  the PGP id as its key, and one button that goes to the add-friend page. The entry of a peer
  shows its name, then the name of every location; it is lime exactly if some location is
  online; it shows the avatars of exactly the online locations whose avatar address is not
  empty; its only handler deletes this peer, and does so only if the user says yes. Without the
  list it throws.
\<close>

theorem peers3_shows_friends:
  "(\<exists>v. peers3_render (Some ps) = Inr v \<and> comps v = map (\<lambda>p. Peer (pgp_id p) p) ps \<and>
     handlers v = [(''onClick'', AddFriend)]) \<and>
   peers3_render None = Inl TypeError \<and>
   texts (peers3_Peer_render u d) = peer_name d # map location (locations d) @ [''X''] \<and>
   sources (peers3_Peer_render u d) =
     map (\<lambda>loc. u @ ''peers'' @ js_str (avatar_address loc))
       (filter (\<lambda>loc. is_online loc \<and> avatar_address loc \<noteq> Some '''') (locations d)) \<and>
   (\<exists>cs. peers3_Peer_render u d = El ''div'' [(''className'', Str ''flexbox''),
      (''style'', Style [(''color'', if \<exists>loc \<in> set (locations d). is_online loc then ''lime'' else ''grey'')])] cs) \<and>
   handlers (peers3_Peer_render u d) = [(''onClick'', RemovePeer d)] \<and>
   request_paths (remove_peer_handler yes d) = (if yes then [''peers/'' @ pgp_id d @ ''/delete''] else [])"
proof -
  have "texts (peers3_Peer_render u d) = peer_name d # map location (locations d) @ [''X'']"
    by (simp add: peers3_Peer_render_def row_simps)
  moreover have "sources (peers3_Peer_render u d) =
     map (\<lambda>loc. u @ ''peers'' @ js_str (avatar_address loc))
       (filter (\<lambda>loc. is_online loc \<and> avatar_address loc \<noteq> Some '''') (locations d))"
    by (simp add: peers3_Peer_render_def row_simps concat_filter)
  moreover have "handlers (peers3_Peer_render u d) = [(''onClick'', RemovePeer d)]"
    by (simp add: peers3_Peer_render_def row_simps)
  ultimately show ?thesis
    by (simp add: peers3_render_def row_simps peers3_Peer_render_def lime_or_grey_def
        remove_peer_handler_def peers_getPath_def)
qed

text \<open>
  Adding a friend. From any state: after \<open>read key\<close> with a text, and the answer to the
  examination it requests, the dialogue shows one button; that button sends exactly the text
  that was examined, with the two check boxes and no whitelist requirement, and returns the
  dialogue to its start, whose only button is \<open>read key\<close> again.
\<close>

theorem add_peer_sends_examined_cert:
  "\<exists>s1 s2 s3 v w.
     add_peer_add_friend_handler (Some c) s =
       (s1, [Request ''peers/examine_cert'' (Some (JObj [(''cert_string'', JStr c)])) (Some ExamineCertCallback)]) \<and>
     examine_cert_callback (Some (Some d)) s1 = Inr s2 \<and>
     add_peer_render s2 = Inr (Some v) \<and> handlers v = [(''onClick'', FinalAdd)] \<and>
     refs v = [''cb_direct_dl'', ''cb_push''] \<and>
     final_add_handler direct push s2 = (s3, [Request ''peers'' (Some (JObj
       [(''cert_string'', JStr c), (''flags'', JObj [(''allow_direct_download'', JBool direct),
          (''allow_push'', JBool push), (''require_whitelist'', JBool False)])])) None]) \<and>
     add_peer_render s3 = Inr (Some w) \<and> handlers w = [(''onClick'', ReadKey)] \<and> refs w = [''cert'']"
  by (cases "examined_name d")
    (simp_all add: add_peer_add_friend_handler_def examine_cert_callback_def final_add_handler_def
      add_peer_render_def)

end
