(* ===== verification/JsNumber.thy ===== *)
theory JsNumber
  imports Complex_Main Prelude
begin

text \<open>
  JavaScript numbers as far as \<open>webui/gui.jsx\<close> computes with them. A finite number is a rational;
  \<open>fl\<close> rounds a rational to the nearest double (53 bits of significand, ties to even), for
  exponents far from overflow and underflow. \<open>toFixed1\<close> is \<open>toFixed(1)\<close> below \<open>1e21\<close>, \<open>decimal\<close> is
  the decimal notation of a natural number.
\<close>

section \<open>Rounding to a double\<close>

text \<open>The binary exponent, found by halving and doubling; 1100 steps cover all doubles.\<close>

fun expo :: "nat \<Rightarrow> rat \<Rightarrow> int" where
  "expo 0 x = 0"
| "expo (Suc n) x = (if 2 \<le> x then expo n (x / 2) + 1 else if x < 1 then expo n (x * 2) - 1 else 0)"

definition half_even :: "rat \<Rightarrow> int" where
  "half_even y = (let f = \<lfloor>y\<rfloor>; d = y - of_int f
     in if d < 1 / 2 then f else if 1 / 2 < d then f + 1 else if even f then f else f + 1)"

definition fl_pos :: "rat \<Rightarrow> rat" where
  "fl_pos x = (let u = 2 powi (expo 1100 x - 52) in of_int (half_even (x / u)) * u)"

definition fl :: "rat \<Rightarrow> rat" where
  "fl x = (if x = 0 then 0 else if x < 0 then - fl_pos (- x) else fl_pos x)"

lemma half_even_error: "\<bar>of_int (half_even y) - y\<bar> \<le> 1 / 2"
proof -
  define f where "f = \<lfloor>y\<rfloor>"
  have "of_int f \<le> y" "y < of_int f + 1" unfolding f_def by linarith+
  then show ?thesis unfolding half_even_def f_def [symmetric] Let_def by (auto simp: abs_if)
qed

lemma expo_le: "1 \<le> x \<Longrightarrow> x < 2 ^ n \<Longrightarrow> 2 powi (expo n x) \<le> x"
proof (induction n arbitrary: x)
  case (Suc n)
  show ?case
  proof (cases "2 \<le> x")
    case True
    with Suc.prems have "2 powi (expo n (x / 2)) \<le> x / 2" by (intro Suc.IH) simp_all
    moreover have "2 powi (expo n (x / 2) + 1) = (2 :: rat) powi (expo n (x / 2)) * 2"
      by (simp add: power_int_add)
    ultimately show ?thesis using True by simp
  next
    case False
    with Suc.prems show ?thesis by simp
  qed
qed simp

lemma fl_error:
  assumes "1 \<le> x" "x < 2 ^ 1100"
  shows "\<bar>fl x - x\<bar> \<le> x / 2 ^ 53"
proof -
  let ?u = "2 powi (expo 1100 x - 52) :: rat"
  have u: "0 < ?u" by simp
  have "\<bar>of_int (half_even (x / ?u)) * ?u - x\<bar> = \<bar>of_int (half_even (x / ?u)) - x / ?u\<bar> * ?u"
    using u by (simp add: abs_if field_simps)
  also have "\<dots> \<le> 1 / 2 * ?u" using half_even_error u by (intro mult_right_mono) simp_all
  also have "1 / 2 * ?u = 2 powi (expo 1100 x) / 2 ^ 53"
    by (simp add: power_int_diff)
  also have "\<dots> \<le> x / 2 ^ 53" using expo_le [OF assms] by (simp add: divide_right_mono)
  finally show ?thesis using assms(1) by (simp add: fl_def fl_pos_def Let_def)
qed

section \<open>Decimal notation\<close>

definition digit :: "nat \<Rightarrow> char" where
  "digit k = char_of (48 + k)"

fun decimal :: "nat \<Rightarrow> string" where
  "decimal n = (if n < 10 then [digit n] else decimal (n div 10) @ [digit (n mod 10)])"

declare decimal.simps [simp del]

text \<open>\<open>n\<close> tenths.\<close>

definition tenths :: "nat \<Rightarrow> string" where
  "tenths n = decimal (n div 10) @ ''.'' @ decimal (n mod 10)"

text \<open>The integer \<open>n\<close> for which \<open>n / 10 - x\<close> is closest to 0, the larger one of two.\<close>

definition round_tenths :: "rat \<Rightarrow> nat" where
  "round_tenths x = nat \<lfloor>x * 10 + 1 / 2\<rfloor>"

definition toFixed1 :: "rat \<Rightarrow> string" where
  "toFixed1 x = (if x < 0 then ''-'' @ tenths (round_tenths (- x)) else tenths (round_tenths x))"

lemma round_tenths_error:
  assumes "0 \<le> x"
  shows "\<bar>of_nat (round_tenths x) / 10 - x\<bar> \<le> 1 / 20"
proof -
  define f where "f = \<lfloor>x * 10 + 1 / 2\<rfloor>"
  have "of_int f \<le> x * 10 + 1 / 2" "x * 10 + 1 / 2 < of_int f + 1" unfolding f_def by linarith+
  moreover have "of_nat (round_tenths x) = (of_int f :: rat)"
    using assms by (simp add: round_tenths_def f_def of_nat_nat)
  ultimately show ?thesis by (simp add: abs_if)
qed

end
