(* ===== verification/TransferWidgets.thy ===== *)
theory TransferWidgets
  imports UiTypes JsNumber
begin

text \<open>
  Downloads and the file search of \<open>webui/gui.jsx\<close>: \<open>ProgressBar\<close>, \<open>makeFriendlyUnit\<close>,
  \<open>DownloadsWidget\<close>, \<open>SearchWidget\<close>, \<open>AudioPlayerWidget\<close>. \<open>number_str\<close> is the conversion of a number
  to a string (\<open>Number.prototype.toString\<close>).
\<close>

datatype number = Finite rat | Infinite | NaN

text \<open>Division of two numbers that are not negative.\<close>

definition js_div :: "rat \<Rightarrow> rat \<Rightarrow> number" where
  "js_div x y = (if y = 0 then if x = 0 then NaN else Infinite else Finite (fl (x / y)))"

definition js_times :: "number \<Rightarrow> rat \<Rightarrow> number" where
  "js_times n y = (case n of Finite x \<Rightarrow> Finite (fl (x * y)) | Infinite \<Rightarrow> Infinite | NaN \<Rightarrow> NaN)"

definition progress_bar_render :: "(number \<Rightarrow> string) \<Rightarrow> number \<Rightarrow> (unit, unit) vdom" where
  "progress_bar_render number_str progress =
     El ''div'' [(''style'', Style [(''borderStyle'', ''solid''), (''borderColor'', ''lime''),
         (''borderRadius'', ''3mm''), (''padding'', ''2mm''), (''height'', ''10mm'')])]
       [El ''div'' [(''style'', Style [(''backgroundColor'', ''lime''), (''height'', ''100%''),
          (''width'', number_str (js_times progress 100) @ ''%'')])] []]"

definition makeFriendlyUnit :: "rat \<Rightarrow> string" where
  "makeFriendlyUnit bytes =
     (if bytes < 10 ^ 3 then toFixed1 bytes @ ''B''
      else if bytes < 10 ^ 6 then toFixed1 (fl (bytes / 10 ^ 3)) @ ''kB''
      else if bytes < 10 ^ 9 then toFixed1 (fl (bytes / 10 ^ 6)) @ ''MB''
      else if bytes < 10 ^ 12 then toFixed1 (fl (bytes / 10 ^ 9)) @ ''GB''
      else toFixed1 (fl (bytes / 10 ^ 12)) @ ''TB'')"

section \<open>\<open>DownloadsWidget\<close>\<close>

record download =
  dl_id :: string
  dl_hash :: string
  dl_name :: string
  dl_size :: rat
  dl_transfered :: rat
  dl_transfer_rate :: rat
  dl_download_status :: string

datatype downloads_comp = DL string download | ProgressBar number

datatype downloads_handler = StartFn download | PauseFn download | CancelFn download | PlayFn download

datatype log_cb = LogCb string

definition downloads_getPath :: string where
  "downloads_getPath = ''transfers/downloads''"

definition control_download :: "string \<Rightarrow> download \<Rightarrow> log_cb effect list" where
  "control_download action file =
     [Request ''transfers/control_download''
        (Some (JObj [(''action'', JStr action), (''id'', JStr (dl_id file))]))
        (Some (LogCb (action @ '' dl callback'')))]"

definition startFn :: "download \<Rightarrow> log_cb effect list" where
  "startFn file = control_download ''start'' file"

definition pauseFn :: "download \<Rightarrow> log_cb effect list" where
  "pauseFn file = control_download ''pause'' file"

definition cancelFn :: "download \<Rightarrow> log_cb effect list" where
  "cancelFn file = control_download ''cancel'' file"

definition playFn :: "download \<Rightarrow> log_cb effect list" where
  "playFn file = [Emit ''play_file'' (PlayFile (dl_name file) (dl_hash file))]"

definition downloads_handle :: "downloads_handler \<Rightarrow> log_cb effect list" where
  "downloads_handle h = (case h of StartFn f \<Rightarrow> startFn f | PauseFn f \<Rightarrow> pauseFn f
     | CancelFn f \<Rightarrow> cancelFn f | PlayFn f \<Rightarrow> playFn f)"

text \<open>\<open>name.slice(-3)\<close>\<close>

definition slice_last3 :: "string \<Rightarrow> string" where
  "slice_last3 s = drop (length s - 3) s"

definition dl_render :: "download \<Rightarrow> (downloads_comp, downloads_handler) vdom" where
  "dl_render file =
     (let playBtn = (if slice_last3 (dl_name file) = ''mp3''
            then El ''div'' [(''className'', Str ''btn''), (''onClick'', On (PlayFn file))] [Text ''play'']
            else El ''div'' [] []);
          ctrlBtn = (if dl_download_status file = ''paused''
            then El ''div'' [(''className'', Str ''btn''), (''onClick'', On (StartFn file))] [Text ''start'']
            else El ''div'' [(''className'', Str ''btn''), (''onClick'', On (PauseFn file))] [Text ''pause''])
      in El ''tr'' []
        [El ''td'' [] [Text (dl_name file)],
         El ''td'' [] [Text (makeFriendlyUnit (dl_size file))],
         El ''td'' [] [Comp (ProgressBar (js_div (dl_transfered file) (dl_size file)))],
         El ''td'' [] [Text (makeFriendlyUnit (fl (dl_transfer_rate file * 10 ^ 3))), Text ''/s''],
         El ''td'' [] [Text (dl_download_status file)],
         El ''td'' [] [ctrlBtn, Text '' '',
           El ''div'' [(''className'', Str ''btn''), (''onClick'', On (CancelFn file))] [Text ''cancel''],
           Text '' '', playBtn]])"

definition downloads_render :: "download list option \<Rightarrow> (downloads_comp, downloads_handler) vdom throws" where
  "downloads_render dat =
     (case dat of
        None \<Rightarrow> Inl TypeError
      | Some dls \<Rightarrow> Inr (El ''table'' []
          (El ''tr'' [] (map (\<lambda>h. El ''th'' [] [Text h])
             [''name'', ''size'', ''completed'', ''transfer rate'', ''download status'', ''actions''])
           # map (\<lambda>dl. Comp (DL (dl_hash dl) dl)) dls)))"

section \<open>\<open>SearchWidget\<close>\<close>

record found_file =
  ff_id :: string
  ff_name :: string
  ff_size :: rat
  ff_hash :: string

datatype search_cb = OnCreateSearchResponse

datatype search_comp = ResultList string

datatype search_handler = HandleSearch

datatype result_comp = File string found_file

datatype file_handler = StartDownload found_file

definition search_getInitialState :: "string option" where
  "search_getInitialState = None"

definition handleSearch :: "string \<Rightarrow> search_cb effect list" where
  "handleSearch search_string =
     [Request ''filesearch/create_search''
        (Some (JObj [(''distant'', JBool True), (''search_string'', JStr search_string)]))
        (Some OnCreateSearchResponse)]"

text \<open>The response: \<open>undefined\<close>, or an object without data, or with data that may lack an id.\<close>

definition onCreateSearchResponse ::
  "bool \<Rightarrow> string option option option \<Rightarrow> string option \<Rightarrow> string option throws" where
  "onCreateSearchResponse mounted resp search_id =
     (if mounted then
        (case resp of
           None \<Rightarrow> Inl TypeError
         | Some None \<Rightarrow> Inl TypeError
         | Some (Some new_id) \<Rightarrow> Inr new_id)
      else Inr search_id)"

definition result_list_getPath :: "string \<Rightarrow> string" where
  "result_list_getPath search_id = ''filesearch/'' @ search_id"

text \<open>A size is sent as the number it is; sizes are integers.\<close>

definition start_download :: "found_file \<Rightarrow> log_cb effect list" where
  "start_download fileinfo =
     [Request ''transfers/control_download''
        (Some (JObj [(''action'', JStr ''begin''), (''name'', JStr (ff_name fileinfo)),
           (''size'', JNum \<lfloor>ff_size fileinfo\<rfloor>), (''hash'', JStr (ff_hash fileinfo))])) None]"

definition file_render :: "(number \<Rightarrow> string) \<Rightarrow> found_file \<Rightarrow> (result_comp, file_handler) vdom" where
  "file_render number_str file =
     El ''tr'' []
       [El ''td'' [] [Text (ff_name file)],
        El ''td'' [] [Text (number_str (Finite (ff_size file)))],
        El ''td'' [] [El ''span'' [(''onClick'', On (StartDownload file)), (''className'', Str ''btn'')]
          [Text ''download'']]]"

definition result_list_render :: "found_file list option \<Rightarrow> (result_comp, file_handler) vdom throws" where
  "result_list_render dat =
     (case dat of
        None \<Rightarrow> Inl TypeError
      | Some files \<Rightarrow> Inr (El ''table'' []
          (El ''tr'' [] [El ''th'' [] [Text ''name''], El ''th'' [] [Text ''size''], El ''th'' [] []]
           # map (\<lambda>f. Comp (File (ff_id f) f)) files)))"

definition search_render :: "string option \<Rightarrow> (search_comp, search_handler) vdom" where
  "search_render search_id =
     (let results = (case search_id of None \<Rightarrow> El ''div'' [] [] | Some i \<Rightarrow> Comp (ResultList i))
      in El ''div'' []
        [El ''p'' [] [Text ''turtle file search''],
         El ''div'' []
           [El ''input'' [(''type'', Str ''text''), (''ref'', Str ''searchbox'')] [],
            El ''input'' [(''type'', Str ''button''), (''value'', Str ''search''), (''onClick'', On HandleSearch)] []],
         results])"

section \<open>\<open>AudioPlayerWidget\<close>\<close>

definition audio_render :: "string \<Rightarrow> params option \<Rightarrow> (unit, unit) vdom" where
  "audio_render filestreamer_url f =
     (case f of
        None \<Rightarrow> El ''div'' [] []
      | Some ps \<Rightarrow>
          (let (n, h) = (case ps of PlayFile n h \<Rightarrow> (Some n, Some h) | Url _ \<Rightarrow> (None, None))
           in El ''div'' []
             [El ''p'' [] (case n of None \<Rightarrow> [] | Some n \<Rightarrow> [Text n]),
              El ''audio'' [(''controls'', Flag True), (''src'', Str (filestreamer_url @ js_str h)),
                (''type'', Str ''audio/mpeg'')] []]))"

section \<open>Properties\<close>

lemma unit_error:
  assumes "0 < k" "k \<le> x" "x < k * 10 ^ 21"
  shows "\<bar>of_nat (round_tenths (fl (x / k))) / 10 * k - x\<bar> \<le> k / 20 + x / 2 ^ 53"
    and "0 \<le> fl (x / k)"
proof -
  have q: "1 \<le> x / k" using assms by simp
  have "x / k < 10 ^ 21" using assms by (simp add: field_simps)
  also have "(10 :: rat) ^ 21 < 2 ^ 1100" by simp
  finally have fl: "\<bar>fl (x / k) - x / k\<bar> \<le> x / k / 2 ^ 53" by (rule fl_error [OF q])
  have "q / 2 ^ 53 \<le> q" if "1 \<le> q" for q :: rat using that by simp
  from this [OF q] have "x / k / 2 ^ 53 \<le> x / k" .
  with fl show nonneg: "0 \<le> fl (x / k)" by linarith
  have "\<bar>of_nat (round_tenths (fl (x / k))) / 10 - x / k\<bar> \<le> 1 / 20 + x / k / 2 ^ 53"
    using round_tenths_error [OF nonneg] fl by linarith
  then have "\<bar>of_nat (round_tenths (fl (x / k))) / 10 - x / k\<bar> * k \<le> (1 / 20 + x / k / 2 ^ 53) * k"
    using assms(1) by (intro mult_right_mono) simp_all
  moreover have "\<bar>of_nat (round_tenths (fl (x / k))) / 10 - x / k\<bar> * k =
      \<bar>of_nat (round_tenths (fl (x / k))) / 10 * k - x\<bar>"
    using assms(1) by (simp add: abs_if field_simps)
  moreover have "(1 / 20 + x / k / 2 ^ 53) * k = k / 20 + x / 2 ^ 53"
    using assms(1) by (simp add: field_simps)
  ultimately show "\<bar>of_nat (round_tenths (fl (x / k))) / 10 * k - x\<bar> \<le> k / 20 + x / 2 ^ 53" by simp
qed

text \<open>
  C14. Sizes are shown right. For every size below \<open>1e33\<close> the text is a number of tenths
  and a unit, where the number differs from the exact quotient by at most half a tenth and the
  rounding error of one division; the unit is the largest one that is not above the size
  (bytes and terabytes at the ends).
\<close>

theorem makeFriendlyUnit_close:
  assumes "0 \<le> x" "x < 10 ^ 33"
  shows "\<exists>n k u. (k, u) \<in> {(1, ''B''), (10 ^ 3, ''kB''), (10 ^ 6, ''MB''), (10 ^ 9, ''GB''), (10 ^ 12, ''TB'')} \<and>
    makeFriendlyUnit x = tenths n @ u \<and> \<bar>of_nat n / 10 * k - x\<bar> \<le> k / 20 + x / 2 ^ 53 \<and>
    (u \<noteq> ''B'' \<longrightarrow> k \<le> x) \<and> (u \<noteq> ''TB'' \<longrightarrow> x < 1000 * k)"
proof -
  have scaled: "makeFriendlyUnit x = tenths (round_tenths (fl (x / k))) @ u \<and>
      \<bar>of_nat (round_tenths (fl (x / k))) / 10 * k - x\<bar> \<le> k / 20 + x / 2 ^ 53"
    if "makeFriendlyUnit x = toFixed1 (fl (x / k)) @ u" "0 < k" "k \<le> x" "x < k * 10 ^ 21" for k u
    using unit_error [OF that(2-4)] that(1) by (simp add: toFixed1_def)
  consider "x < 10 ^ 3" | "10 ^ 3 \<le> x" "x < 10 ^ 6" | "10 ^ 6 \<le> x" "x < 10 ^ 9"
    | "10 ^ 9 \<le> x" "x < 10 ^ 12" | "10 ^ 12 \<le> x" by linarith
  then show ?thesis
  proof cases
    case 1
    have "\<bar>of_nat (round_tenths x) / 10 * 1 - x\<bar> \<le> 1 / 20 + x / 2 ^ 53"
      using round_tenths_error [OF assms(1)] assms(1) by simp
    moreover have "makeFriendlyUnit x = tenths (round_tenths x) @ ''B''"
      using 1 assms(1) by (simp add: makeFriendlyUnit_def toFixed1_def)
    ultimately show ?thesis using 1 by (intro exI [of _ "round_tenths x"] exI [of _ 1] exI [of _ "''B''"]) simp
  next
    case 2
    then show ?thesis
      using scaled [of "10 ^ 3" "''kB''"]
      by (intro exI [of _ "round_tenths (fl (x / 10 ^ 3))"] exI [of _ "10 ^ 3"] exI [of _ "''kB''"])
        (simp add: makeFriendlyUnit_def)
  next
    case 3
    then show ?thesis
      using scaled [of "10 ^ 6" "''MB''"]
      by (intro exI [of _ "round_tenths (fl (x / 10 ^ 6))"] exI [of _ "10 ^ 6"] exI [of _ "''MB''"])
        (simp add: makeFriendlyUnit_def)
  next
    case 4
    then show ?thesis
      using scaled [of "10 ^ 9" "''GB''"]
      by (intro exI [of _ "round_tenths (fl (x / 10 ^ 9))"] exI [of _ "10 ^ 9"] exI [of _ "''GB''"])
        (simp add: makeFriendlyUnit_def)
  next
    case 5
    then show ?thesis
      using scaled [of "10 ^ 12" "''TB''"] assms(2)
      by (intro exI [of _ "round_tenths (fl (x / 10 ^ 12))"] exI [of _ "10 ^ 12"] exI [of _ "''TB''"])
        (simp add: makeFriendlyUnit_def)
  qed
qed

theorem makeFriendlyUnit_close_witness:
  "\<exists>n (k :: rat) u. makeFriendlyUnit 1536 = tenths n @ u \<and>
    \<bar>of_nat n / 10 * k - 1536\<bar> \<le> k / 20 + 1536 / 2 ^ 53 \<and> (u \<noteq> ''B'' \<longrightarrow> k \<le> 1536)"
proof -
  have "(0 :: rat) \<le> 1536 \<and> (1536 :: rat) < 10 ^ 33" by simp
  with makeFriendlyUnit_close [of 1536] show ?thesis by blast
qed

text \<open>
  The row of a download. It always offers \<open>cancel\<close>; it offers \<open>start\<close> exactly if the download
  is paused and \<open>pause\<close> exactly if not, and \<open>play\<close> exactly if the last three characters of the name
  are \<open>mp3\<close>. The first three send one request to \<open>transfers/control_download\<close> with the action
  of that name and the id of this download; \<open>play\<close> sends none and emits the signal with which
  the audio player streams this file.
\<close>

theorem download_row_controls:
  "map snd (handlers (dl_render file)) =
     (if dl_download_status file = ''paused'' then StartFn file else PauseFn file) # CancelFn file #
     (if slice_last3 (dl_name file) = ''mp3'' then [PlayFn file] else []) \<and>
   (\<forall>h a. (h, a) \<in> {(StartFn file, ''start''), (PauseFn file, ''pause''), (CancelFn file, ''cancel'')} \<longrightarrow>
      (\<exists>cb. downloads_handle h = [Request ''transfers/control_download''
         (Some (JObj [(''action'', JStr a), (''id'', JStr (dl_id file))])) cb])) \<and>
   (\<exists>ps. downloads_handle (PlayFn file) = [Emit ''play_file'' ps] \<and>
      sources (audio_render url (Some ps)) = [url @ dl_hash file] \<and>
      texts (audio_render url (Some ps)) = [dl_name file])"
  by (auto simp: dl_render_def Let_def downloads_handle_def startFn_def pauseFn_def cancelFn_def
      playFn_def control_download_def audio_render_def)

theorem download_row_controls_witness:
  "\<exists>cb. downloads_handle (CancelFn \<lparr>dl_id = ''i'', dl_hash = ''i'', dl_name = ''a.mp3'', dl_size = 1,
      dl_transfered = 0, dl_transfer_rate = 0, dl_download_status = ''paused''\<rparr>) =
    [Request ''transfers/control_download'' (Some (JObj [(''action'', JStr ''cancel''), (''id'', JStr ''i'')])) cb]"
  using download_row_controls [of "\<lparr>dl_id = ''i'', dl_hash = ''i'', dl_name = ''a.mp3'', dl_size = 1,
      dl_transfered = 0, dl_transfer_rate = 0, dl_download_status = ''paused''\<rparr>" "''u''"]
  by auto

end
