(* ===== verification/ControlWidgets.thy ===== *)
theory ControlWidgets
  imports UiTypes
begin

text \<open>
  Passwords, accounts and the login dialogue of \<open>webui/gui.jsx\<close>: \<open>PasswordWidget\<close>,
  \<open>AccountSelectWidget\<close>, \<open>LoginWidget\<close> and \<open>LoginWidget2\<close>. Fields that may be missing are options.
\<close>

section \<open>\<open>PasswordWidget\<close>\<close>

record password_data =
  want_password :: "bool option"
  key_name :: "string option"

datatype password_handler = SendPassword

definition password_getInitialState :: "password_data option" where
  "password_getInitialState = Some \<lparr>want_password = Some False, key_name = None\<rparr>"

definition password_getPath :: string where
  "password_getPath = ''control/password''"

definition sendPassword :: "string \<Rightarrow> unit effect list" where
  "sendPassword pwd = [Request ''control/password'' (Some (JObj [(''password'', JStr pwd)])) None]"

definition password_render :: "password_data option \<Rightarrow> (unit, password_handler) vdom throws" where
  "password_render dat =
     (case dat of
        None \<Rightarrow> Inl TypeError
      | Some d \<Rightarrow>
          if want_password d = Some False then Inr (El ''div'' [] [])
          else Inr (El ''div'' []
            [El ''p'' [] (Text ''Enter password for key '' # (case key_name d of None \<Rightarrow> [] | Some k \<Rightarrow> [Text k])),
             El ''input'' [(''type'', Str ''password''), (''ref'', Str ''password'')] [],
             El ''input'' [(''type'', Str ''button''), (''value'', Str ''ok''), (''onClick'', On SendPassword)] []]))"

section \<open>\<open>AccountSelectWidget\<close>\<close>

record account =
  acc_id :: string
  acc_name :: string
  acc_location :: string

record account_select =
  mode :: string
  accounts :: "account list option"

datatype account_handler = SelectAccount string

definition account_getInitialState :: account_select where
  "account_getInitialState = \<lparr>mode = ''list'', accounts = Some []\<rparr>"

definition account_getPath :: string where
  "account_getPath = ''control/locations''"

definition selectAccount :: "string \<Rightarrow> account_select \<Rightarrow> account_select \<times> unit effect list" where
  "selectAccount i s =
     (s\<lparr>mode := ''wait''\<rparr>, [Request ''control/login'' (Some (JObj [(''id'', JStr i)])) None])"

definition account_render :: "account_select \<Rightarrow> (unit, account_handler) vdom throws" where
  "account_render s =
     (if mode s = ''wait'' then Inr (El ''p'' [] [Text ''waiting...''])
      else case accounts s of
        None \<Rightarrow> Inl TypeError
      | Some ls \<Rightarrow> Inr (El ''div'' [] (map (\<lambda>l. El ''div''
          [(''className'', Str ''btn2''), (''key'', Str (acc_id l)), (''onClick'', On (SelectAccount (acc_id l)))]
          [Text ''login '', Text (acc_name l), Text '' ('', Text (acc_location l), Text '')'']) ls)))"

section \<open>\<open>LoginWidget\<close>\<close>

datatype login_comp = AccountSelect

datatype login_handler = Shutdown

definition login_getInitialState :: "string option option" where
  "login_getInitialState = Some (Some ''waiting_init'')"

definition login_getPath :: string where
  "login_getPath = ''control/runstate''"

definition shutdown :: "unit effect list" where
  "shutdown = [Request ''control/shutdown'' None None]"

text \<open>The argument is \<open>state.data\<close>, an object with a \<open>runstate\<close>.\<close>

definition login_render :: "string option option \<Rightarrow> (login_comp, login_handler) vdom throws" where
  "login_render dat =
     (case dat of
        None \<Rightarrow> Inl TypeError
      | Some runstate \<Rightarrow>
          if runstate = Some ''waiting_init'' then
            Inr (El ''p'' [] [Text ''Retroshare is initialising...      please wait...''])
          else if runstate = Some ''waiting_account_select'' then Inr (Comp AccountSelect)
          else Inr (El ''div'' []
            [El ''p'' [] (Text ''runstate: '' # (case runstate of None \<Rightarrow> [] | Some r \<Rightarrow> [Text r])),
             El ''div'' [(''onClick'', On Shutdown), (''className'', Str ''btn'')] [Text ''shutdown Retroshare'']]))"

section \<open>\<open>LoginWidget2\<close>\<close>

text \<open>
  The object \<open>data: {}\<close> of the class is one object in the prototype, shared by all instances; a
  field nobody has written is \<open>undefined\<close>. \<open>clear_data\<close> assigns to \<open>data\<close>, not to \<open>this.data\<close>: it
  creates a global variable and leaves the object as it is.
\<close>

record login_entry =
  le_id :: "string option"
  le_peer_id :: "string option"
  le_pgp_id :: "string option"
  le_name :: "string option"
  le_location :: "string option"

record login_data =
  have_runstate :: bool
  runstate :: "string option"
  have_identities :: bool
  identities :: "login_entry list option"
  have_locations :: bool
  locations :: "login_entry list option"
  l2_pgp_id :: "string option"
  l2_pgp_name :: "string option"

record login2 =
  display_data :: "login_entry list"
  l2_state :: string
  hidden_node :: bool
  l2_error :: string
  l2_data :: login_data
  global_data :: "login_data option"

datatype login2_cb = GotRunstate | GotIdentities | GotLocations | ImportCallback | CreateLocationCb

datatype login2_handler =
    L2SelectAccount "string option"
  | SetupCreateLocation "string option" "string option"
  | OnDrop | PreventDefault | L2Shutdown | ToggleHidden | Update | SubmitLoc

definition undefined_data :: login_data where
  "undefined_data = \<lparr>have_runstate = False, runstate = None, have_identities = False, identities = None,
     have_locations = False, locations = None, l2_pgp_id = None, l2_pgp_name = None\<rparr>"

definition login2_getInitialState :: login2 where
  "login2_getInitialState = \<lparr>display_data = [], l2_state = ''waiting'', hidden_node = False, l2_error = '''',
     l2_data = undefined_data, global_data = None\<rparr>"

definition clear_data :: "login2 \<Rightarrow> login2" where
  "clear_data s = s\<lparr>global_data := Some
     \<lparr>have_runstate = False, runstate = Some '''', have_identities = False, identities = Some [],
      have_locations = False, locations = Some [], l2_pgp_id = None, l2_pgp_name = None\<rparr>\<rparr>"

text \<open>\<open>for(var i in x)\<close> over \<open>undefined\<close> does nothing.\<close>

definition for_in :: "'a list option \<Rightarrow> 'a list" where
  "for_in x = (case x of None \<Rightarrow> [] | Some xs \<Rightarrow> xs)"

fun pgp_id_has_location :: "string option \<Rightarrow> string option list \<Rightarrow> bool" where
  "pgp_id_has_location p [] = False"
| "pgp_id_has_location p (q # qs) = (if p = q then True else pgp_id_has_location p qs)"

fun collect_locations ::
  "login_entry list \<Rightarrow> string option list \<Rightarrow> login_entry list \<Rightarrow> string option list \<times> login_entry list" where
  "collect_locations [] ids dat = (ids, dat)"
| "collect_locations (l # ls) ids dat =
     collect_locations ls
       (if \<not> pgp_id_has_location (le_pgp_id l) ids then ids @ [le_pgp_id l] else ids) (dat @ [l])"

fun collect_identities ::
  "login_entry list \<Rightarrow> string option list \<Rightarrow> login_entry list \<Rightarrow> login_entry list" where
  "collect_identities [] ids dat = dat"
| "collect_identities (i # rest) ids dat =
     collect_identities rest ids (if \<not> pgp_id_has_location (le_pgp_id i) ids then dat @ [i] else dat)"

definition check_data :: "login2 \<Rightarrow> login2" where
  "check_data s =
     (let d = l2_data s
      in if have_runstate d \<and> have_locations d \<and> have_identities d then
           (let (ids, dat) = collect_locations (for_in (locations d)) [] []
            in s\<lparr>display_data := collect_identities (for_in (identities d)) ids dat, l2_state := ''display''\<rparr>)
         else s)"

definition update :: "login2 \<Rightarrow> login2 \<times> login2_cb effect list" where
  "update s = (clear_data s,
     [Request ''control/runstate'' None (Some GotRunstate),
      Request ''control/identities'' None (Some GotIdentities),
      Request ''control/locations'' None (Some GotLocations)])"

text \<open>
  The three callbacks. A response is \<open>undefined\<close>, or a returncode and the data.
\<close>

definition got_runstate :: "(string \<times> string option option) option \<Rightarrow> login2 \<Rightarrow> login2 outcome" where
  "got_runstate resp s =
     (case resp of
        None \<Rightarrow> Throw TypeError s
      | Some (returncode, dat) \<Rightarrow>
          if returncode = ''ok'' then
            (let s1 = s\<lparr>l2_data := (l2_data s)\<lparr>have_runstate := True\<rparr>\<rparr>
             in case dat of
                  None \<Rightarrow> Throw TypeError s1
                | Some r \<Rightarrow> Done (check_data (s1\<lparr>l2_data := (l2_data s1)\<lparr>runstate := r\<rparr>\<rparr>)))
          else Done s)"

definition got_identities :: "(string \<times> login_entry list option) option \<Rightarrow> login2 \<Rightarrow> login2 outcome" where
  "got_identities resp s =
     (case resp of
        None \<Rightarrow> Throw TypeError s
      | Some (returncode, dat) \<Rightarrow>
          if returncode = ''ok'' then
            Done (check_data (s\<lparr>l2_data := (l2_data s)\<lparr>have_identities := True, identities := dat\<rparr>\<rparr>))
          else Done s)"

definition got_locations :: "(string \<times> login_entry list option) option \<Rightarrow> login2 \<Rightarrow> login2 outcome" where
  "got_locations resp s =
     (case resp of
        None \<Rightarrow> Throw TypeError s
      | Some (returncode, dat) \<Rightarrow>
          if returncode = ''ok'' then
            Done (check_data (s\<lparr>l2_data := (l2_data s)\<lparr>have_locations := True, locations := dat\<rparr>\<rparr>))
          else Done s)"

definition login2_selectAccount :: "string option \<Rightarrow> login2 \<Rightarrow> login2 \<times> login2_cb effect list" where
  "login2_selectAccount i s = (s\<lparr>l2_state := ''waiting''\<rparr>,
     [Request ''control/login'' (Some (JObj (case i of None \<Rightarrow> [] | Some v \<Rightarrow> [(''id'', JStr v)]))) None])"

text \<open>\<open>onDrop\<close> starts reading the file; \<open>reader_onload\<close> runs when its text is there.\<close>

definition onDrop :: "login2 \<Rightarrow> login2" where
  "onDrop s = s\<lparr>l2_state := ''waiting''\<rparr>"

definition reader_onload :: "string \<Rightarrow> login2_cb effect list" where
  "reader_onload result =
     [Request ''control/import_pgp'' (Some (JObj [(''key_string'', JStr result)])) (Some ImportCallback)]"

definition importCallback :: "string option \<Rightarrow> login2 \<Rightarrow> (login2 \<times> login2_cb effect list) throws" where
  "importCallback returncode s =
     (case returncode of
        None \<Rightarrow> Inl TypeError
      | Some r \<Rightarrow> Inr (update (s\<lparr>l2_error := if r = ''ok'' then ''import ok'' else ''import error''\<rparr>)))"

definition setupCreateLocation :: "string option \<Rightarrow> string option \<Rightarrow> login2 \<Rightarrow> login2" where
  "setupCreateLocation pgp_id pgp_name s =
     s\<lparr>l2_data := (l2_data s)\<lparr>l2_pgp_id := pgp_id, l2_pgp_name := pgp_name\<rparr>, l2_state := ''create_location''\<rparr>"

text \<open>
  The form fields. The two for the hidden node exist while \<open>hidden_node\<close> is set.
\<close>

record login_form =
  f_pgp_name :: string
  f_pwd1 :: string
  f_pwd2 :: string
  f_hidden :: bool
  f_tor_addr :: string
  f_tor_port :: string

definition submit_fields :: "login_form \<Rightarrow> login2 \<Rightarrow> string + (string \<times> json) list" where
  "submit_fields f s =
     (let base = [(''ssl_name'', JStr ''nogui-webui'')]
      in case l2_pgp_id (l2_data s) of
           Some p \<Rightarrow> Inr (base @ [(''pgp_password'', JStr (f_pwd1 f)), (''pgp_id'', JStr p)])
         | None \<Rightarrow>
             if f_pgp_name f = '''' then Inl ''please fill in a name''
             else if f_pwd1 f = '''' then Inl ''please fill in a password''
             else if f_pwd1 f \<noteq> f_pwd2 f then Inl ''passwords do not match''
             else Inr (base @ [(''pgp_name'', JStr (f_pgp_name f)), (''pgp_password'', JStr (f_pwd1 f))]))"

definition submitLoc :: "login_form \<Rightarrow> login2 \<Rightarrow> (login2 \<times> login2_cb effect list) throws" where
  "submitLoc f s =
     (case submit_fields f s of
        Inl msg \<Rightarrow> Inr (s\<lparr>l2_error := msg\<rparr>, [])
      | Inr fs \<Rightarrow>
          let send = (\<lambda>fs. Inr (s\<lparr>l2_state := ''waiting''\<rparr>,
                [Request ''control/create_location'' (Some (JObj fs)) (Some CreateLocationCb)]))
          in if f_hidden f then
               if \<not> hidden_node s then Inl TypeError
               else if f_tor_addr f = '''' \<or> f_tor_port f = '''' then
                 Inr (s\<lparr>l2_error := ''please fill in hidden adress and hidden port''\<rparr>, [])
               else send (fs @ [(''hidden_adress'', JStr (f_tor_addr f)), (''hidden_port'', JStr (f_tor_port f))])
             else send fs)"

text \<open>The response: \<open>undefined\<close>, or a returncode and a debug message.\<close>

definition create_location_callback :: "(string \<times> string option) option \<Rightarrow> login2 \<Rightarrow> login2 throws" where
  "create_location_callback resp s =
     (case resp of
        None \<Rightarrow> Inl TypeError
      | Some (returncode, debug_msg) \<Rightarrow>
          if returncode = ''ok'' then Inr (s\<lparr>l2_state := ''waiting_end''\<rparr>)
          else Inr (s\<lparr>l2_state := ''display'', l2_error := ''failed to create account: '' @ js_str debug_msg\<rparr>))"

definition toggle_hidden :: "bool \<Rightarrow> login2 \<Rightarrow> login2" where
  "toggle_hidden checked s = s\<lparr>hidden_node := checked\<rparr>"

definition opt_text :: "string option \<Rightarrow> ('c, 'h) vdom list" where
  "opt_text x = (case x of None \<Rightarrow> [] | Some t \<Rightarrow> [Text t])"

definition truthy :: "string option \<Rightarrow> bool" where
  "truthy x = (x \<noteq> None \<and> x \<noteq> Some '''')"

definition opt_key :: "string option \<Rightarrow> (string \<times> login2_handler attr) list" where
  "opt_key x = (case x of None \<Rightarrow> [] | Some v \<Rightarrow> [(''key'', Str v)])"

definition login2_entry :: "login_entry \<Rightarrow> (unit, login2_handler) vdom" where
  "login2_entry loc =
     (if truthy (le_peer_id loc) then
        El ''div'' ((''className'', Str ''btn2'') # opt_key (le_id loc) @ [(''onClick'', On (L2SelectAccount (le_id loc)))])
          (opt_text (le_name loc) @ [Text '' (''] @ opt_text (le_location loc) @ [Text '')''])
      else
        El ''div'' ((''className'', Str ''btn2'') # opt_key (le_id loc) @
            [(''onClick'', On (SetupCreateLocation (le_pgp_id loc) (le_name loc)))])
          (opt_text (le_name loc)))"

text \<open>
  \<open>None\<close>: \<open>render\<close> returns \<open>undefined\<close>; in the state \<open>display\<close> the branch for a running
  Retroshare builds an element and does not return it.
\<close>

definition login2_render :: "login2 \<Rightarrow> (unit, login2_handler) vdom option" where
  "login2_render s =
     (if l2_state s = ''waiting'' then
        Some (El ''div'' [] [El ''p'' [] [Text ''please wait a second...'']])
      else if l2_state s = ''display'' then
        if runstate (l2_data s) = Some ''waiting_account_select'' then
          Some (El ''div'' []
            ([El ''div'' [] [Text (l2_error s)]] @
             map login2_entry (display_data s) @
             [El ''div'' [(''onDragOver'', On PreventDefault), (''onDrop'', On OnDrop), (''className'', Str ''btn2'')]
                [Text ''drag and drop a profile file here''],
              El ''div'' [(''className'', Str ''btn2''), (''onClick'', On (SetupCreateLocation None None))]
                [Text ''create new profile''],
              El ''div'' [(''onClick'', On L2Shutdown), (''className'', Str ''btn2'')] [Text ''shut down Retroshare'']]))
        else None
      else if l2_state s = ''create_location'' then
        Some (El ''div'' []
          ([El ''div'' [] [Text ''Create a new node''],
            (case l2_pgp_id (l2_data s) of
               Some p \<Rightarrow> El ''div'' [] [Text ''Create new nodw with pgp_id '', Text p,
                 El ''input'' [(''type'', Str ''password''), (''ref'', Str ''pwd1''), (''placeholder'', Str ''password'')] []]
             | None \<Rightarrow> El ''div'' []
                [El ''input'' [(''type'', Str ''text''), (''ref'', Str ''pgp_name''), (''placeholder'', Str ''name'')] [],
                 El ''input'' [(''type'', Str ''password''), (''ref'', Str ''pwd1''), (''placeholder'', Str ''password'')] [],
                 El ''input'' [(''type'', Str ''password''), (''ref'', Str ''pwd2''), (''placeholder'', Str ''password (repeat)'')] []]),
            El ''input'' [(''className'', Str ''checkbox''), (''type'', Str ''checkbox''), (''ref'', Str ''cb_hidden''),
              (''onClick'', On ToggleHidden)] [],
            Text ''TOR hidden node'', El ''br'' [] []] @
           (if hidden_node s then
              [El ''div'' []
                [El ''input'' [(''type'', Str ''text''), (''ref'', Str ''tor_addr''), (''placeholder'', Str ''tor address'')] [],
                 El ''input'' [(''type'', Str ''text''), (''ref'', Str ''tor_port''), (''placeholder'', Str ''hidden service port'')] []]]
            else []) @
           [El ''div'' [] [Text (l2_error s)],
            El ''div'' [(''className'', Str ''btn2''), (''onClick'', On Update)] [Text ''cancel''],
            El ''div'' [(''className'', Str ''btn2''), (''onClick'', On SubmitLoc)] [Text ''go'']]))
      else Some (El ''div'' []
        [El ''div'' [(''onClick'', On L2Shutdown), (''className'', Str ''btn'')] [Text ''shutdown Retroshare'']]))"

section \<open>Lemmas\<close>

lemma pgp_id_has_location_iff [simp]: "pgp_id_has_location p ids \<longleftrightarrow> p \<in> set ids"
  by (induction p ids rule: pgp_id_has_location.induct) auto

lemma collect_locations_eq:
  "snd (collect_locations ls ids dat) = dat @ ls \<and>
   set (fst (collect_locations ls ids dat)) = set ids \<union> le_pgp_id ` set ls"
  by (induction ls ids dat rule: collect_locations.induct) auto

lemma collect_identities_eq:
  "collect_identities is0 ids dat = dat @ filter (\<lambda>i. le_pgp_id i \<notin> set ids) is0"
  by (induction is0 ids dat rule: collect_identities.induct) auto

text \<open>What the login dialogue lists: the locations, then the identities that have none.\<close>

definition login_list :: "login_entry list \<Rightarrow> login_entry list \<Rightarrow> login_entry list" where
  "login_list locs ids = locs @ filter (\<lambda>i. le_pgp_id i \<notin> le_pgp_id ` set locs) ids"

lemma check_data_eq:
  "check_data s =
     (if have_runstate (l2_data s) \<and> have_locations (l2_data s) \<and> have_identities (l2_data s)
      then s\<lparr>display_data := login_list (for_in (locations (l2_data s))) (for_in (identities (l2_data s))),
             l2_state := ''display''\<rparr>
      else s)"
  using collect_locations_eq [of "for_in (locations (l2_data s))" "[]" "[]"]
  by (cases "collect_locations (for_in (locations (l2_data s))) [] []")
    (simp add: check_data_def collect_identities_eq login_list_def Let_def)

definition login2_reply ::
  "string \<Rightarrow> login_entry list \<Rightarrow> login_entry list \<Rightarrow> login2_cb \<Rightarrow> login2 \<Rightarrow> login2 outcome" where
  "login2_reply rs ids locs cb s = (case cb of
     GotRunstate \<Rightarrow> got_runstate (Some (''ok'', Some (Some rs))) s
   | GotIdentities \<Rightarrow> got_identities (Some (''ok'', Some ids)) s
   | GotLocations \<Rightarrow> got_locations (Some (''ok'', Some locs)) s
   | _ \<Rightarrow> Done s)"

lemma three_orders:
  assumes "distinct cbs" "set cbs = {GotRunstate, GotIdentities, GotLocations}"
  shows "cbs \<in> {[GotRunstate, GotIdentities, GotLocations], [GotRunstate, GotLocations, GotIdentities],
    [GotIdentities, GotRunstate, GotLocations], [GotIdentities, GotLocations, GotRunstate],
    [GotLocations, GotRunstate, GotIdentities], [GotLocations, GotIdentities, GotRunstate]}"
proof -
  have "length cbs = 3" using distinct_card [OF assms(1)] assms(2) by simp
  then obtain a b c where cbs: "cbs = [a, b, c]"
    by (auto simp: length_Suc_conv numeral_3_eq_3)
  have mem: "a \<in> set cbs" "b \<in> set cbs" "c \<in> set cbs" by (simp_all add: cbs)
  then have "a \<in> {GotRunstate, GotIdentities, GotLocations}" "b \<in> {GotRunstate, GotIdentities, GotLocations}"
    "c \<in> {GotRunstate, GotIdentities, GotLocations}" unfolding assms(2) .
  moreover have "a \<noteq> b" "a \<noteq> c" "b \<noteq> c" using assms(1) by (simp_all add: cbs)
  ultimately show ?thesis unfolding cbs by auto
qed

section \<open>Properties\<close>



text \<open>
  The second update does not wait. \<open>update\<close> calls \<open>clear_data\<close>, which leaves the shared
  object as it is; so once all three resources have been there, after the next \<open>update\<close> a single
  reply, the one with the runstate, already shows the list again, with the old locations and
  identities.
\<close>

theorem second_update_shows_stale_data:
  assumes "have_locations (l2_data s)" and "have_identities (l2_data s)"
  shows "l2_data (fst (update s)) = l2_data s \<and>
    (\<exists>t. got_runstate (Some (''ok'', Some (Some rs))) (fst (update s)) = Done t \<and> l2_state t = ''display'' \<and>
       display_data t = login_list (for_in (locations (l2_data s))) (for_in (identities (l2_data s))))"
  using assms by (simp add: update_def clear_data_def got_runstate_def check_data_eq)

theorem second_update_shows_stale_data_witness:
  "\<exists>t. got_runstate (Some (''ok'', Some (Some ''running_ok''))) (fst (update (login2_getInitialState
      \<lparr>l2_data := undefined_data\<lparr>have_locations := True, have_identities := True\<rparr>\<rparr>))) = Done t \<and>
     l2_state t = ''display''"
  using second_update_shows_stale_data [of "login2_getInitialState
      \<lparr>l2_data := undefined_data\<lparr>have_locations := True, have_identities := True\<rparr>\<rparr>" "''running_ok''"]
  by auto

text \<open>
  C12. A new node is only requested from a complete form. If \<open>submitLoc\<close> sends a request, it is one
  request to create a location, whose password is the one typed; without a chosen PGP id, the
  name and the password are not empty and both passwords agree; with a hidden node, address and
  port are not empty and are sent. If it sends nothing, it leaves the page where it is and
  shows why. It throws only if the hidden box is ticked and its fields are not there.
\<close>

theorem submitLoc_validates:
  "(submitLoc f s = Inl e \<longrightarrow> f_hidden f \<and> \<not> hidden_node s) \<and>
   (\<forall>t. submitLoc f s = Inr (t, []) \<longrightarrow> l2_error t \<noteq> '''' \<and> l2_state t = l2_state s \<and> l2_data t = l2_data s) \<and>
   (\<forall>t r es. submitLoc f s = Inr (t, r # es) \<longrightarrow> es = [] \<and> l2_state t = ''waiting'' \<and>
      (\<exists>fs. r = Request ''control/create_location'' (Some (JObj fs)) (Some CreateLocationCb) \<and>
        map_of fs ''pgp_password'' = Some (JStr (f_pwd1 f)) \<and>
        (case l2_pgp_id (l2_data s) of
           Some p \<Rightarrow> map_of fs ''pgp_id'' = Some (JStr p)
         | None \<Rightarrow> map_of fs ''pgp_name'' = Some (JStr (f_pgp_name f)) \<and> map_of fs ''pgp_id'' = None \<and>
             f_pgp_name f \<noteq> '''' \<and> f_pwd1 f \<noteq> '''' \<and> f_pwd1 f = f_pwd2 f) \<and>
        (if f_hidden f
         then map_of fs ''hidden_adress'' = Some (JStr (f_tor_addr f)) \<and> f_tor_addr f \<noteq> '''' \<and>
              map_of fs ''hidden_port'' = Some (JStr (f_tor_port f)) \<and> f_tor_port f \<noteq> ''''
         else map_of fs ''hidden_adress'' = None \<and> map_of fs ''hidden_port'' = None)))"
  by (cases "l2_pgp_id (l2_data s)") (auto simp: submitLoc_def submit_fields_def Let_def split: if_splits)

theorem submitLoc_validates_witness:
  "\<exists>t. submitLoc \<lparr>f_pgp_name = ''n'', f_pwd1 = ''p'', f_pwd2 = ''q'', f_hidden = False, f_tor_addr = '''',
      f_tor_port = ''''\<rparr> login2_getInitialState = Inr (t, []) \<and> l2_error t \<noteq> ''''"
  using submitLoc_validates [of "\<lparr>f_pgp_name = ''n'', f_pwd1 = ''p'', f_pwd2 = ''q'', f_hidden = False,
      f_tor_addr = '''', f_tor_port = ''''\<rparr>" login2_getInitialState TypeError]
  by (auto simp: submitLoc_def submit_fields_def login2_getInitialState_def undefined_data_def)

lemma handlers_opt_text [simp]: "concat (map handlers (opt_text x)) = []"
  by (cases x) (simp_all add: opt_text_def)

lemma attr_handlers_opt_key [simp]: "attr_handlers (opt_key x @ as) = attr_handlers as"
  by (simp add: opt_key_def split: option.split)

lemma handlers_login2_entry [simp]:
  "handlers (login2_entry e) = [(''onClick'', if truthy (le_peer_id e) then L2SelectAccount (le_id e)
     else SetupCreateLocation (le_pgp_id e) (le_name e))]"
  by (simp add: login2_entry_def)

text \<open>
  The login dialogue renders nothing, which React refuses, exactly when it shows the list and
  the backend is not waiting for an account; in every other state it renders an element, and
  \<open>shut down\<close>, \<open>submit\<close> and \<open>cancel\<close> are offered where they belong.
\<close>

theorem login2_render_undefined:
  "(login2_render s = None \<longleftrightarrow>
      l2_state s = ''display'' \<and> runstate (l2_data s) \<noteq> Some ''waiting_account_select'') \<and>
   (\<forall>v. login2_render s = Some v \<longrightarrow>
      (SubmitLoc \<in> snd ` set (handlers v) \<longleftrightarrow> l2_state s = ''create_location'') \<and>
      (Update \<in> snd ` set (handlers v) \<longleftrightarrow> l2_state s = ''create_location'') \<and>
      (L2Shutdown \<in> snd ` set (handlers v) \<longleftrightarrow> l2_state s \<notin> {''waiting'', ''create_location''}))"
proof (intro conjI allI impI)
  show "login2_render s = None \<longleftrightarrow>
      l2_state s = ''display'' \<and> runstate (l2_data s) \<noteq> Some ''waiting_account_select''"
    by (simp add: login2_render_def)
next
  fix v assume v: "login2_render s = Some v"
  consider "l2_state s = ''waiting''" | "l2_state s = ''display''" | "l2_state s = ''create_location''"
    | "l2_state s \<notin> {''waiting'', ''display'', ''create_location''}" by blast
  then have "(SubmitLoc \<in> snd ` set (handlers v) \<longleftrightarrow> l2_state s = ''create_location'') \<and>
      (Update \<in> snd ` set (handlers v) \<longleftrightarrow> l2_state s = ''create_location'') \<and>
      (L2Shutdown \<in> snd ` set (handlers v) \<longleftrightarrow> l2_state s \<notin> {''waiting'', ''create_location''})"
  proof cases
    case 2
    then have "handlers v = concat (map handlers (map login2_entry (display_data s))) @
        [(''onDragOver'', PreventDefault), (''onDrop'', OnDrop), (''onClick'', SetupCreateLocation None None),
         (''onClick'', L2Shutdown)]"
      using v by (auto simp: login2_render_def split: if_splits)
    with 2 show ?thesis by (auto simp: image_iff)
  qed (use v in \<open>auto simp: login2_render_def split: option.splits if_splits\<close>)
  then show "SubmitLoc \<in> snd ` set (handlers v) \<longleftrightarrow> l2_state s = ''create_location''"
    "Update \<in> snd ` set (handlers v) \<longleftrightarrow> l2_state s = ''create_location''"
    "L2Shutdown \<in> snd ` set (handlers v) \<longleftrightarrow> l2_state s \<notin> {''waiting'', ''create_location''}" by blast+
qed

theorem login2_render_undefined_witness:
  "login2_render (login2_getInitialState\<lparr>l2_state := ''display''\<rparr>) = None"
  using login2_render_undefined [of "login2_getInitialState\<lparr>l2_state := ''display''\<rparr>"]
  by (simp add: login2_getInitialState_def undefined_data_def)

end
