(* ===== verification/MainPage.thy ===== *)
theory MainPage
  imports UiTypes
begin

text \<open>
  \<open>MainWidget\<close>, \<open>Menu\<close>, \<open>TestWidget\<close> and \<open>FileUploadWidget\<close> of \<open>webui/gui.jsx\<close>. The page of a main
  widget is set by the signals of \<open>SignalSlot\<close>; its \<open>data\<close> by the automatic update.
\<close>

section \<open>\<open>Menu\<close>\<close>

datatype url_handler = ChangeUrl string

definition url_handle :: "url_handler \<Rightarrow> unit effect list" where
  "url_handle h = (case h of ChangeUrl u \<Rightarrow> [Emit ''change_url'' (Url u)])"

definition menu_render :: "(unit, url_handler) vdom" where
  "menu_render = El ''div'' []
     (map (\<lambda>(u, t). El ''div'' [(''className'', Str ''btn2''), (''onClick'', On (ChangeUrl u))] [Text t])
       [(''main'', ''Start''), (''friends'', ''Friends''), (''downloads'', ''Downloads''), (''search'', ''Search'')])"

section \<open>\<open>TestWidget\<close>\<close>

datatype test_handler = One | Two

definition test_getInitialState :: string where
  "test_getInitialState = ''one''"

definition test_handle :: "test_handler \<Rightarrow> string \<Rightarrow> string" where
  "test_handle h s = (case h of One \<Rightarrow> ''one'' | Two \<Rightarrow> ''two'')"

definition test_render :: "string \<Rightarrow> (unit, test_handler) vdom" where
  "test_render s =
     (let transx = (if s = ''two'' then ''-45%'' else ''0px'');
          innerstyle = [(''float'', ''left''), (''width'', ''45%'')];
          two = (if s = ''two'' then El ''div'' [(''style'', Style innerstyle), (''className'', Str ''btn2''),
              (''onClick'', On One)] [Text ''two''] else El ''div'' [] [])
      in El ''div'' [(''style'', Style [(''borderStyle'', ''solid''), (''borderColor'', ''darksalmon''),
           (''overflow'', ''hidden''), (''width'', ''100%'')])]
         [El ''div'' [(''style'', Style [(''width'', ''200%''), (''transform'', ''translatex('' @ transx @ '')''),
            (''WebkitTransform'', ''translatex('' @ transx @ '')''), (''transition'', ''all 0.5s ease-in-out''),
            (''WebkitTransition'', ''all 0.5s ease-in-out'')])]
           [El ''div'' [(''style'', Style innerstyle), (''className'', Str ''btn2''), (''onClick'', On Two)] [Text ''one''],
            two]])"

section \<open>\<open>FileUploadWidget\<close>\<close>

record file_upload =
  fu_state :: string
  fu_file_name :: string
  fu_file_id :: string

record upload_response =
  ur_ok :: bool
  ur_id :: string

definition upload_getInitialState :: file_upload where
  "upload_getInitialState = \<lparr>fu_state = ''waiting_user'', fu_file_name = '''', fu_file_id = ''0''\<rparr>"

definition upload_onDrop :: "string \<Rightarrow> file_upload \<Rightarrow> file_upload" where
  "upload_onDrop file_name s = s\<lparr>fu_state := ''waiting_upload'', fu_file_name := file_name\<rparr>"

text \<open>
  The state change of the upload request. \<open>parse\<close> is \<open>JSON.parse\<close>, which throws outside a
  \<open>try\<close>; the list holds the ids given to \<open>onUploadReady\<close>, if the parent passed that property.
\<close>

definition upload_onreadystatechange ::
  "(string \<Rightarrow> upload_response option) \<Rightarrow> bool \<Rightarrow> nat \<Rightarrow> nat \<Rightarrow> string \<Rightarrow> file_upload
   \<Rightarrow> (file_upload \<times> string list) throws" where
  "upload_onreadystatechange parse has_listener readyState status responseText s =
     (if readyState = 4 then
        if status \<noteq> 200 then Inr (s\<lparr>fu_state := ''upload_failed''\<rparr>, [])
        else (case parse responseText of
            None \<Rightarrow> Inl SyntaxError
          | Some r \<Rightarrow>
              if ur_ok r then
                Inr (s\<lparr>fu_state := ''upload_ok'', fu_file_id := ur_id r\<rparr>, if has_listener then [ur_id r] else [])
              else Inr (s\<lparr>fu_state := ''upload_fail''\<rparr>, []))
      else Inr (s, []))"

definition upload_text :: "file_upload \<Rightarrow> string" where
  "upload_text s =
     (let text = ''bug-should not happen'';
          text = (if fu_state s = ''waiting_user'' then ''drop a file'' else text);
          text = (if fu_state s = ''waiting_upload'' then ''File '' @ fu_file_name s @ '' is being uploaded'' else text);
          text = (if fu_state s = ''upload_ok''
            then ''File '' @ fu_file_name s @ '' uploaded ok. file_id='' @ fu_file_id s else text);
          text = (if fu_state s = ''upload_fail'' then ''Could not upload file'' @ fu_file_name s else text)
      in text)"

datatype upload_handler = UploadPreventDefault | UploadOnDrop

definition upload_render :: "file_upload \<Rightarrow> (unit, upload_handler) vdom" where
  "upload_render s = El ''div'' [(''onDragOver'', On UploadPreventDefault), (''onDrop'', On UploadOnDrop)]
     [Text (upload_text s)]"

section \<open>\<open>MainWidget\<close>\<close>

datatype main_comp =
    ConnectionStatusWidget | PasswordWidget | AudioPlayerWidget
  | LoginWidget2 | Peers3 | DownloadsWidget | SearchWidget | AddPeerWidget | Menu bool

definition main_getPath :: string where
  "main_getPath = ''control/runstate''"

text \<open>The page and the runstate; the argument is \<open>location.hash\<close>.\<close>

definition main_getInitialState :: "string \<Rightarrow> string \<times> string option option" where
  "main_getInitialState hash =
     (let url = drop 1 hash; url = (if url = '''' then ''menu'' else url)
      in (url, Some (Some ''waiting_for_server'')))"

definition mainpage_running :: "string \<Rightarrow> string \<Rightarrow> (main_comp, url_handler) vdom \<Rightarrow> (main_comp, url_handler) vdom" where
  "mainpage_running page runstate mainpage =
     (let mainpage = (if page = ''main'' then El ''div'' [] [El ''p'' []
            [Text (''A new webinterface for Retroshare. Build with react.js. '' @
              ''React allows to build a modern and user friendly single page application. '' @
              ''The component system makes this very simple. '' @
              ''Updating the GUI is also very simple: one React mixin can handle updating for all components.'')]]
            else mainpage);
          mainpage = (if page = ''friends'' then Comp Peers3 else mainpage);
          mainpage = (if page = ''downloads'' then Comp DownloadsWidget else mainpage);
          mainpage = (if page = ''search'' then Comp SearchWidget else mainpage);
          mainpage = (if page = ''add_friend'' then Comp AddPeerWidget else mainpage);
          mainpage = (if page = ''menu'' then Comp (Menu (runstate = ''running_ok'')) else mainpage)
      in mainpage)"

definition mainpage_of :: "string \<Rightarrow> string option \<Rightarrow> (main_comp, url_handler) vdom" where
  "mainpage_of page runstate =
     (let mainpage = El ''p'' [] [Text ''page not implemented: '', Text page];
          mainpage = (if runstate = Some ''waiting_for_server'' then
            El ''div'' [] [El ''p'' [] [Text ''waiting for reply from server...'', El ''br'' [] [], Text ''please wait...'']]
            else mainpage);
          mainpage = (if runstate = Some ''waiting_init'' \<or> runstate = Some ''waiting_account_select''
            then Comp LoginWidget2 else mainpage);
          mainpage = (if page = ''testing'' then Comp LoginWidget2 else mainpage)
      in case runstate of
           Some r \<Rightarrow> if r = ''running_ok'' \<or> r = ''running_ok_no_full_control''
             then mainpage_running page r mainpage else mainpage
         | None \<Rightarrow> mainpage)"

definition main_render :: "string \<Rightarrow> string option option \<Rightarrow> (main_comp, url_handler) vdom throws" where
  "main_render page dat =
     (case dat of
        None \<Rightarrow> Inl TypeError
      | Some runstate \<Rightarrow>
          (let menubutton = (if page = ''menu'' then El ''div'' [] [Text ''Retroshare webinterface'']
               else El ''div'' [(''onClick'', On (ChangeUrl ''menu'')), (''className'', Str ''btn2'')] [Text ''<- menu''])
           in Inr (El ''div'' []
             [Comp ConnectionStatusWidget, Comp PasswordWidget, Comp AudioPlayerWidget, menubutton,
              mainpage_of page runstate])))"

section \<open>Properties\<close>

definition page_table :: "(string \<times> (bool \<Rightarrow> main_comp list)) list" where
  "page_table = [(''main'', \<lambda>_. []), (''friends'', \<lambda>_. [Peers3]), (''downloads'', \<lambda>_. [DownloadsWidget]),
     (''search'', \<lambda>_. [SearchWidget]), (''add_friend'', \<lambda>_. [AddPeerWidget]), (''menu'', \<lambda>full. [Menu full]),
     (''testing'', \<lambda>_. [LoginWidget2])]"

text \<open>
  Routing. The three status widgets are always there, followed by the component of the
  page: while Retroshare runs, the one the table names (and for every other page the message
  that names it); while it waits for an account or initialises, the login dialogue; while the
  server has not answered, none. Every page but the menu has the button back to the menu. Every
  button of the menu leads to a page of the table, and so does the button of the friend list.
\<close>

theorem main_page_routes:
  assumes "runstate \<in> {''running_ok'', ''running_ok_no_full_control''}"
  shows "(\<exists>v. main_render page (Some (Some runstate)) = Inr v \<and>
      comps v = [ConnectionStatusWidget, PasswordWidget, AudioPlayerWidget] @
        (case map_of page_table page of Some f \<Rightarrow> f (runstate = ''running_ok'') | None \<Rightarrow> []) \<and>
      (''page not implemented: '' \<in> set (texts v) \<longleftrightarrow> map_of page_table page = None) \<and>
      (handlers v = [(''onClick'', ChangeUrl ''menu'')] \<longleftrightarrow> page \<noteq> ''menu'')) \<and>
    (\<forall>r \<in> {''waiting_init'', ''waiting_account_select''}. \<exists>v. main_render page (Some (Some r)) = Inr v \<and>
      comps v = [ConnectionStatusWidget, PasswordWidget, AudioPlayerWidget, LoginWidget2]) \<and>
    (page \<noteq> ''testing'' \<longrightarrow> (\<exists>v. main_render page (Some (Some ''waiting_for_server'')) = Inr v \<and>
      comps v = [ConnectionStatusWidget, PasswordWidget, AudioPlayerWidget])) \<and>
    (\<forall>h \<in> snd ` set (handlers menu_render). \<exists>u. url_handle h = [Emit ''change_url'' (Url u)] \<and>
      u \<in> fst ` set page_table)"
proof -
  have running: "\<exists>v. main_render page (Some (Some runstate)) = Inr v \<and>
      comps v = [ConnectionStatusWidget, PasswordWidget, AudioPlayerWidget] @
        (case map_of page_table page of Some f \<Rightarrow> f (runstate = ''running_ok'') | None \<Rightarrow> []) \<and>
      (''page not implemented: '' \<in> set (texts v) \<longleftrightarrow> map_of page_table page = None) \<and>
      (handlers v = [(''onClick'', ChangeUrl ''menu'')] \<longleftrightarrow> page \<noteq> ''menu'')"
    using assms by (auto simp: main_render_def mainpage_of_def mainpage_running_def page_table_def Let_def)
  then show ?thesis
    by (auto simp: main_render_def mainpage_of_def Let_def menu_render_def url_handle_def page_table_def)
qed

theorem main_page_routes_witness:
  "\<exists>v. main_render ''friends'' (Some (Some ''running_ok'')) = Inr v \<and>
     comps v = [ConnectionStatusWidget, PasswordWidget, AudioPlayerWidget, Peers3]"
  using main_page_routes [of "''running_ok''" "''friends''"] by (auto simp: page_table_def)

text \<open>
  The outcome of an upload. A completed upload with status 200 and a positive answer shows the
  name and the id, and gives the id to the parent; a negative answer shows that the file could
  not be uploaded. An HTTP error gives the state \<open>upload_failed\<close>, for which \<open>render\<close> has no
  text: it shows the message that should not happen. An answer that is no JSON throws.
\<close>

theorem upload_outcomes:
  "(status \<noteq> 200 \<longrightarrow> (\<exists>t. upload_onreadystatechange parse l 4 status txt s = Inr (t, []) \<and>
      fu_state t = ''upload_failed'' \<and> texts (upload_render t) = [''bug-should not happen''])) \<and>
   (\<forall>r. parse txt = Some r \<and> ur_ok r \<longrightarrow> (\<exists>t. upload_onreadystatechange parse True 4 200 txt s = Inr (t, [ur_id r]) \<and>
      texts (upload_render t) = [''File '' @ fu_file_name s @ '' uploaded ok. file_id='' @ ur_id r])) \<and>
   (\<forall>r. parse txt = Some r \<and> \<not> ur_ok r \<longrightarrow> (\<exists>t. upload_onreadystatechange parse l 4 200 txt s = Inr (t, []) \<and>
      texts (upload_render t) = [''Could not upload file'' @ fu_file_name s])) \<and>
   (parse txt = None \<longrightarrow> upload_onreadystatechange parse l 4 200 txt s = Inl SyntaxError)"
  by (auto simp: upload_onreadystatechange_def upload_render_def upload_text_def)

theorem upload_outcomes_witness:
  "\<exists>t. upload_onreadystatechange (\<lambda>_. None) True 4 500 '''' upload_getInitialState = Inr (t, []) \<and>
     texts (upload_render t) = [''bug-should not happen'']"
  using upload_outcomes [of 500 "\<lambda>_. None" True "''''" upload_getInitialState] by auto

end
