(* ===== verification/TypesCheck.thy ===== *)
theory TypesCheck
  imports JsNumber "HOL-Library.Sublist"
begin

text \<open>
  \<open>webui/Types.js\<close>, the run-time type checker, and its use in \<open>webui/PeersTest.js\<close>: the schema of the
  friend list, its printed form, and the generated documentation page.

  A schema is what \<open>new Type\<close> is given: a checker function (a leaf), an array with one schema, or an
  object of schemas; \<open>Compound\<close> is an instance of \<open>Type\<close> built from one of the latter two. The members
  of a schema are no names that \<open>Object.prototype\<close> defines.
\<close>

datatype jsval =
    VUndefined | VNull | VBool bool | VNum rat | VStr string
  | VArr "jsval list" | VObj "(string \<times> jsval) list"

datatype leaf = LString | LBool | LAny

datatype schema =
    Leaf leaf
  | Compound string schema
  | SArr schema
  | SObj "(string \<times> schema) list"

section \<open>Values\<close>

text \<open>
  The operator \<open>in\<close> (\<open>None\<close>: it throws), reading a member, and the keys \<open>for(m in x)\<close> visits.
\<close>

definition js_in :: "string \<Rightarrow> jsval \<Rightarrow> bool option" where
  "js_in m v = (case v of
     VObj fs \<Rightarrow> Some (m \<in> set (map fst fs))
   | VArr vs \<Rightarrow> Some (m = ''length'' \<or> m \<in> set (map decimal [0..<length vs]))
   | _ \<Rightarrow> None)"

definition js_member :: "jsval \<Rightarrow> string \<Rightarrow> jsval" where
  "js_member v m = (case v of
     VObj fs \<Rightarrow> (case map_of fs m of None \<Rightarrow> VUndefined | Some x \<Rightarrow> x)
   | VArr vs \<Rightarrow> (if m = ''length'' then VNum (of_nat (length vs))
       else case map_of (zip (map decimal [0..<length vs]) vs) m of None \<Rightarrow> VUndefined | Some x \<Rightarrow> x)
   | _ \<Rightarrow> VUndefined)"

definition js_keys :: "jsval \<Rightarrow> string list" where
  "js_keys v = (case v of
     VObj fs \<Rightarrow> map fst fs
   | VArr vs \<Rightarrow> map decimal [0..<length vs]
   | VStr s \<Rightarrow> map decimal [0..<length s]
   | _ \<Rightarrow> [])"

section \<open>The checker\<close>

text \<open>
  The result of a check: the messages logged, the stack afterwards, and \<open>true\<close> or \<open>false\<close>
  (\<open>None\<close>: an exception).
\<close>

type_synonym check_result = "string list \<times> string list \<times> bool option"

fun join :: "string list \<Rightarrow> string" where
  "join [] = ''''"
| "join [x] = x"
| "join (x # y # ys) = x @ '','' @ join (y # ys)"

definition in_stack :: "string \<Rightarrow> string list \<Rightarrow> string" where
  "in_stack msg stack = msg @ ''['' @ join stack @ '']''"

definition check_leaf :: "leaf \<Rightarrow> jsval \<Rightarrow> string list \<Rightarrow> check_result" where
  "check_leaf l other stack = (case l of
     LString \<Rightarrow> (case other of VStr _ \<Rightarrow> ([], stack, Some True)
       | _ \<Rightarrow> ([in_stack ''Error: not a string '' stack], stack, Some False))
   | LBool \<Rightarrow> (case other of VBool _ \<Rightarrow> ([], stack, Some True)
       | _ \<Rightarrow> ([in_stack ''Error: not a bool '' stack], stack, Some False))
   | LAny \<Rightarrow> ([], stack, Some True))"

definition additional_members :: "(string \<times> schema) list \<Rightarrow> jsval \<Rightarrow> string list \<Rightarrow> string list" where
  "additional_members ref other stack =
     map (\<lambda>m. in_stack (''Warning: found additional member \"'' @ m @ ''\" in '') stack)
       (filter (\<lambda>m. m \<notin> set (map fst ref)) (js_keys other))"

text \<open>
  \<open>check\<close> and \<open>_check\<close>. The line \<open>stack.pop;\<close> after the check of a compound type is no call: the
  name stays on the stack.
\<close>

fun check :: "schema \<Rightarrow> jsval \<Rightarrow> string list \<Rightarrow> check_result"
  and check_members :: "(string \<times> schema) list \<Rightarrow> jsval \<Rightarrow> bool \<Rightarrow> string list \<Rightarrow> check_result" where
  "check (Leaf l) other stack = check_leaf l other stack"
| "check (Compound name obj) other stack = check obj other (stack @ [''<'' @ name @ ''>''])"
| "check (SArr ref) other stack =
     (case other of
        VArr [] \<Rightarrow> ([in_stack ''Warning: can't check array of length 0 in '' stack], stack, Some True)
      | VArr (v # _) \<Rightarrow> check ref v stack
      | _ \<Rightarrow> ([in_stack ''Error: not an Array '' stack], stack, Some False))"
| "check (SObj ref) other stack =
     (case check_members ref other True stack of
        (msgs, stack', None) \<Rightarrow> (msgs, stack', None)
      | (msgs, stack', Some ok) \<Rightarrow> (msgs @ additional_members ref other stack', stack', Some ok))"
| "check_members [] other ok stack = ([], stack, Some ok)"
| "check_members ((m, ref) # rest) other ok stack =
     (case js_in m other of
        None \<Rightarrow> ([], stack, None)
      | Some True \<Rightarrow>
          (case (if ok then check ref (js_member other m) (stack @ [m]) else ([], stack @ [m], Some False)) of
             (msgs, stack', None) \<Rightarrow> (msgs, stack', None)
           | (msgs, stack', Some ok') \<Rightarrow>
               (case check_members rest other ok' (butlast stack') of
                  (msgs', r) \<Rightarrow> (msgs @ msgs', r)))
      | Some False \<Rightarrow>
          (case check_members rest other False stack of
             (msgs, r) \<Rightarrow> (in_stack (''Error: missing member \"'' @ m @ ''\" in '') stack # msgs, r)))"

section \<open>What it decides\<close>

text \<open>
  A value conforms when its members have the right types; of an array only the first element
  is looked at. \<open>conforms_all\<close> is the notion the documentation suggests.
\<close>

definition leaf_ok :: "leaf \<Rightarrow> jsval \<Rightarrow> bool" where
  "leaf_ok l v = (case l of LString \<Rightarrow> (\<exists>s. v = VStr s) | LBool \<Rightarrow> (\<exists>b. v = VBool b) | LAny \<Rightarrow> True)"

definition is_object :: "jsval \<Rightarrow> bool" where
  "is_object v = (case v of VObj _ \<Rightarrow> True | VArr _ \<Rightarrow> True | _ \<Rightarrow> False)"

fun conforms :: "schema \<Rightarrow> jsval \<Rightarrow> bool" where
  "conforms (Leaf l) v = leaf_ok l v"
| "conforms (Compound name obj) v = conforms obj v"
| "conforms (SArr ref) v = (case v of VArr [] \<Rightarrow> True | VArr (x # _) \<Rightarrow> conforms ref x | _ \<Rightarrow> False)"
| "conforms (SObj ref) v = ((ref = [] \<or> is_object v) \<and>
     (\<forall>(m, r) \<in> set ref. js_in m v = Some True \<and> conforms r (js_member v m)))"

fun conforms_all :: "schema \<Rightarrow> jsval \<Rightarrow> bool" where
  "conforms_all (Leaf l) v = leaf_ok l v"
| "conforms_all (Compound name obj) v = conforms_all obj v"
| "conforms_all (SArr ref) v = (case v of VArr vs \<Rightarrow> \<forall>x \<in> set vs. conforms_all ref x | _ \<Rightarrow> False)"
| "conforms_all (SObj ref) v = ((ref = [] \<or> is_object v) \<and>
     (\<forall>(m, r) \<in> set ref. js_in m v = Some True \<and> conforms_all r (js_member v m)))"

lemma js_in_None: "js_in m v = None \<longleftrightarrow> \<not> is_object v"
  by (cases v) (simp_all add: js_in_def is_object_def)

lemma leaf_result: "\<exists>msgs. check_leaf l v stack = (msgs, stack, Some (leaf_ok l v))"
  by (cases l; cases v) (simp_all add: check_leaf_def leaf_ok_def)

text \<open>The verdict does not depend on the stack.\<close>

fun decide :: "schema \<Rightarrow> jsval \<Rightarrow> bool option"
  and decide_members :: "(string \<times> schema) list \<Rightarrow> jsval \<Rightarrow> bool \<Rightarrow> bool option" where
  "decide (Leaf l) v = Some (leaf_ok l v)"
| "decide (Compound name obj) v = decide obj v"
| "decide (SArr ref) v = (case v of VArr [] \<Rightarrow> Some True | VArr (x # _) \<Rightarrow> decide ref x | _ \<Rightarrow> Some False)"
| "decide (SObj ref) v = decide_members ref v True"
| "decide_members [] v ok = Some ok"
| "decide_members ((m, r) # rest) v ok =
     (case js_in m v of
        None \<Rightarrow> None
      | Some True \<Rightarrow>
          (case (if ok then decide r (js_member v m) else Some False) of
             None \<Rightarrow> None | Some ok' \<Rightarrow> decide_members rest v ok')
      | Some False \<Rightarrow> decide_members rest v False)"

lemma verdict:
  "snd (snd (check s v stack)) = decide s v"
  "snd (snd (check_members ref v ok stack)) = decide_members ref v ok"
proof (induction s v stack and ref v ok stack rule: check_check_members.induct)
  case (1 l v stack)
  then show ?case using leaf_result [of l v stack] by auto
next
  case (3 ref other stack)
  then show ?case by (auto split: jsval.splits list.splits)
next
  case (4 ref other stack)
  then show ?case by (auto split: prod.splits option.splits)
next
  case (6 m ref rest other ok stack)
  show ?case
  proof (cases "js_in m other")
    case (Some b)
    show ?thesis
    proof (cases b)
      case True
      let ?c = "if ok then check ref (js_member other m) (stack @ [m]) else ([], stack @ [m], Some False)"
      obtain msgs stack' r where c: "?c = (msgs, stack', r)" by (cases ?c rule: prod_cases3)
      have r: "r = (if ok then decide ref (js_member other m) else Some False)"
        using 6(1) Some True c by (cases ok) auto
      show ?thesis
      proof (cases r)
        case None
        then show ?thesis using Some True c r by simp
      next
        case (Some ok')
        have "snd (snd (check_members rest other ok' (butlast stack'))) = decide_members rest other ok'"
          using 6(2) \<open>js_in m other = Some b\<close> True c Some by auto
        moreover obtain m' st' r' where c': "check_members rest other ok' (butlast stack') = (m', st', r')"
          by (cases "check_members rest other ok' (butlast stack')" rule: prod_cases3)
        ultimately have "r' = decide_members rest other ok'" by simp
        moreover have "decide_members ((m, ref) # rest) other ok = decide_members rest other ok'"
          using \<open>js_in m other = Some b\<close> True trans [OF r [symmetric] Some] by (cases ok) simp_all
        moreover have "check_members ((m, ref) # rest) other ok stack = (msgs @ m', st', r')"
          using \<open>js_in m other = Some b\<close> True c Some c' by simp
        ultimately show ?thesis by simp
      qed
    next
      case False
      with Some 6(3) show ?thesis by (auto split: prod.splits)
    qed
  qed simp
qed auto

lemma decide_members_False:
  "decide_members ref v False = (if ref = [] \<or> is_object v then Some False else None)"
proof (induction ref)
  case (Cons a ref)
  obtain m r where "a = (m, r)" by (cases a)
  with Cons js_in_None [of m v] show ?case by (auto split: option.splits bool.splits)
qed simp

text \<open>It throws only where a member is looked up in something that is no object.\<close>

fun throws_at :: "schema \<Rightarrow> jsval \<Rightarrow> bool" where
  "throws_at (Leaf l) v = False"
| "throws_at (Compound name obj) v = throws_at obj v"
| "throws_at (SArr ref) v = (case v of VArr (x # _) \<Rightarrow> throws_at ref x | _ \<Rightarrow> False)"
| "throws_at (SObj ref) v = (ref \<noteq> [] \<and> (\<not> is_object v \<or>
     (\<exists>(m, r) \<in> set ref. js_in m v = Some True \<and> throws_at r (js_member v m))))"

lemma decide_conforms:
  "decide s v = Some b \<Longrightarrow> b = conforms s v"
  "decide_members ref v ok = Some b \<Longrightarrow>
     b = (ok \<and> (\<forall>(m, r) \<in> set ref. js_in m v = Some True \<and> conforms r (js_member v m))) \<and>
     (ref = [] \<or> is_object v)"
proof (induction s v and ref v ok arbitrary: b and b rule: decide_decide_members.induct)
  case (3 ref v)
  then show ?case by (auto split: jsval.splits list.splits)
next
  case (6 m r rest v ok)
  have obj: "is_object v" using 6(4) js_in_None [of m v] by (auto split: option.splits)
  show ?case
  proof (cases "js_in m v = Some True")
    case True
    then obtain ok' where ok': "(if ok then decide r (js_member v m) else Some False) = Some ok'"
      "decide_members rest v ok' = Some b"
      using 6(4) by (auto split: option.splits if_splits)
    have "ok' = (ok \<and> conforms r (js_member v m))" using 6(1) True ok'(1) by (cases ok) auto
    moreover have "b = (ok' \<and> (\<forall>(m, r) \<in> set rest. js_in m v = Some True \<and> conforms r (js_member v m)))"
      using 6(2) [of True ok' b] True ok' by simp
    ultimately show ?thesis using True obj by auto
  next
    case False
    then have "js_in m v = Some False" using obj js_in_None [of m v] by (cases "js_in m v") auto
    with 6(4) obj show ?thesis by (auto simp: decide_members_False)
  qed
qed auto

lemma decide_returns:
  "\<not> throws_at s v \<Longrightarrow> decide s v \<noteq> None"
  "ref = [] \<or> is_object v \<Longrightarrow>
     \<forall>(m, r) \<in> set ref. js_in m v = Some True \<longrightarrow> \<not> throws_at r (js_member v m) \<Longrightarrow>
     decide_members ref v ok \<noteq> None"
proof (induction s v and ref v ok rule: decide_decide_members.induct)
  case (3 ref v)
  then show ?case by (auto split: jsval.splits list.splits)
next
  case (4 ref v)
  then show ?case by (cases "ref = []") auto
next
  case (6 m r rest v ok)
  have obj: "is_object v" using 6(4) by simp
  show ?case
  proof (cases "js_in m v = Some True")
    case True
    show ?thesis
    proof (cases ok)
      case ok: True
      with 6(1,5) True obtain ok' where "decide r (js_member v m) = Some ok'" by fastforce
      with 6(2,5) True ok obj show ?thesis by auto
    qed (use True obj in \<open>simp add: decide_members_False\<close>)
  next
    case False
    then have "js_in m v = Some False" using obj js_in_None [of m v] by (cases "js_in m v") auto
    with obj show ?thesis by (simp add: decide_members_False)
  qed
qed auto

section \<open>\<open>PeersTest.js\<close>\<close>

definition location_type :: schema where
  "location_type = Compound ''location'' (SObj [(''avatar_address'', Leaf LString), (''groups'', Leaf LAny),
     (''is_online'', Leaf LBool), (''location'', Leaf LString), (''peer_id'', Leaf LAny)])"

definition peer_info_type :: schema where
  "peer_info_type = Compound ''peer_info'' (SObj [(''name'', Leaf LString), (''pgp_id'', Leaf LAny),
     (''locations'', SArr location_type)])"

definition peers_list_type :: schema where
  "peers_list_type = Compound ''peers_list'' (SArr peer_info_type)"

definition leaf_name :: "leaf \<Rightarrow> string" where
  "leaf_name l = (case l of LString \<Rightarrow> ''string'' | LBool \<Rightarrow> ''bool'' | LAny \<Rightarrow> ''any'')"

definition newline :: string where
  "newline = [CHR 0x0A]"

fun indent :: "nat \<Rightarrow> string" where
  "indent 0 = ''''"
| "indent (Suc n) = indent n @ ''    ''"

text \<open>\<open>None\<close>: \<open>getObj\<close> is called on something that is no \<open>Type\<close>.\<close>

fun visit :: "schema \<Rightarrow> nat \<Rightarrow> string option"
  and visit_members :: "(string \<times> schema) list \<Rightarrow> nat \<Rightarrow> string option" where
  "visit (SArr r) n = map_option (\<lambda>t. ''array'' @ newline @ t) (visit r n)"
| "visit (Leaf l) n = Some (leaf_name l @ newline)"
| "visit (Compound name (SObj ref)) n = visit_members ref n"
| "visit (Compound name (SArr r)) n =
     map_option (\<lambda>t. indent (n + 1) @ ''0: '' @ t) (visit r (n + 1))"
| "visit (Compound name (Compound name' obj)) n = None"
| "visit (Compound name (Leaf l)) n = None"
| "visit (SObj ref) n = None"
| "visit_members [] n = Some ''''"
| "visit_members ((m, r) # rest) n =
     (case visit r (n + 1) of
        None \<Rightarrow> None
      | Some t \<Rightarrow> map_option (\<lambda>t'. indent (n + 1) @ m @ '': '' @ t @ t') (visit_members rest n))"

definition graphToText :: "schema \<Rightarrow> string option" where
  "graphToText top_node =
     (case top_node of Compound name obj \<Rightarrow> visit obj 0 | _ \<Rightarrow> None)"

record doc =
  counter :: nat
  toc :: "string list"
  content :: "string list"

definition doc_header :: "string \<Rightarrow> doc \<Rightarrow> doc" where
  "doc_header h d =
     d\<lparr>toc := toc d @ [h],
       content := content d @ [''<a name=\"'' @ decimal (counter d) @ ''\"><h1>'' @ h @ ''</h1></a>''],
       counter := counter d + 1\<rparr>"

definition doc_paragraph :: "string \<Rightarrow> doc \<Rightarrow> doc" where
  "doc_paragraph p d = d\<lparr>content := content d @ [''<p>'' @ p @ ''</p>'']\<rparr>"

definition empty_doc :: doc where
  "empty_doc = \<lparr>counter = 0, toc = [], content = []\<rparr>"

definition docstr :: "doc \<Rightarrow> string" where
  "docstr d = ''<!DOCTYPE html><html><body>'' @ ''<h1>Table of Contents</h1>'' @ ''<ul>'' @
     concat (map (\<lambda>i. ''<li><a href=\"#'' @ decimal i @ ''\">'' @ toc d ! i @ ''</a></li>'') [0..<length (toc d)]) @
     ''</ul>'' @ concat (content d) @ ''</body></html>''"

text \<open>\<open>PeersTest\<close>: what it adds to the documentation (it throws if the schema cannot be printed),
  and what the callback of its request logs (an exception ends it).\<close>

definition PeersTest_doc :: "doc \<Rightarrow> doc option" where
  "PeersTest_doc d =
     map_option (\<lambda>t. doc_paragraph (''<pre>'' @ t @ ''</pre>'') (doc_header ''peers'' d)) (graphToText peers_list_type)"

definition PeersTest_callback :: "jsval \<Rightarrow> string list" where
  "PeersTest_callback resp_data =
     (case check peers_list_type resp_data [] of
        (msgs, _, None) \<Rightarrow> msgs
      | (msgs, _, Some ok) \<Rightarrow> msgs @ [if ok then ''success'' else ''fail''])"

text \<open>
  The friend list as \<open>PeersHandler::handleWildcard\<close> streams it (\<open>peerDetailsToStream\<close>,
  \<open>peerInfoToStream\<close>), when there is some friend; \<open>pd_groups\<close> is what the stream of the groups gives.
\<close>

record peer_details =
  pd_id :: string
  pd_name :: string
  pd_location :: string
  pd_gpg_id :: string
  pd_online :: bool
  pd_avatar :: bool
  pd_groups :: jsval

definition peerInfoToStream :: "peer_details \<Rightarrow> jsval" where
  "peerInfoToStream d = VObj
     [(''peer_id'', VStr (pd_id d)), (''name'', VStr (pd_name d)), (''location'', VStr (pd_location d)),
      (''pgp_id'', VStr (pd_gpg_id d)), (''is_online'', VBool (pd_online d)),
      (''avatar_address'', VStr (if pd_avatar d then ''/'' @ pd_id d @ ''/avatar_image'' else '''')),
      (''groups'', pd_groups d)]"

definition peers_response :: "(string \<times> string \<times> bool \<times> peer_details list) list \<Rightarrow> jsval" where
  "peers_response ps = VArr (map (\<lambda>(pgp, name, own, ds). VObj
     [(''pgp_id'', VStr pgp), (''name'', VStr name), (''is_own'', VBool own),
      (''locations'', VArr (map peerInfoToStream ds))]) ps)"

section \<open>Properties\<close>



text \<open>
  Only the first element of an array is checked: whatever follows an accepted first
  element, the array is accepted. A value all of whose elements conform is accepted.
\<close>

lemma conforms_all_conforms: "conforms_all s v \<Longrightarrow> conforms s v"
proof (induction s v rule: conforms.induct)
  case (3 ref v)
  then show ?case by (cases v) (auto split: list.splits)
next
  case (4 ref v)
  then show ?case by fastforce
qed auto

theorem arrays_checked_by_first_element:
  "(conforms ref v \<longrightarrow> conforms (SArr ref) (VArr (v # vs))) \<and>
   (check ref v stack = (msgs, stack', Some True) \<longrightarrow>
      check (SArr ref) (VArr (v # vs)) stack = (msgs, stack', Some True)) \<and>
   (conforms_all s w \<longrightarrow> conforms s w) \<and>
   (\<exists>s w. conforms s w \<and> \<not> conforms_all s w)"
proof -
  have "conforms (SArr (Leaf LBool)) (VArr [VBool True, VNull]) \<and>
      \<not> conforms_all (SArr (Leaf LBool)) (VArr [VBool True, VNull])"
    by (auto simp: leaf_ok_def)
  then have "\<exists>s w. conforms s w \<and> \<not> conforms_all s w" by blast
  then show ?thesis using conforms_all_conforms [of s w] by simp
qed

theorem arrays_checked_by_first_element_witness:
  "check (SArr (Leaf LBool)) (VArr [VBool True, VNull]) [] = ([], [], Some True)"
  using arrays_checked_by_first_element [of "Leaf LBool" "VBool True" "[VNull]" "[]" "[]" "[]" "Leaf LAny" VNull]
  by (simp add: check_leaf_def)

text \<open>
  The name of a compound type stays on the stack after the check has returned, on top of
  what was there before (and with it a wrong path for every later message).
\<close>

lemma prefix_butlast: "prefix (xs @ [y]) zs \<Longrightarrow> prefix xs (butlast zs)"
  by (auto simp: prefix_def butlast_append)

lemma check_prefix:
  "prefix stack (fst (snd (check s v stack)))"
  "prefix stack (fst (snd (check_members ref v ok stack)))"
proof (induction s v stack and ref v ok stack rule: check_check_members.induct)
  case (1 l v stack)
  then show ?case by (cases l; cases v) (simp_all add: check_leaf_def)
next
  case (2 name obj other stack)
  then show ?case by (auto simp: prefix_def)
next
  case (3 ref other stack)
  then show ?case by (auto split: jsval.splits list.splits)
next
  case (4 ref other stack)
  then show ?case by (auto split: prod.splits option.splits)
next
  case (6 m ref rest other ok stack)
  let ?c = "if ok then check ref (js_member other m) (stack @ [m]) else ([], stack @ [m], Some False)"
  obtain msgs st r where c: "?c = (msgs, st, r)" by (cases ?c rule: prod_cases3)
  show ?case
  proof (cases "js_in m other = Some True")
    case True
    have st: "prefix (stack @ [m]) st"
      using 6(1) True c by (cases ok) auto
    show ?thesis
    proof (cases r)
      case None
      with True c st show ?thesis by (auto simp: prefix_def)
    next
      case (Some ok')
      have "prefix (butlast st) (fst (snd (check_members rest other ok' (butlast st))))"
        using 6(2) True c Some by auto
      with prefix_butlast [OF st] have "prefix stack (fst (snd (check_members rest other ok' (butlast st))))"
        by (rule prefix_order.trans)
      with True c Some show ?thesis by (auto split: prod.splits)
    qed
  next
    case False
    with 6(3) show ?thesis by (auto split: option.splits bool.splits prod.splits)
  qed
qed simp

theorem compound_name_stays:
  "prefix (stack @ [''<'' @ name @ ''>'']) (fst (snd (check (Compound name obj) v stack)))"
  using check_prefix(1) [of "stack @ [''<'' @ name @ ''>'']" obj v] by simp

text \<open>
  The test of the friend list. For every answer the backend's \<open>peers\<close> handler can give for a
  first friend with a location, the test logs three warnings (the third one with the path of the
  member before it, see above) and ends with \<open>success\<close>. It never reports success for an array
  whose first element does not conform.
\<close>

theorem peers_response_passes:
  "PeersTest_callback (peers_response ((pgp, name, own, d # ds) # ps)) =
     [''Warning: found additional member \"name\" in [<peers_list>,<peer_info>,locations,<location>]'',
      ''Warning: found additional member \"pgp_id\" in [<peers_list>,<peer_info>,locations,<location>]'',
      ''Warning: found additional member \"is_own\" in [<peers_list>,<peer_info>,locations]'', ''success''] \<and>
   (last (PeersTest_callback v) = ''success'' \<longrightarrow> snd (snd (check peers_list_type v [])) \<noteq> None \<longrightarrow>
      conforms peers_list_type v)"
proof -
  have "last (PeersTest_callback v) = ''success'' \<longrightarrow> snd (snd (check peers_list_type v [])) \<noteq> None \<longrightarrow>
      conforms peers_list_type v"
    using decide_conforms(1) [of peers_list_type v] verdict(1) [of peers_list_type v "[]"]
    by (auto simp: PeersTest_callback_def split: prod.splits if_splits)
  then show ?thesis
    by (simp add: PeersTest_callback_def peers_response_def peers_list_type_def peer_info_type_def
        location_type_def peerInfoToStream_def js_in_def js_member_def js_keys_def check_leaf_def
        additional_members_def in_stack_def)
qed

theorem peers_response_passes_witness:
  "last (PeersTest_callback (peers_response [(''1'', ''n'', False, [\<lparr>pd_id = ''i'', pd_name = ''n'',
     pd_location = ''l'', pd_gpg_id = ''1'', pd_online = True, pd_avatar = False, pd_groups = VNull\<rparr>])])) = ''success''"
  using peers_response_passes [of "''1''" "''n''" False "\<lparr>pd_id = ''i'', pd_name = ''n'',
     pd_location = ''l'', pd_gpg_id = ''1'', pd_online = True, pd_avatar = False, pd_groups = VNull\<rparr>" "[]" "[]" VNull]
  by simp

text \<open>
  The generated documentation. The printed schema of the friend list is the text below, so
  \<open>PeersTest\<close> adds its header and one paragraph; and whatever headers and paragraphs are added, the
  k-th link of the table of contents goes to an anchor that the page has, at the k-th header.
\<close>

definition doc_ok :: "doc \<Rightarrow> bool" where
  "doc_ok d \<longleftrightarrow> counter d = length (toc d) \<and> (\<forall>i < length (toc d).
     ''<a name=\"'' @ decimal i @ ''\"><h1>'' @ toc d ! i @ ''</h1></a>'' \<in> set (content d))"

lemma doc_ok_header: "doc_ok d \<Longrightarrow> doc_ok (doc_header h d)"
  by (auto simp: doc_ok_def doc_header_def nth_append less_Suc_eq)

lemma doc_ok_paragraph: "doc_ok d \<Longrightarrow> doc_ok (doc_paragraph p d)"
  by (simp add: doc_ok_def doc_paragraph_def)

theorem documentation_links_resolve:
  "graphToText peers_list_type = Some (concat (map (\<lambda>l. l @ newline)
     [''array'', ''    name: string'', ''    pgp_id: any'', ''    locations: array'',
      ''        avatar_address: string'', ''        groups: any'', ''        is_online: bool'',
      ''        location: string'', ''        peer_id: any''])) \<and>
   (\<exists>d. PeersTest_doc empty_doc = Some d \<and> toc d = [''peers''] \<and> length (content d) = 2 \<and> doc_ok d) \<and>
   (\<forall>ops. doc_ok (fold (\<lambda>(is_header, x). if is_header then doc_header x else doc_paragraph x) ops empty_doc))"
proof -
  let ?f = "\<lambda>(is_header, x). if is_header then doc_header x else doc_paragraph x"
  have "doc_ok d \<Longrightarrow> doc_ok (fold ?f ops d)" for d ops
    by (induction ops arbitrary: d) (auto simp: doc_ok_header doc_ok_paragraph)
  moreover have "doc_ok empty_doc" by (simp add: doc_ok_def empty_doc_def)
  moreover have printed: "graphToText peers_list_type = Some (concat (map (\<lambda>l. l @ newline)
     [''array'', ''    name: string'', ''    pgp_id: any'', ''    locations: array'',
      ''        avatar_address: string'', ''        groups: any'', ''        is_online: bool'',
      ''        location: string'', ''        peer_id: any'']))"
    by (simp add: graphToText_def peers_list_type_def peer_info_type_def location_type_def
        leaf_name_def newline_def eval_nat_numeral)
  moreover obtain p where "PeersTest_doc empty_doc = Some (doc_paragraph p (doc_header ''peers'' empty_doc))"
    by (simp only: PeersTest_doc_def printed option.map)
  moreover have "toc (doc_paragraph p (doc_header ''peers'' empty_doc)) = [''peers'']"
    "length (content (doc_paragraph p (doc_header ''peers'' empty_doc))) = 2"
    by (simp_all add: doc_paragraph_def doc_header_def empty_doc_def)
  ultimately show ?thesis using doc_ok_header doc_ok_paragraph by blast
qed

end
