(* ===== verification/NodeConnection.thy ===== *)
theory NodeConnection
  imports Interfaces "HOL-Library.Word"
begin

text \<open>
  \<open>webui/RsNodeHttpConnection.js\<close>: the connection for node.js. A string that is sent is a list of
  UTF-16 code units, as \<open>length\<close> counts them; node writes it as UTF-8. \<open>stringify\<close> and \<open>parse\<close>
  are \<open>JSON.stringify\<close> and \<open>JSON.parse\<close> (\<open>None\<close>: it throws).
\<close>

type_synonym utf16 = "16 word list"

record ('d, 'cb) http_request =
  http_method :: string
  http_path :: string
  content_type :: string
  content_length :: nat
  http_body :: utf16
  http_req :: "'d request"
  http_cb :: "'cb option"

record ('d, 'cb) node_conn =
  node_open :: "('d, 'cb) http_request list"

definition node_connection :: "('d, 'cb) node_conn" where
  "node_connection = \<lparr>node_open = []\<rparr>"

text \<open>
  \<open>request(request, callback)\<close>; a third argument is dropped. The method is the default of
  \<open>http.request\<close>, as the line that sets it is a comment.
\<close>

definition node_request ::
  "('d \<Rightarrow> utf16) \<Rightarrow> 'd request \<Rightarrow> 'cb option \<Rightarrow> 'ecb option
   \<Rightarrow> ('d, 'cb, 'z) node_conn_scheme \<Rightarrow> ('d, 'cb, 'z) node_conn_scheme" where
  "node_request stringify req cb err_cb s =
     (let dat = (case data req of None \<Rightarrow> [] | Some d \<Rightarrow> stringify d)
      in s\<lparr>node_open := node_open s @
           [\<lparr>http_method = ''GET'', http_path = ''/api/v2/'' @ path req, content_type = ''application/json'',
             content_length = length dat, http_body = dat, http_req = req, http_cb = cb\<rparr>]\<rparr>)"

text \<open>
  The response: its chunks are concatenated, and at the end the callback is called with the
  parsed text. The result: the callback and its argument, or the exception.
\<close>

fun receive_chunks :: "string list \<Rightarrow> string \<Rightarrow> string" where
  "receive_chunks [] databuffer = databuffer"
| "receive_chunks (chunk # chunks) databuffer = receive_chunks chunks (databuffer @ chunk)"

definition response_end ::
  "(string \<Rightarrow> 'j option) \<Rightarrow> ('d, 'cb) http_request \<Rightarrow> string list \<Rightarrow> js_error + ('cb \<times> 'j)" where
  "response_end parse x chunks =
     (case parse (receive_chunks chunks '''') of
        None \<Rightarrow> Inl SyntaxError
      | Some v \<Rightarrow> (case http_cb x of None \<Rightarrow> Inl TypeError | Some cb \<Rightarrow> Inr (cb, v)))"

definition node_sent :: "('d, 'cb, 'z) node_conn_scheme \<Rightarrow> ('d request \<times> 'cb option) list" where
  "node_sent s = map (\<lambda>x. (http_req x, http_cb x)) (node_open s)"

interpretation node: connection "node_request stringify" node_sent
  by unfold_locales (simp add: node_request_def node_sent_def Let_def)

section \<open>The length of a body\<close>

text \<open>
  The number of bytes of the UTF-8 encoding: a surrogate pair gives four, a lone surrogate is
  replaced by a character of three.
\<close>

fun utf8_length :: "utf16 \<Rightarrow> nat" where
  "utf8_length [] = 0"
| "utf8_length (u # us) =
     (if u < 0x80 then 1 + utf8_length us
      else if u < 0x800 then 2 + utf8_length us
      else if 0xD800 \<le> u \<and> u < 0xDC00 \<and> us \<noteq> [] \<and> 0xDC00 \<le> hd us \<and> hd us < 0xE000
      then 4 + utf8_length (tl us)
      else 3 + utf8_length us)"

lemma utf8_length_cases:
  "utf8_length (u # us) = (if u < 0x80 then 1 + utf8_length us else utf8_length (u # us)) \<and>
   (\<not> u < 0x80 \<longrightarrow>
      2 + utf8_length us \<le> utf8_length (u # us) \<or> 4 + utf8_length (tl us) \<le> utf8_length (u # us))"
  by simp

declare utf8_length.simps(2) [simp del]

lemma utf8_length_ge: "length us \<le> utf8_length us"
proof (induction us rule: length_induct)
  case (1 us)
  show ?case
  proof (cases us)
    case (Cons u vs)
    then have "length vs < length us" "length (tl vs) < length us" by auto
    with 1 have "length vs \<le> utf8_length vs" "length (tl vs) \<le> utf8_length (tl vs)" by blast+
    moreover have "length vs \<le> Suc (length (tl vs))" by simp
    ultimately show ?thesis
      using utf8_length_cases [of u vs] unfolding Cons length_Cons by (cases "u < 0x80") auto
  qed simp
qed

lemma utf8_length_ascii: "utf8_length us = length us \<longleftrightarrow> (\<forall>u \<in> set us. u < 0x80)"
proof (induction us)
  case (Cons u us)
  have ge: "length us \<le> utf8_length us" "length (tl us) \<le> utf8_length (tl us)"
    by (rule utf8_length_ge)+
  show ?case
  proof (cases "u < 0x80")
    case True
    with Cons utf8_length_cases [of u us] show ?thesis by simp
  next
    case False
    have "length us \<le> Suc (length (tl us))" by simp
    with False ge utf8_length_cases [of u us] have "length (u # us) < utf8_length (u # us)"
      unfolding length_Cons by linarith
    with False show ?thesis by simp
  qed
qed simp

lemma receive_chunks_concat: "receive_chunks chunks buf = buf @ concat chunks"
  by (induction chunks buf rule: receive_chunks.induct) simp_all

section \<open>Properties\<close>

text \<open>
  What node sends and receives. The announced \<open>Content-Length\<close> is the number of bytes of the
  body exactly if the body is ASCII, and otherwise too small; the method is GET even with data;
  the callback gets the parse of the chunks in order however the response is split, and an
  answer that does not parse throws instead of calling anybody.
\<close>

theorem node_content_length:
  "\<exists>x. node_open (node_request stringify req cb err_cb s) = node_open s @ [x] \<and> http_method x = ''GET'' \<and>
     http_body x = (case data req of None \<Rightarrow> [] | Some d \<Rightarrow> stringify d) \<and>
     content_length x \<le> utf8_length (http_body x) \<and>
     (content_length x = utf8_length (http_body x) \<longleftrightarrow> (\<forall>u \<in> set (http_body x). u < 0x80)) \<and>
     response_end parse x chunks =
       (case parse (concat chunks) of None \<Rightarrow> Inl SyntaxError
        | Some v \<Rightarrow> (case cb of None \<Rightarrow> Inl TypeError | Some c \<Rightarrow> Inr (c, v)))"
  using utf8_length_ge utf8_length_ascii
  by (auto simp: node_request_def response_end_def receive_chunks_concat Let_def eq_commute [of "length _"]
      split: option.split)

theorem node_content_length_witness:
  "\<exists>x. node_open (node_request (\<lambda>u. u) \<lparr>path = ''peers'', data = Some [0xE9 :: 16 word]\<rparr> (Some ())
      (None :: unit option)
      (node_connection :: (utf16, unit) node_conn)) = [x] \<and> content_length x \<noteq> utf8_length (http_body x)"
proof -
  let ?s = "node_connection :: (utf16, unit) node_conn"
  let ?r = "\<lparr>path = ''peers'', data = Some [0xE9 :: 16 word]\<rparr>"
  obtain x where "node_open (node_request (\<lambda>u. u) ?r (Some ()) (None :: unit option) ?s) = [x]" "http_body x = [0xE9]"
    "content_length x = utf8_length (http_body x) \<longleftrightarrow> (\<forall>u \<in> set (http_body x). u < 0x80)"
    using node_content_length [of "\<lambda>u. u" ?r "Some ()" "None :: unit option" ?s "\<lambda>_. None :: unit option" "[]"]
    by (auto simp: node_connection_def)
  then show ?thesis by (intro exI [of _ x]) simp
qed

end
