(* ===== verification/Router.thy ===== *)
theory Router
  imports Prelude
begin

text \<open>
  How a request finds its handler in the backend: \<open>ApiServerMHD.cpp\<close> cuts the url into a stack of
  path components, \<open>ResourceRouter.cpp\<close> looks the top one up in its handlers, and the handlers of
  \<open>ApiServer.cpp\<close> are routers themselves. A stack is a list, its top the head. The list of
  strings a handler is called with is what is left of the stack.
\<close>

section \<open>Cutting the url\<close>

text \<open>The loop over \<open>path2.rbegin()\<close>: the rest of the reversed path, \<open>str\<close>, and the stack.\<close>

fun split_reverse :: "string \<Rightarrow> string \<Rightarrow> string list \<Rightarrow> string list" where
  "split_reverse [] str stack = (if str \<noteq> '''' then str # stack else stack)"
| "split_reverse (c # cs) str stack =
     (if c \<noteq> CHR ''/'' then split_reverse cs (c # str) stack
      else if str \<noteq> '''' then split_reverse cs '''' (str # stack)
      else split_reverse cs str stack)"

definition split_path :: "string \<Rightarrow> string list" where
  "split_path path2 = split_reverse (rev path2) '''' []"

text \<open>\<open>strstr(url, API_ENTRY_PATH) == url\<close>, and the rest of the url. \<open>None\<close>: the connection is closed.\<close>

definition API_ENTRY_PATH :: string where
  "API_ENTRY_PATH = ''/api/v2''"

definition api_path :: "string \<Rightarrow> string list option" where
  "api_path url =
     (if take (length API_ENTRY_PATH) url = API_ENTRY_PATH
      then Some (split_path (drop (length API_ENTRY_PATH) url)) else None)"

section \<open>The router\<close>

datatype 'h resource = Handler 'h | Router "(string \<times> 'h resource) list"

text \<open>\<open>addResourceHandler\<close> appends.\<close>

definition addResourceHandler :: "string \<Rightarrow> 'h resource \<Rightarrow> (string \<times> 'h resource) list \<Rightarrow> (string \<times> 'h resource) list" where
  "addResourceHandler name h handlers = handlers @ [(name, h)]"

fun find_handler :: "string \<Rightarrow> (string \<times> 'h resource) list \<Rightarrow> 'h resource option" where
  "find_handler name [] = None"
| "find_handler name ((n, h) # rest) = (if n = name then Some h else find_handler name rest)"

text \<open>
  \<open>ResourceRouter::handleRequest\<close>; \<open>None\<close>: no handler for this path. A router can be nested
  arbitrarily deep (the wildcard does not take a component off), so the number bounds the depth.
\<close>

fun handleRequest :: "nat \<Rightarrow> 'h resource \<Rightarrow> string list \<Rightarrow> ('h \<times> string list) option" where
  "handleRequest 0 r mPath = None"
| "handleRequest (Suc n) (Handler h) mPath = Some (h, mPath)"
| "handleRequest (Suc n) (Router handlers) mPath =
     (case (case mPath of [] \<Rightarrow> None | p # rest \<Rightarrow> map_option (\<lambda>h. (h, rest)) (find_handler p handlers)) of
        Some (h, rest) \<Rightarrow> handleRequest n h rest
      | None \<Rightarrow> (case find_handler ''*'' handlers of
            Some h \<Rightarrow> handleRequest n h mPath
          | None \<Rightarrow> None))"

section \<open>The handlers of the api server\<close>

datatype api_handler =
    StateTokens | Livereload | LivereloadTrigger
  | PeersWildcard | ExamineCert
  | IdentityWildcard | IdentityOwn
  | ServiceControl
  | FileSearchWildcard | CreateSearch
  | TransfersWildcard | Downloads | ControlDownload
  | RunState | Identities | Locations | Password | Login | Shutdown | ImportPgp | CreateLocation

definition wildcard_router :: "api_handler \<Rightarrow> (string \<times> api_handler) list \<Rightarrow> api_handler resource" where
  "wildcard_router w hs = Router (fold (\<lambda>(n, h). addResourceHandler n (Handler h)) ((''*'', w) # hs) [])"

text \<open>\<open>ApiServer::ApiServer\<close>\<close>

definition api_router_start :: "(string \<times> api_handler resource) list" where
  "api_router_start = fold (\<lambda>(n, r). addResourceHandler n r)
     [(''statetokenservice'', wildcard_router StateTokens []),
      (''livereload'', wildcard_router Livereload [(''trigger'', LivereloadTrigger)])] []"

text \<open>\<open>ApiServerMainModules\<close>\<close>

definition api_router_main_modules :: "(string \<times> api_handler resource) list \<Rightarrow> (string \<times> api_handler resource) list" where
  "api_router_main_modules = fold (\<lambda>(n, r). addResourceHandler n r)
     [(''peers'', wildcard_router PeersWildcard [(''examine_cert'', ExamineCert)]),
      (''identity'', wildcard_router IdentityWildcard [(''own'', IdentityOwn)]),
      (''servicecontrol'', wildcard_router ServiceControl []),
      (''filesearch'', wildcard_router FileSearchWildcard [(''create_search'', CreateSearch)]),
      (''transfers'', wildcard_router TransfersWildcard
         [(''downloads'', Downloads), (''control_download'', ControlDownload)])]"

text \<open>\<open>RsControlModule::RsControlModule\<close>, which has no wildcard, registered as \<open>control\<close>.\<close>

definition control_module :: "api_handler resource" where
  "control_module = Router (fold (\<lambda>(n, h). addResourceHandler n (Handler h))
     [(''runstate'', RunState), (''identities'', Identities), (''locations'', Locations), (''password'', Password),
      (''login'', Login), (''shutdown'', Shutdown), (''import_pgp'', ImportPgp),
      (''create_location'', CreateLocation)] [])"

definition api_router :: "api_handler resource" where
  "api_router = Router (api_router_main_modules (addResourceHandler ''control'' control_module api_router_start))"

definition api_request_route :: "string \<Rightarrow> (api_handler \<times> string list) option" where
  "api_request_route url = Option.bind (api_path url) (handleRequest 3 api_router)"

section \<open>Lemmas\<close>

lemma split_reverse_no_slash:
  "CHR ''/'' \<notin> set cs \<Longrightarrow> split_reverse (rev cs @ rest) str stack = split_reverse rest (cs @ str) stack"
  by (induction cs arbitrary: str rule: rev_induct) auto

text \<open>A path whose components are not empty and have no slash is cut into them.\<close>

lemma split_path_slash:
  assumes "CHR ''/'' \<notin> set c" "c \<noteq> ''''"
  shows "split_reverse (rev (CHR ''/'' # c) @ rest) '''' stack = split_reverse rest '''' (c # stack)"
  using split_reverse_no_slash [OF assms(1), of "CHR ''/'' # rest" "''''" stack] assms(2) by simp

lemma split_path_components:
  assumes "\<And>c. c \<in> set cs \<Longrightarrow> CHR ''/'' \<notin> set c \<and> c \<noteq> ''''"
  shows "split_path (concat (map (\<lambda>c. CHR ''/'' # c) cs)) = cs"
proof -
  have "split_reverse (rev (concat (map (\<lambda>c. CHR ''/'' # c) cs)) @ []) '''' stack = cs @ stack" for stack
    using assms
  proof (induction cs arbitrary: stack rule: rev_induct)
    case (snoc c cs)
    then show ?case using split_path_slash [of c _ stack] by simp
  qed simp
  from this [of "[]"] show ?thesis by (simp add: split_path_def)
qed

lemma find_handler_append:
  "find_handler n (hs @ hs') = (case find_handler n hs of None \<Rightarrow> find_handler n hs' | Some h \<Rightarrow> Some h)"
  by (induction hs) auto

lemma api_request_route_components:
  assumes "\<And>c. c \<in> set cs \<Longrightarrow> CHR ''/'' \<notin> set c \<and> c \<noteq> ''''"
  shows "api_request_route (''/api/v2'' @ concat (map (\<lambda>c. CHR ''/'' # c) cs)) = handleRequest 3 api_router cs"
  using split_path_components [OF assms] by (simp add: api_request_route_def api_path_def API_ENTRY_PATH_def)

lemmas api_router_defs = api_router_def api_router_main_modules_def api_router_start_def control_module_def
  wildcard_router_def addResourceHandler_def numeral_3_eq_3

end
