(* ===== verification/FileSearch.thy ===== *)
theory FileSearch
  imports StateTokenServer "HOL-Library.Word"
begin

text \<open>
  \<open>api/FileSearchHandler.cpp\<close>: the running file searches, their results and the ids under which
  the web interface asks for them. What the turtle router and the file database return is a
  parameter. The state server is part of the state; the mutex makes every operation one step.
\<close>

record file_detail =
  fd_name :: string
  fd_hash :: string
  fd_size :: nat

record search =
  mStateToken :: state_token
  mSearchString :: string
  mResults :: "file_detail list"
  mHashes :: "string set"

record file_search = "nat token_server" +
  mSearches :: "32 word \<Rightarrow> search option"
  mSearchesStateToken :: state_token

definition FileSearchHandler :: "nat token_server \<Rightarrow> file_search" where
  "FileSearchHandler sts =
     (let (t, sts') = getNewToken sts
      in token_server.extend sts' \<lparr>mSearches = (\<lambda>_. None), mSearchesStateToken = t\<rparr>)"

section \<open>Search ids\<close>

text \<open>\<open>((id >> (i*4)) & 0xF) + 'A'\<close> for the eight values of \<open>i\<close>\<close>

definition encode_id :: "32 word \<Rightarrow> string" where
  "encode_id i = map (\<lambda>k. char_of (unat (take_bit 4 (drop_bit (4 * k) i)) + 65)) [0..<8]"

text \<open>\<open>uint32_t(str[i] - 'A')\<close>; a \<open>char\<close> is signed.\<close>

definition char_value :: "char \<Rightarrow> int" where
  "char_value c = (let k = of_char c in if k < (128 :: int) then k else k - 256)"

fun decode_digits :: "nat \<Rightarrow> string \<Rightarrow> 32 word \<Rightarrow> 32 word" where
  "decode_digits k [] acc = acc"
| "decode_digits k (c # cs) acc =
     decode_digits (k + 1) cs (acc + push_bit (4 * k) (word_of_int (char_value c - 65)))"

text \<open>\<open>None\<close>: the error that the id has the wrong size.\<close>

definition decode_id :: "string \<Rightarrow> 32 word option" where
  "decode_id str = (if length str \<noteq> 8 then None else Some (decode_digits 0 str 0))"

section \<open>Results\<close>

text \<open>The loop of \<open>notifyTurtleSearchResult\<close>: the results, the hashes, and whether something changed.\<close>

fun add_results ::
  "file_detail list \<Rightarrow> file_detail list \<Rightarrow> string set \<Rightarrow> bool \<Rightarrow> file_detail list \<times> string set \<times> bool" where
  "add_results [] results hashes changed = (results, hashes, changed)"
| "add_results (f # files) results hashes changed =
     (if length results < 100 then
        if fd_hash f \<notin> hashes
        then add_results files (results @ [f]) (insert (fd_hash f) hashes) True
        else add_results files results hashes changed
      else (results, hashes, changed))"

definition notifyTurtleSearchResult :: "32 word \<Rightarrow> file_detail list \<Rightarrow> file_search \<Rightarrow> file_search" where
  "notifyTurtleSearchResult search_id files s =
     (case mSearches s search_id of
        None \<Rightarrow> s
      | Some search \<Rightarrow>
          (let (results, hashes, changed) = add_results files (mResults search) (mHashes search) False;
               search' = search\<lparr>mResults := results, mHashes := hashes\<rparr>
           in if changed then
                (let (t, s') = getNewToken (discardToken (mStateToken search) s)
                 in s'\<lparr>mSearches := (mSearches s)(search_id \<mapsto> search'\<lparr>mStateToken := t\<rparr>)\<rparr>)
              else s\<lparr>mSearches := (mSearches s)(search_id \<mapsto> search')\<rparr>))"

section \<open>Requests\<close>

text \<open>
  The answer to a request for the results: an error, or the return code (which this branch of
  \<open>handleWildcard\<close> does not set), the token and the files.
\<close>

definition search_results :: "string \<Rightarrow> file_search \<Rightarrow> string + (string \<times> state_token \<times> file_detail list)" where
  "search_results str s =
     (case decode_id str of
        None \<Rightarrow> Inl ''Error: id has wrong size, should be 8 characters''
      | Some i \<Rightarrow>
          (case mSearches s i of
             None \<Rightarrow> Inl ''Error: search id invalid''
           | Some search \<Rightarrow> Inr (''not_set'', mStateToken search, mResults search)))"

text \<open>The list of all searches, in the order of the \<open>std::map\<close>, with its token; its return code is ok.\<close>

definition list_searches :: "file_search \<Rightarrow> state_token \<times> (string \<times> string) list" where
  "list_searches s =
     (mSearchesStateToken s,
      map (\<lambda>i. (encode_id i, case mSearches s i of Some search \<Rightarrow> mSearchString search | None \<Rightarrow> ''''))
        (sorted_list_of_set (dom (mSearches s))))"

text \<open>\<open>std::getline(iss, s, ' ')\<close> until it fails: the last word is dropped when it is empty.\<close>

fun split_words :: "string \<Rightarrow> string \<Rightarrow> string list" where
  "split_words [] w = (if w = '''' then [] else [w])"
| "split_words (c # cs) w = (if c = CHR '' '' then w # split_words cs '''' else split_words cs (w @ [c]))"

text \<open>
  \<open>random_id\<close> is \<open>RSRandom::random_u32()\<close>, \<open>turtleSearch\<close> starts a distant search for the words and
  returns its id, \<open>local_results\<close> and \<open>remote_results\<close> are what the file database finds. A
  search that is there already under the id keeps its hashes.
\<close>

definition handleCreateSearch ::
  "32 word \<Rightarrow> (string list \<Rightarrow> 32 word) \<Rightarrow> (string list \<Rightarrow> file_detail list) \<Rightarrow> (string list \<Rightarrow> file_detail list)
   \<Rightarrow> bool \<Rightarrow> bool \<Rightarrow> bool \<Rightarrow> string \<Rightarrow> file_search \<Rightarrow> string option \<times> file_search" where
  "handleCreateSearch random_id turtleSearch local_results remote_results distant is_local is_remote search_string s =
     (let words = split_words search_string ''''
      in if words = [] then (None, s)
         else
           (let search_id = (if distant then turtleSearch words else random_id);
                results = (if is_local then local_results words else []) @
                  (if is_remote then remote_results words else []);
                hashes = (case mSearches s search_id of None \<Rightarrow> {} | Some old \<Rightarrow> mHashes old);
                (t, s1) = getNewToken s;
                s2 = s1\<lparr>mSearches := (mSearches s1)(search_id \<mapsto>
                   \<lparr>mStateToken = t, mSearchString = search_string, mResults = results, mHashes = hashes\<rparr>)\<rparr>;
                (t', s3) = getNewToken (discardToken (mSearchesStateToken s2) s2)
            in (Some (encode_id search_id), s3\<lparr>mSearchesStateToken := t'\<rparr>)))"

section \<open>Lemmas\<close>

lemma word_nibble: "(w :: 32 word) = take_bit 4 w + push_bit 4 (drop_bit 4 w)"
  using bits_ident [of 4 w] by (simp add: add.commute)

lemma nibble_value [simp]:
  "char_value (char_of (unat (take_bit 4 (w :: 32 word)) + 65)) = int (unat (take_bit 4 w)) + 65"
proof -
  have less: "unat (take_bit 4 w) < 16"
    using take_bit_nat_less_exp [of 4 "unat w"] by (simp add: unsigned_take_bit_eq)
  have "of_char (char_of (unat (take_bit 4 w) + 65)) = (unat (take_bit 4 w) + 65) mod 256"
    by (simp only: of_char_of)
  then have "int (of_char (char_of (unat (take_bit 4 w) + 65))) = int (unat (take_bit 4 w)) + 65"
    using less by simp
  then have "of_char (char_of (unat (take_bit 4 w) + 65)) = int (unat (take_bit 4 w)) + 65"
    by (simp only: of_nat_of_char)
  moreover have "int (unat (take_bit 4 w)) < 16" using less by linarith
  ultimately show ?thesis by (simp only: char_value_def Let_def) simp
qed

lemma decode_encode: "decode_id (encode_id i) = Some i"
proof -
  let ?d = "\<lambda>k. take_bit 4 (drop_bit k i)"
  have step: "drop_bit k i = ?d k + push_bit 4 (drop_bit (k + 4) i)" for k
    using word_nibble [of "drop_bit k i"] by (simp add: add.commute)
  have "drop_bit 32 i = 0" using drop_bit_take_bit [of 32 32 i] by simp
  then have "i = ?d 0 + push_bit 4 (?d 4 + push_bit 4 (?d 8 + push_bit 4 (?d 12 + push_bit 4 (?d 16 +
      push_bit 4 (?d 20 + push_bit 4 (?d 24 + push_bit 4 (?d 28)))))))"
    using step [of 0] step [of 4] step [of 8] step [of 12] step [of 16] step [of 20] step [of 24] step [of 28]
    by simp
  then have "i = ?d 0 + push_bit 4 (?d 4) + push_bit 8 (?d 8) + push_bit 12 (?d 12) + push_bit 16 (?d 16) +
      push_bit 20 (?d 20) + push_bit 24 (?d 24) + push_bit 28 (?d 28)"
    by (simp add: push_bit_add push_bit_push_bit add.assoc)
  moreover have "[0..<8] = [0, 1, 2, 3, 4, 5, 6, 7 :: nat]" by (simp add: upt_rec)
  ultimately show ?thesis
    by (simp add: decode_id_def encode_id_def)
qed

lemma add_results_spec:
  assumes "add_results files results hashes changed = (results', hashes', changed')"
  shows "\<exists>new. results' = results @ new \<and> hashes' = hashes \<union> fd_hash ` set new \<and>
    distinct (map fd_hash new) \<and> fd_hash ` set new \<inter> hashes = {} \<and> set new \<subseteq> set files \<and>
    length results' \<le> max 100 (length results) \<and> changed' = (changed \<or> new \<noteq> []) \<and>
    (length results' < 100 \<longrightarrow> fd_hash ` set files \<subseteq> hashes')"
  using assms
proof (induction files results hashes changed rule: add_results.induct)
  case (2 f files results hashes changed)
  show ?case
  proof (cases "length results < 100")
    case True
    show ?thesis
    proof (cases "fd_hash f \<in> hashes")
      case False
      with True 2(1,3) obtain new where new: "results' = (results @ [f]) @ new"
        "hashes' = insert (fd_hash f) hashes \<union> fd_hash ` set new" "distinct (map fd_hash new)"
        "fd_hash ` set new \<inter> insert (fd_hash f) hashes = {}" "set new \<subseteq> set files"
        "length results' \<le> max 100 (length (results @ [f]))" "changed'"
        "length results' < 100 \<longrightarrow> fd_hash ` set files \<subseteq> hashes'" by auto
      then show ?thesis
        using True False by (intro exI [of _ "f # new"]) auto
    next
      case old: True
      with True 2(2,3) obtain new where "results' = results @ new"
        "hashes' = hashes \<union> fd_hash ` set new" "distinct (map fd_hash new)"
        "fd_hash ` set new \<inter> hashes = {}" "set new \<subseteq> set files"
        "length results' \<le> max 100 (length results)" "changed' = (changed \<or> new \<noteq> [])"
        "length results' < 100 \<longrightarrow> fd_hash ` set files \<subseteq> hashes'" by auto
      then show ?thesis using old by (intro exI [of _ new]) auto
    qed
  qed (use 2(3) in auto)
qed auto

section \<open>Properties\<close>

text \<open>
  C17. Search results. When results of a running search arrive, the search gains only files that
  were reported, whose hashes are new to it and pairwise different, behind its old results; never
  beyond 100, and below 100 no reported hash is missing. If it gained something, its old token
  has expired and its new one is valid; if not, no token has changed. All other searches stay.
\<close>

theorem search_results_deduplicated:
  assumes "mSearches s i = Some search" and "below_next s" and "unat (mNextToken s) < 2 ^ 32 - 1"
    and "mStateToken search \<in> set (mValidTokens s)"
  shows "\<exists>search' new. mSearches (notifyTurtleSearchResult i files s) = (mSearches s)(i \<mapsto> search') \<and>
    mResults search' = mResults search @ new \<and> set new \<subseteq> set files \<and>
    distinct (map fd_hash new) \<and> fd_hash ` set new \<inter> mHashes search = {} \<and>
    length (mResults search') \<le> max 100 (length (mResults search)) \<and>
    (length (mResults search') < 100 \<longrightarrow> fd_hash ` set files \<subseteq> mHashes search') \<and>
    (if new = [] then mValidTokens (notifyTurtleSearchResult i files s) = mValidTokens s
     else mStateToken search \<notin> set (mValidTokens (notifyTurtleSearchResult i files s)) \<and>
       mStateToken search' \<in> set (mValidTokens (notifyTurtleSearchResult i files s)))"
proof -
  obtain results hashes changed where
    add: "add_results files (mResults search) (mHashes search) False = (results, hashes, changed)"
    by (cases "add_results files (mResults search) (mHashes search) False" rule: prod_cases3)
  from add_results_spec [OF this] obtain new where new: "results = mResults search @ new"
    "distinct (map fd_hash new)" "fd_hash ` set new \<inter> mHashes search = {}" "set new \<subseteq> set files"
    "length results \<le> max 100 (length (mResults search))" "changed \<longleftrightarrow> new \<noteq> []"
    "length results < 100 \<longrightarrow> fd_hash ` set files \<subseteq> hashes"
    by auto
  let ?n = "notifyTurtleSearchResult i files s"
  let ?s' = "search\<lparr>mResults := results, mHashes := hashes\<rparr>"
  show ?thesis
  proof (cases changed)
    case False
    then have "mSearches ?n = (mSearches s)(i \<mapsto> ?s')" "mValidTokens ?n = mValidTokens s"
      using assms(1) add by (simp_all add: notifyTurtleSearchResult_def)
    with False new show ?thesis by (intro exI [of _ ?s'] exI [of _ new]) simp
  next
    case True
    let ?d = "discardToken (mStateToken search) s"
    have d: "mNextToken ?d = mNextToken s" by (simp add: discardToken_def locked_discardToken_def)
    have valid: "set (mValidTokens ?d) = set (mValidTokens s) - {mStateToken search}"
      using assms(2) by (simp add: below_next_def discardToken_valid)
    have fresh: "mStateToken search \<noteq> mNextToken s"
      using assms(2,4) by (auto simp: below_next_def)
    let ?t' = "?s'\<lparr>mStateToken := mNextToken s\<rparr>"
    have "mSearches ?n = (mSearches s)(i \<mapsto> ?t')"
      "mValidTokens ?n = mValidTokens ?d @ [mNextToken s]"
      using True assms(1) add
      by (simp_all add: notifyTurtleSearchResult_def getNewToken_conv d Let_def)
    with True new valid fresh show ?thesis
      by (intro exI [of _ ?t'] exI [of _ new]) simp
  qed
qed

theorem search_results_deduplicated_witness:
  "\<exists>search'. mSearches (notifyTurtleSearchResult 7 [\<lparr>fd_name = ''a'', fd_hash = ''h'', fd_size = 1\<rparr>]
      \<lparr>mNextToken = 3, mValidTokens = [1, 2], mTickClients = [],
       mSearches = [7 \<mapsto> \<lparr>mStateToken = 2, mSearchString = ''a'', mResults = [], mHashes = {}\<rparr>],
       mSearchesStateToken = 1\<rparr>) 7 = Some search' \<and> ''h'' \<in> mHashes search'"
proof -
  let ?search = "\<lparr>mStateToken = 2, mSearchString = ''a'', mResults = [], mHashes = {}\<rparr> :: search"
  let ?s = "\<lparr>mNextToken = 3, mValidTokens = [1, 2], mTickClients = [],
       mSearches = [7 \<mapsto> ?search], mSearchesStateToken = 1\<rparr> :: file_search"
  have "below_next ?s" by (simp add: below_next_def)
  then have "\<exists>search' new. mSearches (notifyTurtleSearchResult 7 [\<lparr>fd_name = ''a'', fd_hash = ''h'', fd_size = 1\<rparr>] ?s) =
      (mSearches ?s)(7 \<mapsto> search') \<and> mResults search' = mResults ?search @ new \<and>
      distinct (map fd_hash new) \<and> set new \<subseteq> {\<lparr>fd_name = ''a'', fd_hash = ''h'', fd_size = 1\<rparr>} \<and>
      (length (mResults search') < 100 \<longrightarrow> ''h'' \<in> mHashes search')"
    using search_results_deduplicated [of ?s 7 ?search "[\<lparr>fd_name = ''a'', fd_hash = ''h'', fd_size = 1\<rparr>]"]
    by auto
  then obtain search' new where s': "mSearches (notifyTurtleSearchResult 7
      [\<lparr>fd_name = ''a'', fd_hash = ''h'', fd_size = 1\<rparr>] ?s) 7 = Some search'"
    "mResults search' = new" "distinct (map fd_hash new)"
    "set new \<subseteq> {\<lparr>fd_name = ''a'', fd_hash = ''h'', fd_size = 1\<rparr>}"
    "length (mResults search') < 100 \<longrightarrow> ''h'' \<in> mHashes search'" by auto
  have "distinct new" using s'(3) by (simp add: distinct_map)
  then have "length new = card (set new)" by (simp add: distinct_card)
  also have "card (set new) \<le> 1" using card_mono [OF _ s'(4)] by simp
  finally show ?thesis using s' by auto
qed

end
