(* ===== verification/Transfers.thy ===== *)
theory Transfers
  imports StateTokenServer UiTypes "HOL-Library.List_Lexorder" "HOL-Library.Char_ord"
begin

text \<open>
  \<open>api/TransfersHandler.cpp\<close>: the list of downloads and its control. \<open>RsFiles\<close> is a library: its
  functions are fields of a record of parameters, over a state \<open>'f\<close> of its own. File hashes are
  compared like strings.
\<close>

datatype file_hash = FileHash string

instantiation file_hash :: linorder
begin

definition less_eq_file_hash :: "file_hash \<Rightarrow> file_hash \<Rightarrow> bool" where
  "less_eq_file_hash a b \<longleftrightarrow> (case (a, b) of (FileHash x, FileHash y) \<Rightarrow> x \<le> y)"

definition less_file_hash :: "file_hash \<Rightarrow> file_hash \<Rightarrow> bool" where
  "less_file_hash a b \<longleftrightarrow> (case (a, b) of (FileHash x, FileHash y) \<Rightarrow> x < y)"

instance
  by standard (auto simp: less_eq_file_hash_def less_file_hash_def split: file_hash.splits)

end

datatype control_flag = RS_FILE_CTRL_PAUSE | RS_FILE_CTRL_START | RS_FILE_CTRL_FORCE_CHECK

record 'f rs_files =
  FileDownloads :: "'f \<Rightarrow> file_hash list"
  FileControl :: "file_hash \<Rightarrow> control_flag \<Rightarrow> 'f \<Rightarrow> bool \<times> 'f"
  FileCancel :: "file_hash \<Rightarrow> 'f \<Rightarrow> bool \<times> 'f"
  FileRequest :: "string \<Rightarrow> file_hash \<Rightarrow> int \<Rightarrow> 'f \<Rightarrow> bool \<times> 'f"

record 'f transfers = "nat token_server" +
  trStateToken :: state_token
  mLastUpdateTS :: nat
  mDownloadsAtLastCheck :: "file_hash list"
  files :: 'f

definition UPDATE_PERIOD_SECONDS :: nat where
  "UPDATE_PERIOD_SECONDS = 5"

text \<open>The constructor, without the registration as a tick client.\<close>

definition TransfersHandler :: "nat token_server \<Rightarrow> 'f \<Rightarrow> 'f transfers" where
  "TransfersHandler sts f =
     (let (t, sts') = getNewToken sts
      in token_server.extend sts'
           \<lparr>trStateToken = t, mLastUpdateTS = 0, mDownloadsAtLastCheck = [], files = f\<rparr>)"

definition replace_state_token :: "'f transfers \<Rightarrow> 'f transfers" where
  "replace_state_token s = (let (t, s') = replaceToken (trStateToken s) s in s'\<lparr>trStateToken := t\<rparr>)"

text \<open>
  \<open>std::equal(a.begin(), a.end(), b.begin())\<close> compares as many elements as \<open>a\<close> has, without
  looking at the end of \<open>b\<close>; past it, the result is undefined (\<open>past_end\<close>).
\<close>

fun std_equal :: "bool \<Rightarrow> 'a list \<Rightarrow> 'a list \<Rightarrow> bool" where
  "std_equal past_end [] bs = True"
| "std_equal past_end (a # as) [] = past_end"
| "std_equal past_end (a # as) (b # bs) = (if a = b then std_equal past_end as bs else False)"

definition transfers_tick :: "'f rs_files \<Rightarrow> bool \<Rightarrow> nat \<Rightarrow> 'f transfers \<Rightarrow> 'f transfers" where
  "transfers_tick rs past_end now s =
     (let s1 = (if now > mLastUpdateTS s + UPDATE_PERIOD_SECONDS then replace_state_token s else s);
          dls = sort (FileDownloads rs (files s1))
      in if \<not> std_equal past_end dls (mDownloadsAtLastCheck s1)
         then replace_state_token (s1\<lparr>mDownloadsAtLastCheck := dls\<rparr>)
         else s1)"

section \<open>Control\<close>

text \<open>Reading a member of the request; \<open>None\<close>: the stream is not ok afterwards.\<close>

definition get_str :: "string \<Rightarrow> (string \<times> json) list \<Rightarrow> string option" where
  "get_str k fs = (case map_of fs k of Some (JStr v) \<Rightarrow> Some v | _ \<Rightarrow> None)"

definition get_num :: "string \<Rightarrow> (string \<times> json) list \<Rightarrow> int option" where
  "get_num k fs = (case map_of fs k of Some (JNum v) \<Rightarrow> Some v | _ \<Rightarrow> None)"

text \<open>The answer: \<open>True\<close> for ok, the message otherwise.\<close>

definition handleControlDownload ::
  "'f rs_files \<Rightarrow> (string \<times> json) list \<Rightarrow> 'f transfers \<Rightarrow> (bool \<times> string) \<times> 'f transfers" where
  "handleControlDownload rs fs s0 =
     (let s = replace_state_token s0;
          action = (case get_str ''action'' fs of None \<Rightarrow> '''' | Some a \<Rightarrow> a)
      in if action = ''begin'' then
           (case (get_str ''action'' fs, get_str ''name'' fs, get_num ''size'' fs, get_str ''hash'' fs) of
              (Some _, Some fname, Some sz, Some hash) \<Rightarrow>
                (let (ok, f) = FileRequest rs fname (FileHash hash) sz (files s)
                 in (if ok then (True, '''') else (False, ''something went wrong. are all fields filled in? is the file already downloaded?''),
                     s\<lparr>files := f\<rparr>))
            | _ \<Rightarrow> ((False, ''something went wrong. are all fields filled in? is the file already downloaded?''), s))
         else
           (case (get_str ''action'' fs, get_str ''id'' fs) of
              (Some _, Some hash) \<Rightarrow>
                (let (handled, ok, f) =
                   (if action = ''pause'' then (True, FileControl rs (FileHash hash) RS_FILE_CTRL_PAUSE (files s))
                    else if action = ''start'' then (True, FileControl rs (FileHash hash) RS_FILE_CTRL_START (files s))
                    else if action = ''check'' then (True, FileControl rs (FileHash hash) RS_FILE_CTRL_FORCE_CHECK (files s))
                    else if action = ''cancel'' then (True, FileCancel rs (FileHash hash) (files s))
                    else (False, False, files s))
                 in (if handled then if ok then (True, '''') else (False, ''something went wrong. not sure what or why.'')
                     else (False, ''error: action not handled''), s\<lparr>files := f\<rparr>))
            | _ \<Rightarrow> ((False, ''error: could not deserialise the request''), s)))"

section \<open>The names of the states\<close>

definition dl_status :: "nat \<Rightarrow> string" where
  "dl_status downloadStatus =
     (if downloadStatus = 0 then ''failed'' else if downloadStatus = 1 then ''okay''
      else if downloadStatus = 2 then ''waiting'' else if downloadStatus = 3 then ''downloading''
      else if downloadStatus = 4 then ''complete'' else if downloadStatus = 5 then ''queued''
      else if downloadStatus = 6 then ''paused'' else if downloadStatus = 7 then ''checking''
      else ''error_unknown'')"

section \<open>The list of downloads\<close>

record file_info =
  fi_hash :: file_hash
  fi_fname :: string
  fi_size :: nat
  fi_transfered :: nat
  fi_tfRate :: nat
  fi_downloadStatus :: nat

record download_member =
  dm_id :: file_hash
  dm_hash :: file_hash
  dm_name :: string
  dm_size :: nat
  dm_transfered :: nat
  dm_transfer_rate :: nat
  dm_download_status :: string

text \<open>
  \<open>details\<close> is \<open>FileDetails\<close> with the hint for downloads: \<open>None\<close> when it returns false. The answer is the
  token and the members of the list; its return code is ok.
\<close>

definition handleDownloads ::
  "'f rs_files \<Rightarrow> ('f \<Rightarrow> file_hash \<Rightarrow> file_info option) \<Rightarrow> bool \<Rightarrow> nat \<Rightarrow> 'f transfers
   \<Rightarrow> (state_token \<times> download_member list) \<times> 'f transfers" where
  "handleDownloads rs details past_end now s0 =
     (let s = transfers_tick rs past_end now s0;
          member = (\<lambda>fi. \<lparr>dm_id = fi_hash fi, dm_hash = fi_hash fi, dm_name = fi_fname fi, dm_size = fi_size fi,
             dm_transfered = fi_transfered fi, dm_transfer_rate = fi_tfRate fi,
             dm_download_status = dl_status (fi_downloadStatus fi)\<rparr>)
      in ((trStateToken s, map member (List.map_filter (details (files s)) (mDownloadsAtLastCheck s))), s))"

section \<open>Lemmas\<close>

lemma std_equal_prefix: "std_equal False as bs \<longleftrightarrow> take (length as) bs = as"
  by (induction False as bs rule: std_equal.induct) auto

lemma replace_state_token_frame [simp]:
  "files (replace_state_token s) = files s" "mLastUpdateTS (replace_state_token s) = mLastUpdateTS s"
  "mDownloadsAtLastCheck (replace_state_token s) = mDownloadsAtLastCheck s"
  "trStateToken (replace_state_token s) = mNextToken s"
  "mNextToken (replace_state_token s) = next_token (mNextToken s)"
  by (simp_all add: replace_state_token_def replaceToken_conv getNewToken_conv discardToken_def
      locked_discardToken_def)

lemma files_transfers_tick [simp]: "files (transfers_tick rs p now s) = files s"
  by (simp add: transfers_tick_def Let_def)

lemma set_map_filter: "set (List.map_filter f xs) = {y. \<exists>x \<in> set xs. f x = Some y}"
  by (induction xs) (auto simp: List.map_filter_simps split: option.splits)

lemma handleDownloads_answer:
  "fst (fst (handleDownloads rs details p now s)) = trStateToken (transfers_tick rs p now s) \<and>
   set (map dm_id (snd (fst (handleDownloads rs details p now s)))) =
     {fi_hash fi |fi h. h \<in> set (mDownloadsAtLastCheck (transfers_tick rs p now s)) \<and> details (files s) h = Some fi}"
  by (auto simp: handleDownloads_def Let_def set_map_filter image_def)

text \<open>The state of the handler before the counter wraps around.\<close>

definition transfers_ok :: "'f transfers \<Rightarrow> bool" where
  "transfers_ok s \<longleftrightarrow> below_next s \<and> trStateToken s \<in> set (mValidTokens s)"

lemma replace_state_token_ok:
  assumes "transfers_ok s" "unat (mNextToken s) < 2 ^ 32 - 1"
  shows "transfers_ok (replace_state_token s) \<and> mNextToken s < mNextToken (replace_state_token s) \<and>
    set (mValidTokens (replace_state_token s)) = insert (mNextToken s) (set (mValidTokens s) - {trStateToken s})"
proof -
  let ?d = "discardToken (trStateToken s) s"
  let ?g = "snd (getNewToken ?d)"
  have below: "below_next s" using assms(1) by (simp add: transfers_ok_def)
  have next_d: "mNextToken ?d = mNextToken s" by (simp add: discardToken_def locked_discardToken_def)
  have valid_d: "set (mValidTokens ?d) = set (mValidTokens s) - {trStateToken s}"
    using below by (simp add: below_next_def discardToken_valid)
  have g: "getNewToken ?d = (mNextToken s, ?g)" by (simp add: getNewToken_conv next_d)
  have "below_next ?g \<and> mNextToken s < mNextToken ?g"
    using below_next_getNewToken [OF below_next_discardToken [OF below] _ g] assms(2) by (simp add: next_d)
  moreover have "replace_state_token s = ?g\<lparr>trStateToken := mNextToken s\<rparr>"
    by (simp add: replace_state_token_def replaceToken_conv getNewToken_conv next_d)
  moreover have "set (mValidTokens ?g) = insert (mNextToken s) (set (mValidTokens s) - {trStateToken s})"
    using valid_d by (simp add: getNewToken_conv next_d)
  ultimately show ?thesis by (simp add: transfers_ok_def below_next_def)
qed

section \<open>Properties\<close>



end
