(* ===== verification/WebBackend.thy ===== *)
theory WebBackend
  imports XhrConnection PeersWidgets TransferWidgets ControlWidgets MainPage Router FileSearch Transfers
begin

text \<open>
  The web interface against the backend: the urls its widgets request and the handlers the routers
  find for them, the ids of file searches, and the control of downloads.
\<close>

text \<open>The routes of the requests among some effects; the connection puts \<open>api_root_path\<close> in front.\<close>

definition route :: "string \<Rightarrow> (api_handler \<times> string list) option" where
  "route p = api_request_route (api_root_path @ p)"

definition routes :: "'cb effect list \<Rightarrow> (api_handler \<times> string list) option list" where
  "routes es = map route (request_paths es)"

lemma route_components:
  assumes "\<And>x. x \<in> set (c # cs) \<Longrightarrow> CHR ''/'' \<notin> set x \<and> x \<noteq> ''''"
  shows "route (c @ concat (map (\<lambda>x. CHR ''/'' # x) cs)) = handleRequest 3 api_router (c # cs)"
  using api_request_route_components [of "c # cs", OF assms] by (simp add: route_def api_root_path_def)

lemma route_one: "CHR ''/'' \<notin> set c \<Longrightarrow> c \<noteq> '''' \<Longrightarrow> route c = handleRequest 3 api_router [c]"
  using route_components [of c "[]"] by simp

lemma route_two:
  assumes "CHR ''/'' \<notin> set c" "c \<noteq> ''''" "CHR ''/'' \<notin> set d" "d \<noteq> ''''"
  shows "route (c @ ''/'' @ d) = handleRequest 3 api_router [c, d]"
  using route_components [of c "[d]"] assms by auto

lemma route_three:
  assumes "CHR ''/'' \<notin> set c" "c \<noteq> ''''" "CHR ''/'' \<notin> set d" "d \<noteq> ''''" "CHR ''/'' \<notin> set e" "e \<noteq> ''''"
  shows "route (c @ ''/'' @ d @ ''/'' @ e) = handleRequest 3 api_router [c, d, e]"
  using route_components [of c "[d, e]"] assms by auto

lemma control_handler:
  assumes "CHR ''/'' \<notin> set n" "n \<noteq> ''''"
  shows "route (''control/'' @ n) = handleRequest 2 control_module [n]"
  using route_two [of "''control''" n] assms by (simp add: api_router_defs numeral_2_eq_2)

lemma routes_control:
  "route ''control/runstate'' = Some (RunState, [])" "route ''control/identities'' = Some (Identities, [])"
  "route ''control/locations'' = Some (Locations, [])" "route ''control/password'' = Some (Password, [])"
  "route ''control/login'' = Some (Login, [])" "route ''control/shutdown'' = Some (Shutdown, [])"
  "route ''control/import_pgp'' = Some (ImportPgp, [])" "route ''control/create_location'' = Some (CreateLocation, [])"
  using control_handler [of "''runstate''"] control_handler [of "''identities''"]
    control_handler [of "''locations''"] control_handler [of "''password''"]
    control_handler [of "''login''"] control_handler [of "''shutdown''"]
    control_handler [of "''import_pgp''"] control_handler [of "''create_location''"]
  by (simp_all add: control_module_def addResourceHandler_def numeral_2_eq_2)

lemma routes_other:
  "route ''peers'' = Some (PeersWildcard, [])" "route ''peers/examine_cert'' = Some (ExamineCert, [])"
  "route ''peers/self/certificate'' = Some (PeersWildcard, [''self'', ''certificate''])"
  "route ''statetokenservice'' = Some (StateTokens, [])" "route ''livereload'' = Some (Livereload, [])"
  "route ''transfers/downloads'' = Some (Downloads, [])"
  "route ''transfers/control_download'' = Some (ControlDownload, [])"
  "route ''filesearch/create_search'' = Some (CreateSearch, [])"
  using route_one [of "''peers''"] route_two [of "''peers''" "''examine_cert''"]
    route_three [of "''peers''" "''self''" "''certificate''"] route_one [of "''statetokenservice''"]
    route_one [of "''livereload''"] route_two [of "''transfers''" "''downloads''"]
    route_two [of "''transfers''" "''control_download''"] route_two [of "''filesearch''" "''create_search''"]
  by (simp_all add: api_router_defs)

lemma route_peer_delete:
  assumes "CHR ''/'' \<notin> set i" "i \<noteq> ''''" "i \<noteq> ''examine_cert''" "i \<noteq> ''*''"
  shows "route (''peers/'' @ i @ ''/delete'') = Some (PeersWildcard, [i, ''delete''])"
  using route_three [of "''peers''" i "''delete''"] assms by (simp add: api_router_defs)

lemma route_search:
  assumes "CHR ''/'' \<notin> set i" "i \<noteq> ''''" "i \<noteq> ''create_search''" "i \<noteq> ''*''"
  shows "route (''filesearch/'' @ i) = Some (FileSearchWildcard, [i])"
  using route_two [of "''filesearch''" i] assms by (simp add: api_router_defs)

section \<open>Properties\<close>



text \<open>
  C16. A search can be found again. Whatever id the turtle router (or the random generator) gives
  a search, the string the backend answers is one path component that the router hands to the
  search handler, which decodes it to the same search: the request of the result list gets its
  token, which is valid, and its results, and the list of searches shows it under this id.
\<close>

lemma encode_id_chars: "c \<in> set (encode_id i) \<Longrightarrow> of_char c \<in> {65..<81 :: nat}"
proof -
  assume "c \<in> set (encode_id i)"
  then obtain k where c: "c = char_of (unat (take_bit 4 (drop_bit (4 * k) i)) + 65)"
    by (auto simp: encode_id_def)
  have "unat (take_bit 4 (drop_bit (4 * k) i)) < 16"
    using take_bit_nat_less_exp [of 4 "unat (drop_bit (4 * k) i)"] by (simp add: unsigned_take_bit_eq)
  then show ?thesis by (simp add: c of_char_of)
qed

theorem created_search_found:
  assumes "handleCreateSearch random_id turtle found_local found_remote distant is_local is_remote search_string s =
      (Some idstr, s')"
  shows "route (result_list_getPath idstr) = Some (FileSearchWildcard, [idstr]) \<and>
    (idstr, search_string) \<in> set (snd (list_searches s')) \<and>
    (\<exists>t. search_results idstr s' = Inr (''not_set'', t,
       (if is_local then found_local (split_words search_string '''') else []) @
       (if is_remote then found_remote (split_words search_string '''') else [])) \<and>
     (below_next s \<and> mSearchesStateToken s \<in> set (mValidTokens s) \<longrightarrow>
        t \<in> set (mValidTokens s')))"
proof -
  let ?w = "split_words search_string ''''"
  let ?id = "if distant then turtle ?w else random_id"
  have words: "?w \<noteq> []" using assms by (auto simp: handleCreateSearch_def)
  have id: "idstr = encode_id ?id"
    using assms words by (cases distant) (simp_all add: handleCreateSearch_def Let_def getNewToken_conv)
  have "CHR ''/'' \<notin> set idstr" using encode_id_chars [of "CHR ''/''" ?id] by (auto simp: id)
  moreover have "length idstr = 8" by (simp add: id encode_id_def)
  ultimately have "route (''filesearch/'' @ idstr) = Some (FileSearchWildcard, [idstr])"
    by (intro route_search) auto
  moreover from assms words have "\<exists>search'. mSearches s' ?id = Some search' \<and> mStateToken search' = mNextToken s \<and>
      mSearchString search' = search_string \<and> mResults search' = (if is_local then found_local ?w else []) @ (if is_remote then found_remote ?w else [])"
    by (auto simp: handleCreateSearch_def Let_def getNewToken_conv discardToken_def
        locked_discardToken_def split: if_splits)
  then obtain search' where search': "mSearches s' ?id = Some search'" "mStateToken search' = mNextToken s"
      "mSearchString search' = search_string"
      "mResults search' = (if is_local then found_local ?w else []) @ (if is_remote then found_remote ?w else [])"
    by blast
  moreover have "(idstr, search_string) \<in> set (snd (list_searches s'))"
    using search'(1,3) by (force simp: list_searches_def id image_iff intro!: bexI [of _ ?id])
  moreover have "mNextToken s \<in> set (mValidTokens s')"
    if "below_next s" "mSearchesStateToken s \<in> set (mValidTokens s)"
  proof -
    have "mSearchesStateToken s \<noteq> mNextToken s" using that by (auto simp: below_next_def)
    then show ?thesis
      using assms words by (auto simp: handleCreateSearch_def Let_def getNewToken_conv discardToken_def
          locked_discardToken_def split: if_splits)
  qed
  ultimately show ?thesis
    by (auto simp: result_list_getPath_def search_results_def id decode_encode)
qed

theorem created_search_found_witness:
  "\<exists>t. search_results (encode_id 7)
      (snd (handleCreateSearch 7 (\<lambda>_. 9) (\<lambda>_. []) (\<lambda>_. []) False True True ''mp3'' (FileSearchHandler StateTokenServer))) =
      Inr (''not_set'', t, [])"
proof -
  obtain s' where run: "handleCreateSearch 7 (\<lambda>_. 9) (\<lambda>_. []) (\<lambda>_. []) False True True ''mp3''
      (FileSearchHandler StateTokenServer) = (Some (encode_id 7), s')"
    by (simp add: handleCreateSearch_def Let_def getNewToken_conv)
  then show ?thesis using created_search_found [OF run] by auto
qed

text \<open>
  C19. The controls do what they say. The request of each control of a download row, handled by the
  backend, performs exactly the action of its label on the file with the id of the row, and the
  answer tells whether it succeeded; the download button of a search result requests the file
  with its name, hash and size.
\<close>

definition fields_of :: "'cb effect list \<Rightarrow> (string \<times> json) list" where
  "fields_of es = (case es of [Request p (Some (JObj fs)) cb] \<Rightarrow> fs | _ \<Rightarrow> [])"

theorem download_controls_act:
  "let h = FileHash (dl_id d);
       run = (\<lambda>es. handleControlDownload rs (fields_of es) s);
       acts = (\<lambda>es (ok, f'). fst (fst (run es)) = ok \<and> files (snd (run es)) = f')
   in acts (downloads_handle (StartFn d)) (FileControl rs h RS_FILE_CTRL_START (files s)) \<and>
      acts (downloads_handle (PauseFn d)) (FileControl rs h RS_FILE_CTRL_PAUSE (files s)) \<and>
      acts (downloads_handle (CancelFn d)) (FileCancel rs h (files s)) \<and>
      acts (start_download g)
        (FileRequest rs (ff_name g) (FileHash (ff_hash g)) \<lfloor>ff_size g\<rfloor> (files s))"
  by (simp add: handleControlDownload_def fields_of_def downloads_handle_def startFn_def pauseFn_def cancelFn_def
      control_download_def start_download_def get_str_def get_num_def Let_def split: prod.split)

end
