(* ===== verification/JsObject.thy ===== *)
theory JsObject
  imports Prelude
begin

text \<open>
  Objects of the program as the list of their own members, in the order \<open>for in\<close> visits them: assignment of a
  member, copying all members of an object, and the names every object inherits.
\<close>

text \<open>What \<open>in\<close> finds in every object.\<close>

definition object_prototype_keys :: "string list" where
  "object_prototype_keys = [''constructor'', ''toString'', ''toLocaleString'', ''valueOf'', ''hasOwnProperty'',
     ''isPrototypeOf'', ''propertyIsEnumerable'', ''__proto__'', ''__defineGetter__'', ''__defineSetter__'',
     ''__lookupGetter__'', ''__lookupSetter__'']"

text \<open>\<open>m[k] = v\<close>\<close>

fun js_put :: "string \<Rightarrow> 'x \<Rightarrow> (string \<times> 'x) list \<Rightarrow> (string \<times> 'x) list" where
  "js_put k v [] = [(k, v)]"
| "js_put k v ((k', v') # rest) = (if k = k' then (k, v) # rest else (k', v') # js_put k v rest)"

text \<open>Assigning all members of \<open>from\<close> to \<open>m\<close>, in order.\<close>

definition js_copy :: "(string \<times> 'x) list \<Rightarrow> (string \<times> 'x) list \<Rightarrow> (string \<times> 'x) list" where
  "js_copy source m = fold (\<lambda>(k, v) m. js_put k v m) source m"

lemma map_of_js_put [simp]: "map_of (js_put k v m) = (map_of m)(k \<mapsto> v)"
  by (induction k v m rule: js_put.induct) auto

lemma js_put_new: "map_of m k = None \<Longrightarrow> js_put k v m = m @ [(k, v)]"
  by (induction k v m rule: js_put.induct) (auto split: if_splits)

lemma js_put_keys: "map fst (js_put k v m) = map fst m @ (if k \<in> fst ` set m then [] else [k])"
  by (induction k v m rule: js_put.induct) auto

lemma distinct_js_put: "distinct (map fst m) \<Longrightarrow> distinct (map fst (js_put k v m))"
  by (simp add: js_put_keys)

lemma map_of_js_copy: "map_of (js_copy source m) = map_of m ++ map_of (rev source)"
proof (induction source arbitrary: m)
  case (Cons kv source)
  obtain k v where kv: "kv = (k, v)" by (cases kv)
  have "map_of (js_copy (kv # source) m) = map_of (js_put k v m) ++ map_of (rev source)"
    using Cons.IH [of "js_put k v m"] by (simp only: js_copy_def kv fold_simps prod.case)
  also have "map_of (js_put k v m) = map_of m ++ [k \<mapsto> v]" by simp
  also have "(map_of m ++ [k \<mapsto> v]) ++ map_of (rev source) = map_of m ++ ([k \<mapsto> v] ++ map_of (rev source))"
    by (simp only: map_add_assoc)
  also have "[k \<mapsto> v] ++ map_of (rev source) = map_of (rev (kv # source))" by (simp add: kv)
  finally show ?case .
qed (simp add: js_copy_def)

lemma map_of_rev_distinct: "distinct (map fst m) \<Longrightarrow> map_of (rev m) = map_of m"
  by (rule map_of_eqI) (auto simp: rev_map [symmetric])

lemma distinct_js_copy: "distinct (map fst m) \<Longrightarrow> distinct (map fst (js_copy source m))"
  by (induction source arbitrary: m) (auto simp: js_copy_def distinct_js_put)

end
