(* ===== verification/ReactClass.thy ===== *)
theory ReactClass
  imports JsObject
begin

text \<open>
  \<open>ReactClass\<close> of \<open>webfiles/react.js\<close>: how \<open>React.createClass\<close> makes a class of a specification and
  its mixins, and what its constructor does. All widgets of the web interface are made this way.

  The file is built for development, so all checks are in force. A method takes its \<open>this\<close> and its
  arguments (\<open>'a\<close>) and a state of the world (\<open>'w\<close>); it returns a value or throws. An object
  is the list of its own members in the order \<open>for in\<close> visits them. No member of a specification is called
  \<open>__reactAutoBindMap\<close>, the property React keeps for itself.
\<close>

section \<open>The interface of a class\<close>

datatype spec_policy = DEFINE_ONCE | DEFINE_MANY | OVERRIDE_BASE | DEFINE_MANY_MERGED

definition interface_properties :: "(string \<times> spec_policy) list" where
  "interface_properties = [(''mixins'', DEFINE_MANY), (''statics'', DEFINE_MANY), (''propTypes'', DEFINE_MANY),
     (''contextTypes'', DEFINE_MANY), (''childContextTypes'', DEFINE_MANY)]"

definition interface_definition_methods :: "(string \<times> spec_policy) list" where
  "interface_definition_methods = [(''getDefaultProps'', DEFINE_MANY_MERGED), (''getInitialState'', DEFINE_MANY_MERGED),
     (''getChildContext'', DEFINE_MANY_MERGED), (''render'', DEFINE_ONCE)]"

definition interface_delegate_methods :: "(string \<times> spec_policy) list" where
  "interface_delegate_methods = [(''componentWillMount'', DEFINE_MANY), (''componentDidMount'', DEFINE_MANY),
     (''componentWillReceiveProps'', DEFINE_MANY), (''shouldComponentUpdate'', DEFINE_ONCE),
     (''componentWillUpdate'', DEFINE_MANY), (''componentDidUpdate'', DEFINE_MANY),
     (''componentWillUnmount'', DEFINE_MANY)]"

definition ReactClassInterface :: "(string \<times> spec_policy) list" where
  "ReactClassInterface = interface_properties @ interface_definition_methods @ interface_delegate_methods @
     [(''updateComponent'', OVERRIDE_BASE)]"

text \<open>The own members of \<open>ReactClassMixin\<close> and of \<open>RESERVED_SPEC_KEYS\<close>.\<close>

definition ReactClassMixin :: "string list" where
  "ReactClassMixin = [''replaceState'', ''isMounted'', ''setProps'', ''replaceProps'']"

definition RESERVED_SPEC_KEYS :: "string list" where
  "RESERVED_SPEC_KEYS = [''displayName'', ''mixins'', ''childContextTypes'', ''contextTypes'', ''getDefaultProps'',
     ''propTypes'', ''statics'']"

text \<open>What \<open>in\<close> finds in every function.\<close>

definition function_keys :: "string list" where
  "function_keys = object_prototype_keys @ [''length'', ''name'', ''prototype'', ''arguments'', ''caller'', ''call'',
     ''apply'', ''bind'']"

section \<open>Values, methods, specifications\<close>

text \<open>All but \<open>Thrown\<close> are failed invariants.\<close>

datatype class_error = OverridesBase string | DefinedTwice string | ClassAsMixin | ElementAsMixin
  | ReservedStatic string | StaticDefinedTwice string | NoRender | BadInitialState
  | DuplicateKey string | NotObjects | Thrown js_error

text \<open>What a method returns; the value \<open>None\<close> of a member is \<open>undefined\<close>.\<close>

datatype 'v ret = Undefined | Null | Primitive 'v
  | Members "(string \<times> 'v option) list" | ArrayOf "(string \<times> 'v option) list"

type_synonym ('a, 'v, 'w) meth = "'a \<Rightarrow> 'w \<Rightarrow> (class_error + 'v ret) \<times> 'w"

text \<open>
  The value of a member: a function, with whether \<open>__reactDontBind\<close> is set on it; an object; a falsy value,
  or any other value, by its address (\<open>Ref 0\<close> is the class itself).
\<close>

datatype 'f jsmember = Function 'f bool | Object "(string \<times> 'f jsmember) list" | Falsy | Ref nat

text \<open>A mixin: falsy, a class, an element, or a specification with its \<open>mixins\<close> and its other members.\<close>

datatype 'f mixin = NoMixin | ComponentClass | Element | Spec "'f mixin list" "(string \<times> 'f jsmember) list"

datatype class_warning = InvalidTypeDef string string | ComponentShouldUpdate

record 'f react_class =
  ctor :: "(string \<times> 'f jsmember) list"
  proto :: "(string \<times> 'f jsmember) list"
  autobind :: "(string \<times> 'f) list"
  class_warnings :: "class_warning list"

definition truthy_prop :: "'f jsmember option \<Rightarrow> bool" where
  "truthy_prop p = (case p of None \<Rightarrow> False | Some Falsy \<Rightarrow> False | _ \<Rightarrow> True)"

text \<open>\<open>f.apply(this, arguments)\<close>\<close>

definition apply_prop :: "('a, 'v, 'w) meth jsmember \<Rightarrow> ('a, 'v, 'w) meth" where
  "apply_prop p a w = (case p of Function f _ \<Rightarrow> f a w | _ \<Rightarrow> (Inl (Thrown TypeError), w))"

section \<open>Combining methods\<close>

definition is_defined :: "(string \<times> 'v option) list \<Rightarrow> string \<Rightarrow> bool" where
  "is_defined one k = (case map_of one k of None \<Rightarrow> k \<in> set object_prototype_keys | Some v \<Rightarrow> v \<noteq> None)"

fun merge_members :: "(string \<times> 'v option) list \<Rightarrow> (string \<times> 'v option) list \<Rightarrow> class_error + (string \<times> 'v option) list" where
  "merge_members one [] = Inr one"
| "merge_members one ((k, v) # two) =
     (if is_defined one k then Inl (DuplicateKey k) else merge_members (js_put k v one) two)"

definition mergeIntoWithNoDuplicateKeys ::
  "(string \<times> 'v option) list \<Rightarrow> 'v ret \<Rightarrow> class_error + (string \<times> 'v option) list" where
  "mergeIntoWithNoDuplicateKeys one two =
     (case two of Members m \<Rightarrow> merge_members one m | ArrayOf m \<Rightarrow> merge_members one m | _ \<Rightarrow> Inl NotObjects)"

definition merge_results :: "'v ret \<Rightarrow> 'v ret \<Rightarrow> class_error + 'v ret" where
  "merge_results a b =
     (if a = Undefined \<or> a = Null then Inr b
      else if b = Undefined \<or> b = Null then Inr a
      else case mergeIntoWithNoDuplicateKeys [] a of
          Inl e \<Rightarrow> Inl e
        | Inr c \<Rightarrow> map_sum id Members (mergeIntoWithNoDuplicateKeys c b))"

definition createMergedResultFunction ::
  "('a, 'v, 'w) meth jsmember \<Rightarrow> ('a, 'v, 'w) meth jsmember \<Rightarrow> ('a, 'v, 'w) meth" where
  "createMergedResultFunction one two = (\<lambda>a w.
     (case apply_prop one a w of
        (Inl e, w1) \<Rightarrow> (Inl e, w1)
      | (Inr x, w1) \<Rightarrow>
          (case apply_prop two a w1 of
             (Inl e, w2) \<Rightarrow> (Inl e, w2)
           | (Inr y, w2) \<Rightarrow> (merge_results x y, w2))))"

definition createChainedFunction ::
  "('a, 'v, 'w) meth jsmember \<Rightarrow> ('a, 'v, 'w) meth jsmember \<Rightarrow> ('a, 'v, 'w) meth" where
  "createChainedFunction one two = (\<lambda>a w.
     (case apply_prop one a w of
        (Inl e, w1) \<Rightarrow> (Inl e, w1)
      | (Inr x, w1) \<Rightarrow>
          (case apply_prop two a w1 of
             (Inl e, w2) \<Rightarrow> (Inl e, w2)
           | (Inr y, w2) \<Rightarrow> (Inr Undefined, w2))))"

section \<open>Mixing a specification into a class\<close>

definition interface_policy :: "string \<Rightarrow> spec_policy option" where
  "interface_policy name = map_of ReactClassInterface name"

definition may_repeat :: "string \<Rightarrow> bool" where
  "may_repeat name \<longleftrightarrow> interface_policy name \<in> {Some DEFINE_MANY, Some DEFINE_MANY_MERGED}"

definition validateMethodOverride :: "(string \<times> 'f jsmember) list \<Rightarrow> string \<Rightarrow> class_error option" where
  "validateMethodOverride pr name =
     (if name \<in> set ReactClassMixin \<and> interface_policy name \<noteq> Some OVERRIDE_BASE then Some (OverridesBase name)
      else if map_of pr name \<noteq> None \<and> \<not> may_repeat name then Some (DefinedTwice name)
      else None)"

fun mixStaticSpecIntoComponent ::
  "(string \<times> 'f jsmember) list \<Rightarrow> (string \<times> 'f jsmember) list \<Rightarrow> class_error + (string \<times> 'f jsmember) list" where
  "mixStaticSpecIntoComponent [] c = Inr c"
| "mixStaticSpecIntoComponent ((name, property) # statics) c =
     (if name \<in> set RESERVED_SPEC_KEYS \<or> name \<in> set object_prototype_keys then Inl (ReservedStatic name)
      else if name \<in> set function_keys \<or> map_of c name \<noteq> None then Inl (StaticDefinedTwice name)
      else mixStaticSpecIntoComponent statics (js_put name property c))"

definition members_of :: "'f jsmember \<Rightarrow> (string \<times> 'f jsmember) list" where
  "members_of p = (case p of Object m \<Rightarrow> m | _ \<Rightarrow> [])"

fun is_function :: "'f jsmember \<Rightarrow> bool" where
  "is_function (Function f d) = True"
| "is_function _ = False"

text \<open>The propNames it warns of.\<close>

definition validateTypeDef :: "'f jsmember \<Rightarrow> string \<Rightarrow> class_warning list" where
  "validateTypeDef typeDef location =
     map (\<lambda>(n, v). InvalidTypeDef location n) (filter (\<lambda>(n, v). \<not> is_function v) (members_of typeDef))"

text \<open>\<open>assign({}, one, two)\<close>\<close>

definition js_assign :: "(string \<times> 'x) list \<Rightarrow> (string \<times> 'x) list \<Rightarrow> (string \<times> 'x) list" where
  "js_assign one two = fold (\<lambda>(k, v) m. js_put k v m) two (fold (\<lambda>(k, v) m. js_put k v m) one [])"

definition assign_types :: "string \<Rightarrow> string \<Rightarrow> 'f jsmember \<Rightarrow> 'f react_class \<Rightarrow> 'f react_class" where
  "assign_types key location types c =
     c\<lparr>class_warnings := class_warnings c @ validateTypeDef types location,
       ctor := js_put key
         (Object (js_assign (case map_of (ctor c) key of None \<Rightarrow> [] | Some old \<Rightarrow> members_of old) (members_of types)))
         (ctor c)\<rparr>"

text \<open>\<open>RESERVED_SPEC_KEYS[name](Constructor, property)\<close>; \<open>mixins\<close> is never passed to it here.\<close>

definition reserved_spec_key ::
  "string \<Rightarrow> ('a, 'v, 'w) meth jsmember \<Rightarrow> ('a, 'v, 'w) meth react_class \<Rightarrow> class_error + ('a, 'v, 'w) meth react_class" where
  "reserved_spec_key name property c =
     (if name = ''displayName'' then Inr (c\<lparr>ctor := js_put name property (ctor c)\<rparr>)
      else if name = ''childContextTypes'' then Inr (assign_types name ''child context'' property c)
      else if name = ''contextTypes'' then Inr (assign_types name ''context'' property c)
      else if name = ''getDefaultProps'' then
        Inr (c\<lparr>ctor := js_put name
          (case map_of (ctor c) name of
             Some old \<Rightarrow> (if truthy_prop (Some old) then Function (createMergedResultFunction old property) False
                         else property)
           | None \<Rightarrow> property) (ctor c)\<rparr>)
      else if name = ''propTypes'' then Inr (assign_types name ''prop'' property c)
      else if name = ''statics'' then
        map_sum id (\<lambda>ct. c\<lparr>ctor := ct\<rparr>) (mixStaticSpecIntoComponent (members_of property) (ctor c))
      else Inr c)"

definition combine ::
  "spec_policy option \<Rightarrow> ('a, 'v, 'w) meth jsmember \<Rightarrow> ('a, 'v, 'w) meth jsmember \<Rightarrow> ('a, 'v, 'w) meth jsmember" where
  "combine policy old property =
     (case policy of
        Some DEFINE_MANY_MERGED \<Rightarrow> Function (createMergedResultFunction old property) False
      | _ \<Rightarrow> Function (createChainedFunction old property) False)"

text \<open>
  The body of the loop of \<open>mixSpecIntoComponent\<close>. The policy of a member that is defined already has
  been checked by \<open>validateMethodOverride\<close>, so the second check never fails.
\<close>

definition mix_member ::
  "string \<Rightarrow> ('a, 'v, 'w) meth jsmember \<Rightarrow> ('a, 'v, 'w) meth react_class \<Rightarrow> class_error + ('a, 'v, 'w) meth react_class" where
  "mix_member name property c =
     (case validateMethodOverride (proto c) name of
        Some e \<Rightarrow> Inl e
      | None \<Rightarrow>
          if name \<in> set RESERVED_SPEC_KEYS then reserved_spec_key name property c
          else
            (case (interface_policy name, map_of (proto c) name, property) of
               (None, None, Function f False) \<Rightarrow>
                 Inr (c\<lparr>autobind := js_put name f (autobind c), proto := js_put name property (proto c)\<rparr>)
             | (policy, Some old, _) \<Rightarrow>
                 if may_repeat name then Inr (c\<lparr>proto := js_put name (combine policy old property) (proto c)\<rparr>)
                 else Inl (DefinedTwice name)
             | (policy, None, _) \<Rightarrow> Inr (c\<lparr>proto := js_put name property (proto c)\<rparr>)))"

fun mix_members ::
  "(string \<times> ('a, 'v, 'w) meth jsmember) list \<Rightarrow> ('a, 'v, 'w) meth react_class \<Rightarrow> class_error + ('a, 'v, 'w) meth react_class" where
  "mix_members [] c = Inr c"
| "mix_members ((name, property) # rest) c =
     (case mix_member name property c of Inl e \<Rightarrow> Inl e | Inr c' \<Rightarrow> mix_members rest c')"

fun mixSpecIntoComponent ::
  "('a, 'v, 'w) meth mixin \<Rightarrow> ('a, 'v, 'w) meth react_class \<Rightarrow> class_error + ('a, 'v, 'w) meth react_class"
  and mix_all ::
  "('a, 'v, 'w) meth mixin list \<Rightarrow> ('a, 'v, 'w) meth react_class \<Rightarrow> class_error + ('a, 'v, 'w) meth react_class" where
  "mixSpecIntoComponent NoMixin c = Inr c"
| "mixSpecIntoComponent ComponentClass c = Inl ClassAsMixin"
| "mixSpecIntoComponent Element c = Inl ElementAsMixin"
| "mixSpecIntoComponent (Spec mixins members) c =
     (case mix_all mixins c of Inl e \<Rightarrow> Inl e | Inr c' \<Rightarrow> mix_members members c')"
| "mix_all [] c = Inr c"
| "mix_all (m # ms) c =
     (case mixSpecIntoComponent m c of Inl e \<Rightarrow> Inl e | Inr c' \<Rightarrow> mix_all ms c')"

section \<open>Creating a class, constructing a component\<close>

definition new_class :: "'f react_class" where
  "new_class = \<lparr>ctor = [], proto = [(''constructor'', Ref 0)], autobind = [], class_warnings = []\<rparr>"

definition null_members :: "(string \<times> 'f jsmember) list \<Rightarrow> (string \<times> 'f jsmember) list" where
  "null_members pr =
     fold (\<lambda>(name, _) p. if truthy_prop (map_of p name) then p else js_put name Falsy p) ReactClassInterface pr"

text \<open>
  \<open>injectedMixins\<close> is a parameter; \<open>class_this\<close> is the \<open>this\<close> of the call of \<open>getDefaultProps\<close>, the class. The second
  result are the \<open>defaultProps\<close>.
\<close>

definition createClass ::
  "('a, 'v, 'w) meth mixin list \<Rightarrow> 'a \<Rightarrow> ('a, 'v, 'w) meth mixin \<Rightarrow> 'w
   \<Rightarrow> (class_error + ('a, 'v, 'w) meth react_class \<times> 'v ret) \<times> 'w" where
  "createClass injectedMixins class_this spec w =
     (case mix_all (injectedMixins @ [spec]) new_class of
        Inl e \<Rightarrow> (Inl e, w)
      | Inr c \<Rightarrow>
          (case (if truthy_prop (map_of (ctor c) ''getDefaultProps'')
                 then apply_prop (the (map_of (ctor c) ''getDefaultProps'')) class_this w else (Inr Undefined, w)) of
             (Inl e, w') \<Rightarrow> (Inl e, w')
           | (Inr defaultProps, w') \<Rightarrow>
               if \<not> truthy_prop (map_of (proto c) ''render'') then (Inl NoRender, w')
               else
                 (Inr (c\<lparr>class_warnings := class_warnings c @
                           (if truthy_prop (map_of (proto c) ''componentShouldUpdate'') then [ComponentShouldUpdate] else []),
                         proto := null_members (proto c)\<rparr>, defaultProps), w')))"

text \<open>
  A method bound to a component, with leading arguments. \<open>rebind\<close> is its own \<open>bind\<close> function: what the
  caller gets and whether it warns. A component is named by a number; \<open>None\<close> is \<open>null\<close>.
\<close>

record ('f, 'x) bound_method =
  bound_context :: nat
  bound_function :: 'f
  bound_arguments :: "'x list"

definition bindAutoBindMethod :: "nat \<Rightarrow> 'f \<Rightarrow> ('f, 'x) bound_method" where
  "bindAutoBindMethod component method = \<lparr>bound_context = component, bound_function = method, bound_arguments = []\<rparr>"

definition rebind :: "('f, 'x) bound_method \<Rightarrow> nat option \<Rightarrow> 'x list \<Rightarrow> ('f, 'x) bound_method \<times> bool" where
  "rebind b newThis args =
     (if newThis \<noteq> Some (bound_context b) \<and> newThis \<noteq> None
      then (b\<lparr>bound_arguments := bound_arguments b @ args\<rparr>, True)
      else if args = [] then (b, True)
      else (b\<lparr>bound_arguments := bound_arguments b @ args\<rparr>, False))"

definition bindAutoBindMethods :: "nat \<Rightarrow> 'f react_class \<Rightarrow> (string \<times> ('f, 'x) bound_method) list" where
  "bindAutoBindMethods component c = map (\<lambda>(k, method). (k, bindAutoBindMethod component method)) (autobind c)"

text \<open>
  The initial state of a new component, whose \<open>this\<close> (with no arguments) is \<open>a\<close>: \<open>getInitialState\<close> is found
  in the prototype. \<open>None\<close> as a type of result does not arise: \<open>typeof null\<close> is \<open>object\<close>.
\<close>

definition construct :: "('a, 'v, 'w) meth react_class \<Rightarrow> 'a \<Rightarrow> 'w \<Rightarrow> (class_error + 'v ret) \<times> 'w" where
  "construct c a w =
     (case (if truthy_prop (map_of (proto c) ''getInitialState'')
            then apply_prop (the (map_of (proto c) ''getInitialState'')) a w else (Inr Null, w)) of
        (Inl e, w') \<Rightarrow> (Inl e, w')
      | (Inr initialState, w') \<Rightarrow>
          (case initialState of
             Null \<Rightarrow> (Inr Null, w')
           | Members m \<Rightarrow> (Inr (Members m), w')
           | _ \<Rightarrow> (Inl BadInitialState, w')))"

section \<open>The members of a specification, in the order they are mixed\<close>

fun spec_members :: "'f mixin \<Rightarrow> (string \<times> 'f jsmember) list" where
  "spec_members (Spec mixins members) = concat (map spec_members mixins) @ members"
| "spec_members _ = []"

fun plain_mixin :: "'f mixin \<Rightarrow> bool" where
  "plain_mixin (Spec mixins members) = list_all plain_mixin mixins"
| "plain_mixin NoMixin = True"
| "plain_mixin _ = False"

definition occs :: "string \<Rightarrow> (string \<times> 'x) list \<Rightarrow> 'x list" where
  "occs name kvs = map snd (filter (\<lambda>(n, _). n = name) kvs)"

text \<open>All functions in order, until one throws.\<close>

primrec run_all :: "('a, 'v, 'w) meth jsmember list \<Rightarrow> ('a, 'v, 'w) meth" where
  "run_all [] a w = (Inr Undefined, w)"
| "run_all (p # ps) a w =
     (case apply_prop p a w of (Inl e, w') \<Rightarrow> (Inl e, w') | (Inr _, w') \<Rightarrow> run_all ps a w')"

section \<open>Lemmas\<close>

lemma occs_simps [simp]:
  "occs name [] = []" "occs name ((n, v) # kvs) = (if n = name then v # occs name kvs else occs name kvs)"
  "occs name (kvs @ kvs') = occs name kvs @ occs name kvs'"
  by (auto simp: occs_def)

lemma mix_members_append:
  "mix_members (xs @ ys) c = (case mix_members xs c of Inl e \<Rightarrow> Inl e | Inr c' \<Rightarrow> mix_members ys c')"
  by (induction xs c rule: mix_members.induct) (auto split: sum.splits)

lemma mix_flat:
  "mixSpecIntoComponent m c = Inr c' \<longleftrightarrow> plain_mixin m \<and> mix_members (spec_members m) c = Inr c'"
  "mix_all ms c = Inr c' \<longleftrightarrow> list_all plain_mixin ms \<and> mix_members (concat (map spec_members ms)) c = Inr c'"
  by (induction m c and ms c arbitrary: c' and c' rule: mixSpecIntoComponent_mix_all.induct)
    (auto simp: mix_members_append split: sum.splits, blast+)

lemma proto_reserved_spec_key: "reserved_spec_key n p c = Inr c' \<Longrightarrow> proto c' = proto c"
  by (cases "mixStaticSpecIntoComponent (members_of p) (ctor c)")
    (auto simp: reserved_spec_key_def assign_types_def split: if_splits)

lemma proto_mix_member:
  assumes "mix_member name p c = Inr c'"
  shows "map_of (proto c') n =
    (if n = name \<and> n \<notin> set RESERVED_SPEC_KEYS
     then Some (case map_of (proto c) n of None \<Rightarrow> p | Some old \<Rightarrow> combine (interface_policy n) old p)
     else map_of (proto c) n)"
  using assms proto_reserved_spec_key [of name p c c']
  by (auto simp: mix_member_def split: option.splits if_splits jsmember.splits bool.splits)

lemma proto_mix_members:
  assumes "mix_members kvs c = Inr c'" and "n \<notin> set RESERVED_SPEC_KEYS"
  shows "map_of (proto c') n =
    fold (\<lambda>p old. Some (case old of None \<Rightarrow> p | Some o' \<Rightarrow> combine (interface_policy n) o' p)) (occs n kvs)
      (map_of (proto c) n)"
  using assms
proof (induction kvs c rule: mix_members.induct)
  case (2 name p rest c)
  then show ?case by (auto simp: proto_mix_member split: sum.splits)
qed simp

lemma run_all_append:
  "run_all (xs @ ys) a w = (case run_all xs a w of (Inl e, w') \<Rightarrow> (Inl e, w') | (Inr _, w') \<Rightarrow> run_all ys a w')"
  by (induction xs arbitrary: w) (auto split: prod.splits sum.splits)

lemma run_all_Undefined: "run_all ps a w = (Inr v, w') \<Longrightarrow> v = Undefined"
  by (induction ps arbitrary: w) (auto split: prod.splits sum.splits)

text \<open>Combining functions one after the other under the policy \<open>DEFINE_MANY\<close> runs all of them.\<close>

lemma chained_runs_all:
  assumes "ps \<noteq> []"
  shows "\<exists>f. fold (\<lambda>p old. Some (case old of None \<Rightarrow> p | Some o' \<Rightarrow> combine (Some DEFINE_MANY) o' p)) ps (Some q) =
      Some (Function f False) \<and> f = run_all (q # ps)"
  using assms
proof (induction ps rule: rev_induct)
  case (snoc p ps)
  let ?F = "fold (\<lambda>p old. Some (case old of None \<Rightarrow> p | Some o' \<Rightarrow> combine (Some DEFINE_MANY) o' p))"
  have "\<exists>r. ?F ps (Some q) = Some r \<and>
      (\<forall>a w. map_prod (map_sum id (\<lambda>_. Undefined)) id (apply_prop r a w) = run_all (q # ps) a w)"
  proof (cases "ps = []")
    case True
    then show ?thesis by (auto split: prod.splits sum.splits)
  next
    case False
    with snoc.IH obtain f where "?F ps (Some q) = Some (Function f False)" "f = run_all (q # ps)" by blast
    then show ?thesis
      by (auto simp: apply_prop_def map_prod_def map_sum_def split: prod.splits sum.splits dest: run_all_Undefined)
  qed
  then obtain r where r: "?F ps (Some q) = Some r"
    "\<And>a w. run_all (q # ps) a w = map_prod (map_sum id (\<lambda>_. Undefined)) id (apply_prop r a w)" by metis
  have "createChainedFunction r p = run_all ((q # ps) @ [p])"
    unfolding run_all_append r(2)
    by (auto simp: createChainedFunction_def fun_eq_iff split: prod.splits sum.splits)
  then show ?case using r(1) by (simp add: combine_def del: run_all.simps)
qed simp

section \<open>Which specifications are accepted\<close>

definition single_key :: "string \<Rightarrow> bool" where
  "single_key n \<longleftrightarrow> \<not> may_repeat n \<and> n \<notin> set RESERVED_SPEC_KEYS"

definition static_keys :: "(string \<times> 'f jsmember) list \<Rightarrow> string list" where
  "static_keys kvs = concat (map (map fst \<circ> members_of) (occs ''statics'' kvs))"

text \<open>The members in the order they are mixed can be mixed into a class with the given members.\<close>

definition mixable :: "(string \<times> 'f jsmember) list \<Rightarrow> 'f react_class \<Rightarrow> bool" where
  "mixable kvs c \<longleftrightarrow>
     (\<forall>n \<in> set (map fst kvs). n \<notin> set ReactClassMixin \<and> (single_key n \<longrightarrow> map_of (proto c) n = None)) \<and>
     distinct (filter single_key (map fst kvs)) \<and>
     distinct (static_keys kvs) \<and>
     (\<forall>k \<in> set (static_keys kvs). k \<notin> set RESERVED_SPEC_KEYS \<and> k \<notin> set function_keys \<and> map_of (ctor c) k = None)"

lemma interface_keys:
  "n \<in> set ReactClassMixin \<Longrightarrow> interface_policy n = None"
  "n \<in> set RESERVED_SPEC_KEYS \<Longrightarrow> n \<notin> set ReactClassMixin"
proof -
  have "list_all (\<lambda>n. interface_policy n = None) ReactClassMixin" by code_simp
  then show "n \<in> set ReactClassMixin \<Longrightarrow> interface_policy n = None" by (simp add: list_all_iff)
  have "list_all (\<lambda>n. \<not> List.member ReactClassMixin n) RESERVED_SPEC_KEYS" by code_simp
  then show "n \<in> set RESERVED_SPEC_KEYS \<Longrightarrow> n \<notin> set ReactClassMixin"
    by (simp add: list_all_iff)
qed

lemma mixStatic_iff:
  "(\<exists>c'. mixStaticSpecIntoComponent st c = Inr c') \<longleftrightarrow> distinct (map fst st) \<and>
     (\<forall>k \<in> set (map fst st). k \<notin> set RESERVED_SPEC_KEYS \<and> k \<notin> set function_keys \<and> map_of c k = None)"
  by (induction st c rule: mixStaticSpecIntoComponent.induct) (auto simp: function_keys_def)

lemma mixStatic_keys:
  "mixStaticSpecIntoComponent st c = Inr c' \<Longrightarrow> map_of c' k = None \<longleftrightarrow> map_of c k = None \<and> k \<notin> set (map fst st)"
  by (induction st c rule: mixStaticSpecIntoComponent.induct) (auto split: if_splits)

text \<open>The state of a class while specifications are mixed into it.\<close>

definition no_reserved :: "'f react_class \<Rightarrow> bool" where
  "no_reserved c \<longleftrightarrow> (\<forall>n \<in> set RESERVED_SPEC_KEYS. map_of (proto c) n = None)"

lemma reserved_ok:
  assumes "n \<in> set RESERVED_SPEC_KEYS"
  shows "(\<exists>c'. reserved_spec_key n p c = Inr c') \<longleftrightarrow>
    (n = ''statics'' \<longrightarrow> (\<exists>ct. mixStaticSpecIntoComponent (members_of p) (ctor c) = Inr ct))"
  by (cases "mixStaticSpecIntoComponent (members_of p) (ctor c)") (auto simp: reserved_spec_key_def)

lemma mix_member_ok:
  assumes "no_reserved c"
  shows "(\<exists>c'. mix_member n p c = Inr c') \<longleftrightarrow>
    n \<notin> set ReactClassMixin \<and> (single_key n \<longrightarrow> map_of (proto c) n = None) \<and>
    (n = ''statics'' \<longrightarrow> (\<exists>ct. mixStaticSpecIntoComponent (members_of p) (ctor c) = Inr ct))"
proof (cases "n \<in> set RESERVED_SPEC_KEYS")
  case True
  then have "validateMethodOverride (proto c) n = None" "\<not> single_key n" "n \<notin> set ReactClassMixin"
    using assms interface_keys by (auto simp: validateMethodOverride_def no_reserved_def single_key_def)
  with True show ?thesis using reserved_ok [OF True, of p c] by (simp add: mix_member_def)
next
  case False
  then have "n \<noteq> ''statics''" by (auto simp: RESERVED_SPEC_KEYS_def)
  with False show ?thesis
    using interface_keys [of n]
    by (cases p; cases "interface_policy n"; cases "map_of (proto c) n")
      (auto simp: mix_member_def validateMethodOverride_def single_key_def may_repeat_def split: bool.splits)
qed

lemma mix_member_keys:
  assumes "mix_member n p c = Inr c'"
  shows "map_of (proto c') k = None \<longleftrightarrow> map_of (proto c) k = None \<and> \<not> (k = n \<and> k \<notin> set RESERVED_SPEC_KEYS)"
    and "k \<notin> set RESERVED_SPEC_KEYS \<Longrightarrow>
      map_of (ctor c') k = None \<longleftrightarrow> map_of (ctor c) k = None \<and> \<not> (n = ''statics'' \<and> k \<in> set (map fst (members_of p)))"
proof -
  show "map_of (proto c') k = None \<longleftrightarrow> map_of (proto c) k = None \<and> \<not> (k = n \<and> k \<notin> set RESERVED_SPEC_KEYS)"
    using proto_mix_member [OF assms, of k] by auto
  assume k: "k \<notin> set RESERVED_SPEC_KEYS"
  show "map_of (ctor c') k = None \<longleftrightarrow> map_of (ctor c) k = None \<and> \<not> (n = ''statics'' \<and> k \<in> set (map fst (members_of p)))"
  proof (cases "n \<in> set RESERVED_SPEC_KEYS")
    case True
    then have r: "reserved_spec_key n p c = Inr c'"
      using assms by (auto simp: mix_member_def split: option.splits)
    show ?thesis
    proof (cases "n = ''statics''")
      case True
      then obtain ct where "mixStaticSpecIntoComponent (members_of p) (ctor c) = Inr ct" "ctor c' = ct"
        using r by (cases "mixStaticSpecIntoComponent (members_of p) (ctor c)") (auto simp: reserved_spec_key_def)
      then show ?thesis using True mixStatic_keys by blast
    next
      case False
      then have "map_of (ctor c') k = map_of (ctor c) k"
        using r k True by (auto simp: reserved_spec_key_def assign_types_def split: if_splits)
      with False show ?thesis by simp
    qed
  next
    case False
    then have "ctor c' = ctor c" "n \<noteq> ''statics''"
      using assms by (auto simp: mix_member_def RESERVED_SPEC_KEYS_def
          split: option.splits if_splits jsmember.splits bool.splits)
    then show ?thesis by simp
  qed
qed

lemma static_keys_Cons:
  "static_keys ((n, p) # kvs) = (if n = ''statics'' then map fst (members_of p) else []) @ static_keys kvs"
  by (simp add: static_keys_def)

lemma mixable_Cons:
  assumes "no_reserved c" and c1: "mix_member n p c = Inr c1"
  shows "mixable ((n, p) # kvs) c \<longleftrightarrow> mixable kvs c1"
proof -
  have ok: "n \<notin> set ReactClassMixin" "single_key n \<longrightarrow> map_of (proto c) n = None"
    "n = ''statics'' \<longrightarrow> distinct (map fst (members_of p)) \<and> (\<forall>k \<in> set (map fst (members_of p)).
       k \<notin> set RESERVED_SPEC_KEYS \<and> k \<notin> set function_keys \<and> map_of (ctor c) k = None)"
    using mix_member_ok [OF assms(1), of n p] c1 mixStatic_iff by metis+
  have reserved: "single_key k \<Longrightarrow> k \<notin> set RESERVED_SPEC_KEYS" for k by (simp add: single_key_def)
  have keys1: "map_of (proto c1) k = None \<longleftrightarrow> map_of (proto c) k = None \<and> k \<noteq> n" if "single_key k" for k
    using mix_member_keys(1) [OF c1] reserved [OF that] by blast
  let ?ks = "map fst (members_of p)"
  have P: "(\<forall>k \<in> set (map fst ((n, p) # kvs)). k \<notin> set ReactClassMixin \<and> (single_key k \<longrightarrow> map_of (proto c) k = None)) \<and>
      distinct (filter single_key (map fst ((n, p) # kvs))) \<longleftrightarrow>
    (\<forall>k \<in> set (map fst kvs). k \<notin> set ReactClassMixin \<and> (single_key k \<longrightarrow> map_of (proto c1) k = None)) \<and>
      distinct (filter single_key (map fst kvs))"
    using ok(1,2) by (cases "single_key n") (auto simp: keys1)
  have S: "distinct (static_keys ((n, p) # kvs)) \<and> (\<forall>k \<in> set (static_keys ((n, p) # kvs)).
      k \<notin> set RESERVED_SPEC_KEYS \<and> k \<notin> set function_keys \<and> map_of (ctor c) k = None) \<longleftrightarrow>
    distinct (static_keys kvs) \<and> (\<forall>k \<in> set (static_keys kvs).
      k \<notin> set RESERVED_SPEC_KEYS \<and> k \<notin> set function_keys \<and> map_of (ctor c1) k = None)"
  proof (cases "n = ''statics''")
    case True
    then have "k \<notin> set RESERVED_SPEC_KEYS \<Longrightarrow> map_of (ctor c1) k = None \<longleftrightarrow> map_of (ctor c) k = None \<and> k \<notin> set ?ks" for k
      using mix_member_keys(2) [OF c1] by simp
    with True ok(3) show ?thesis unfolding static_keys_Cons by (auto simp del: set_map)
  next
    case False
    then have "k \<notin> set RESERVED_SPEC_KEYS \<Longrightarrow> map_of (ctor c1) k = None \<longleftrightarrow> map_of (ctor c) k = None" for k
      using mix_member_keys(2) [OF c1] by simp
    with False show ?thesis unfolding static_keys_Cons by auto
  qed
  show ?thesis unfolding mixable_def using P S by blast
qed

lemma mix_members_iff:
  assumes "no_reserved c"
  shows "(\<exists>c'. mix_members kvs c = Inr c') \<longleftrightarrow> mixable kvs c"
  using assms
proof (induction kvs arbitrary: c)
  case Nil
  then show ?case by (simp add: mixable_def static_keys_def)
next
  case (Cons kv kvs)
  obtain n p where kv: "kv = (n, p)" by (cases kv)
  show ?case
  proof (cases "mix_member n p c")
    case (Inl e)
    have "mixable ((n, p) # kvs) c \<Longrightarrow> \<exists>c'. mix_member n p c = Inr c'"
      unfolding mix_member_ok [OF Cons.prems] mixStatic_iff mixable_def static_keys_Cons
      by (cases "n = ''statics''") simp_all
    with Inl have "\<not> mixable (kv # kvs) c" by (auto simp: kv)
    with Inl show ?thesis by (simp add: kv)
  next
    case (Inr c1)
    then have "no_reserved c1" using Cons.prems mix_member_keys(1) [OF Inr] by (simp add: no_reserved_def)
    with Inr show ?thesis using Cons.IH mixable_Cons [OF Cons.prems Inr, of kvs] by (simp add: kv)
  qed
qed

lemma mixStatic_reserved:
  "mixStaticSpecIntoComponent st c = Inr c' \<Longrightarrow> n \<in> set RESERVED_SPEC_KEYS \<Longrightarrow> map_of c' n = map_of c n"
  by (induction st c rule: mixStaticSpecIntoComponent.induct) (auto split: if_splits)

lemma ctor_mix_members:
  assumes "mix_members kvs c = Inr c'" and "occs n kvs = []" "n \<in> set RESERVED_SPEC_KEYS"
  shows "map_of (ctor c') n = map_of (ctor c) n"
  using assms
proof (induction kvs c rule: mix_members.induct)
  case (2 name p rest c)
  then obtain c1 where c1: "mix_member name p c = Inr c1" "mix_members rest c1 = Inr c'" by (auto split: sum.splits)
  have "name \<noteq> n" using "2.prems"(2) by (auto split: if_splits)
  then have "map_of (ctor c1) n = map_of (ctor c) n"
    using c1(1) mixStatic_reserved [OF _ "2.prems"(3)] by (cases "mixStaticSpecIntoComponent (members_of p) (ctor c)")
      (auto simp: mix_member_def reserved_spec_key_def assign_types_def
        split: option.splits if_splits jsmember.splits bool.splits)
  then show ?case using "2.IH" [OF c1(1,2)] "2.prems" by (auto split: if_splits)
qed simp

section \<open>Merged results\<close>

definition all_defined :: "(string \<times> 'v option) list \<Rightarrow> bool" where
  "all_defined m \<longleftrightarrow> None \<notin> snd ` set m"

text \<open>The keys of members that are merged without a conflict.\<close>

definition no_conflict :: "(string \<times> 'v option) list \<Rightarrow> bool" where
  "no_conflict m \<longleftrightarrow> distinct (map fst m) \<and> set (map fst m) \<inter> set object_prototype_keys = {}"

text \<open>A method that returns these members and changes nothing.\<close>

definition returns :: "'a \<Rightarrow> ('a, 'v, 'w) meth jsmember \<Rightarrow> (string \<times> 'v option) list \<Rightarrow> bool" where
  "returns a p m \<longleftrightarrow> (\<forall>w. apply_prop p a w = (Inr (Members m), w)) \<and> all_defined m"

lemma all_defined_simps [simp]:
  "all_defined []" "all_defined ((k, v) # m) \<longleftrightarrow> v \<noteq> None \<and> all_defined m"
  "all_defined (m @ m') \<longleftrightarrow> all_defined m \<and> all_defined m'"
  by (auto simp: all_defined_def)

lemma no_conflict_appendD: "no_conflict (m @ m') \<Longrightarrow> no_conflict m"
  by (auto simp: no_conflict_def)

lemma is_defined_all_defined:
  "all_defined one \<Longrightarrow> is_defined one k \<longleftrightarrow> k \<in> set (map fst one) \<or> (k \<notin> set (map fst one) \<and> k \<in> set object_prototype_keys)"
proof (cases "map_of one k")
  case None
  then have "k \<notin> fst ` set one" by (simp add: map_of_eq_None_iff)
  with None show ?thesis by (simp add: is_defined_def)
next
  case (Some v)
  moreover assume "all_defined one"
  ultimately have "v \<noteq> None" using map_of_SomeD [OF Some] by (force simp: all_defined_def)
  with Some show ?thesis using map_of_SomeD [OF Some] by (force simp: is_defined_def)
qed

lemma merge_members_conv:
  assumes "all_defined one" "all_defined two" "no_conflict one"
  shows "if no_conflict (one @ two) then merge_members one two = Inr (one @ two)
    else \<exists>k. merge_members one two = Inl (DuplicateKey k)"
  using assms
proof (induction one two rule: merge_members.induct)
  case (2 one k v two)
  show ?case
  proof (cases "is_defined one k")
    case True
    then show ?thesis using "2.prems" by (auto simp: is_defined_all_defined no_conflict_def)
  next
    case False
    then have k: "k \<notin> set (map fst one)" "k \<notin> set object_prototype_keys"
      using "2.prems" by (auto simp: is_defined_all_defined)
    then have put: "js_put k x one = one @ [(k, x)]" for x by (simp add: js_put_new map_of_eq_None_iff)
    have "no_conflict (one @ [(k, v)])" using "2.prems"(3) k by (auto simp: no_conflict_def)
    then show ?thesis using "2.IH" [OF False] "2.prems" False by (auto simp: put split: if_splits)
  qed
qed simp

lemma merge_results_Members:
  assumes "all_defined m" "all_defined m'"
  shows "if no_conflict (m @ m') then merge_results (Members m) (Members m') = Inr (Members (m @ m'))
    else \<exists>k. merge_results (Members m) (Members m') = Inl (DuplicateKey k)"
proof -
  have first: "if no_conflict m then merge_members [] m = Inr m else \<exists>k. merge_members [] m = Inl (DuplicateKey k)"
    using merge_members_conv [of "[]" m] assms(1) by (simp add: no_conflict_def)
  show ?thesis
  proof (cases "no_conflict m")
    case True
    then show ?thesis
      using first merge_members_conv [OF assms True]
      by (auto simp: merge_results_def mergeIntoWithNoDuplicateKeys_def split: if_splits)
  next
    case False
    then have "\<not> no_conflict (m @ m')" using no_conflict_appendD by blast
    with False first show ?thesis by (auto simp: merge_results_def mergeIntoWithNoDuplicateKeys_def)
  qed
qed

lemma returns_all_defined: "list_all2 (returns a) ps ms \<Longrightarrow> all_defined (concat ms)"
  by (induction rule: list_all2_induct) (auto simp: returns_def)

lemma merged_result:
  assumes "list_all2 (returns a) (q # ps) ms" and "ps \<noteq> []"
  shows "\<exists>f. fold (\<lambda>p old. Some (case old of None \<Rightarrow> p | Some o' \<Rightarrow> combine (Some DEFINE_MANY_MERGED) o' p)) ps (Some q) =
      Some (Function f False) \<and>
    (if no_conflict (concat ms) then \<forall>w. f a w = (Inr (Members (concat ms)), w)
     else \<exists>k. \<forall>w. f a w = (Inl (DuplicateKey k), w))"
  using assms
proof (induction ps arbitrary: ms rule: rev_induct)
  case (snoc p ps)
  let ?F = "fold (\<lambda>p old. Some (case old of None \<Rightarrow> p | Some o' \<Rightarrow> combine (Some DEFINE_MANY_MERGED) o' p))"
  obtain ns m where ms: "ms = ns @ [m]" and ns: "list_all2 (returns a) (q # ps) ns" and m: "returns a p m"
    using snoc.prems(1) list_all2_append1 [of "returns a" "q # ps" "[p]" ms]
    by (auto simp: list_all2_Cons1)
  have defined: "all_defined (concat ns)" "all_defined m"
    using returns_all_defined [OF ns] m by (simp_all add: returns_def)
  have "\<exists>r. ?F ps (Some q) = Some r \<and>
      (if no_conflict (concat ns) \<or> ps = [] then \<forall>w. apply_prop r a w = (Inr (Members (concat ns)), w)
       else \<exists>k. \<forall>w. apply_prop r a w = (Inl (DuplicateKey k), w))"
  proof (cases "ps = []")
    case True
    then show ?thesis using ns by (auto simp: list_all2_Cons1 returns_def)
  next
    case False
    with snoc.IH [OF ns] show ?thesis by (fastforce simp: apply_prop_def)
  qed
  then obtain r where r: "?F ps (Some q) = Some r"
    "if no_conflict (concat ns) \<or> ps = [] then \<forall>w. apply_prop r a w = (Inr (Members (concat ns)), w)
     else \<exists>k. \<forall>w. apply_prop r a w = (Inl (DuplicateKey k), w)" by blast
  have p: "apply_prop p a w = (Inr (Members m), w)" for w using m by (simp add: returns_def)
  have step: "if no_conflict (concat ms) then \<forall>w. createMergedResultFunction r p a w = (Inr (Members (concat ms)), w)
      else \<exists>k. \<forall>w. createMergedResultFunction r p a w = (Inl (DuplicateKey k), w)"
  proof (cases "no_conflict (concat ns) \<or> ps = []")
    case True
    then have "\<forall>w. createMergedResultFunction r p a w = (merge_results (Members (concat ns)) (Members m), w)"
      using r(2) p by (simp add: createMergedResultFunction_def)
    then show ?thesis using merge_results_Members [OF defined] by (auto simp: ms)
  next
    case False
    then have "\<not> no_conflict (concat ms)" using no_conflict_appendD [of "concat ns" m] by (auto simp: ms)
    moreover obtain k where "\<forall>w. apply_prop r a w = (Inl (DuplicateKey k), w)" using r(2) False by auto
    ultimately show ?thesis by (auto simp: createMergedResultFunction_def)
  qed
  then show ?case using r(1) by (auto simp: combine_def)
qed simp

section \<open>The classes of the web interface\<close>

text \<open>\<open>F m n\<close> is the function \<open>n\<close> of the mixin or class \<open>m\<close>; \<open>injectedMixins\<close> has one element.\<close>

definition functions_of :: "(string \<Rightarrow> string \<Rightarrow> 'f) \<Rightarrow> string \<Rightarrow> string list \<Rightarrow> (string \<times> 'f jsmember) list" where
  "functions_of F m ns = map (\<lambda>n. (n, Function (F m n) False)) ns"

definition ReactBrowserComponentMixin :: "(string \<Rightarrow> string \<Rightarrow> 'f) \<Rightarrow> 'f mixin" where
  "ReactBrowserComponentMixin F = Spec [] (functions_of F ''ReactBrowserComponentMixin'' [''getDOMNode''])"

definition AutoUpdateMixin :: "(string \<Rightarrow> string \<Rightarrow> 'f) \<Rightarrow> 'f mixin" where
  "AutoUpdateMixin F = Spec [] (functions_of F ''AutoUpdateMixin'' [''componentDidMount'', ''componentWillUnmount'',
     ''_aum_debug'', ''_aum_on_data_changed'', ''_aum_response_callback''])"

definition SignalSlotMixin :: "(string \<Rightarrow> string \<Rightarrow> 'f) \<Rightarrow> 'f mixin" where
  "SignalSlotMixin F = Spec [] ((''conected_signals'', Ref 1) # functions_of F ''SignalSlotMixin''
     [''componentDidMount'', ''componentWillUnmount'', ''emit'', ''connect'', ''onSignal''])"

datatype widget_mixin = AUM | SSM

definition widget_classes :: "(string \<times> widget_mixin list \<times> string list) list" where
  "widget_classes =
     [(''ConnectionStatusWidget'', [], [''getInitialState'', ''componentWillMount'', ''componentWillUnmount'',
        ''onConnectionStatusChanged'', ''render'']),
      (''Peers2'', [AUM, SSM], [''getPath'', ''getInitialState'', ''add_friend_handler'', ''render'']),
      (''Peers3'', [AUM, SSM], [''getPath'', ''getInitialState'', ''add_friend_handler'', ''render'']),
      (''Peer'', [], [''remove_peer_handler'', ''render'']),
      (''OwnCert'', [AUM, SSM], [''getPath'', ''getInitialState'', ''render'']),
      (''AddPeerWidget'', [], [''getInitialState'', ''add_friend_handler'', ''examine_cert_callback'',
        ''final_add_handler'', ''render'']),
      (''ProgressBar'', [], [''render'']),
      (''DownloadsWidget'', [AUM, SSM], [''getPath'', ''getInitialState'', ''render'']),
      (''DL'', [], [''render'']),
      (''SearchWidget'', [], [''getInitialState'', ''handleSearch'', ''onCreateSearchResponse'', ''render'']),
      (''ResultList'', [AUM], [''getPath'', ''getInitialState'', ''start_download'', ''render'']),
      (''File'', [], [''render'']),
      (''AudioPlayerWidget'', [SSM], [''getInitialState'', ''componentWillMount'', ''play_file'', ''render'']),
      (''PasswordWidget'', [AUM], [''getInitialState'', ''getPath'', ''sendPassword'', ''render'']),
      (''AccountSelectWidget'', [AUM], [''getInitialState'', ''getPath'', ''selectAccount'', ''render'']),
      (''LoginWidget'', [AUM], [''getInitialState'', ''getPath'', ''shutdown'', ''render'']),
      (''LoginWidget2'', [], [''debug'', ''getInitialState'', ''componentDidMount'', ''clear_data'', ''update'',
        ''shutdown'', ''selectAccount'', ''onDrop'', ''importCallback'', ''setupCreateLocation'', ''submitLoc'', ''render'']),
      (''Menu'', [SSM], [''getInitialState'', ''componentWillMount'', ''render'']),
      (''TestWidget'', [SSM], [''getInitialState'', ''componentWillMount'', ''one'', ''two'', ''render'']),
      (''FileUploadWidget'', [], [''getInitialState'', ''onDrop'', ''render'']),
      (''MainWidget'', [SSM, AUM], [''getPath'', ''getInitialState'', ''componentWillMount'', ''render''])]"

definition widget_spec :: "(string \<Rightarrow> string \<Rightarrow> 'f) \<Rightarrow> string \<times> widget_mixin list \<times> string list \<Rightarrow> 'f mixin" where
  "widget_spec F cl = (case cl of (name, mixins, members) \<Rightarrow>
     Spec (map (\<lambda>m. case m of AUM \<Rightarrow> AutoUpdateMixin F | SSM \<Rightarrow> SignalSlotMixin F) mixins) (functions_of F name members))"

section \<open>From the mixed members to the class\<close>

definition all_members :: "'f mixin list \<Rightarrow> 'f mixin \<Rightarrow> (string \<times> 'f jsmember) list" where
  "all_members injectedMixins spec = concat (map spec_members (injectedMixins @ [spec]))"

lemma no_reserved_new [simp]: "no_reserved new_class"
proof -
  have "list_all (\<lambda>n. n \<noteq> ''constructor'') RESERVED_SPEC_KEYS" by code_simp
  then show ?thesis by (auto simp: no_reserved_def new_class_def list_all_iff)
qed

lemma new_class_simps [simp]: "ctor new_class = []" "autobind new_class = []"
  "map_of (proto new_class) n = (if n = ''constructor'' then Some (Ref 0) else None)"
  by (simp_all add: new_class_def)

lemma truthy_Falsy [simp]: "\<not> truthy_prop (Some Falsy)" "\<not> truthy_prop None" "truthy_prop (Some (Function f b))"
  by (simp_all add: truthy_prop_def)

lemma null_members_conv:
  "map_of (null_members pr) n =
     (if interface_policy n \<noteq> None \<and> \<not> truthy_prop (map_of pr n) then Some Falsy else map_of pr n)"
proof -
  have "map_of (fold (\<lambda>(name, _) p. if truthy_prop (map_of p name) then p else js_put name Falsy p) ks pr) n =
      (if map_of ks n \<noteq> None \<and> \<not> truthy_prop (map_of pr n) then Some Falsy else map_of pr n)" for ks :: "(string \<times> spec_policy) list"
    by (induction ks arbitrary: pr) (auto split: if_splits)
  then show ?thesis by (simp add: null_members_def interface_policy_def)
qed

text \<open>A class that was created, in terms of the members in the order they were mixed.\<close>

lemma createClass_mixed:
  assumes "createClass ims t spec w = (Inr (c, d), w')"
  obtains c1 where "list_all plain_mixin (ims @ [spec])" "mix_members (all_members ims spec) new_class = Inr c1"
    "proto c = null_members (proto c1)" "autobind c = autobind c1" "truthy_prop (map_of (proto c1) ''render'')"
proof -
  obtain c1 where c1: "mix_all (ims @ [spec]) new_class = Inr c1"
    using assms by (auto simp: createClass_def split: sum.splits)
  then have "proto c = null_members (proto c1)" "autobind c = autobind c1" "truthy_prop (map_of (proto c1) ''render'')"
    using assms by (auto simp: createClass_def split: sum.splits prod.splits if_splits)
  with c1 show ?thesis using that mix_flat(2) [of "ims @ [spec]" new_class c1] by (simp add: all_members_def)
qed

lemma proto_created:
  assumes "createClass ims t spec w = (Inr (c, d), w')" and "n \<notin> set RESERVED_SPEC_KEYS" "interface_policy n \<noteq> None"
  shows "map_of (proto c) n =
    (let v = fold (\<lambda>p old. Some (case old of None \<Rightarrow> p | Some o' \<Rightarrow> combine (interface_policy n) o' p))
               (occs n (all_members ims spec)) None
     in if truthy_prop v then v else Some Falsy)"
proof -
  obtain c1 where c1: "mix_members (all_members ims spec) new_class = Inr c1" "proto c = null_members (proto c1)"
    using createClass_mixed [OF assms(1)] by blast
  have "n \<noteq> ''constructor''" using assms(3) by (auto simp: interface_policy_def ReactClassInterface_def
      interface_properties_def interface_definition_methods_def interface_delegate_methods_def)
  then show ?thesis using proto_mix_members [OF c1(1) assms(2)] c1(2) assms(3)
    by (simp add: null_members_conv Let_def)
qed

lemma autobind_mix_member:
  assumes "mix_member name p c = Inr c'" and "interface_policy n = None" "n \<notin> set RESERVED_SPEC_KEYS"
  shows "map_of (autobind c') n =
    (case p of Function f False \<Rightarrow> if n = name then Some f else map_of (autobind c) n | _ \<Rightarrow> map_of (autobind c) n)"
proof (cases "name \<in> set RESERVED_SPEC_KEYS")
  case True
  then have "autobind c' = autobind c"
    using assms(1) by (cases "mixStaticSpecIntoComponent (members_of p) (ctor c)")
      (auto simp: mix_member_def reserved_spec_key_def assign_types_def split: option.splits if_splits)
  then show ?thesis using True assms(3) by (auto split: jsmember.splits bool.splits)
next
  case False
  then show ?thesis using assms
    by (auto simp: mix_member_def validateMethodOverride_def may_repeat_def
        split: option.splits if_splits jsmember.splits bool.splits)
qed

lemma autobind_mix_members:
  assumes "mix_members kvs c = Inr c'" and n: "interface_policy n = None" "n \<notin> set RESERVED_SPEC_KEYS"
    and "occs n kvs = [Function f False] \<and> map_of (autobind c) n = None \<or> occs n kvs = [] \<and> map_of (autobind c) n = Some f"
  shows "map_of (autobind c') n = Some f"
  using assms(1,4)
proof (induction kvs c rule: mix_members.induct)
  case (2 name p rest c)
  then obtain c1 where c1: "mix_member name p c = Inr c1" "mix_members rest c1 = Inr c'" by (auto split: sum.splits)
  show ?case
    using "2.IH" [OF c1] "2.prems"(2) autobind_mix_member [OF c1(1) n]
    by (auto split: if_splits jsmember.splits bool.splits)
qed simp

lemma occs_empty: "occs n kvs = [] \<longleftrightarrow> n \<notin> set (map fst kvs)"
  by (induction kvs) (auto split: if_splits)

lemma occs_single:
  assumes "distinct (filter single_key (map fst kvs))" "single_key n" "n \<in> set (map fst kvs)"
  shows "\<exists>p. occs n kvs = [p] \<and> (n, p) \<in> set kvs"
  using assms
proof (induction kvs)
  case (Cons kv kvs)
  obtain k p where kv: "kv = (k, p)" by (cases kv)
  show ?case
  proof (cases "k = n")
    case True
    then have "occs n kvs = []" using Cons.prems by (auto simp: kv occs_empty)
    with True show ?thesis by (simp add: kv)
  next
    case False
    then show ?thesis using Cons by (auto simp: kv split: if_splits)
  qed
qed simp

lemma single_render: "single_key ''render''"
  by code_simp

lemma createClass_iff:
  assumes "occs ''getDefaultProps'' (all_members ims spec) = []"
  shows "(\<exists>r. fst (createClass ims t spec w) = Inr r) \<longleftrightarrow>
    list_all plain_mixin (ims @ [spec]) \<and> mixable (all_members ims spec) new_class \<and>
    (\<exists>p. occs ''render'' (all_members ims spec) = [p] \<and> p \<noteq> Falsy)"
proof -
  let ?kvs = "all_members ims spec"
  have reserved: "''getDefaultProps'' \<in> set RESERVED_SPEC_KEYS" "''render'' \<notin> set RESERVED_SPEC_KEYS"
    using single_render by (simp_all add: RESERVED_SPEC_KEYS_def single_key_def)
  have "(\<exists>r. fst (createClass ims t spec w) = Inr r) \<longleftrightarrow>
      (\<exists>c1. mix_all (ims @ [spec]) new_class = Inr c1 \<and> truthy_prop (map_of (proto c1) ''render''))"
  proof (cases "mix_all (ims @ [spec]) new_class")
    case (Inr c1)
    then have "mix_members ?kvs new_class = Inr c1" using mix_flat(2) [of "ims @ [spec]" new_class c1] by (simp add: all_members_def)
    then have "map_of (ctor c1) ''getDefaultProps'' = None"
      using ctor_mix_members [OF _ assms reserved(1)] by fastforce
    with Inr show ?thesis by (simp add: createClass_def)
  qed (simp add: createClass_def)
  moreover have "truthy_prop (map_of (proto c1) ''render'') \<longleftrightarrow> (\<exists>p. occs ''render'' ?kvs = [p] \<and> p \<noteq> Falsy)"
    if c1: "mix_members ?kvs new_class = Inr c1" for c1
  proof (cases "''render'' \<in> set (map fst ?kvs)")
    case True
    moreover have "mixable ?kvs new_class" using c1 mix_members_iff [OF no_reserved_new, of ?kvs] by blast
    ultimately obtain p where "occs ''render'' ?kvs = [p]"
      using occs_single [OF _ single_render, of ?kvs] unfolding mixable_def by blast
    then show ?thesis using proto_mix_members [OF c1 reserved(2)]
      by (cases p) (auto simp: truthy_prop_def)
  next
    case False
    then have "occs ''render'' ?kvs = []" by (simp only: occs_empty not_False_eq_True)
    then show ?thesis using proto_mix_members [OF c1 reserved(2)] by simp
  qed
  ultimately show ?thesis
    using mix_flat(2) [of "ims @ [spec]" new_class] mix_members_iff [OF no_reserved_new, of ?kvs]
    by (auto simp: all_members_def)
qed

definition mixin_names :: "widget_mixin \<Rightarrow> string list" where
  "mixin_names m = map fst (spec_members (case m of AUM \<Rightarrow> AutoUpdateMixin (\<lambda>_ _. ()) | SSM \<Rightarrow> SignalSlotMixin (\<lambda>_ _. ())))"

definition class_names :: "string \<times> widget_mixin list \<times> string list \<Rightarrow> string list" where
  "class_names cl = ''getDOMNode'' # concat (map mixin_names (fst (snd cl))) @ snd (snd cl)"

definition names_accepted :: "string list \<Rightarrow> bool" where
  "names_accepted ns \<longleftrightarrow> distinct (filter single_key ns) \<and> List.member ns ''render'' \<and>
     list_all (\<lambda>n. \<not> List.member (''constructor'' # ReactClassMixin @ RESERVED_SPEC_KEYS) n) ns"

lemma widget_names_accepted: "list_all (names_accepted \<circ> class_names) widget_classes"
  by code_simp

lemma map_fst_functions_of [simp]: "map fst (functions_of F m ns) = ns"
  by (simp add: functions_of_def comp_def)

lemma widget_member_names:
  "map fst (all_members [ReactBrowserComponentMixin F] (widget_spec F cl)) = class_names cl"
proof -
  obtain n ms ns where cl: "cl = (n, ms, ns)" by (cases cl)
  have "map fst (spec_members (case m of AUM \<Rightarrow> AutoUpdateMixin F | SSM \<Rightarrow> SignalSlotMixin F)) = mixin_names m" for m
    by (cases m) (simp_all add: mixin_names_def AutoUpdateMixin_def SignalSlotMixin_def)
  then have "map fst (concat (map spec_members (map (\<lambda>m. case m of AUM \<Rightarrow> AutoUpdateMixin F | SSM \<Rightarrow> SignalSlotMixin F) ms))) =
      concat (map mixin_names ms)" by (induction ms) simp_all
  then show ?thesis
    by (simp add: cl all_members_def class_names_def widget_spec_def ReactBrowserComponentMixin_def functions_of_def
        comp_def)
qed

lemma widget_member_values:
  "(k, p) \<in> set (all_members [ReactBrowserComponentMixin F] (widget_spec F cl)) \<Longrightarrow> p \<noteq> Falsy"
proof -
  assume kp: "(k, p) \<in> set (all_members [ReactBrowserComponentMixin F] (widget_spec F cl))"
  have "p \<noteq> Falsy" if "(k, p) \<in> set (spec_members (case m of AUM \<Rightarrow> AutoUpdateMixin F | SSM \<Rightarrow> SignalSlotMixin F))" for m
    using that by (cases m) (auto simp: functions_of_def AutoUpdateMixin_def SignalSlotMixin_def)
  then show "p \<noteq> Falsy"
    using kp by (cases cl) (auto simp: all_members_def widget_spec_def ReactBrowserComponentMixin_def functions_of_def)
qed

lemma widget_mixable:
  assumes "cl \<in> set widget_classes"
  shows "occs ''getDefaultProps'' (all_members [ReactBrowserComponentMixin F] (widget_spec F cl)) = [] \<and>
    list_all plain_mixin ([ReactBrowserComponentMixin F] @ [widget_spec F cl]) \<and>
    mixable (all_members [ReactBrowserComponentMixin F] (widget_spec F cl)) new_class \<and>
    (\<exists>p. occs ''render'' (all_members [ReactBrowserComponentMixin F] (widget_spec F cl)) = [p] \<and> p \<noteq> Falsy)"
proof -
  let ?kvs = "all_members [ReactBrowserComponentMixin F] (widget_spec F cl)"
  have ok: "distinct (filter single_key (map fst ?kvs))" "''render'' \<in> set (map fst ?kvs)"
    "n \<in> set (map fst ?kvs) \<Longrightarrow> n \<noteq> ''constructor'' \<and> n \<notin> set ReactClassMixin \<and> n \<notin> set RESERVED_SPEC_KEYS" for n
    using widget_names_accepted assms unfolding widget_member_names names_accepted_def
    by (auto simp: list_all_iff names_accepted_def)
  have "''statics'' \<in> set RESERVED_SPEC_KEYS" "''getDefaultProps'' \<in> set RESERVED_SPEC_KEYS"
    by (simp_all add: RESERVED_SPEC_KEYS_def)
  then have none: "occs ''statics'' ?kvs = []" "occs ''getDefaultProps'' ?kvs = []"
    using ok(3) by (auto simp: occs_empty simp del: set_map)
  then have "mixable ?kvs new_class"
    using ok by (auto simp: mixable_def static_keys_def simp del: set_map)
  moreover have "list_all plain_mixin ([ReactBrowserComponentMixin F] @ [widget_spec F cl])"
    by (cases cl) (auto simp: widget_spec_def list_all_iff ReactBrowserComponentMixin_def AutoUpdateMixin_def
        SignalSlotMixin_def split: widget_mixin.splits)
  ultimately show ?thesis
    using none(2) occs_single [OF ok(1) single_render ok(2)] widget_member_values by blast
qed

text \<open>For the witnesses: functions that log their name, and the class \<open>MainWidget\<close>.\<close>

definition logging :: "string \<Rightarrow> string \<Rightarrow> (unit, unit, string list) meth" where
  "logging m n = (\<lambda>_ w. (Inr Undefined, w @ [m @ ''.'' @ n]))"

definition main_class :: "string \<times> widget_mixin list \<times> string list" where
  "main_class = (''MainWidget'', [SSM, AUM], [''getPath'', ''getInitialState'', ''componentWillMount'', ''render''])"

section \<open>Properties\<close>

text \<open>
  C20. Members of a class that was created. A lifecycle method that several of its mixins and its own
  specification define calls all these definitions, mixins first and in their order (mixins of mixins
  before the mixin itself), each once, until one throws; one definition is taken as it is; with none the
  member is \<open>null\<close>. A function that is not of the interface is bound to the component: whatever a caller
  binds it to again, it keeps the component and its function.
\<close>

theorem class_methods_chained:
  assumes "createClass ims t spec w = (Inr (c, d), w')"
    and "interface_policy n = Some DEFINE_MANY" and "n \<notin> set RESERVED_SPEC_KEYS"
    and "interface_policy m = None" and "m \<notin> set RESERVED_SPEC_KEYS"
    and "occs m (all_members ims spec) = [Function f False]"
  shows "map_of (proto c) n =
      Some (case occs n (all_members ims spec) of
          [] \<Rightarrow> Falsy
        | [p] \<Rightarrow> p
        | ps \<Rightarrow> Function (run_all ps) False) \<and>
    map_of (bindAutoBindMethods i c) m = Some (bindAutoBindMethod i f) \<and>
    (let b = fst (rebind (bindAutoBindMethod i f) newThis args)
     in bound_context b = i \<and> bound_function b = f \<and> bound_arguments b = args)"
proof -
  obtain c1 where c1: "mix_members (all_members ims spec) new_class = Inr c1" "autobind c = autobind c1"
    using createClass_mixed [OF assms(1)] by blast
  have "map_of (autobind c) m = Some f"
    using autobind_mix_members [OF c1(1) assms(4,5)] assms(6) c1(2) by simp
  then have "map_of (bindAutoBindMethods i c) m = Some (bindAutoBindMethod i f)"
    by (simp add: bindAutoBindMethods_def map_of_map)
  moreover have "map_of (proto c) n = Some (case occs n (all_members ims spec) of
      [] \<Rightarrow> Falsy | [p] \<Rightarrow> p | ps \<Rightarrow> Function (run_all ps) False)"
  proof (cases "occs n (all_members ims spec)")
    case (Cons q ps)
    show ?thesis
    proof (cases "ps = []")
      case True
      then show ?thesis using proto_created [OF assms(1,3)] assms(2) Cons
        by (cases q) (auto simp: truthy_prop_def)
    next
      case False
      then show ?thesis using proto_created [OF assms(1,3), unfolded assms(2)] Cons chained_runs_all [OF False, of q]
        by (auto simp: Let_def split: list.splits)
    qed
  qed (use proto_created [OF assms(1,3)] assms(2) in simp)
  moreover have "let b = fst (rebind (bindAutoBindMethod i f) newThis args)
     in bound_context b = i \<and> bound_function b = f \<and> bound_arguments b = args"
    by (simp add: Let_def rebind_def bindAutoBindMethod_def)
  ultimately show ?thesis by blast
qed

theorem class_methods_chained_witness:
  "\<exists>c d w' f. createClass [ReactBrowserComponentMixin logging] () (widget_spec logging main_class) [] = (Inr (c, d), w') \<and>
     map_of (proto c) ''componentDidMount'' = Some (Function f False) \<and>
     f () [] = (Inr Undefined, [''SignalSlotMixin.componentDidMount'', ''AutoUpdateMixin.componentDidMount''])"
proof -
  let ?kvs = "all_members [ReactBrowserComponentMixin logging] (widget_spec logging main_class)"
  have "main_class \<in> set widget_classes" by (simp add: main_class_def widget_classes_def)
  then obtain r where "fst (createClass [ReactBrowserComponentMixin logging] () (widget_spec logging main_class) []) = Inr r"
    using widget_mixable createClass_iff by metis
  then obtain c d w' where c: "createClass [ReactBrowserComponentMixin logging] () (widget_spec logging main_class) [] =
      (Inr (c, d), w')"
    by (cases r; cases "createClass [ReactBrowserComponentMixin logging] () (widget_spec logging main_class) []") auto
  have members: "occs ''componentDidMount'' ?kvs =
      [Function (logging ''SignalSlotMixin'' ''componentDidMount'') False,
       Function (logging ''AutoUpdateMixin'' ''componentDidMount'') False]"
    "occs ''getPath'' ?kvs = [Function (logging ''MainWidget'' ''getPath'') False]"
    by (simp_all add: main_class_def all_members_def widget_spec_def ReactBrowserComponentMixin_def functions_of_def
        AutoUpdateMixin_def SignalSlotMixin_def)
  have "interface_policy ''componentDidMount'' = Some DEFINE_MANY" "interface_policy ''getPath'' = None"
    "''componentDidMount'' \<notin> set RESERVED_SPEC_KEYS" "''getPath'' \<notin> set RESERVED_SPEC_KEYS"
    by (simp_all add: interface_policy_def ReactClassInterface_def interface_properties_def RESERVED_SPEC_KEYS_def
        interface_definition_methods_def interface_delegate_methods_def)
  then have "map_of (proto c) ''componentDidMount'' = Some (case occs ''componentDidMount'' ?kvs of
      [] \<Rightarrow> Falsy | [p] \<Rightarrow> p | ps \<Rightarrow> Function (run_all ps) False)"
    using class_methods_chained [OF c, of "''componentDidMount''" "''getPath''" "logging ''MainWidget'' ''getPath''" 0 None "[]"]
      members(2) by blast
  then have "map_of (proto c) ''componentDidMount'' = Some (Function (run_all
      [Function (logging ''SignalSlotMixin'' ''componentDidMount'') False,
       Function (logging ''AutoUpdateMixin'' ''componentDidMount'') False]) False)"
    by (simp only: members(1) list.case)
  then show ?thesis using c by (auto simp: apply_prop_def logging_def)
qed




text \<open>
  C22. The initial state. The state of a new component is the union of what all \<open>getInitialState\<close> methods
  return, in the order they were mixed. If there are several and two return the same key, or one returns the
  name of a member every object has (like \<open>toString\<close>), constructing the component throws instead.
\<close>

theorem initial_state_merged:
  assumes "createClass ims t spec w = (Inr (c, d), w')"
    and "occs ''getInitialState'' (all_members ims spec) = q # ps"
    and "list_all2 (returns a) (q # ps) ms"
  shows "if ps = [] \<or> no_conflict (concat ms) then construct c a w1 = (Inr (Members (concat ms)), w1)
    else \<exists>k. construct c a w1 = (Inl (DuplicateKey k), w1)"
proof -
  have policy: "interface_policy ''getInitialState'' = Some DEFINE_MANY_MERGED"
    "''getInitialState'' \<notin> set RESERVED_SPEC_KEYS"
    by (simp_all add: interface_policy_def ReactClassInterface_def interface_properties_def RESERVED_SPEC_KEYS_def
        interface_definition_methods_def interface_delegate_methods_def)
  note created = proto_created [OF assms(1) policy(2), unfolded policy(1)]
  show ?thesis
  proof (cases "ps = []")
    case True
    then have q: "apply_prop q a w1 = (Inr (Members (concat ms)), w1)"
      using assms(3) by (auto simp: list_all2_Cons1 returns_def)
    then have "truthy_prop (Some q)" by (cases q) (auto simp: apply_prop_def truthy_prop_def)
    with q True created assms(2) show ?thesis by (simp add: construct_def)
  next
    case False
    then show ?thesis
      using created assms(2) merged_result [OF assms(3) False]
      by (auto simp: construct_def apply_prop_def split: if_splits)
  qed
qed

theorem initial_state_merged_witness:
  "\<exists>c d. createClass [] () (Spec [Spec [] [(''getInitialState'', Function (\<lambda>_ w. (Inr (Members [(''data'', Some 1)]), w)) False)]]
       [(''getInitialState'', Function (\<lambda>_ w. (Inr (Members [(''page'', Some (2 :: nat))]), w)) False),
        (''render'', Function (\<lambda>_ w. (Inr Null, w)) False)]) () = (Inr (c, d), ()) \<and>
     construct c () () = (Inr (Members [(''data'', Some 1), (''page'', Some 2)]), ())"
proof -
  let ?f = "\<lambda>k v. Function (\<lambda>_ w. (Inr (Members [(k, Some v)]), w)) False :: (unit, nat, unit) meth jsmember"
  let ?spec = "Spec [Spec [] [(''getInitialState'', ?f ''data'' 1)]]
       [(''getInitialState'', ?f ''page'' 2), (''render'', Function (\<lambda>_ w. (Inr Null, w)) False)]"
  have keys: "\<not> single_key ''getInitialState''" "single_key ''render''" by code_simp+
  have "list_all (\<lambda>n. n \<notin> set ReactClassMixin \<and> n \<noteq> ''constructor'') [''getInitialState'', ''render'']"
    by (simp add: ReactClassMixin_def)
  then have "mixable (all_members [] ?spec) new_class" using keys
    by (simp add: mixable_def all_members_def static_keys_def)
  moreover have "occs ''render'' (all_members [] ?spec) = [Function (\<lambda>_ w. (Inr Null, w)) False]"
    "occs ''getDefaultProps'' (all_members [] ?spec) = []"
    "occs ''getInitialState'' (all_members [] ?spec) = [?f ''data'' 1, ?f ''page'' 2]"
    by (simp_all add: all_members_def)
  ultimately obtain r where "fst (createClass [] () ?spec ()) = Inr r"
    using createClass_iff [of "[]" ?spec "()" "()"] by auto
  then obtain c d where c: "createClass [] () ?spec () = (Inr (c, d), ())"
    by (cases r; cases "createClass [] () ?spec ()") auto
  have "list_all2 (returns ()) [?f ''data'' 1, ?f ''page'' 2] [[(''data'', Some 1)], [(''page'', Some 2)]]"
    by (simp add: returns_def apply_prop_def)
  moreover have "no_conflict [(''data'', Some (1 :: nat)), (''page'', Some 2)]"
    by (simp add: no_conflict_def object_prototype_keys_def)
  ultimately have "construct c () () = (Inr (Members [(''data'', Some 1), (''page'', Some 2)]), ())"
    using initial_state_merged [OF c, of "?f ''data'' 1" "[?f ''page'' 2]" "()" "[[(''data'', Some 1)], [(''page'', Some 2)]]" "()"]
      \<open>occs ''getInitialState'' (all_members [] ?spec) = [?f ''data'' 1, ?f ''page'' 2]\<close> by simp
  with c show ?thesis by blast
qed

end
