(* ===== verification/ReactMultiChild.thy ===== *)
theory ReactMultiChild
  imports Prelude "HOL-Library.Sublist"
begin

text \<open>
  How \<open>webfiles/react.js\<close> brings the children of an element up to date: \<open>ReactChildReconciler\<close> decides
  which child components stay, \<open>ReactMultiChild\<close> enqueues insertions, moves and removals, and
  \<open>DOMChildrenOperations\<close> performs them at the end of the outermost update.

  The tree is one of native elements and text; the composite that wraps every native element and passes its
  element on is left out, and so is the shortcut of \<open>ReactReconciler.receiveComponent\<close> for the very same
  element. A component (an internal instance) is a number, and so is its DOM node, by the number of its
  component; the markup of a component is the same number. The children of an element are named already
  (\<open>flattenChildren\<close>); a single string that is the content of an element is left to \<open>updateTextContent\<close>.
  \<open>child_nodes\<close> are the \<open>childNodes\<close> of the nodes; those of a new node are what its markup holds.
\<close>

section \<open>Elements and components\<close>

datatype element = Text string | Number int
  | Element string "string option" "nat option" "(string \<times> element) list"

fun el_children :: "element \<Rightarrow> (string \<times> element) list" where
  "el_children (Element t k w cs) = cs"
| "el_children _ = []"

text \<open>\<open>None\<close> is \<open>null\<close> or \<open>undefined\<close>. An element has a type, a key and an owner.\<close>

fun shouldUpdateReactComponent :: "element option \<Rightarrow> element option \<Rightarrow> bool" where
  "shouldUpdateReactComponent (Some (Element t k w _)) (Some (Element t' k' w' _)) = (t = t' \<and> k = k' \<and> w = w')"
| "shouldUpdateReactComponent (Some (Element t k w _)) _ = False"
| "shouldUpdateReactComponent (Some _) (Some (Element t' k' w' _)) = False"
| "shouldUpdateReactComponent (Some _) (Some _) = True"
| "shouldUpdateReactComponent _ _ = False"

text \<open>A component: its number, \<open>_mountIndex\<close>, \<open>_currentElement\<close> and \<open>_renderedChildren\<close>.\<close>

datatype component = Component (cid: nat) (mount_index: "nat option") (current_element: element)
  (rendered_children: "(string \<times> component) list")

text \<open>\<open>null\<close> counts as 0.\<close>

definition mount_index_number :: "component \<Rightarrow> nat" where
  "mount_index_number c = (case mount_index c of None \<Rightarrow> 0 | Some i \<Rightarrow> i)"

definition set_mount_index :: "nat option \<Rightarrow> component \<Rightarrow> component" where
  "set_mount_index i c = Component (cid c) i (current_element c) (rendered_children c)"

definition cids :: "(string \<times> component) list \<Rightarrow> nat list" where
  "cids cs = map (\<lambda>nc. cid (snd nc)) cs"

section \<open>The queue of updates\<close>

datatype update = INSERT_MARKUP nat nat nat | MOVE_EXISTING nat nat nat | REMOVE_NODE nat nat | TEXT_CONTENT nat string

record react_dom =
  updateDepth :: nat
  updateQueue :: "update list"
  markupQueue :: "nat list"
  child_nodes :: "nat \<Rightarrow> nat list"
  next_id :: nat
  unmounted :: "nat list"
  threw :: bool

definition enqueueMarkup :: "nat \<Rightarrow> nat \<Rightarrow> nat \<Rightarrow> react_dom \<Rightarrow> react_dom" where
  "enqueueMarkup parentID markup toIndex s =
     s\<lparr>updateQueue := updateQueue s @ [INSERT_MARKUP parentID (length (markupQueue s)) toIndex],
       markupQueue := markupQueue s @ [markup]\<rparr>"

definition enqueueMove :: "nat \<Rightarrow> nat \<Rightarrow> nat \<Rightarrow> react_dom \<Rightarrow> react_dom" where
  "enqueueMove parentID fromIndex toIndex s = s\<lparr>updateQueue := updateQueue s @ [MOVE_EXISTING parentID fromIndex toIndex]\<rparr>"

definition enqueueRemove :: "nat \<Rightarrow> nat \<Rightarrow> react_dom \<Rightarrow> react_dom" where
  "enqueueRemove parentID fromIndex s = s\<lparr>updateQueue := updateQueue s @ [REMOVE_NODE parentID fromIndex]\<rparr>"

definition enqueueTextContent :: "nat \<Rightarrow> string \<Rightarrow> react_dom \<Rightarrow> react_dom" where
  "enqueueTextContent parentID textContent s = s\<lparr>updateQueue := updateQueue s @ [TEXT_CONTENT parentID textContent]\<rparr>"

definition clearQueue :: "react_dom \<Rightarrow> react_dom" where
  "clearQueue s = s\<lparr>updateQueue := [], markupQueue := []\<rparr>"

section \<open>Processing the queue\<close>

definition insertChildAt :: "nat \<Rightarrow> nat \<Rightarrow> nat \<Rightarrow> (nat \<Rightarrow> nat list) \<Rightarrow> nat \<Rightarrow> nat list" where
  "insertChildAt parentNode childNode index d =
     d(parentNode := take index (d parentNode) @ childNode # drop index (d parentNode))"

text \<open>The first loop: parent, index and child of every node that is moved or removed; \<open>None\<close>: the invariant fails.\<close>

fun updated_children :: "(nat \<Rightarrow> nat list) \<Rightarrow> update list \<Rightarrow> ((nat \<times> nat) \<times> nat) list option" where
  "updated_children d [] = Some []"
| "updated_children d (u # us) =
     (case (case u of MOVE_EXISTING p f t \<Rightarrow> Some (p, f) | REMOVE_NODE p f \<Rightarrow> Some (p, f) | _ \<Rightarrow> None) of
        None \<Rightarrow> updated_children d us
      | Some (p, f) \<Rightarrow>
          if f < length (d p) then map_option (\<lambda>r. ((p, f), d p ! f) # r) (updated_children d us) else None)"

text \<open>The second loop; \<open>None\<close>: the node has no parent any more.\<close>

fun remove_children :: "((nat \<times> nat) \<times> nat) list \<Rightarrow> (nat \<Rightarrow> nat list) \<Rightarrow> (nat \<Rightarrow> nat list) option" where
  "remove_children [] d = Some d"
| "remove_children (((p, f), c) # r) d =
     (if c \<in> set (d p) then remove_children r (d(p := remove1 c (d p))) else None)"

text \<open>
  The third loop. \<open>initial\<close> is \<open>initialChildren\<close>; a text content is a text node (a number of its own) unless
  it is empty. \<open>None\<close>: there is no such markup or child.
\<close>

fun apply_updates :: "((nat \<times> nat) \<times> nat) list \<Rightarrow> nat list \<Rightarrow> update list \<Rightarrow> (nat \<Rightarrow> nat list) \<Rightarrow> nat \<Rightarrow> ((nat \<Rightarrow> nat list) \<times> nat) option" where
  "apply_updates initial markups [] d n = Some (d, n)"
| "apply_updates initial markups (u # us) d n =
     (case u of
        INSERT_MARKUP p m t \<Rightarrow>
          if m < length markups then apply_updates initial markups us (insertChildAt p (markups ! m) t d) n else None
      | MOVE_EXISTING p f t \<Rightarrow>
          (case map_of initial (p, f) of
             Some c \<Rightarrow> apply_updates initial markups us (insertChildAt p c t d) n
           | None \<Rightarrow> None)
      | TEXT_CONTENT p text \<Rightarrow>
          if text = '''' then apply_updates initial markups us (d(p := [])) n
          else apply_updates initial markups us (d(p := [n])) (n + 1)
      | REMOVE_NODE p f \<Rightarrow> apply_updates initial markups us d n)"

definition processUpdates :: "update list \<Rightarrow> nat list \<Rightarrow> (nat \<Rightarrow> nat list) \<Rightarrow> nat \<Rightarrow> ((nat \<Rightarrow> nat list) \<times> nat) option" where
  "processUpdates us markups d n =
     (case updated_children d us of
        None \<Rightarrow> None
      | Some upd \<Rightarrow>
          (case remove_children upd d of
             None \<Rightarrow> None
           | Some d' \<Rightarrow> apply_updates upd markups us d' n))"

text \<open>When processing throws, the queue is not cleared.\<close>

definition processQueue :: "react_dom \<Rightarrow> react_dom" where
  "processQueue s =
     (if updateQueue s \<noteq> [] then
        (case processUpdates (updateQueue s) (markupQueue s) (child_nodes s) (next_id s) of
           None \<Rightarrow> s\<lparr>threw := True\<rparr>
         | Some (d, n) \<Rightarrow> clearQueue (s\<lparr>child_nodes := d, next_id := n\<rparr>))
      else s)"

text \<open>The \<open>finally\<close> block, without an error; nothing in a tree of native elements throws.\<close>

definition leave_update :: "react_dom \<Rightarrow> react_dom" where
  "leave_update s = (let s' = s\<lparr>updateDepth := updateDepth s - 1\<rparr> in if updateDepth s' = 0 then processQueue s' else s')"

section \<open>Mounting and unmounting\<close>

text \<open>\<open>instantiateReactComponent\<close>\<close>

definition instantiate :: "element \<Rightarrow> react_dom \<Rightarrow> component \<times> react_dom" where
  "instantiate e s = (Component (next_id s) (Some 0) e [], s\<lparr>next_id := next_id s + 1\<rparr>)"

fun instantiateChildren :: "(string \<times> element) list \<Rightarrow> react_dom \<Rightarrow> (string \<times> component) list \<times> react_dom" where
  "instantiateChildren [] s = ([], s)"
| "instantiateChildren ((name, e) # rest) s =
     (let (c, s1) = instantiate e s; (cs, s2) = instantiateChildren rest s1 in ((name, c) # cs, s2))"

text \<open>
  The loop of \<open>mountChildren\<close> with the recursive \<open>mountComponent\<close>. The second argument are the children of the
  element, by which it recurses; the first are the components that stand for them.
\<close>

fun mountComponent :: "component \<Rightarrow> element \<Rightarrow> react_dom \<Rightarrow> component \<times> react_dom"
  and mount_loop :: "(string \<times> component) list \<Rightarrow> (string \<times> element) list \<Rightarrow> nat \<Rightarrow> react_dom \<Rightarrow> (string \<times> component) list \<times> react_dom" where
  "mountComponent (Component i m e' r) (Element t k w cs) s =
     (let (children, s1) = instantiateChildren cs s;
          (mounted, s2) = mount_loop children cs 0 s1
      in (Component i m (Element t k w cs) mounted,
          s2\<lparr>child_nodes := (child_nodes s2)(i := cids mounted)\<rparr>))"
| "mountComponent (Component i m e' r) e s = (Component i m e [], s\<lparr>child_nodes := (child_nodes s)(i := [])\<rparr>)"
| "mount_loop ((name, c) # cs) ((name', e) # es) index s =
     (let (c', s1) = mountComponent c e s; (cs', s2) = mount_loop cs es (index + 1) s1
      in ((name, set_mount_index (Some index) c') # cs', s2))"
| "mount_loop _ _ index s = ([], s)"

text \<open>\<open>unmountComponent\<close>: the children first.\<close>

fun unmount_order :: "component \<Rightarrow> nat list" where
  "unmount_order (Component i m e cs) = concat (map (\<lambda>(name, c). unmount_order c) cs) @ [i]"

definition unmountComponent :: "component \<Rightarrow> react_dom \<Rightarrow> react_dom" where
  "unmountComponent c s = s\<lparr>unmounted := unmounted s @ unmount_order c\<rparr>"

section \<open>Updating children\<close>

text \<open>\<open>moveChild\<close>\<close>

definition moveChild :: "nat \<Rightarrow> component \<Rightarrow> nat \<Rightarrow> nat \<Rightarrow> react_dom \<Rightarrow> react_dom" where
  "moveChild parentID child toIndex lastIndex s =
     (if mount_index_number child < lastIndex then enqueueMove parentID (mount_index_number child) toIndex s else s)"

definition removeChild :: "nat \<Rightarrow> component \<Rightarrow> react_dom \<Rightarrow> react_dom" where
  "removeChild parentID child s = enqueueRemove parentID (mount_index_number child) s"

definition mountChildByNameAtIndex :: "nat \<Rightarrow> component \<Rightarrow> nat \<Rightarrow> react_dom \<Rightarrow> component \<times> react_dom" where
  "mountChildByNameAtIndex parentID child index s =
     (let (c, s1) = mountComponent child (current_element child) s
      in (set_mount_index (Some index) c, enqueueMarkup parentID (cid c) index s1))"

text \<open>The first loop of \<open>_updateChildren\<close>; \<open>prev\<close> are the previous children.\<close>

fun place_children ::
  "nat \<Rightarrow> (string \<times> component) list \<Rightarrow> (string \<times> component) list \<Rightarrow> nat \<Rightarrow> nat \<Rightarrow> react_dom
   \<Rightarrow> (string \<times> component) list \<times> react_dom" where
  "place_children p prev [] nextIndex lastIndex s = ([], s)"
| "place_children p prev ((name, nextChild) # rest) nextIndex lastIndex s =
     (case map_of prev name of
        Some prevChild \<Rightarrow>
          if cid prevChild = cid nextChild then
            (let s1 = moveChild p prevChild nextIndex lastIndex s;
                 (cs, s2) = place_children p prev rest (nextIndex + 1) (max (mount_index_number prevChild) lastIndex) s1
             in ((name, set_mount_index (Some nextIndex) nextChild) # cs, s2))
          else
            (let (c, s1) = mountChildByNameAtIndex p nextChild nextIndex (removeChild p prevChild s);
                 (cs, s2) = place_children p prev rest (nextIndex + 1) (max (mount_index_number prevChild) lastIndex) s1
             in ((name, c) # cs, s2))
      | None \<Rightarrow>
          (let (c, s1) = mountChildByNameAtIndex p nextChild nextIndex s;
               (cs, s2) = place_children p prev rest (nextIndex + 1) lastIndex s1
           in ((name, c) # cs, s2)))"

text \<open>The previous children that have no successor of their name.\<close>

definition missing :: "(string \<times> component) list \<Rightarrow> (string \<times> 'x) list \<Rightarrow> component list" where
  "missing prev next = map snd (filter (\<lambda>(name, c). name \<notin> set (map fst next)) prev)"

text \<open>\<open>_updateChildren\<close> after the reconciliation\<close>

definition update_children_queue ::
  "nat \<Rightarrow> (string \<times> component) list \<Rightarrow> (string \<times> component) list \<Rightarrow> react_dom \<Rightarrow> (string \<times> component) list \<times> react_dom" where
  "update_children_queue p prev next s =
     (let (children, s1) = place_children p prev next 0 0 s
      in (children, fold (removeChild p) (missing prev next) s1))"

text \<open>
  \<open>receiveComponent\<close> of a native component, and the loop of \<open>ReactChildReconciler.updateChildren\<close>: the component
  of a child that is updated stays, others are unmounted and instantiated.
\<close>

fun receiveComponent :: "component \<Rightarrow> element \<Rightarrow> react_dom \<Rightarrow> component \<times> react_dom"
  and reconcile :: "(string \<times> component) list \<Rightarrow> (string \<times> element) list \<Rightarrow> react_dom \<Rightarrow> (string \<times> component) list \<times> react_dom" where
  "receiveComponent (Component i m e prev) (Element t k w cs) s =
     (let (next, s1) = reconcile prev cs (s\<lparr>updateDepth := updateDepth s + 1\<rparr>);
          (children, s2) = update_children_queue i prev next (fold unmountComponent (missing prev cs) s1)
      in (Component i m (Element t k w cs) children, leave_update s2))"
| "receiveComponent (Component i m e prev) e' s = (Component i m e' prev, s)"
| "reconcile prev [] s = ([], s)"
| "reconcile prev ((name, nextElement) # rest) s =
     (let (c, s1) =
        (case map_of prev name of
           Some prevChild \<Rightarrow>
             if shouldUpdateReactComponent (Some (current_element prevChild)) (Some nextElement)
             then receiveComponent prevChild nextElement s
             else instantiate nextElement (unmountComponent prevChild s)
         | None \<Rightarrow> instantiate nextElement s);
        (cs, s2) = reconcile prev rest s1
      in ((name, c) # cs, s2))"

text \<open>\<open>updateTextContent\<close>\<close>

definition updateTextContent :: "component \<Rightarrow> string \<Rightarrow> react_dom \<Rightarrow> component \<times> react_dom" where
  "updateTextContent c nextContent s =
     (let prev = map snd (rendered_children c);
          s1 = fold unmountComponent prev (s\<lparr>updateDepth := updateDepth s + 1\<rparr>);
          s2 = enqueueTextContent (cid c) nextContent (fold (removeChild (cid c)) prev s1)
      in (Component (cid c) (mount_index c) (current_element c)
            (map (\<lambda>(name, child). (name, set_mount_index None child)) (rendered_children c)), leave_update s2))"

section \<open>The updates of one parent\<close>

lemma set_mount_index_simps [simp]:
  "cid (set_mount_index i c) = cid c" "mount_index (set_mount_index i c) = i"
  "current_element (set_mount_index i c) = current_element c"
  "rendered_children (set_mount_index i c) = rendered_children c"
  by (simp_all add: set_mount_index_def)

definition mount_indices :: "(string \<times> component) list \<Rightarrow> nat option list" where
  "mount_indices cs = map (\<lambda>nc. mount_index (snd nc)) cs"

lemma cids_simps [simp]: "cids [] = []" "cids (nc # cs) = cid (snd nc) # cids cs" "cids (cs @ cs') = cids cs @ cids cs'"
  "length (cids cs) = length cs" "set (cids cs) = (\<lambda>nc. cid (snd nc)) ` set cs"
  "j < length cs \<Longrightarrow> cids cs ! j = cid (snd (cs ! j))"
  by (simp_all add: cids_def)

lemma mount_indices_simps [simp]: "mount_indices [] = []" "mount_indices (nc # cs) = mount_index (snd nc) # mount_indices cs"
  "length (mount_indices cs) = length cs" "j < length cs \<Longrightarrow> mount_indices cs ! j = mount_index (snd (cs ! j))"
  by (simp_all add: mount_indices_def)

text \<open>The children of a parent as they should be: distinct names and numbers, each child at its index.\<close>

definition children_ok :: "(string \<times> component) list \<Rightarrow> bool" where
  "children_ok cs \<longleftrightarrow> distinct (map fst cs) \<and> distinct (cids cs) \<and>
     mount_indices cs = map Some [0..<length cs]"

lemma children_ok_lookup:
  assumes "children_ok prev" and "map_of prev name = Some c"
  shows "\<exists>j < length prev. prev ! j = (name, c) \<and> mount_index_number c = j \<and> cids prev ! j = cid c"
proof -
  obtain j where j: "j < length prev" "prev ! j = (name, c)"
    using map_of_SomeD [OF assms(2)] by (auto simp: in_set_conv_nth)
  then have "mount_indices prev ! j = Some j" using assms(1) by (simp add: children_ok_def)
  with j show ?thesis by (auto simp: mount_index_number_def)
qed

text \<open>
  What \<open>place_children\<close> enqueues, without the mounting: the updates, the markups, and the indices of the
  previous children that are touched and of those that stay in place.
\<close>

fun place_updates :: "nat \<Rightarrow> (string \<times> component) list \<Rightarrow> (string \<times> component) list \<Rightarrow> nat \<Rightarrow> nat \<Rightarrow> nat \<Rightarrow> update list" where
  "place_updates p prev [] ni li m = []"
| "place_updates p prev ((name, c) # rest) ni li m =
     (case map_of prev name of
        Some pc \<Rightarrow>
          if cid pc = cid c then
            (if mount_index_number pc < li then [MOVE_EXISTING p (mount_index_number pc) ni] else []) @
            place_updates p prev rest (ni + 1) (max (mount_index_number pc) li) m
          else [REMOVE_NODE p (mount_index_number pc), INSERT_MARKUP p m ni] @
            place_updates p prev rest (ni + 1) (max (mount_index_number pc) li) (m + 1)
      | None \<Rightarrow> INSERT_MARKUP p m ni # place_updates p prev rest (ni + 1) li (m + 1))"

fun kept :: "(string \<times> component) list \<Rightarrow> string \<times> component \<Rightarrow> bool" where
  "kept prev (name, c) = (\<exists>pc. map_of prev name = Some pc \<and> cid pc = cid c)"

definition place_markups :: "(string \<times> component) list \<Rightarrow> (string \<times> component) list \<Rightarrow> nat list" where
  "place_markups prev next = cids (filter (\<lambda>nc. \<not> kept prev nc) next)"

fun stay_ix :: "(string \<times> component) list \<Rightarrow> (string \<times> component) list \<Rightarrow> nat \<Rightarrow> nat list" where
  "stay_ix prev [] li = []"
| "stay_ix prev ((name, c) # rest) li =
     (case map_of prev name of
        Some pc \<Rightarrow> (if cid pc = cid c \<and> \<not> mount_index_number pc < li then [mount_index_number pc] else []) @
          stay_ix prev rest (max (mount_index_number pc) li)
      | None \<Rightarrow> stay_ix prev rest li)"

fun touched_ix :: "(string \<times> component) list \<Rightarrow> (string \<times> component) list \<Rightarrow> nat \<Rightarrow> nat list" where
  "touched_ix prev [] li = []"
| "touched_ix prev ((name, c) # rest) li =
     (case map_of prev name of
        Some pc \<Rightarrow> (if cid pc = cid c \<and> \<not> mount_index_number pc < li then [] else [mount_index_number pc]) @
          touched_ix prev rest (max (mount_index_number pc) li)
      | None \<Rightarrow> touched_ix prev rest li)"

lemma place_markups_simps [simp]:
  "place_markups prev [] = []"
  "place_markups prev (nc # rest) = (if kept prev nc then [] else [cid (snd nc)]) @ place_markups prev rest"
  by (simp_all add: place_markups_def)

lemma place_apply:
  assumes "length xs = ni" and "length (markupQ) = m" and "prefix (markupQ @ place_markups prev next) ms"
    and "d p = xs @ map (\<lambda>j. ps ! j) (stay_ix prev next li)"
    and "\<And>f. f \<in> set (touched_ix prev next li) \<Longrightarrow> map_of I (p, f) = Some (ps ! f)"
    and "\<And>name c. map_of prev name = Some c \<Longrightarrow> ps ! mount_index_number c = cid c"
  shows "apply_updates I ms (place_updates p prev next ni li m @ us) d n =
    apply_updates I ms us (d(p := xs @ cids next)) n"
  using assms
proof (induction p prev "next" ni li m arbitrary: xs markupQ d rule: place_updates.induct)
  case (1 p prev ni li m)
  then show ?case by (simp add: fun_upd_idem)
next
  case (2 p prev name c rest ni li m)
  let ?S = "\<lambda>l. map (\<lambda>j. ps ! j) (stay_ix prev rest l)"
  have insert: "insertChildAt p x ni d = d(p := (xs @ [x]) @ zs)" if "d p = xs @ zs" for x zs
    using that 2(4) by (simp add: insertChildAt_def)
  have final: "d(p := A, p := (xs @ [cid c]) @ cids rest) =
      d(p := xs @ cids ((name, c) # rest))" for A by simp
  have markup: "m < length ms \<and> ms ! m = cid c \<and> prefix ((markupQ @ [cid c]) @ place_markups prev rest) ms"
    if "\<not> kept prev (name, c)"
  proof -
    from that "2.prems"(3) have "prefix ((markupQ @ [cid c]) @ place_markups prev rest) ms"
      by (simp split: if_splits)
    moreover from this have "ms ! m = cid c \<and> m < length ms"
      using "2.prems"(2) by (auto simp: prefix_def nth_append)
    ultimately show ?thesis by simp
  qed
  show ?case
  proof (cases "map_of prev name")
    case None
    then have "\<not> kept prev (name, c)" by simp
    note mk = markup [OF this]
    have "apply_updates I ms (place_updates p prev ((name, c) # rest) ni li m @ us) d n =
        apply_updates I ms (place_updates p prev rest (ni + 1) li (m + 1) @ us) (d(p := (xs @ [cid c]) @ ?S li)) n"
      using None mk insert "2.prems"(4) by simp
    also have "\<dots> = apply_updates I ms us (d(p := (xs @ [cid c]) @ ?S li, p := (xs @ [cid c]) @ cids rest)) n"
      using "2.prems" None mk
      by (intro "2.IH"(1) [where markupQ = "markupQ @ [cid c]"]) simp_all
    finally show ?thesis by (simp only: final)
  next
    case (Some pc)
    let ?j = "mount_index_number pc"
    have j: "ps ! ?j = cid pc" using "2.prems"(6) Some by simp
    show ?thesis
    proof (cases "cid pc = cid c")
      case True
      then have "kept prev (name, c)" using Some by simp
      then have "apply_updates I ms (place_updates p prev ((name, c) # rest) ni li m @ us) d n =
          apply_updates I ms (place_updates p prev rest (ni + 1) (max ?j li) m @ us)
            (d(p := (xs @ [cid c]) @ ?S (max ?j li))) n"
        using Some True insert "2.prems"(4,5) j by (cases "?j < li") (simp_all add: fun_upd_idem)
      also have "\<dots> = apply_updates I ms us
          (d(p := (xs @ [cid c]) @ ?S (max ?j li), p := (xs @ [cid c]) @ cids rest)) n"
        using "2.prems" Some True \<open>kept prev (name, c)\<close>
        by (intro "2.IH"(2) [where markupQ = markupQ]) simp_all
      finally show ?thesis by (simp only: final)
    next
      case False
      then have "\<not> kept prev (name, c)" using Some by simp
      note mk = markup [OF this]
      have "apply_updates I ms (place_updates p prev ((name, c) # rest) ni li m @ us) d n =
          apply_updates I ms (place_updates p prev rest (ni + 1) (max ?j li) (m + 1) @ us)
            (d(p := (xs @ [cid c]) @ ?S (max ?j li))) n"
        using Some False mk insert "2.prems"(4) by simp
      also have "\<dots> = apply_updates I ms us
          (d(p := (xs @ [cid c]) @ ?S (max ?j li), p := (xs @ [cid c]) @ cids rest)) n"
        using "2.prems" Some False mk
        by (intro "2.IH"(3) [where markupQ = "markupQ @ [cid c]"]) simp_all
      finally show ?thesis by (simp only: final)
    qed
  qed
qed

text \<open>The indices of the previous children whose names occur among the next ones.\<close>

definition visited_ix :: "(string \<times> component) list \<Rightarrow> (string \<times> component) list \<Rightarrow> nat list" where
  "visited_ix prev next = List.map_filter (\<lambda>(name, _). map_option mount_index_number (map_of prev name)) next"

lemma visited_ix_simps [simp]:
  "visited_ix prev [] = []"
  "visited_ix prev ((name, c) # rest) =
     (case map_of prev name of None \<Rightarrow> [] | Some pc \<Rightarrow> [mount_index_number pc]) @ visited_ix prev rest"
  by (simp_all add: visited_ix_def List.map_filter_simps split: option.split)

lemma mset_visited_ix: "mset (stay_ix prev next li) + mset (touched_ix prev next li) = mset (visited_ix prev next)"
  by (induction prev "next" li rule: stay_ix.induct) (auto split: option.split)

lemma set_visited_ix:
  assumes "children_ok prev"
  shows "set (visited_ix prev next) = {j. j < length prev \<and> fst (prev ! j) \<in> fst ` set next}"
proof (induction "next")
  case (Cons nc rest)
  obtain name c where nc: "nc = (name, c)" by (cases nc)
  have names: "distinct (map fst prev)" using assms by (simp add: children_ok_def)
  have "(case map_of prev name of None \<Rightarrow> {} | Some pc \<Rightarrow> {mount_index_number pc}) =
      {j. j < length prev \<and> fst (prev ! j) = name}"
  proof (cases "map_of prev name")
    case None
    then have "name \<notin> fst ` set prev" by (simp add: map_of_eq_None_iff)
    then show ?thesis using None by (auto simp: image_iff dest: nth_mem)
  next
    case (Some pc)
    obtain j where j: "j < length prev" "prev ! j = (name, pc)" "mount_index_number pc = j"
      using children_ok_lookup [OF assms Some] by blast
    have uniq: "i = j" if "i < length prev" "fst (prev ! i) = name" for i
      using names that j(1,2) by (simp add: distinct_conv_nth) (metis fst_conv)
    have "{i. i < length prev \<and> fst (prev ! i) = name} = {j}"
      using j(1,2) by (auto dest: uniq)
    then show ?thesis by (simp add: Some j(3))
  qed
  moreover have "set (visited_ix prev (nc # rest)) =
      (case map_of prev name of None \<Rightarrow> {} | Some pc \<Rightarrow> {mount_index_number pc}) \<union> set (visited_ix prev rest)"
    by (simp add: nc split: option.split)
  ultimately have "set (visited_ix prev (nc # rest)) =
      {j. j < length prev \<and> fst (prev ! j) = name} \<union> {j. j < length prev \<and> fst (prev ! j) \<in> fst ` set rest}"
    by (simp only: Cons.IH)
  also have "\<dots> = {j. j < length prev \<and> fst (prev ! j) \<in> fst ` set (nc # rest)}"
    unfolding nc by (simp add: Collect_disj_eq [symmetric] conj_disj_distribL)
  finally show ?case .
qed simp

lemma head_not_visited:
  assumes "children_ok prev" and "distinct (map fst ((name, c) # rest))" and "map_of prev name = Some pc"
  shows "mount_index_number pc \<notin> set (visited_ix prev rest)"
  using children_ok_lookup [OF assms(1,3)] assms(2) by (auto simp: set_visited_ix [OF assms(1)])

lemma distinct_visited_ix:
  assumes "children_ok prev" and "distinct (map fst next)"
  shows "distinct (visited_ix prev next)"
  using assms(2)
proof (induction "next")
  case (Cons nc rest)
  obtain name c where nc: "nc = (name, c)" by (cases nc)
  show ?case using head_not_visited [OF assms(1) Cons.prems [unfolded nc]] Cons
    by (cases "map_of prev name") (simp_all add: nc)
qed simp

lemma stay_ix_visited: "set (stay_ix prev next li) \<subseteq> set (visited_ix prev next)"
  using mset_visited_ix [of prev "next" li] by (metis mset_subset_eq_add_left set_mset_mono set_mset_mset)

lemma stay_ix_sorted:
  assumes "children_ok prev" and "distinct (map fst next)"
  shows "sorted_wrt (<) (stay_ix prev next li) \<and> (\<forall>j \<in> set (stay_ix prev next li). li \<le> j)"
  using assms
proof (induction prev "next" li rule: stay_ix.induct)
  case (2 prev name c rest li)
  have rest: "distinct (map fst rest)" using "2.prems" by simp
  show ?case
  proof (cases "map_of prev name")
    case None
    with "2.IH"(1) [OF None "2.prems"(1) rest] show ?thesis by simp
  next
    case (Some pc)
    define R where "R = stay_ix prev rest (max (mount_index_number pc) li)"
    have ih: "sorted_wrt (<) R" "\<forall>j \<in> set R. max (mount_index_number pc) li \<le> j"
      using "2.IH"(2) [OF Some "2.prems"(1) rest] unfolding R_def by blast+
    have "mount_index_number pc \<notin> set R"
      using head_not_visited [OF "2.prems" Some] stay_ix_visited unfolding R_def by blast
    with ih(2) have above: "\<forall>j \<in> set R. mount_index_number pc < j \<and> li \<le> j"
      by (metis max.boundedE order_le_less)
    have "stay_ix prev ((name, c) # rest) li =
        (if cid pc = cid c \<and> \<not> mount_index_number pc < li then [mount_index_number pc] else []) @ R"
      by (simp add: Some R_def)
    with above ih(1) show ?thesis by (auto simp: sorted_wrt_append)
  qed
qed simp

definition parent_updates :: "nat \<Rightarrow> (string \<times> component) list \<Rightarrow> (string \<times> component) list \<Rightarrow> nat \<Rightarrow> update list" where
  "parent_updates p prev next m =
     place_updates p prev next 0 0 m @ map (\<lambda>c. REMOVE_NODE p (mount_index_number c)) (missing prev next)"

definition removed_ix :: "(string \<times> component) list \<Rightarrow> (string \<times> component) list \<Rightarrow> nat list" where
  "removed_ix prev next = touched_ix prev next 0 @ map mount_index_number (missing prev next)"

lemma set_missing_ix:
  assumes "children_ok prev"
  shows "set (map mount_index_number (missing prev next)) = {j. j < length prev \<and> fst (prev ! j) \<notin> fst ` set next}"
proof -
  have ix: "mount_index_number (snd (prev ! j)) = j" if "j < length prev" for j
  proof -
    have "mount_indices prev ! j = Some j" using assms that by (simp add: children_ok_def)
    with that show ?thesis by (simp add: mount_index_number_def)
  qed
  have "set (map mount_index_number (missing prev next)) =
      (\<lambda>x. mount_index_number (snd x)) ` {x \<in> set prev. fst x \<notin> fst ` set next}"
    by (auto simp: missing_def case_prod_unfold)
  also have "{x \<in> set prev. fst x \<notin> fst ` set next} =
      (!) prev ` {j. j < length prev \<and> fst (prev ! j) \<notin> fst ` set next}"
    unfolding set_conv_nth [of prev] by blast
  also have "(\<lambda>x. mount_index_number (snd x)) ` \<dots> = {j. j < length prev \<and> fst (prev ! j) \<notin> fst ` set next}"
    unfolding image_image using ix by force
  finally show ?thesis .
qed

lemma distinct_missing_ix:
  assumes "children_ok prev"
  shows "distinct (map mount_index_number (missing prev next))"
proof -
  have "map mount_index_number (map snd prev) = [0..<length prev]"
  proof (rule nth_equalityI)
    fix j assume "j < length (map mount_index_number (map snd prev))"
    then have "mount_indices prev ! j = Some j" using assms by (simp add: children_ok_def)
    with \<open>j < _\<close> show "map mount_index_number (map snd prev) ! j = [0..<length prev] ! j"
      by (simp add: mount_index_number_def)
  qed simp
  then have "distinct (map (mount_index_number \<circ> snd) prev)" by simp
  then show ?thesis
    by (simp add: missing_def comp_def distinct_map_filter)
qed

lemma removed_ix_props:
  assumes "children_ok prev" and "distinct (map fst next)"
  shows "distinct (removed_ix prev next)" and "set (removed_ix prev next) \<subseteq> {..<length prev}"
    and "set (stay_ix prev next 0) = {..<length prev} - set (removed_ix prev next)"
proof -
  let ?T = "touched_ix prev next 0" and ?S = "stay_ix prev next 0" and ?V = "visited_ix prev next"
  have ms: "mset (?S @ ?T) = mset ?V" using mset_visited_ix [of prev "next" 0] by simp
  have "distinct (?S @ ?T)"
    using distinct_visited_ix [OF assms] mset_eq_imp_distinct_iff [OF ms] by simp
  then have d: "distinct ?T" "set ?S \<inter> set ?T = {}" by auto
  have u: "set ?S \<union> set ?T = {j. j < length prev \<and> fst (prev ! j) \<in> fst ` set next}"
    unfolding set_visited_ix [OF assms(1), symmetric]
    using mset_eq_setD [OF ms] by simp
  note m = set_missing_ix [OF assms(1), of "next"]
  show "distinct (removed_ix prev next)"
    unfolding removed_ix_def distinct_append
  proof (intro conjI d(1) distinct_missing_ix [OF assms(1)])
    show "set ?T \<inter> set (map mount_index_number (missing prev next)) = {}" using u unfolding m by blast
  qed
  show "set (removed_ix prev next) \<subseteq> {..<length prev}" using u unfolding removed_ix_def set_append m by blast
  show "set ?S = {..<length prev} - set (removed_ix prev next)"
    using d(2) u unfolding removed_ix_def set_append m by blast
qed

lemma filter_stay:
  assumes "distinct ps" and "sorted_wrt (<) js" and "set js = {..<length ps} - set fs" and "set fs \<subseteq> {..<length ps}"
  shows "filter (\<lambda>x. x \<notin> (!) ps ` set fs) ps = map ((!) ps) js"
proof -
  have "filter (\<lambda>x. x \<notin> (!) ps ` set fs) (map ((!) ps) [0..<length ps]) =
      map ((!) ps) (filter (\<lambda>j. ps ! j \<notin> (!) ps ` set fs) [0..<length ps])"
    by (simp add: filter_map comp_def)
  also have "filter (\<lambda>j. ps ! j \<notin> (!) ps ` set fs) [0..<length ps] = filter (\<lambda>j. j \<notin> set fs) [0..<length ps]"
    using assms(1,4) by (intro filter_cong) (auto simp: nth_eq_iff_index_eq)
  also have "\<dots> = js"
  proof (rule sorted_distinct_set_unique)
    show "sorted js" "distinct js" using assms(2) by (auto simp: strict_sorted_iff)
    show "sorted (filter (\<lambda>j. j \<notin> set fs) [0..<length ps])" by (simp add: sorted_wrt_filter)
    show "set (filter (\<lambda>j. j \<notin> set fs) [0..<length ps]) = set js" using assms(3) by auto
  qed simp
  finally show ?thesis by (simp add: map_nth)
qed

lemma remove_listed:
  assumes "distinct ps" and "distinct fs" and "set fs \<subseteq> {..<length ps}" and "set fs \<inter> G = {}" and "G \<subseteq> {..<length ps}"
    and "d p = filter (\<lambda>x. x \<notin> (!) ps ` G) ps"
  shows "remove_children (map (\<lambda>f. ((p, f), ps ! f)) fs @ r) d =
    remove_children r (d(p := filter (\<lambda>x. x \<notin> (!) ps ` (G \<union> set fs)) ps))"
  using assms
proof (induction fs arbitrary: G d)
  case Nil
  then show ?case by (simp add: fun_upd_idem)
next
  case (Cons f fs)
  have "ps ! f \<notin> (!) ps ` G" using Cons.prems by (auto simp: nth_eq_iff_index_eq)
  then have mem: "ps ! f \<in> set (d p)" using Cons.prems by auto
  have "remove1 (ps ! f) (d p) = filter (\<lambda>x. x \<notin> (!) ps ` insert f G) ps"
    using Cons.prems(1) by (auto simp: Cons.prems(6) distinct_remove1_removeAll removeAll_filter_not_eq intro: filter_cong)
  with mem have "remove_children (map (\<lambda>f. ((p, f), ps ! f)) (f # fs) @ r) d =
      remove_children (map (\<lambda>f. ((p, f), ps ! f)) fs @ r) (d(p := filter (\<lambda>x. x \<notin> (!) ps ` insert f G) ps))"
    by simp
  also have "\<dots> = remove_children r (d(p := filter (\<lambda>x. x \<notin> (!) ps ` insert f G) ps,
      p := filter (\<lambda>x. x \<notin> (!) ps ` (insert f G \<union> set fs)) ps))"
    using Cons.prems by (intro Cons.IH) auto
  finally show ?case by (simp only: fun_upd_upd list.set Un_insert_left Un_insert_right)
qed

section \<open>What a queue of updates does to the DOM\<close>

text \<open>
  The updates change the children of the parents in \<open>P\<close> from \<open>old\<close> to \<open>new\<close>, and nothing else, when they
  are processed among others that concern other parents.
\<close>

definition realises :: "nat list \<Rightarrow> update list \<Rightarrow> nat set \<Rightarrow> (nat \<Rightarrow> nat list) \<Rightarrow> (nat \<Rightarrow> nat list) \<Rightarrow> bool" where
  "realises ms us P old new \<longleftrightarrow> (\<exists>upd mid. fst ` fst ` set upd \<subseteq> P \<and>
     (\<forall>d r. (\<forall>p \<in> P. d p = old p) \<longrightarrow> updated_children d (us @ r) = map_option (\<lambda>x. upd @ x) (updated_children d r)) \<and>
     (\<forall>d r. (\<forall>p \<in> P. d p = old p) \<longrightarrow> remove_children (upd @ r) d = remove_children r (\<lambda>p. if p \<in> P then mid p else d p)) \<and>
     (\<forall>I ms' d n r. prefix ms ms' \<longrightarrow> (\<forall>k \<in> fst ` set upd. map_of I k = map_of upd k) \<longrightarrow> (\<forall>p \<in> P. d p = mid p) \<longrightarrow>
        apply_updates I ms' (us @ r) d n = apply_updates I ms' r (\<lambda>p. if p \<in> P then new p else d p) n))"

lemma realises_Nil: "realises ms [] P old old"
  unfolding realises_def
proof (intro exI [of _ "[]"] exI [of _ old] conjI allI impI)
  fix d :: "nat \<Rightarrow> nat list" and r
  assume "\<forall>p \<in> P. d p = old p"
  then have "(\<lambda>p. if p \<in> P then old p else d p) = d" by auto
  then show "remove_children ([] @ r) d = remove_children r (\<lambda>p. if p \<in> P then old p else d p)" by simp
next
  fix I ms' n r and d :: "nat \<Rightarrow> nat list"
  assume "\<forall>p \<in> P. d p = old p"
  then have "(\<lambda>p. if p \<in> P then old p else d p) = d" by auto
  then show "apply_updates I ms' ([] @ r) d n = apply_updates I ms' r (\<lambda>p. if p \<in> P then old p else d p) n" by simp
next
  show "updated_children d ([] @ r) = map_option (\<lambda>x. [] @ x) (updated_children d r)" for d r
    by (cases "updated_children d r") simp_all
qed simp

lemma map_of_append_left: "k \<in> fst ` set xs \<Longrightarrow> map_of (xs @ ys) k = map_of xs k"
  by (induction xs) auto

lemma map_of_append_right: "k \<notin> fst ` set xs \<Longrightarrow> map_of (xs @ ys) k = map_of ys k"
  by (induction xs) auto

lemma realises_append:
  assumes "realises ms1 A P old new1" "realises ms2 B Q old new2" "P \<inter> Q = {}" "prefix ms1 ms2"
  shows "realises ms2 (A @ B) (P \<union> Q) old (\<lambda>p. if p \<in> P then new1 p else new2 p)"
proof -
  obtain ua ma where A: "fst ` fst ` set ua \<subseteq> P"
    "\<And>d r. \<forall>p \<in> P. d p = old p \<Longrightarrow> updated_children d (A @ r) = map_option (\<lambda>x. ua @ x) (updated_children d r)"
    "\<And>d r. \<forall>p \<in> P. d p = old p \<Longrightarrow> remove_children (ua @ r) d = remove_children r (\<lambda>p. if p \<in> P then ma p else d p)"
    "\<And>I ms' d n r. \<lbrakk>prefix ms1 ms'; \<forall>k \<in> fst ` set ua. map_of I k = map_of ua k; \<forall>p \<in> P. d p = ma p\<rbrakk> \<Longrightarrow>
        apply_updates I ms' (A @ r) d n = apply_updates I ms' r (\<lambda>p. if p \<in> P then new1 p else d p) n"
    using assms(1) unfolding realises_def by blast
  obtain ub mb where B: "fst ` fst ` set ub \<subseteq> Q"
    "\<And>d r. \<forall>p \<in> Q. d p = old p \<Longrightarrow> updated_children d (B @ r) = map_option (\<lambda>x. ub @ x) (updated_children d r)"
    "\<And>d r. \<forall>p \<in> Q. d p = old p \<Longrightarrow> remove_children (ub @ r) d = remove_children r (\<lambda>p. if p \<in> Q then mb p else d p)"
    "\<And>I ms' d n r. \<lbrakk>prefix ms2 ms'; \<forall>k \<in> fst ` set ub. map_of I k = map_of ub k; \<forall>p \<in> Q. d p = mb p\<rbrakk> \<Longrightarrow>
        apply_updates I ms' (B @ r) d n = apply_updates I ms' r (\<lambda>p. if p \<in> Q then new2 p else d p) n"
    using assms(2) unfolding realises_def by blast
  have disj: "p \<in> P \<Longrightarrow> p \<notin> Q" for p using assms(3) by blast
  let ?mid = "\<lambda>p. if p \<in> P then ma p else mb p"
  show ?thesis
    unfolding realises_def
  proof (intro exI [of _ "ua @ ub"] exI [of _ ?mid] conjI allI impI)
    show "fst ` fst ` set (ua @ ub) \<subseteq> P \<union> Q"
      unfolding set_append image_Un using A(1) B(1) by (rule Un_mono)
  next
    fix d :: "nat \<Rightarrow> nat list" and r
    assume d: "\<forall>p \<in> P \<union> Q. d p = old p"
    then show "updated_children d ((A @ B) @ r) = map_option (\<lambda>x. (ua @ ub) @ x) (updated_children d r)"
      using A(2) [of d "B @ r"] B(2) [of d r] by (simp add: option.map_comp comp_def)
  next
    fix d :: "nat \<Rightarrow> nat list" and r
    assume d: "\<forall>p \<in> P \<union> Q. d p = old p"
    let ?d = "\<lambda>p. if p \<in> P then ma p else d p"
    have "remove_children ((ua @ ub) @ r) d = remove_children (ub @ r) ?d" using A(3) d by simp
    also have "\<dots> = remove_children r (\<lambda>p. if p \<in> Q then mb p else ?d p)"
      using d disj by (intro B(3)) auto
    also have "(\<lambda>p. if p \<in> Q then mb p else ?d p) = (\<lambda>p. if p \<in> P \<union> Q then ?mid p else d p)"
      using disj by auto
    finally show "remove_children ((ua @ ub) @ r) d = remove_children r (\<lambda>p. if p \<in> P \<union> Q then ?mid p else d p)" .
  next
    fix I ms' n r and d :: "nat \<Rightarrow> nat list"
    assume ms: "prefix ms2 ms'" and I: "\<forall>k \<in> fst ` set (ua @ ub). map_of I k = map_of (ua @ ub) k"
      and d: "\<forall>p \<in> P \<union> Q. d p = ?mid p"
    have keys: "k \<notin> fst ` set ua" if "k \<in> fst ` set ub" for k
      using that A(1) B(1) disj by force
    have Ia: "\<forall>k \<in> fst ` set ua. map_of I k = map_of ua k"
      using I map_of_append_left [of _ ua ub] by (metis UnI1 image_Un set_append)
    have Ib: "\<forall>k \<in> fst ` set ub. map_of I k = map_of ub k"
      using I map_of_append_right [OF keys] by (metis UnI2 image_Un set_append)
    let ?d = "\<lambda>p. if p \<in> P then new1 p else d p"
    have "apply_updates I ms' ((A @ B) @ r) d n = apply_updates I ms' (B @ r) ?d n"
      using A(4) [OF prefix_order.trans [OF assms(4) ms] Ia] d by simp
    also have "\<dots> = apply_updates I ms' r (\<lambda>p. if p \<in> Q then new2 p else ?d p) n"
      using d disj by (intro B(4) [OF ms Ib]) auto
    also have "(\<lambda>p. if p \<in> Q then new2 p else ?d p) = (\<lambda>p. if p \<in> P \<union> Q then (if p \<in> P then new1 p else new2 p) else d p)"
      using disj by auto
    finally show "apply_updates I ms' ((A @ B) @ r) d n =
        apply_updates I ms' r (\<lambda>p. if p \<in> P \<union> Q then if p \<in> P then new1 p else new2 p else d p) n" .
  qed
qed

lemma realises_process:
  assumes "realises ms us P old new" and "\<forall>p \<in> P. d p = old p"
  shows "processUpdates us ms d n = Some (\<lambda>p. if p \<in> P then new p else d p, n)"
proof -
  obtain upd mid where R:
    "\<And>d r. \<forall>p \<in> P. d p = old p \<Longrightarrow> updated_children d (us @ r) = map_option (\<lambda>x. upd @ x) (updated_children d r)"
    "\<And>d r. \<forall>p \<in> P. d p = old p \<Longrightarrow> remove_children (upd @ r) d = remove_children r (\<lambda>p. if p \<in> P then mid p else d p)"
    "\<And>I ms' d n r. \<lbrakk>prefix ms ms'; \<forall>k \<in> fst ` set upd. map_of I k = map_of upd k; \<forall>p \<in> P. d p = mid p\<rbrakk> \<Longrightarrow>
        apply_updates I ms' (us @ r) d n = apply_updates I ms' r (\<lambda>p. if p \<in> P then new p else d p) n"
    using assms(1) unfolding realises_def by blast
  have u: "updated_children d us = Some upd" "remove_children upd d = Some (\<lambda>p. if p \<in> P then mid p else d p)"
    using R(1) [of d "[]"] R(2) [of d "[]"] assms(2) by simp_all
  have "apply_updates upd ms (us @ []) (\<lambda>p. if p \<in> P then mid p else d p) n =
      apply_updates upd ms [] (\<lambda>p. if p \<in> P then new p else if p \<in> P then mid p else d p) n"
    by (intro R(3)) auto
  moreover have "(\<lambda>p. if p \<in> P then new p else if p \<in> P then mid p else d p) = (\<lambda>p. if p \<in> P then new p else d p)" by auto
  ultimately show ?thesis using u by (simp add: processUpdates_def)
qed

lemma updated_place:
  assumes "set (touched_ix prev next li) \<subseteq> {..<length (d p)}"
  shows "updated_children d (place_updates p prev next ni li m @ us) =
    map_option (\<lambda>x. map (\<lambda>f. ((p, f), d p ! f)) (touched_ix prev next li) @ x) (updated_children d us)"
  using assms
proof (induction p prev "next" ni li m rule: place_updates.induct)
  case (1 p prev ni li m)
  then show ?case by (cases "updated_children d us") simp_all
next
  case (2 p prev name c rest ni li m)
  show ?case
  proof (cases "map_of prev name")
    case None
    with 2 show ?thesis by simp
  next
    case (Some pc)
    show ?thesis
    proof (cases "cid pc = cid c")
      case True
      with Some 2 show ?thesis by (cases "mount_index_number pc < li") (simp_all add: option.map_comp comp_def)
    next
      case False
      with Some 2 show ?thesis by (simp add: option.map_comp comp_def)
    qed
  qed
qed

lemma updated_missing:
  assumes "set (map mount_index_number cs) \<subseteq> {..<length (d p)}"
  shows "updated_children d (map (\<lambda>c. REMOVE_NODE p (mount_index_number c)) cs @ us) =
    map_option (\<lambda>x. map (\<lambda>f. ((p, f), d p ! f)) (map mount_index_number cs) @ x) (updated_children d us)"
  using assms
proof (induction cs)
  case Nil
  then show ?case by (cases "updated_children d us") simp_all
next
  case (Cons c cs)
  then show ?case by (cases "updated_children d us") (simp_all add: comp_def)
qed

lemma apply_missing: "apply_updates I ms (map (\<lambda>c. REMOVE_NODE p (mount_index_number c)) cs @ us) d n = apply_updates I ms us d n"
  by (induction cs) simp_all

text \<open>The updates of one parent turn its previous children into the next ones.\<close>

lemma parent_realises:
  assumes prev: "children_ok prev" and names: "distinct (map fst next)"
  shows "realises (mk @ place_markups prev next) (parent_updates p prev next (length mk)) {p}
    (\<lambda>_. cids prev) (\<lambda>_. cids next)"
proof -
  let ?ps = "cids prev" and ?F = "removed_ix prev next" and ?S = "stay_ix prev next 0"
  let ?upd = "map (\<lambda>f. ((p, f), ?ps ! f)) ?F" and ?M = "missing prev next"
  note F = removed_ix_props [OF prev names]
  have ps: "distinct ?ps" using prev by (simp add: children_ok_def)
  have touched: "set (touched_ix prev next 0) \<subseteq> {..<length prev}" "set (map mount_index_number ?M) \<subseteq> {..<length prev}"
    using F(2) by (auto simp: removed_ix_def)
  have index: "?ps ! mount_index_number c = cid c" if "map_of prev name = Some c" for name c
    using children_ok_lookup [OF prev that] by auto
  have stay: "filter (\<lambda>x. x \<notin> (!) ?ps ` set ?F) ?ps = map ((!) ?ps) ?S"
    using stay_ix_sorted [OF prev names, of 0] F(2,3) by (intro filter_stay [OF ps]) auto
  show ?thesis
    unfolding realises_def
  proof (intro exI [of _ ?upd] exI [of _ "\<lambda>_. map ((!) ?ps) ?S"] conjI allI impI)
    fix d :: "nat \<Rightarrow> nat list" and r
    assume d: "\<forall>q \<in> {p}. d q = ?ps"
    then have "length (d p) = length prev" by simp
    then show "updated_children d (parent_updates p prev next (length mk) @ r) =
        map_option (\<lambda>x. ?upd @ x) (updated_children d r)"
      using d touched by (simp add: parent_updates_def updated_place updated_missing removed_ix_def
          option.map_comp comp_def)
  next
    fix d :: "nat \<Rightarrow> nat list" and r
    assume d: "\<forall>q \<in> {p}. d q = ?ps"
    have "remove_children (?upd @ r) d = remove_children r (d(p := filter (\<lambda>x. x \<notin> (!) ?ps ` ({} \<union> set ?F)) ?ps))"
      using F(1,2) d by (intro remove_listed [OF ps]) auto
    also have "d(p := filter (\<lambda>x. x \<notin> (!) ?ps ` ({} \<union> set ?F)) ?ps) =
        (\<lambda>q. if q \<in> {p} then map ((!) ?ps) ?S else d q)"
      using stay by (simp add: fun_eq_iff)
    finally show "remove_children (?upd @ r) d = remove_children r (\<lambda>q. if q \<in> {p} then map ((!) ?ps) ?S else d q)" .
  next
    fix I ms' n r and d :: "nat \<Rightarrow> nat list"
    assume ms: "prefix (mk @ place_markups prev next) ms'"
      and I: "\<forall>k \<in> fst ` set ?upd. map_of I k = map_of ?upd k" and d: "\<forall>q \<in> {p}. d q = map ((!) ?ps) ?S"
    have touched_I: "map_of I (p, f) = Some (?ps ! f)" if "f \<in> set (touched_ix prev next 0)" for f
    proof -
      have "f \<in> set ?F" using that by (simp add: removed_ix_def)
      then have "((p, f), ?ps ! f) \<in> set ?upd" by simp
      moreover have "distinct (map fst ?upd)" using F(1) by (simp add: distinct_map inj_on_def comp_def)
      ultimately have "map_of ?upd (p, f) = Some (?ps ! f)" by (intro map_of_is_SomeI)
      moreover have "(p, f) \<in> fst ` set ?upd" using \<open>f \<in> set ?F\<close> by force
      ultimately show ?thesis using I by auto
    qed
    have "apply_updates I ms' (parent_updates p prev next (length mk) @ r) d n =
        apply_updates I ms' (map (\<lambda>c. REMOVE_NODE p (mount_index_number c)) ?M @ r) (d(p := [] @ cids next)) n"
      unfolding parent_updates_def append_assoc
      using d ms touched_I index by (intro place_apply [where markupQ = mk and ps = ?ps]) simp_all
    also have "\<dots> = apply_updates I ms' r (\<lambda>q. if q \<in> {p} then cids next else d q) n"
      unfolding apply_missing by (rule arg_cong [where f = "\<lambda>d. apply_updates I ms' r d n"]) auto
    finally show "apply_updates I ms' (parent_updates p prev next (length mk) @ r) d n =
        apply_updates I ms' r (\<lambda>q. if q \<in> {p} then cids next else d q) n" .
  qed auto
qed

section \<open>Trees of components\<close>

text \<open>All components of a tree; of the trees of a list of children.\<close>

fun ids :: "component \<Rightarrow> nat list" where
  "ids (Component i m e cs) = i # concat (map (\<lambda>nc. ids (snd nc)) cs)"

definition ids_of :: "(string \<times> component) list \<Rightarrow> nat list" where
  "ids_of cs = concat (map (\<lambda>nc. ids (snd nc)) cs)"

text \<open>The DOM below a component is the tree of its components, each child at its index.\<close>

fun consistent :: "(nat \<Rightarrow> nat list) \<Rightarrow> component \<Rightarrow> bool" where
  "consistent d (Component i m e cs) \<longleftrightarrow> d i = cids cs \<and> children_ok cs \<and>
     (el_children e = [] \<longrightarrow> cs = []) \<and> (\<forall>nc \<in> set cs. consistent d (snd nc))"

text \<open>A component stands for an element, and its children for the children of the element.\<close>

fun shows_element :: "component \<Rightarrow> element \<Rightarrow> bool"
  and shows_elements :: "(string \<times> component) list \<Rightarrow> (string \<times> element) list \<Rightarrow> bool" where
  "shows_element (Component i m e' cs) e \<longleftrightarrow> e' = e \<and> shows_elements cs (el_children e)"
| "shows_elements [] [] \<longleftrightarrow> True"
| "shows_elements ((n, c) # cs) ((n', e) # es) \<longleftrightarrow> n = n' \<and> shows_element c e \<and> shows_elements cs es"
| "shows_elements _ _ \<longleftrightarrow> False"

text \<open>The children of every element have distinct names.\<close>

fun element_ok :: "element \<Rightarrow> bool" where
  "element_ok (Element t k w cs) \<longleftrightarrow> distinct (map fst cs) \<and> (\<forall>ne \<in> set cs. element_ok (snd ne))"
| "element_ok _ \<longleftrightarrow> True"

lemma ids_of_simps [simp]: "ids_of [] = []" "ids_of (nc # cs) = ids (snd nc) @ ids_of cs"
  "ids_of (cs @ cs') = ids_of cs @ ids_of cs'"
  by (simp_all add: ids_of_def)

lemma ids_conv: "ids c = cid c # ids_of (rendered_children c)"
  by (cases c) (simp add: ids_of_def)

lemma cid_in_ids [simp]: "cid c \<in> set (ids c)"
  by (simp add: ids_conv)

lemma ids_set_mount_index [simp]: "ids (set_mount_index i c) = ids c"
  by (simp add: ids_conv)

lemma set_ids_of: "set (ids_of cs) = (\<Union>nc \<in> set cs. set (ids (snd nc)))"
  by (simp add: ids_of_def)

lemma consistent_cong: "(\<And>q. q \<in> set (ids c) \<Longrightarrow> d q = d' q) \<Longrightarrow> consistent d c = consistent d' c"
proof (induction d c rule: consistent.induct)
  case (1 d i m e cs)
  have "consistent d (snd nc) = consistent d' (snd nc)" if "nc \<in> set cs" for nc
    using "1.prems" that by (intro "1.IH") auto
  then show ?case using "1.prems" [of i] by auto
qed

lemma consistent_set_mount_index [simp]: "consistent d (set_mount_index i c) = consistent d c"
  by (cases c) (simp add: set_mount_index_def)

lemma shows_set_mount_index [simp]: "shows_element (set_mount_index i c) e = shows_element c e"
  by (cases c) (simp add: set_mount_index_def)

lemma shows_elements_names: "shows_elements cs es \<Longrightarrow> map fst cs = map fst es"
  by (induction cs es rule: shows_element_shows_elements.induct(2) [where P = "\<lambda>_ _. True"]) auto

section \<open>Mounting\<close>

text \<open>A step that leaves the queue alone and takes new numbers only.\<close>

definition quiet :: "react_dom \<Rightarrow> react_dom \<Rightarrow> bool" where
  "quiet s s' \<longleftrightarrow> updateQueue s' = updateQueue s \<and> markupQueue s' = markupQueue s \<and> updateDepth s' = updateDepth s \<and>
     unmounted s' = unmounted s \<and> threw s' = threw s \<and> next_id s \<le> next_id s'"

lemma quiet_refl [simp]: "quiet s s"
  by (simp add: quiet_def)

lemma quiet_trans: "quiet s s' \<Longrightarrow> quiet s' s'' \<Longrightarrow> quiet s s''"
  by (simp add: quiet_def)

lemma instantiateChildren_props:
  assumes "instantiateChildren es s = (cs, s')"
  shows "quiet s s'" "next_id s' = next_id s + length es" "child_nodes s' = child_nodes s" "map fst cs = map fst es"
    "cids cs = [next_id s..<next_id s + length es]"
proof -
  have "quiet s s' \<and> next_id s' = next_id s + length es \<and> child_nodes s' = child_nodes s \<and> map fst cs = map fst es \<and>
      cids cs = [next_id s..<next_id s + length es]"
    using assms
  proof (induction es s arbitrary: cs s' rule: instantiateChildren.induct)
    case (2 name e rest s)
    let ?s1 = "s\<lparr>next_id := next_id s + 1\<rparr>"
    obtain cs1 where cs1: "instantiateChildren rest ?s1 = (cs1, s')" "cs = (name, Component (next_id s) (Some 0) e []) # cs1"
      using "2.prems" by (auto simp: instantiate_def split: prod.splits)
    have "quiet ?s1 s' \<and> next_id s' = next_id ?s1 + length rest \<and> child_nodes s' = child_nodes ?s1 \<and>
        map fst cs1 = map fst rest \<and> cids cs1 = [next_id ?s1..<next_id ?s1 + length rest]"
      by (rule "2.IH" [OF _ refl cs1(1)]) (simp add: instantiate_def)
    moreover have "[next_id s..<next_id s + Suc k] = next_id s # [Suc (next_id s)..<Suc (next_id s) + k]" for k
      by (simp add: upt_conv_Cons)
    ultimately show ?case by (simp add: cs1(2) quiet_def)
  qed simp
  then show "quiet s s'" "next_id s' = next_id s + length es" "child_nodes s' = child_nodes s" "map fst cs = map fst es"
    "cids cs = [next_id s..<next_id s + length es]" by simp_all
qed

text \<open>What mounting a component and mounting a list of children guarantee.\<close>

definition mounted :: "component \<Rightarrow> element \<Rightarrow> react_dom \<Rightarrow> component \<Rightarrow> react_dom \<Rightarrow> bool" where
  "mounted c e s c' s' \<longleftrightarrow> quiet s s' \<and> cid c' = cid c \<and> mount_index c' = mount_index c \<and> shows_element c' e \<and>
     set (ids c') \<subseteq> insert (cid c) {next_id s..<next_id s'} \<and> distinct (ids c') \<and> consistent (child_nodes s') c' \<and>
     (\<forall>q. q \<notin> insert (cid c) {next_id s..<next_id s'} \<longrightarrow> child_nodes s' q = child_nodes s q)"

definition mounted_all ::
  "(string \<times> component) list \<Rightarrow> (string \<times> element) list \<Rightarrow> nat \<Rightarrow> react_dom \<Rightarrow> (string \<times> component) list \<Rightarrow> react_dom \<Rightarrow> bool" where
  "mounted_all cs es index s cs' s' \<longleftrightarrow> quiet s s' \<and> cids cs' = cids cs \<and>
     mount_indices cs' = map Some [index..<index + length cs] \<and> shows_elements cs' es \<and>
     set (ids_of cs') \<subseteq> set (cids cs) \<union> {next_id s..<next_id s'} \<and> distinct (ids_of cs') \<and>
     (\<forall>nc \<in> set cs'. consistent (child_nodes s') (snd nc)) \<and>
     (\<forall>q. q \<notin> set (cids cs) \<union> {next_id s..<next_id s'} \<longrightarrow> child_nodes s' q = child_nodes s q)"

lemma mount_correct:
  "element_ok e \<Longrightarrow> cid c < next_id s \<Longrightarrow> mountComponent c e s = (c', s') \<Longrightarrow> mounted c e s c' s'"
  "map fst cs = map fst es \<Longrightarrow> (\<forall>ne \<in> set es. element_ok (snd ne)) \<Longrightarrow> distinct (cids cs) \<Longrightarrow>
    (\<forall>nc \<in> set cs. cid (snd nc) < next_id s) \<Longrightarrow> mount_loop cs es index s = (cs', s') \<Longrightarrow> mounted_all cs es index s cs' s'"
proof (induction c e s and cs es index s arbitrary: c' s' and cs' s' rule: mountComponent_mount_loop.induct)
  case (1 i m e' r t k w es s)
  obtain children s1 where inst: "instantiateChildren es s = (children, s1)" by (cases "instantiateChildren es s")
  obtain ms s2 where loop: "mount_loop children es 0 s1 = (ms, s2)" by (cases "mount_loop children es 0 s1")
  note I = instantiateChildren_props [OF inst]
  have c': "c' = Component i m (Element t k w es) ms" "s' = s2\<lparr>child_nodes := (child_nodes s2)(i := cids ms)\<rparr>"
    using "1.prems"(3) inst loop by auto
  have i: "i < next_id s" using "1.prems"(2) by simp
  have fresh: "set (cids children) = {next_id s..<next_id s1}" using I(2,5) by simp
  have bound: "\<forall>nc \<in> set children. cid (snd nc) < next_id s1"
  proof
    fix nc assume "nc \<in> set children"
    then have "cid (snd nc) \<in> set (cids children)" by simp
    then show "cid (snd nc) < next_id s1" unfolding fresh by simp
  qed
  have dist: "distinct (cids children)" unfolding I(5) by simp
  have oks: "\<forall>ne \<in> set es. element_ok (snd ne)" using "1.prems"(1) by simp
  have M: "mounted_all children es 0 s1 ms s2"
    by (rule "1.IH" [OF inst [symmetric] refl I(4) oks dist bound loop])
  then have ids: "set (ids_of ms) \<subseteq> {next_id s..<next_id s2}"
    using fresh I(2) by (auto simp: mounted_all_def quiet_def)
  have names: "map fst ms = map fst es" using M shows_elements_names by (auto simp: mounted_all_def)
  then have len: "length ms = length children" using I(4) by (metis length_map)
  have "\<forall>nc \<in> set ms. consistent (child_nodes s') (snd nc)"
  proof
    fix nc assume nc: "nc \<in> set ms"
    then have "set (ids (snd nc)) \<subseteq> {next_id s..<next_id s2}" using ids by (auto simp: set_ids_of)
    then have "consistent (child_nodes s') (snd nc) = consistent (child_nodes s2) (snd nc)"
      using i by (intro consistent_cong) (auto simp: c'(2))
    then show "consistent (child_nodes s') (snd nc)" using M nc by (simp add: mounted_all_def)
  qed
  moreover have "children_ok ms"
    using names "1.prems"(1) M I(5) len by (simp add: children_ok_def mounted_all_def)
  moreover have "es = [] \<longrightarrow> ms = []" using names by auto
  ultimately have "consistent (child_nodes s') c'" by (simp add: c')
  moreover have "quiet s s'" using I(1) M by (auto simp: c'(2) quiet_def mounted_all_def)
  moreover have "shows_element c' (Element t k w es)" using M by (simp add: c'(1) mounted_all_def)
  moreover have "distinct (ids c')" using M ids i by (auto simp: c'(1) mounted_all_def ids_of_def)
  moreover have "set (ids c') \<subseteq> insert i {next_id s..<next_id s'}"
    using ids by (auto simp: c' ids_of_def)
  moreover have "child_nodes s' q = child_nodes s q" if "q \<notin> insert i {next_id s..<next_id s'}" for q
    using that M fresh I(2,3) by (auto simp: c'(2) mounted_all_def quiet_def)
  ultimately show ?case by (simp add: mounted_def c'(1))
next
  case (3 name c cs name' e es index s)
  obtain c1 s1 where first: "mountComponent c e s = (c1, s1)" by (cases "mountComponent c e s")
  obtain cs2 s2 where rest: "mount_loop cs es (index + 1) s1 = (cs2, s2)" by (cases "mount_loop cs es (index + 1) s1")
  have out: "cs' = (name, set_mount_index (Some index) c1) # cs2" "s' = s2" using "3.prems"(5) first rest by auto
  have F: "mounted c e s c1 s1" using "3.prems" first by (intro "3.IH"(1)) auto
  then have le1: "next_id s \<le> next_id s1" by (simp add: mounted_def quiet_def)
  have below: "\<forall>nc \<in> set cs. cid (snd nc) < next_id s" using "3.prems"(4) by simp
  have R: "mounted_all cs es (index + 1) s1 cs2 s2"
  proof (rule "3.IH"(2) [OF first [symmetric] refl _ _ _ _ rest])
    show "\<forall>nc \<in> set cs. cid (snd nc) < next_id s1" using below le1 by fastforce
  qed (use "3.prems"(1,2,3) in simp_all)
  then have le2: "next_id s1 \<le> next_id s2" by (simp add: mounted_all_def quiet_def)
  let ?C = "set (cids cs)"
  have c: "cid c < next_id s" "cid c \<notin> ?C" using "3.prems"(3,4) by auto
  have C: "q < next_id s" if "q \<in> ?C" for q using that below by auto
  have ids1: "set (ids c1) \<subseteq> insert (cid c) {next_id s..<next_id s1}"
    and ids2: "set (ids_of cs2) \<subseteq> ?C \<union> {next_id s1..<next_id s2}"
    using F R by (simp_all only: mounted_def mounted_all_def)
  have disjoint: "set (ids c1) \<inter> (?C \<union> {next_id s1..<next_id s2}) = {}"
  proof -
    have "q \<notin> ?C \<union> {next_id s1..<next_id s2}" if "q \<in> insert (cid c) {next_id s..<next_id s1}" for q
      using that c C [of q] le1 by (cases "q = cid c") (auto simp del: cids_simps)
    then show ?thesis using ids1 by blast
  qed
  have "child_nodes s2 q = child_nodes s1 q" if "q \<in> set (ids c1)" for q
    using R disjoint that unfolding mounted_all_def by blast
  then have cons: "consistent (child_nodes s2) c1" "\<forall>nc \<in> set cs2. consistent (child_nodes s2) (snd nc)"
    using F R consistent_cong [of c1 "child_nodes s2" "child_nodes s1"] unfolding mounted_def mounted_all_def by blast+
  have dist: "distinct (ids c1 @ ids_of cs2)"
    using F R ids2 disjoint unfolding mounted_def mounted_all_def distinct_append by blast
  have sub: "set (ids c1 @ ids_of cs2) \<subseteq> insert (cid c) ?C \<union> {next_id s..<next_id s2}"
  proof -
    have "{next_id s..<next_id s1} \<union> {next_id s1..<next_id s2} = {next_id s..<next_id s2}"
      using le1 le2 by (rule ivl_disj_un_two(3))
    then show ?thesis using ids1 ids2 unfolding set_append by blast
  qed
  have frame: "child_nodes s2 q = child_nodes s q" if "q \<notin> insert (cid c) ?C \<union> {next_id s..<next_id s2}" for q
  proof -
    have "q \<notin> insert (cid c) {next_id s..<next_id s1}" "q \<notin> ?C \<union> {next_id s1..<next_id s2}"
      using that le1 le2 by auto
    then show ?thesis using F R unfolding mounted_def mounted_all_def by metis
  qed
  have "[index..<index + length (c # map snd cs)] = index # [index + 1..<index + 1 + length cs]"
    by (simp add: upt_conv_Cons del: upt_Suc)
  then have ix: "mount_indices cs' = map Some [index..<index + length ((name, c) # cs)]"
    using R by (simp add: out mounted_all_def del: upt_Suc)
  have "shows_elements cs' ((name', e) # es)" "cids cs' = cids ((name, c) # cs)" "quiet s s'"
    using F R quiet_trans [of s s1 s2] "3.prems"(1) by (simp_all add: mounted_def mounted_all_def out)
  then show ?case
    unfolding mounted_all_def using ix dist sub frame cons by (simp add: out)
qed (auto simp: mounted_def mounted_all_def quiet_def children_ok_def)

lemma mount_cid: "cid (fst (mountComponent c e s)) = cid c"
  by (cases c; cases e) (simp_all add: case_prod_unfold Let_def)

section \<open>Placing the next children\<close>

text \<open>What became of one child: it stays, with its new index, or it has been mounted.\<close>

definition placed_child :: "nat \<Rightarrow> bool \<Rightarrow> nat \<Rightarrow> react_dom \<Rightarrow> component \<Rightarrow> component \<Rightarrow> bool" where
  "placed_child lo stays i s' c c' \<longleftrightarrow>
     (if stays then c' = set_mount_index (Some i) c
      else cid c' = cid c \<and> mount_index c' = Some i \<and> shows_element c' (current_element c) \<and> consistent (child_nodes s') c' \<and>
        set (ids c') \<subseteq> insert (cid c) {lo..<next_id s'})"

text \<open>Fields that placing does not change; numbers that may have been taken; nodes that have not changed.\<close>

definition placing :: "nat set \<Rightarrow> react_dom \<Rightarrow> react_dom \<Rightarrow> bool" where
  "placing F s s' \<longleftrightarrow> updateDepth s' = updateDepth s \<and> unmounted s' = unmounted s \<and> threw s' = threw s \<and>
     next_id s \<le> next_id s' \<and>
     (\<forall>q. q \<notin> F \<union> {next_id s..<next_id s'} \<longrightarrow> child_nodes s' q = child_nodes s q)"

lemma placing_trans:
  assumes "placing F s s'" "placing G s' s''"
  shows "placing (F \<union> G) s s''"
proof -
  have le: "next_id s \<le> next_id s'" "next_id s' \<le> next_id s''" using assms by (auto simp: placing_def)
  have "child_nodes s'' q = child_nodes s q" if "q \<notin> (F \<union> G) \<union> {next_id s..<next_id s''}" for q
  proof -
    have "q \<notin> F \<union> {next_id s..<next_id s'}" "q \<notin> G \<union> {next_id s'..<next_id s''}" using that le by auto
    then show ?thesis using assms unfolding placing_def by metis
  qed
  then show ?thesis using assms unfolding placing_def by auto
qed

lemma mountChild_correct:
  assumes "element_ok (current_element c)" "cid c < next_id s" "mountChildByNameAtIndex p c i s = (c', s')"
  shows "placing {cid c} s s' \<and> placed_child (next_id s) False i s' c c' \<and> distinct (ids c') \<and>
    set (ids c') \<subseteq> insert (cid c) {next_id s..<next_id s'} \<and>
    updateQueue s' = updateQueue s @ [INSERT_MARKUP p (length (markupQueue s)) i] \<and>
    markupQueue s' = markupQueue s @ [cid c]"
proof -
  obtain c1 s1 where m: "mountComponent c (current_element c) s = (c1, s1)" by (cases "mountComponent c (current_element c) s")
  have M: "mounted c (current_element c) s c1 s1" by (rule mount_correct(1) [OF assms(1,2) m])
  have "c' = set_mount_index (Some i) c1" "s' = enqueueMarkup p (cid c1) i s1"
    using assms(3) m by (simp_all add: mountChildByNameAtIndex_def)
  then show ?thesis
    using M by (auto simp: mounted_def quiet_def placing_def placed_child_def enqueueMarkup_def)
qed

lemma place_step:
  assumes "kept prev (name, c) \<or> cid c < next_id s \<and> element_ok (current_element c)" and "distinct (ids c)"
  obtains c1 s1 li1 U where
    "place_children p prev ((name, c) # rest) ni li s =
       (let (cs, s2) = place_children p prev rest (ni + 1) li1 s1 in ((name, c1) # cs, s2))"
    "place_updates p prev ((name, c) # rest) ni li (length (markupQueue s)) =
       U @ place_updates p prev rest (ni + 1) li1 (length (markupQueue s1))"
    "updateQueue s1 = updateQueue s @ U" "markupQueue s1 = markupQueue s @ (if kept prev (name, c) then [] else [cid c])"
    "placing (if kept prev (name, c) then {} else {cid c}) s s1" "placed_child (next_id s) (kept prev (name, c)) ni s1 c c1"
    "distinct (ids c1)" "set (ids c1) \<subseteq> set (ids c) \<union> {next_id s..<next_id s1}"
proof (cases "map_of prev name")
  case None
  obtain c1 s1 where m: "mountChildByNameAtIndex p c ni s = (c1, s1)" by (cases "mountChildByNameAtIndex p c ni s")
  have "\<not> kept prev (name, c)" using None by simp
  then have M: "placing {cid c} s s1 \<and> placed_child (next_id s) False ni s1 c c1 \<and> distinct (ids c1) \<and>
      set (ids c1) \<subseteq> insert (cid c) {next_id s..<next_id s1} \<and>
      updateQueue s1 = updateQueue s @ [INSERT_MARKUP p (length (markupQueue s)) ni] \<and>
      markupQueue s1 = markupQueue s @ [cid c]"
    using mountChild_correct [OF _ _ m] assms(1) by blast
  show ?thesis
    using M None by (intro that [of li s1 c1 "[INSERT_MARKUP p (length (markupQueue s)) ni]"]) (auto simp: m)
next
  case (Some pc)
  let ?li = "max (mount_index_number pc) li"
  show ?thesis
  proof (cases "cid pc = cid c")
    case True
    let ?s1 = "moveChild p pc ni li s"
    let ?U = "if mount_index_number pc < li then [MOVE_EXISTING p (mount_index_number pc) ni] else []"
    have k: "kept prev (name, c)" using Some True by simp
    have s1: "updateQueue ?s1 = updateQueue s @ ?U" "markupQueue ?s1 = markupQueue s" "placing {} s ?s1" "next_id ?s1 = next_id s"
      by (simp_all add: moveChild_def enqueueMove_def placing_def)
    show ?thesis
      using Some True s1 k assms(2)
      by (intro that [of ?li ?s1 "set_mount_index (Some ni) c" ?U]) (auto simp: Let_def placed_child_def)
  next
    case False
    let ?r = "removeChild p pc s"
    obtain c1 s1 where m: "mountChildByNameAtIndex p c ni ?r = (c1, s1)" by (cases "mountChildByNameAtIndex p c ni ?r")
    have r: "updateQueue ?r = updateQueue s @ [REMOVE_NODE p (mount_index_number pc)]" "markupQueue ?r = markupQueue s"
      "next_id ?r = next_id s" "placing {} s ?r"
      by (simp_all add: removeChild_def enqueueRemove_def placing_def)
    have k: "\<not> kept prev (name, c)" using Some False by simp
    then have "cid c < next_id ?r" "element_ok (current_element c)" using assms(1) r by auto
    then have M: "placing {cid c} ?r s1 \<and> placed_child (next_id ?r) False ni s1 c c1 \<and> distinct (ids c1) \<and>
        set (ids c1) \<subseteq> insert (cid c) {next_id ?r..<next_id s1} \<and>
        updateQueue s1 = updateQueue ?r @ [INSERT_MARKUP p (length (markupQueue ?r)) ni] \<and>
        markupQueue s1 = markupQueue ?r @ [cid c]"
      using mountChild_correct [OF _ _ m] by blast
    have "placing {cid c} s s1" using placing_trans [OF r(4), of "{cid c}" s1] M by simp
    with M r Some False k m show ?thesis
      by (intro that [of ?li s1 c1 "[REMOVE_NODE p (mount_index_number pc), INSERT_MARKUP p (length (markupQueue s)) ni]"])
        (auto simp: Let_def)
  qed
qed

definition placed ::
  "nat \<Rightarrow> (string \<times> component) list \<Rightarrow> (string \<times> component) list \<Rightarrow> nat \<Rightarrow> nat \<Rightarrow> react_dom
   \<Rightarrow> (string \<times> component) list \<Rightarrow> react_dom \<Rightarrow> bool" where
  "placed p prev next ni li s cs s' \<longleftrightarrow>
     updateQueue s' = updateQueue s @ place_updates p prev next ni li (length (markupQueue s)) \<and>
     markupQueue s' = markupQueue s @ place_markups prev next \<and>
     placing (set (place_markups prev next)) s s' \<and>
     cids cs = cids next \<and> mount_indices cs = map Some [ni..<ni + length next] \<and>
     distinct (ids_of cs) \<and> set (ids_of cs) \<subseteq> set (ids_of next) \<union> {next_id s..<next_id s'} \<and>
     list_all2 (\<lambda>nc nc'. fst nc = fst nc' \<and> (\<exists>i. placed_child (next_id s) (kept prev nc) i s' (snd nc) (snd nc'))) next cs"

lemma cids_in_ids_of: "set (cids cs) \<subseteq> set (ids_of cs)"
  by (induction cs) auto

lemma place_markups_ids: "set (place_markups prev next) \<subseteq> set (ids_of next)"
  by (induction "next") auto

lemma placed_child_later:
  assumes "placed_child lo k i s c c'" and "k \<or> (\<forall>q \<in> set (ids c'). child_nodes s' q = child_nodes s q)"
    and "next_id s \<le> next_id s'" "lo' \<le> lo"
  shows "placed_child lo' k i s' c c'"
  using assms consistent_cong [of c' "child_nodes s'" "child_nodes s"]
  by (fastforce simp: placed_child_def split: if_splits)

lemma place_children_correct:
  assumes "place_children p prev next ni li s = (cs, s')"
    and "\<forall>nc \<in> set next. kept prev nc \<or> cid (snd nc) < next_id s \<and> element_ok (current_element (snd nc))"
    and "distinct (ids_of next)" "set (ids_of next) \<subseteq> {..<next_id s}"
  shows "placed p prev next ni li s cs s'"
  using assms
proof (induction "next" arbitrary: ni li s cs s')
  case Nil
  then show ?case by (simp add: placed_def placing_def)
next
  case (Cons nc rest)
  obtain name c where nc: "nc = (name, c)" by (cases nc)
  let ?F = "if kept prev (name, c) then {} else {cid c}"
  have h: "kept prev (name, c) \<or> cid c < next_id s \<and> element_ok (current_element c)" "distinct (ids c)"
    using Cons.prems(2,3) by (auto simp: nc)
  obtain c1 s1 li1 U where step:
    "place_children p prev ((name, c) # rest) ni li s =
       (let (cs, s2) = place_children p prev rest (ni + 1) li1 s1 in ((name, c1) # cs, s2))"
    "place_updates p prev ((name, c) # rest) ni li (length (markupQueue s)) =
       U @ place_updates p prev rest (ni + 1) li1 (length (markupQueue s1))"
    "updateQueue s1 = updateQueue s @ U" "markupQueue s1 = markupQueue s @ (if kept prev (name, c) then [] else [cid c])"
    "placing ?F s s1" "placed_child (next_id s) (kept prev (name, c)) ni s1 c c1"
    "distinct (ids c1)" "set (ids c1) \<subseteq> set (ids c) \<union> {next_id s..<next_id s1}"
    by (rule place_step [OF h])
  obtain cs2 s2 where rest: "place_children p prev rest (ni + 1) li1 s1 = (cs2, s2)"
    by (cases "place_children p prev rest (ni + 1) li1 s1")
  have out: "cs = (name, c1) # cs2" "s' = s2" using Cons.prems(1) step(1) rest by (simp_all add: nc)
  have le1: "next_id s \<le> next_id s1" using step(5) by (simp add: placing_def)
  have old: "set (ids c) \<subseteq> {..<next_id s}" "set (ids_of rest) \<subseteq> {..<next_id s}" "set (ids c) \<inter> set (ids_of rest) = {}"
    using Cons.prems(3,4) by (auto simp: nc)
  have R: "placed p prev rest (ni + 1) li1 s1 cs2 s2"
  proof (rule Cons.IH [OF rest])
    show "\<forall>nc \<in> set rest. kept prev nc \<or> cid (snd nc) < next_id s1 \<and> element_ok (current_element (snd nc))"
      using Cons.prems(2) le1 by fastforce
  qed (use Cons.prems(3) old(2) le1 in \<open>auto simp: nc\<close>)
  then have le2: "next_id s1 \<le> next_id s2" and P2: "placing (set (place_markups prev rest)) s1 s2"
    by (auto simp: placed_def placing_def)
  have ids1: "q \<in> set (ids c) \<or> q \<in> {next_id s..<next_id s1}" if "q \<in> set (ids c1)" for q
    using step(8) that by blast
  have ids2: "set (ids_of cs2) \<subseteq> set (ids_of rest) \<union> {next_id s1..<next_id s2}" using R by (simp add: placed_def)
  have far: "q \<notin> set (ids_of rest) \<union> {next_id s1..<next_id s2}" if "q \<in> set (ids c1)" for q
    using ids1 [OF that]
  proof
    assume "q \<in> set (ids c)"
    then show ?thesis using old le1 by (auto dest: subsetD)
  next
    assume "q \<in> {next_id s..<next_id s1}"
    then show ?thesis using old(2) by (auto dest: subsetD)
  qed
  then have "\<forall>q \<in> set (ids c1). child_nodes s2 q = child_nodes s1 q"
    using P2 place_markups_ids [of prev rest] unfolding placing_def by blast
  then have c1: "placed_child (next_id s) (kept prev (name, c)) ni s2 c c1"
    using placed_child_later [OF step(6)] le2 by blast
  have rel: "list_all2 (\<lambda>nc nc'. fst nc = fst nc' \<and> (\<exists>i. placed_child (next_id s) (kept prev nc) i s2 (snd nc) (snd nc'))) rest cs2"
    using R placed_child_later [of "next_id s1" _ _ s2 _ _ s2 "next_id s"] le1
    unfolding placed_def by (elim conjE list_all2_mono) blast
  have c1': "kept prev (name, c) \<longrightarrow> (\<exists>i. placed_child (next_id s) True i s2 c c1)"
    "\<not> kept prev (name, c) \<longrightarrow> (\<exists>i. placed_child (next_id s) False i s2 c c1)"
    using c1 by (cases "kept prev (name, c)", auto simp del: kept.simps)+
  have "placing (?F \<union> set (place_markups prev rest)) s s2" by (rule placing_trans [OF step(5) P2])
  moreover have "?F \<union> set (place_markups prev rest) = set (place_markups prev ((name, c) # rest))"
    by (simp del: kept.simps)
  moreover have "distinct (ids_of cs)"
  proof -
    have "set (ids c1) \<inter> set (ids_of cs2) = {}" using ids2 far by blast
    then show ?thesis using step(7) R by (simp add: out placed_def)
  qed
  moreover have "set (ids_of cs) \<subseteq> set (ids_of ((name, c) # rest)) \<union> {next_id s..<next_id s2}"
    using ids1 ids2 le1 le2 by (fastforce simp: out)
  moreover have "[ni..<ni + length ((name, c) # rest)] = ni # [ni + 1..<ni + 1 + length rest]"
    by (simp add: upt_conv_Cons del: upt_Suc)
  moreover have "mount_index c1 = Some ni" "cid c1 = cid c" using step(6) by (auto simp: placed_child_def split: if_splits)
  ultimately show ?case
    unfolding placed_def nc out using R rel c1' step(2,3,4)
    by (simp add: placed_def del: upt_Suc kept.simps)
qed

section \<open>Updating a tree\<close>

lemma realises_cong:
  assumes "realises ms us P old new" "\<And>q. q \<in> P \<Longrightarrow> old q = old' q" "\<And>q. q \<in> P \<Longrightarrow> new q = new' q" "prefix ms ms'"
  shows "realises ms' us P old' new'"
proof -
  have o: "(\<forall>p \<in> P. d p = old p) = (\<forall>p \<in> P. d p = old' p)" for d :: "nat \<Rightarrow> nat list" using assms(2) by auto
  have n: "(\<lambda>p. if p \<in> P then new p else d p) = (\<lambda>p. if p \<in> P then new' p else d p)" for d using assms(3) by auto
  have m: "prefix ms ms''" if "prefix ms' ms''" for ms'' using assms(4) that by (rule prefix_order.trans)
  have "realises ms us P old' new'" using assms(1) unfolding realises_def o n .
  then obtain upd mid where R: "fst ` fst ` set upd \<subseteq> P"
    "\<forall>d r. (\<forall>p \<in> P. d p = old' p) \<longrightarrow> updated_children d (us @ r) = map_option (\<lambda>x. upd @ x) (updated_children d r)"
    "\<forall>d r. (\<forall>p \<in> P. d p = old' p) \<longrightarrow> remove_children (upd @ r) d = remove_children r (\<lambda>p. if p \<in> P then mid p else d p)"
    "\<And>I ms' d n r. prefix ms ms' \<Longrightarrow> \<forall>k \<in> fst ` set upd. map_of I k = map_of upd k \<Longrightarrow> \<forall>p \<in> P. d p = mid p \<Longrightarrow>
        apply_updates I ms' (us @ r) d n = apply_updates I ms' r (\<lambda>p. if p \<in> P then new' p else d p) n"
    unfolding realises_def by blast
  show ?thesis
    unfolding realises_def using R(1-3) R(4) [OF m] by (intro exI [of _ upd] exI [of _ mid] conjI) simp_all
qed

text \<open>
  A step in the middle of an update: it extends the queue so that the nodes in \<open>P\<close> will get the children
  \<open>new\<close>, unmounts the components \<open>L\<close>, and leaves the DOM below the number \<open>N\<close> as it is.
\<close>

definition upd_step :: "nat \<Rightarrow> nat set \<Rightarrow> nat list \<Rightarrow> (nat \<Rightarrow> nat list) \<Rightarrow> react_dom \<Rightarrow> react_dom \<Rightarrow> bool" where
  "upd_step N P L new s s' \<longleftrightarrow>
     updateDepth s' = updateDepth s \<and> threw s' = threw s \<and> next_id s \<le> next_id s' \<and> unmounted s' = unmounted s @ L \<and>
     prefix (markupQueue s) (markupQueue s') \<and> (\<forall>q < N. child_nodes s' q = child_nodes s q) \<and>
     (\<exists>U. updateQueue s' = updateQueue s @ U \<and> realises (markupQueue s') U P (child_nodes s) new)"

lemma upd_step_quiet:
  assumes "quiet s s'" "\<And>q. q < N \<Longrightarrow> child_nodes s' q = child_nodes s q"
  shows "upd_step N P [] (child_nodes s) s s'"
  using assms realises_Nil [of "markupQueue s'" P "child_nodes s"] by (auto simp: upd_step_def quiet_def)

lemma upd_step_unmount: "upd_step N P (unmount_order c) (child_nodes s) s (unmountComponent c s)"
  using realises_Nil [of "markupQueue s" P "child_nodes s"] by (auto simp: upd_step_def unmountComponent_def)

lemma upd_step_trans:
  assumes "upd_step N P L new s s1" "upd_step N Q L' new' s1 s2" "P \<inter> Q = {}" "Q \<subseteq> {..<N}"
  shows "upd_step N (P \<union> Q) (L @ L') (\<lambda>q. if q \<in> P then new q else new' q) s s2"
proof -
  obtain U where U: "updateQueue s1 = updateQueue s @ U" "realises (markupQueue s1) U P (child_nodes s) new"
    using assms(1) by (auto simp: upd_step_def)
  obtain U' where U': "updateQueue s2 = updateQueue s1 @ U'" "realises (markupQueue s2) U' Q (child_nodes s1) new'"
    using assms(2) by (auto simp: upd_step_def)
  have "child_nodes s1 q = child_nodes s q" if "q \<in> Q" for q
    using assms(1,4) that by (auto simp: upd_step_def)
  then have "realises (markupQueue s2) U' Q (child_nodes s) new'"
    by (intro realises_cong [OF U'(2)]) simp_all
  then have "realises (markupQueue s2) (U @ U') (P \<union> Q) (child_nodes s) (\<lambda>q. if q \<in> P then new q else new' q)"
    using assms(2) by (intro realises_append [OF U(2) _ assms(3)]) (simp_all add: upd_step_def)
  then show ?thesis
    using assms(1,2) U(1) U'(1) unfolding upd_step_def by (auto intro: prefix_order.trans)
qed

lemma upd_step_weaken: "upd_step N P L new s s' \<Longrightarrow> N' \<le> N \<Longrightarrow> upd_step N' P L new s s'"
  by (auto simp: upd_step_def)

lemma upd_step_cong: "upd_step N P L new s s' \<Longrightarrow> (\<And>q. q \<in> P \<Longrightarrow> new q = new' q) \<Longrightarrow> upd_step N P L new' s s'"
  unfolding upd_step_def using realises_cong [of _ _ P "child_nodes s" new "child_nodes s" new'] by blast

lemma mset_unmount_order: "mset (unmount_order c) = mset (ids c)"
proof (induction c rule: unmount_order.induct)
  case (1 i m e cs)
  have "mset (concat (map (\<lambda>(name, c). unmount_order c) xs)) = mset (concat (map (\<lambda>nc. ids (snd nc)) xs))"
    if "set xs \<subseteq> set cs" for xs using that
  proof (induction xs)
    case (Cons nc xs)
    then show ?case using "1" [of nc "fst nc" "snd nc"] by (cases nc) simp
  qed simp
  then show ?case by simp
qed

lemma unmount_order_props: "set (unmount_order c) = set (ids c)" "distinct (unmount_order c) = distinct (ids c)"
  using mset_unmount_order [of c] mset_eq_setD mset_eq_imp_distinct_iff by blast+

lemma upd_step_unmount_all:
  "upd_step N P (concat (map unmount_order cs)) (child_nodes s) s (fold unmountComponent cs s)"
proof (induction cs arbitrary: s)
  case Nil
  then show ?case using realises_Nil [of "markupQueue s" P "child_nodes s"] by (auto simp: upd_step_def)
next
  case (Cons c cs)
  have "child_nodes (unmountComponent c s) = child_nodes s" by (simp add: unmountComponent_def)
  then show ?case
    using Cons.IH [of "unmountComponent c s"] by (auto simp: upd_step_def unmountComponent_def)
qed

text \<open>What updating one component guarantees: it stays the same component, and now stands for the element.\<close>

definition will_be :: "nat set \<Rightarrow> (nat \<Rightarrow> nat list) \<Rightarrow> react_dom \<Rightarrow> nat \<Rightarrow> nat list" where
  "will_be P new s = (\<lambda>q. if q \<in> P then new q else child_nodes s q)"

definition received :: "component \<Rightarrow> element \<Rightarrow> react_dom \<Rightarrow> component \<Rightarrow> react_dom \<Rightarrow> bool" where
  "received c e s c' s' \<longleftrightarrow> cid c' = cid c \<and> mount_index c' = mount_index c \<and> shows_element c' e \<and>
     distinct (ids c') \<and> set (ids c') \<subseteq> set (ids c) \<union> {next_id s..<next_id s'} \<and>
     (\<exists>new L. upd_step (next_id s) (set (ids c)) L new s s' \<and> consistent (will_be (set (ids c)) new s') c' \<and>
        distinct L \<and> set L = set (ids c) - set (ids c'))"

definition fresh :: "nat \<Rightarrow> element \<Rightarrow> component \<Rightarrow> bool" where
  "fresh lo e c \<longleftrightarrow> (\<exists>k \<ge> lo. c = Component k (Some 0) e [])"

definition reuses :: "(string \<times> component) list \<Rightarrow> string \<Rightarrow> element \<Rightarrow> component \<Rightarrow> bool" where
  "reuses prev name e pc \<longleftrightarrow> map_of prev name = Some pc \<and> shouldUpdateReactComponent (Some (current_element pc)) (Some e)"

text \<open>The child for an element: the updated previous one, or a new one.\<close>

definition reconciled_child :: "(string \<times> component) list \<Rightarrow> nat \<Rightarrow> (nat \<Rightarrow> nat list) \<Rightarrow> string \<Rightarrow> element \<Rightarrow> component \<Rightarrow> bool" where
  "reconciled_child prev lo d name e c \<longleftrightarrow>
     (\<exists>pc. reuses prev name e pc \<and> cid c = cid pc \<and> mount_index c = mount_index pc \<and> shows_element c e \<and> consistent d c) \<or>
     (\<nexists>pc. reuses prev name e pc) \<and> fresh lo e c"

definition named_ids :: "(string \<times> component) list \<Rightarrow> string set \<Rightarrow> nat set" where
  "named_ids prev names = set (ids_of (filter (\<lambda>nc. fst nc \<in> names) prev))"

definition reconciled ::
  "(string \<times> component) list \<Rightarrow> (string \<times> element) list \<Rightarrow> react_dom \<Rightarrow> (string \<times> component) list \<Rightarrow> react_dom \<Rightarrow> bool" where
  "reconciled prev es s cs s' \<longleftrightarrow> map fst cs = map fst es \<and> distinct (ids_of cs) \<and>
     set (ids_of cs) \<subseteq> named_ids prev (fst ` set es) \<union> {next_id s..<next_id s'} \<and>
     (\<exists>new L. upd_step (next_id s) (named_ids prev (fst ` set es)) L new s s' \<and> distinct L \<and>
        set L = named_ids prev (fst ` set es) - set (ids_of cs) \<and>
        list_all2 (\<lambda>ne nc. reconciled_child prev (next_id s) (will_be (named_ids prev (fst ` set es)) new s')
          (fst ne) (snd ne) (snd nc)) es cs)"

lemma named_ids_subset: "named_ids prev names \<subseteq> set (ids_of prev)"
  by (auto simp: named_ids_def set_ids_of)

lemma distinct_ids_of_nth:
  assumes "distinct (ids_of cs)" "i < length cs" "j < length cs" "q \<in> set (ids (snd (cs ! i)))" "q \<in> set (ids (snd (cs ! j)))"
  shows "i = j"
  using assms
proof (induction cs arbitrary: i j)
  case (Cons nc cs)
  have "q \<in> set (ids_of cs)" if "k < length cs" "q \<in> set (ids (snd (cs ! k)))" for k
    using that by (auto simp: set_ids_of)
  with Cons show ?case by (cases i; cases j) auto
qed simp

lemma distinct_ids_child:
  assumes "distinct (ids_of cs)" "nc \<in> set cs"
  shows "distinct (ids (snd nc))"
  using assms by (induction cs) auto

text \<open>The numbers under different names are different.\<close>

lemma named_ids_disjoint:
  assumes "distinct (ids_of prev)" "A \<inter> B = {}"
  shows "named_ids prev A \<inter> named_ids prev B = {}"
proof (rule ccontr)
  assume "named_ids prev A \<inter> named_ids prev B \<noteq> {}"
  then obtain q x y where q: "x \<in> set prev" "fst x \<in> A" "q \<in> set (ids (snd x))" "y \<in> set prev" "fst y \<in> B" "q \<in> set (ids (snd y))"
    by (auto simp: named_ids_def set_ids_of)
  obtain i where i: "i < length prev" "x = prev ! i" using q(1) by (auto simp: in_set_conv_nth)
  obtain j where j: "j < length prev" "y = prev ! j" using q(4) by (auto simp: in_set_conv_nth)
  have "i = j" using distinct_ids_of_nth [OF assms(1) i(1) j(1), of q] q i j by simp
  then show False using q i j assms(2) by blast
qed

lemma named_ids_Un: "named_ids prev (A \<union> B) = named_ids prev A \<union> named_ids prev B"
  by (auto simp: named_ids_def set_ids_of)

lemma named_ids_single:
  assumes "distinct (map fst prev)" "map_of prev name = Some pc"
  shows "named_ids prev {name} = set (ids pc)"
proof -
  have "filter (\<lambda>nc. fst nc \<in> {name}) prev = [(name, pc)]"
    using assms
  proof (induction prev)
    case (Cons nc prev)
    show ?case
    proof (cases "fst nc = name")
      case True
      then have "filter (\<lambda>nc. fst nc \<in> {name}) prev = []" using Cons.prems(1)
        by (auto simp: filter_empty_conv image_iff)
      with True Cons.prems(2) show ?thesis by (cases nc) simp
    next
      case False
      with Cons show ?thesis by (cases nc) simp
    qed
  qed simp
  then show ?thesis by (simp add: named_ids_def)
qed

lemma named_ids_none: "map_of prev name = None \<Longrightarrow> named_ids prev {name} = {}"
  by (auto simp: named_ids_def set_ids_of map_of_eq_None_iff image_iff)

lemma will_be_later:
  assumes "upd_step N Q L new' s s'" "consistent (will_be P new s) c" "set (ids c) \<subseteq> P \<union> {..<N}"
    "set (ids c) \<inter> Q = {}" "set (ids c) \<inter> P \<subseteq> P'" "\<And>q. q \<in> P \<Longrightarrow> new'' q = new q" "P' \<subseteq> P \<union> Q"
  shows "consistent (will_be P' new'' s') c"
proof -
  have "will_be P' new'' s' q = will_be P new s q" if "q \<in> set (ids c)" for q
    using assms(1,3-7) that by (auto simp: will_be_def upd_step_def)
  then show ?thesis using assms(2) consistent_cong by blast
qed

lemma consistent_children:
  assumes "consistent d c" "nc \<in> set (rendered_children c)"
  shows "consistent d (snd nc)"
  using assms by (cases c) simp

lemma reconciled_child_cong:
  assumes "reconciled_child prev lo d name e c" "lo' \<le> lo" "\<And>q. q \<in> set (ids c) \<Longrightarrow> d q = d' q"
  shows "reconciled_child prev lo' d' name e c"
proof -
  have "consistent d c = consistent d' c" by (rule consistent_cong [OF assms(3)])
  moreover have "fresh lo e c \<Longrightarrow> fresh lo' e c" using assms(2) by (auto simp: fresh_def)
  ultimately show ?thesis using assms(1) unfolding reconciled_child_def by blast
qed

definition reconciled1 :: "(string \<times> component) list \<Rightarrow> string \<Rightarrow> element \<Rightarrow> react_dom \<Rightarrow> component \<Rightarrow> react_dom \<Rightarrow> bool" where
  "reconciled1 prev name e s c s' \<longleftrightarrow> distinct (ids c) \<and>
     set (ids c) \<subseteq> named_ids prev {name} \<union> {next_id s..<next_id s'} \<and>
     (\<exists>new L. upd_step (next_id s) (named_ids prev {name}) L new s s' \<and> distinct L \<and>
        set L = named_ids prev {name} - set (ids c) \<and>
        reconciled_child prev (next_id s) (will_be (named_ids prev {name}) new s') name e c)"

lemma quiet_instantiate: "quiet s (snd (instantiate e s))"
  by (simp add: quiet_def instantiate_def)

lemma reconciled1_new:
  assumes "map_of prev name = None"
  shows "reconciled1 prev name e s (fst (instantiate e s)) (snd (instantiate e s))"
proof -
  have "upd_step (next_id s) {} [] (child_nodes s) s (snd (instantiate e s))"
    by (rule upd_step_quiet [OF quiet_instantiate]) (simp add: instantiate_def)
  moreover have "reconciled_child prev (next_id s) d name e (fst (instantiate e s))" for d
    using assms by (auto simp: reconciled_child_def reuses_def fresh_def instantiate_def)
  ultimately show ?thesis
    unfolding reconciled1_def named_ids_none [OF assms] by (auto simp: instantiate_def)
qed

lemma reconciled1_replace:
  assumes "map_of prev name = Some pc" "distinct (map fst prev)" "distinct (ids_of prev)" "set (ids_of prev) \<subseteq> {..<next_id s}"
    and "\<not> shouldUpdateReactComponent (Some (current_element pc)) (Some e)"
  shows "reconciled1 prev name e s (fst (instantiate e (unmountComponent pc s))) (snd (instantiate e (unmountComponent pc s)))"
proof -
  let ?s1 = "unmountComponent pc s"
  note P = named_ids_single [OF assms(2,1)]
  have mem: "(name, pc) \<in> set prev" using assms(1) by (rule map_of_SomeD)
  then have below: "set (ids pc) \<subseteq> {..<next_id s}" using assms(4) by (force simp: set_ids_of)
  have "upd_step (next_id s) {} [] (child_nodes ?s1) ?s1 (snd (instantiate e ?s1))"
    by (rule upd_step_quiet [OF quiet_instantiate]) (simp add: instantiate_def)
  from upd_step_trans [OF upd_step_unmount this]
  have "upd_step (next_id s) (set (ids pc)) (unmount_order pc) (\<lambda>q. if q \<in> set (ids pc) then child_nodes s q else child_nodes ?s1 q) s
      (snd (instantiate e ?s1))" by simp
  moreover have "reconciled_child prev (next_id s) d name e (fst (instantiate e ?s1))" for d
    using assms(1,5) by (auto simp: reconciled_child_def reuses_def fresh_def instantiate_def unmountComponent_def)
  moreover have "distinct (unmount_order pc)" using distinct_ids_child [OF assms(3) mem] by (simp add: unmount_order_props)
  moreover have "set (unmount_order pc) = set (ids pc) - set (ids (fst (instantiate e ?s1)))"
    using below by (auto simp: unmount_order_props instantiate_def unmountComponent_def)
  ultimately show ?thesis
    unfolding reconciled1_def P by (auto simp: instantiate_def unmountComponent_def)
qed

lemma reconciled1_keep:
  assumes "map_of prev name = Some pc" "distinct (map fst prev)"
    and "shouldUpdateReactComponent (Some (current_element pc)) (Some e)" "received pc e s c s'"
  shows "reconciled1 prev name e s c s'"
proof -
  note P = named_ids_single [OF assms(2,1)]
  have "reconciled_child prev lo d name e c" if "consistent d c" for lo d
    using assms that by (auto simp: reconciled_child_def reuses_def received_def)
  then show ?thesis using assms(4) unfolding reconciled1_def received_def P by blast
qed

lemma reconciled_Nil: "reconciled prev [] s [] s"
  using realises_Nil [of "markupQueue s" "{}" "child_nodes s"]
  by (auto simp: reconciled_def named_ids_def upd_step_def)

lemma reconciled_Cons:
  assumes "reconciled1 prev name e s c s1" "reconciled prev rest s1 cs s2" "name \<notin> fst ` set rest"
    and "distinct (ids_of prev)" "set (ids_of prev) \<subseteq> {..<next_id s}"
  shows "reconciled prev ((name, e) # rest) s ((name, c) # cs) s2"
proof -
  let ?A = "named_ids prev {name}" and ?B = "named_ids prev (fst ` set rest)"
  obtain new1 L1 where 1: "upd_step (next_id s) ?A L1 new1 s s1" "distinct L1" "set L1 = ?A - set (ids c)"
    "reconciled_child prev (next_id s) (will_be ?A new1 s1) name e c"
    using assms(1) unfolding reconciled1_def by blast
  obtain new2 L2 where 2: "upd_step (next_id s1) ?B L2 new2 s1 s2" "distinct L2" "set L2 = ?B - set (ids_of cs)"
    "list_all2 (\<lambda>ne nc. reconciled_child prev (next_id s1) (will_be ?B new2 s2) (fst ne) (snd ne) (snd nc)) rest cs"
    using assms(2) unfolding reconciled_def by blast
  let ?new = "\<lambda>q. if q \<in> ?A then new1 q else new2 q"
  have le: "next_id s \<le> next_id s1" "next_id s1 \<le> next_id s2" using 1(1) 2(1) by (auto simp: upd_step_def)
  have disj: "?A \<inter> ?B = {}" using assms(3) by (intro named_ids_disjoint [OF assms(4)]) auto
  have below: "?A \<subseteq> {..<next_id s}" "?B \<subseteq> {..<next_id s}" using assms(5) named_ids_subset by blast+
  have all: "named_ids prev (fst ` set ((name, e) # rest)) = ?A \<union> ?B"
    using named_ids_Un [of prev "{name}" "fst ` set rest"] by simp
  have c: "set (ids c) \<subseteq> ?A \<union> {next_id s..<next_id s1}" "distinct (ids c)" using assms(1) by (auto simp: reconciled1_def)
  have cs: "set (ids_of cs) \<subseteq> ?B \<union> {next_id s1..<next_id s2}" "distinct (ids_of cs)" using assms(2) by (auto simp: reconciled_def)
  have cB: "q \<notin> ?B \<and> q < next_id s1" if "q \<in> set (ids c)" for q using that c(1) below disj le by fastforce
  have csA: "q \<notin> ?A" if "q \<in> set (ids_of cs)" for q using that cs(1) below disj le by fastforce
  have step: "upd_step (next_id s) (?A \<union> ?B) (L1 @ L2) ?new s s2"
    by (rule upd_step_trans [OF 1(1) upd_step_weaken [OF 2(1) le(1)] disj below(2)])
  have head: "reconciled_child prev (next_id s) (will_be (?A \<union> ?B) ?new s2) name e c"
    using 2(1) cB by (intro reconciled_child_cong [OF 1(4)]) (auto simp: will_be_def upd_step_def)
  have tail: "list_all2 (\<lambda>ne nc. reconciled_child prev (next_id s) (will_be (?A \<union> ?B) ?new s2) (fst ne) (snd ne) (snd nc)) rest cs"
  proof (rule list.rel_mono_strong [OF 2(4)])
    fix ne nc assume nc: "nc \<in> set cs"
      and r: "reconciled_child prev (next_id s1) (will_be ?B new2 s2) (fst ne) (snd ne) (snd nc)"
    have "q \<in> set (ids_of cs)" if "q \<in> set (ids (snd nc))" for q using that nc by (auto simp: set_ids_of)
    then show "reconciled_child prev (next_id s) (will_be (?A \<union> ?B) ?new s2) (fst ne) (snd ne) (snd nc)"
      using csA le(1) by (intro reconciled_child_cong [OF r]) (auto simp: will_be_def)
  qed
  have L: "distinct (L1 @ L2)" "set (L1 @ L2) = (?A \<union> ?B) - set (ids_of ((name, c) # cs))"
    using 1(2,3) 2(2,3) disj cB csA by auto
  have ids: "distinct (ids_of ((name, c) # cs))" "set (ids_of ((name, c) # cs)) \<subseteq> (?A \<union> ?B) \<union> {next_id s..<next_id s2}"
  proof -
    have "set (ids c) \<inter> set (ids_of cs) = {}" using cB csA c(1) cs(1) by fastforce
    then show "distinct (ids_of ((name, c) # cs))" using c(2) cs(2) by simp
    show "set (ids_of ((name, c) # cs)) \<subseteq> (?A \<union> ?B) \<union> {next_id s..<next_id s2}" using c(1) cs(1) le by fastforce
  qed
  have names: "map fst ((name, c) # cs) = map fst ((name, e) # rest)" using assms(2) by (simp add: reconciled_def)
  show ?thesis unfolding reconciled_def all using names ids step L head tail by (intro conjI exI) auto
qed

lemma shows_elements_conv:
  "shows_elements cs es = list_all2 (\<lambda>nc ne. fst nc = fst ne \<and> shows_element (snd nc) (snd ne)) cs es"
proof (induction cs arbitrary: es)
  case Nil
  then show ?case by (cases es) simp_all
next
  case step: (Cons nc cs)
  obtain n c where nc: "nc = (n, c)" by (cases nc)
  show ?case
  proof (cases es)
    case (Cons ne es')
    obtain n' e where "ne = (n', e)" by (cases ne)
    with Cons nc step.IH [of es'] show ?thesis by simp
  qed (simp add: nc)
qed

lemma cid_in_ids_of: "nc \<in> set cs \<Longrightarrow> cid (snd nc) \<in> set (ids_of cs)"
  unfolding set_ids_of by (erule UN_I) simp

lemma distinct_cids: "distinct (ids_of cs) \<Longrightarrow> distinct (cids cs)"
proof (induction cs)
  case (Cons nc cs)
  have "cid (snd nc) \<notin> set (ids_of cs)" using Cons.prems cid_in_ids [of "snd nc"] by (auto simp del: cid_in_ids)
  then have "cid (snd nc) \<notin> set (cids cs)" using cids_in_ids_of by blast
  with Cons show ?case by (simp del: cids_simps(5))
qed simp

lemma set_filter_ids: "set (ids_of (filter P cs)) \<subseteq> set (ids_of cs)"
  by (auto simp: set_ids_of)

lemma distinct_filter_ids: "distinct (ids_of cs) \<Longrightarrow> distinct (ids_of (filter P cs))"
  using set_filter_ids [of P] by (induction cs) auto

lemma missing_order:
  "mset (concat (map unmount_order (missing prev cs))) = mset (ids_of (filter (\<lambda>nc. fst nc \<notin> fst ` set cs) prev))"
proof -
  have "mset (concat (map unmount_order (map snd ncs))) = mset (ids_of ncs)" for ncs
    by (induction ncs) (simp_all add: mset_unmount_order)
  then show ?thesis by (simp add: missing_def case_prod_unfold)
qed

lemma missing_names: "map fst cs = map fst es \<Longrightarrow> missing prev cs = missing prev es"
  by (metis list.set_map missing_def)

lemma fold_removeChild:
  "fold (removeChild p) cs s = s\<lparr>updateQueue := updateQueue s @ map (\<lambda>c. REMOVE_NODE p (mount_index_number c)) cs\<rparr>"
  by (induction cs arbitrary: s) (simp_all add: removeChild_def enqueueRemove_def)

text \<open>A child is moved or left in place if it has been reused, otherwise it is new.\<close>

lemma reconciled_child_kept:
  assumes "reconciled_child prev lo d name e c" "set (ids_of prev) \<subseteq> {..<lo}"
  shows "kept prev (name, c) \<and> shows_element c e \<and> consistent d c \<or> \<not> kept prev (name, c) \<and> fresh lo e c"
proof (cases "\<exists>pc. reuses prev name e pc")
  case True
  then show ?thesis using assms(1) by (auto simp: reconciled_child_def reuses_def)
next
  case False
  then have f: "fresh lo e c" using assms(1) by (simp add: reconciled_child_def)
  have "\<not> kept prev (name, c)"
  proof
    assume "kept prev (name, c)"
    then obtain pc where "(name, pc) \<in> set prev" "cid pc = cid c" by (auto dest: map_of_SomeD)
    then have "cid c \<in> set (ids_of prev)" using cid_in_ids_of [of "(name, pc)" prev] by simp
    then show False using f assms(2) by (auto simp: fresh_def)
  qed
  with f show ?thesis by simp
qed

lemma element_places:
  assumes rec: "list_all2 (\<lambda>ne nc. reconciled_child prev N d (fst ne) (snd ne) (snd nc)) cs nxt" "map fst nxt = map fst cs"
    and prev: "set (ids_of prev) \<subseteq> {..<N}" and ids: "distinct (ids_of nxt)" "set (ids_of nxt) \<subseteq> {..<next_id s}"
    and ok: "\<forall>ne \<in> set cs. element_ok (snd ne)" and le: "N \<le> next_id s"
    and place: "place_children p prev nxt 0 0 s = (children, s')"
  shows "placed p prev nxt 0 0 s children s'" and "set (place_markups prev nxt) \<subseteq> {N..}"
    and "list_all2 (\<lambda>ne nc. fst ne = fst nc \<and>
      (kept prev nc \<and> shows_element (snd nc) (snd ne) \<and> consistent d (snd nc) \<or>
       \<not> kept prev nc \<and> fresh N (snd ne) (snd nc))) cs nxt"
proof -
  have "list_all2 (\<lambda>ne nc. fst ne = fst nc) cs nxt"
    using assms(2) by (simp add: list_all2_conv_all_nth) (metis length_map nth_map)
  with rec(1) show rel: "list_all2 (\<lambda>ne nc. fst ne = fst nc \<and>
      (kept prev nc \<and> shows_element (snd nc) (snd ne) \<and> consistent d (snd nc) \<or>
       \<not> kept prev nc \<and> fresh N (snd ne) (snd nc))) cs nxt"
  proof (induction cs nxt rule: list_all2_induct)
    case (Cons ne cs nc nxt)
    then show ?case using reconciled_child_kept [OF _ prev, of d "fst ne" "snd ne" "snd nc"] by simp
  qed simp
  have each: "kept prev nc \<or> N \<le> cid (snd nc) \<and> element_ok (current_element (snd nc))" if nc: "nc \<in> set nxt" for nc
  proof -
    obtain j where j: "j < length nxt" "nxt ! j = nc" using nc by (metis in_set_conv_nth)
    then have "j < length cs" "cs ! j \<in> set cs" using list_all2_lengthD [OF rel] by simp_all
    then show ?thesis using list_all2_nthD2 [OF rel j(1)] j(2) ok by (auto simp: fresh_def)
  qed
  show "placed p prev nxt 0 0 s children s'"
  proof (rule place_children_correct [OF place _ ids], rule ballI)
    fix nc assume nc: "nc \<in> set nxt"
    then have "cid (snd nc) \<in> set (ids_of nxt)" by (rule cid_in_ids_of)
    then show "kept prev nc \<or> cid (snd nc) < next_id s \<and> element_ok (current_element (snd nc))"
      using each [OF nc] ids(2) by auto
  qed
  show "set (place_markups prev nxt) \<subseteq> {N..}" using each by (auto simp: place_markups_def)
qed

text \<open>The end of \<open>receiveComponent\<close> for an element, in one parent: the queue is extended by its own updates.\<close>

lemma parent_step:
  assumes "placed p prev nxt 0 0 s children sa" and "set (place_markups prev nxt) \<subseteq> {N..}" "N \<le> next_id s"
    and "child_nodes s p = cids prev" "children_ok prev" "distinct (map fst nxt)"
    and "s' = fold (removeChild p) (missing prev nxt) sa"
  shows "upd_step N {p} [] (\<lambda>_. cids nxt) s s'"
proof -
  have "realises (markupQueue s') (parent_updates p prev nxt (length (markupQueue s))) {p} (\<lambda>_. cids prev) (\<lambda>_. cids nxt)"
    using parent_realises [OF assms(5,6), of "markupQueue s" p] assms(1) by (simp add: assms(7) fold_removeChild placed_def)
  then have "realises (markupQueue s') (parent_updates p prev nxt (length (markupQueue s))) {p} (child_nodes s) (\<lambda>_. cids nxt)"
    by (rule realises_cong) (simp_all add: assms(4))
  moreover have "updateQueue s' = updateQueue s @ parent_updates p prev nxt (length (markupQueue s))"
    using assms(1) by (simp add: assms(7) fold_removeChild placed_def parent_updates_def)
  moreover have "child_nodes s' q = child_nodes s q" if "q < N" for q
  proof -
    have "q \<notin> set (place_markups prev nxt) \<union> {next_id s..<next_id sa}" using that assms(2,3) by auto
    then show ?thesis using assms(1) by (simp add: assms(7) fold_removeChild placed_def placing_def)
  qed
  ultimately show ?thesis
    using assms(1) unfolding upd_step_def by (auto simp: assms(7) fold_removeChild placed_def placing_def)
qed

text \<open>
  One child after its parent has been updated. \<open>D\<close> are the children that the nodes will have, \<open>V\<close> the previous components
  under the names of the element.
\<close>

lemma final_child:
  assumes "placed_child lo (kept prev nc) i s' (snd nc) c'" and "child_nodes sa = child_nodes s'" "next_id sa = next_id s'"
    and "kept prev nc \<and> shows_element (snd nc) e \<and> consistent (will_be V new s1) (snd nc) \<or>
      \<not> kept prev nc \<and> fresh N e (snd nc)"
    and "set (ids (snd nc)) \<subseteq> V \<union> {N..<lo}" "N \<le> lo"
    and "\<And>q. N \<le> q \<Longrightarrow> D q = child_nodes sa q" "\<And>q. q \<in> V \<Longrightarrow> D q = new q" "V \<subseteq> {..<N}"
    and "kept prev nc \<Longrightarrow> (\<And>q. q \<in> set (ids (snd nc)) \<Longrightarrow> N \<le> q \<Longrightarrow> child_nodes s' q = child_nodes s1 q)"
  shows "shows_element c' e \<and> consistent D c' \<and>
    {q \<in> set (ids c'). q < N} = {q \<in> set (ids (snd nc)). q < N}"
proof (cases "kept prev nc")
  case True
  have c': "c' = set_mount_index (Some i) (snd nc)" using assms(1) True by (simp add: placed_child_def)
  have "D q = will_be V new s1 q" if "q \<in> set (ids (snd nc))" for q
  proof (cases "q \<in> V")
    case False
    then have "N \<le> q" using that assms(5) by auto
    then show ?thesis using assms(7,10) that True False by (simp add: will_be_def assms(2))
  qed (simp add: will_be_def assms(8))
  then have "consistent D (snd nc) = consistent (will_be V new s1) (snd nc)" by (rule consistent_cong)
  with True assms(4) show ?thesis by (simp add: c')
next
  case False
  then obtain k where k: "snd nc = Component k (Some 0) e []" "N \<le> k" using assms(4) by (auto simp: fresh_def)
  then have P: "cid c' = k" "shows_element c' e" "consistent (child_nodes s') c'" "set (ids c') \<subseteq> insert k {lo..<next_id s'}"
    using assms(1) False by (simp_all add: placed_child_def)
  then have "N \<le> q" if "q \<in> set (ids c')" for q using that k(2) assms(6) by auto
  then have far: "N \<le> q" "\<not> q < N" if "q \<in> set (ids c')" for q using that by (auto simp: not_less)
  then have "consistent D c' = consistent (child_nodes s') c'"
    using assms(7) by (intro consistent_cong) (simp add: assms(2))
  moreover have "{q \<in> set (ids c'). q < N} = {}" using far by blast
  ultimately show ?thesis using P k by auto
qed

lemma fold_unmount_fields:
  "child_nodes (fold unmountComponent cs s) = child_nodes s" "next_id (fold unmountComponent cs s) = next_id s"
  by (induction cs arbitrary: s) (simp_all add: unmountComponent_def)

lemma set_missing: "set (concat (map unmount_order (missing prev cs))) = named_ids prev (- fst ` set cs)"
  using mset_eq_setD [OF missing_order [of prev cs]] by (simp add: named_ids_def)

lemma distinct_missing: "distinct (ids_of prev) \<Longrightarrow> distinct (concat (map unmount_order (missing prev cs)))"
  using mset_eq_imp_distinct_iff [OF missing_order [of prev cs]] distinct_filter_ids by blast

lemma named_ids_all: "named_ids prev A \<union> named_ids prev (- A) = set (ids_of prev)"
  by (auto simp: named_ids_def set_ids_of)

text \<open>The children of an element after it has been updated.\<close>

lemma final_children:
  assumes P: "placed p prev nxt 0 0 s children sa"
    and rel: "list_all2 (\<lambda>ne nc. fst ne = fst nc \<and>
      (kept prev nc \<and> shows_element (snd nc) (snd ne) \<and> consistent (will_be V new s1) (snd nc) \<or>
       \<not> kept prev nc \<and> fresh N (snd ne) (snd nc))) cs nxt"
    and ids: "distinct (ids_of nxt)" "set (ids_of nxt) \<subseteq> V \<union> {N..<next_id s}" "N \<le> next_id s" "V \<subseteq> {..<N}"
    and same: "child_nodes s = child_nodes s1" "child_nodes s2 = child_nodes sa" "next_id s2 = next_id sa"
    and D: "\<And>q. N \<le> q \<Longrightarrow> D q = child_nodes s2 q" "\<And>q. q \<in> V \<Longrightarrow> D q = new q"
  shows "shows_elements children cs" "\<forall>nc \<in> set children. consistent D (snd nc)"
    "{q \<in> set (ids_of children). q < N} = {q \<in> set (ids_of nxt). q < N}"
proof -
  have len: "length nxt = length cs" using list_all2_lengthD [OF rel] by simp
  have pl: "list_all2 (\<lambda>nc nc'. fst nc = fst nc' \<and> (\<exists>i. placed_child (next_id s) (kept prev nc) i sa (snd nc) (snd nc'))) nxt children"
    using P by (simp add: placed_def)
  then have len': "length children = length nxt" by (simp add: list_all2_lengthD)
  have each: "fst (children ! j) = fst (cs ! j) \<and> shows_element (snd (children ! j)) (snd (cs ! j)) \<and>
      consistent D (snd (children ! j)) \<and>
      {q \<in> set (ids (snd (children ! j))). q < N} = {q \<in> set (ids (snd (nxt ! j))). q < N}"
    if j: "j < length cs" for j
  proof -
    let ?nc = "nxt ! j"
    have mem: "?nc \<in> set nxt" "j < length nxt" using j len by simp_all
    obtain i where i: "fst ?nc = fst (children ! j)" "placed_child (next_id s) (kept prev ?nc) i sa (snd ?nc) (snd (children ! j))"
      using list_all2_nthD [OF pl mem(2)] by blast
    have r: "fst (cs ! j) = fst ?nc" "kept prev ?nc \<and> shows_element (snd ?nc) (snd (cs ! j)) \<and> consistent (will_be V new s1) (snd ?nc) \<or>
       \<not> kept prev ?nc \<and> fresh N (snd (cs ! j)) (snd ?nc)"
      using list_all2_nthD [OF rel j] by blast+
    have sub: "set (ids (snd ?nc)) \<subseteq> set (ids_of nxt)" using mem(1) by (auto simp: set_ids_of)
    have stable: "child_nodes sa q = child_nodes s1 q" if k: "kept prev ?nc" and q: "q \<in> set (ids (snd ?nc))" "N \<le> q" for q
    proof -
      have "q \<notin> set (place_markups prev nxt)"
      proof
        assume "q \<in> set (place_markups prev nxt)"
        then obtain z where z: "z \<in> set nxt" "\<not> kept prev z" "q = cid (snd z)"
          by (auto simp: place_markups_def simp del: kept.simps)
        obtain l where l: "l < length nxt" "nxt ! l = z" using z(1) by (metis in_set_conv_nth)
        have "l = j" using distinct_ids_of_nth [OF ids(1) l(1) mem(2), of q] q(1) l z(3) by simp
        then show False using k l(2) z(2) by simp
      qed
      moreover have "q \<notin> {next_id s..<next_id sa}" using q(1) sub ids(2,3,4) by fastforce
      ultimately show ?thesis using P by (simp add: placed_def placing_def same(1))
    qed
    have "shows_element (snd (children ! j)) (snd (cs ! j)) \<and> consistent D (snd (children ! j)) \<and>
        {q \<in> set (ids (snd (children ! j))). q < N} = {q \<in> set (ids (snd ?nc)). q < N}"
      using stable sub ids(2,4) D same
      by (intro final_child [OF i(2), where sa = s2, OF _ _ r(2) _ ids(3)]) (simp_all | blast)+
    then show ?thesis using i(1) r(1) by simp
  qed
  show "shows_elements children cs"
    unfolding shows_elements_conv list_all2_conv_all_nth using each len len' by simp
  show "\<forall>nc \<in> set children. consistent D (snd nc)"
    using each len len' by (metis in_set_conv_nth)
  have "(\<Union>nc \<in> set children. {q \<in> set (ids (snd nc)). q < N}) = (\<Union>nc \<in> set nxt. {q \<in> set (ids (snd nc)). q < N})"
    using each len len' unfolding set_conv_nth by (simp add: setcompr_eq_image image_Collect [symmetric])
  then show "{q \<in> set (ids_of children). q < N} = {q \<in> set (ids_of nxt). q < N}"
    unfolding set_ids_of by blast
qed

lemma element_received:
  assumes c: "consistent (child_nodes s) (Component i m e0 prev)" "distinct (ids (Component i m e0 prev))"
      "set (ids (Component i m e0 prev)) \<subseteq> {..<next_id s}"
    and ok: "element_ok (Element t k w cs)" and rec: "reconciled prev cs s nxt s1"
    and out: "update_children_queue i prev nxt (fold unmountComponent (missing prev cs) s1) = (children, s2)"
  shows "received (Component i m e0 prev) (Element t k w cs) s (Component i m (Element t k w cs) children) s2"
proof -
  let ?N = "next_id s" and ?V = "named_ids prev (fst ` set cs)" and ?M = "named_ids prev (- fst ` set cs)"
  let ?s1 = "fold unmountComponent (missing prev cs) s1"
  obtain new L where R: "upd_step ?N ?V L new s s1" "distinct L" "set L = ?V - set (ids_of nxt)"
    "list_all2 (\<lambda>ne nc. reconciled_child prev ?N (will_be ?V new s1) (fst ne) (snd ne) (snd nc)) cs nxt"
    using rec unfolding reconciled_def by blast
  have names: "map fst nxt = map fst cs" and nids: "distinct (ids_of nxt)" "set (ids_of nxt) \<subseteq> ?V \<union> {?N..<next_id s1}"
    using rec by (simp_all add: reconciled_def)
  have prev: "children_ok prev" "child_nodes s i = cids prev" "distinct (ids_of prev)" "set (ids_of prev) \<subseteq> {..<?N}"
    "i \<notin> set (ids_of prev)" "i < ?N" "distinct (map fst cs)"
    using c ok by (auto simp: ids_of_def)
  have le: "?N \<le> next_id s1" using R(1) by (simp add: upd_step_def)
  have VM: "?V \<inter> ?M = {}" by (rule named_ids_disjoint [OF prev(3)]) simp
  have sub: "?V \<subseteq> {..<?N}" "?M \<subseteq> {..<?N}" "i \<notin> ?V" "i \<notin> ?M" using prev named_ids_subset by blast+
  have P0: "set (ids (Component i m e0 prev)) = (?V \<union> ?M) \<union> {i}" by (simp add: named_ids_all ids_of_def [symmetric])
  obtain sa where sa: "place_children i prev nxt 0 0 ?s1 = (children, sa)" "s2 = fold (removeChild i) (missing prev nxt) sa"
    using out by (auto simp: update_children_queue_def split: prod.splits)
  have s1: "child_nodes ?s1 = child_nodes s1" "next_id ?s1 = next_id s1" by (simp_all add: fold_unmount_fields)
  have s2: "child_nodes s2 = child_nodes sa" "next_id s2 = next_id sa" by (simp_all add: sa(2) fold_removeChild)
  have nlow: "set (ids_of nxt) \<subseteq> {..<next_id ?s1}" using nids(2) sub(1) le by (fastforce simp: s1)
  have oks: "\<forall>ne \<in> set cs. element_ok (snd ne)" using ok by simp
  note E = element_places [OF R(4) names prev(4) nids(1) nlow oks _ sa(1)]
  have pl: "placed i prev nxt 0 0 ?s1 children sa" by (rule E(1)) (simp add: le s1)
  have marks: "set (place_markups prev nxt) \<subseteq> {?N..}" by (rule E(2)) (simp add: le s1)
  define ml where "ml = concat (map unmount_order (missing prev cs))"
  have ml: "set ml = ?M" "distinct ml" by (simp_all only: ml_def set_missing distinct_missing [OF prev(3)])
  have unmount: "upd_step ?N ?M ml (child_nodes s1) s1 ?s1"
    unfolding ml_def by (rule upd_step_unmount_all)
  have old: "child_nodes ?s1 i = cids prev" using R(1) prev(2,6) by (simp add: s1 upd_step_def)
  have own: "upd_step ?N {i} [] (\<lambda>_. cids nxt) ?s1 s2"
    using prev(1,7) le by (intro parent_step [OF pl marks _ old _ _ sa(2)]) (simp_all add: s1 names)
  let ?new = "\<lambda>q. if q \<in> ?V \<union> ?M then (if q \<in> ?V then new q else child_nodes s1 q) else cids nxt"
  let ?L = "(L @ ml) @ []"
  let ?D = "will_be ((?V \<union> ?M) \<union> {i}) ?new s2"
  have step: "upd_step ?N ((?V \<union> ?M) \<union> {i}) ?L ?new s s2"
    using sub prev(6) by (intro upd_step_trans [OF upd_step_trans [OF R(1) unmount VM sub(2)] own]) auto
  have D: "?D q = child_nodes s2 q" if "?N \<le> q" for q
    using that sub prev(6) by (auto simp: will_be_def)
  note F = final_children [OF pl E(3) nids(1) _ _ sub(1) s1(1) s2 D]
  have sh: "shows_elements children cs" and cons: "\<forall>nc \<in> set children. consistent ?D (snd nc)"
    and low: "{q \<in> set (ids_of children). q < ?N} = {q \<in> set (ids_of nxt). q < ?N}"
    using F nids(2) le by (simp_all add: will_be_def s1)
  have cids: "cids children = cids nxt" and cids': "distinct (ids_of children)" "mount_indices children = map Some [0..<length nxt]"
    "set (ids_of children) \<subseteq> set (ids_of nxt) \<union> {next_id s1..<next_id s2}"
    using pl by (simp_all add: placed_def s1 s2)
  have names': "map fst children = map fst cs" using sh by (rule shows_elements_names)
  then have len: "length nxt = length children" using names by (metis length_map)
  have "?D i = cids children" using sub by (simp add: will_be_def cids)
  moreover have "children_ok children"
    using distinct_cids [OF cids'(1)] cids'(2) prev(7) by (simp add: children_ok_def names' len)
  moreover have "cs = [] \<longrightarrow> children = []" using names' by auto
  ultimately have cons': "consistent ?D (Component i m (Element t k w cs) children)" using cons by simp
  have ids': "set (ids_of children) \<subseteq> ?V \<union> {?N..<next_id s2}"
    using cids'(3) nids(2) le own by (fastforce simp: upd_step_def s1)
  have far: "q \<notin> ?M" if q: "q \<in> set (ids_of children)" for q
  proof
    assume m: "q \<in> ?M"
    then have "q \<in> ?V" using sub(2) q ids' by (auto dest!: subsetD)
    with m VM show False by blast
  qed
  have L: "set ?L = ((?V \<union> ?M) \<union> {i}) - set (ids (Component i m (Element t k w cs) children))"
    using R(3) low sub VM far by (auto simp: ml(1) ids_of_def [symmetric])
  have "distinct ?L" using R(2,3) ml VM by auto
  then have "\<exists>new L. upd_step ?N ((?V \<union> ?M) \<union> {i}) L new s s2 \<and>
      consistent (will_be ((?V \<union> ?M) \<union> {i}) new s2) (Component i m (Element t k w cs) children) \<and>
      distinct L \<and> set L = ((?V \<union> ?M) \<union> {i}) - set (ids (Component i m (Element t k w cs) children))"
    using step cons' L by blast
  moreover have "distinct (ids (Component i m (Element t k w cs) children))"
    using cids'(1) ids' sub prev(6) by (auto simp: ids_of_def [symmetric])
  moreover have "set (ids (Component i m (Element t k w cs) children)) \<subseteq> ((?V \<union> ?M) \<union> {i}) \<union> {?N..<next_id s2}"
    using ids' by (auto simp: ids_of_def [symmetric])
  ultimately show ?thesis using sh unfolding received_def P0 by simp
qed

text \<open>A component that may be updated.\<close>

definition live :: "react_dom \<Rightarrow> component \<Rightarrow> bool" where
  "live s c \<longleftrightarrow> consistent (child_nodes s) c \<and> distinct (ids c) \<and> set (ids c) \<subseteq> {..<next_id s}"

lemma live_later:
  assumes "live s c" "next_id s \<le> next_id s'" "\<forall>q < next_id s. child_nodes s' q = child_nodes s q"
  shows "live s' c"
proof -
  have "consistent (child_nodes s') c = consistent (child_nodes s) c"
    using assms by (intro consistent_cong) (auto simp: live_def)
  then show ?thesis using assms by (auto simp: live_def)
qed

lemma live_children:
  assumes "live s (Component i m e prev)"
  shows "\<forall>nc \<in> set prev. live s (snd nc)"
proof
  fix nc assume nc: "nc \<in> set prev"
  have "distinct (ids_of prev)" "set (ids (snd nc)) \<subseteq> set (ids_of prev)"
    using assms nc by (auto simp: live_def ids_of_def)
  then show "live s (snd nc)"
    using assms nc distinct_ids_child by (auto simp: live_def ids_of_def)
qed

lemma leave_deep: "updateDepth s > 1 \<Longrightarrow> leave_update s = s\<lparr>updateDepth := updateDepth s - 1\<rparr>"
  by (simp add: leave_update_def Let_def)

lemma will_be_depth [simp]: "will_be P new (s\<lparr>updateDepth := n\<rparr>) = will_be P new s"
  by (simp add: will_be_def cong: if_cong)

lemma received_deep:
  assumes "received c e (s\<lparr>updateDepth := updateDepth s + 1\<rparr>) c' s2" "updateDepth s > 0"
  shows "received c e s c' (leave_update s2)"
proof -
  have d: "updateDepth s2 = updateDepth s + 1" using assms(1) by (auto simp: received_def upd_step_def)
  then have l: "leave_update s2 = s2\<lparr>updateDepth := updateDepth s\<rparr>" using assms(2) by (simp add: leave_deep)
  have "upd_step N P L new s (s2\<lparr>updateDepth := updateDepth s\<rparr>)"
    if "upd_step N P L new (s\<lparr>updateDepth := updateDepth s + 1\<rparr>) s2" for N P L new
    using that by (simp add: upd_step_def)
  note step = this
  obtain new L where "upd_step (next_id s) (set (ids c)) L new (s\<lparr>updateDepth := updateDepth s + 1\<rparr>) s2"
    "consistent (will_be (set (ids c)) new s2) c'" "distinct L" "set L = set (ids c) - set (ids c')"
    using assms(1) by (auto simp: received_def)
  then have "upd_step (next_id s) (set (ids c)) L new s (leave_update s2)"
    "consistent (will_be (set (ids c)) new (leave_update s2)) c'" "distinct L" "set L = set (ids c) - set (ids c')"
    using step by (simp_all add: l)
  then show ?thesis using assms(1) unfolding received_def by (auto simp: l)
qed

lemma received_text:
  assumes "live s (Component i m e prev)" "el_children e = []" "el_children e' = []"
  shows "received (Component i m e prev) e' s (Component i m e' prev) s"
proof -
  have prev: "prev = []" using assms(1,2) by (simp add: live_def)
  have "upd_step (next_id s) {i} [] (child_nodes s) s s" by (rule upd_step_quiet) simp_all
  moreover have "consistent (will_be {i} (child_nodes s) s) (Component i m e' prev)"
    using assms(1) prev by (simp add: live_def will_be_def)
  ultimately show ?thesis by (auto simp: received_def prev assms(3))
qed

lemma update_correct:
  "live s c \<Longrightarrow> element_ok e \<Longrightarrow> shouldUpdateReactComponent (Some (current_element c)) (Some e) \<Longrightarrow>
    updateDepth s > 0 \<Longrightarrow> receiveComponent c e s = (c', s') \<Longrightarrow> received c e s c' s'"
  "\<forall>nc \<in> set prev. live s (snd nc) \<Longrightarrow> distinct (map fst prev) \<Longrightarrow> distinct (ids_of prev) \<Longrightarrow>
    \<forall>ne \<in> set es. element_ok (snd ne) \<Longrightarrow> distinct (map fst es) \<Longrightarrow> updateDepth s > 0 \<Longrightarrow>
    reconcile prev es s = (cs, s') \<Longrightarrow> reconciled prev es s cs s'"
proof (induction c e s and prev es s arbitrary: c' s' and cs s'
    rule: receiveComponent_reconcile.induct [case_names elem text1 other none some])
  case (elem i m e prev t k w es s)
  let ?s0 = "s\<lparr>updateDepth := updateDepth s + 1\<rparr>"
  obtain nxt s1 where r: "reconcile prev es ?s0 = (nxt, s1)" by (cases "reconcile prev es ?s0")
  obtain children s2 where u: "update_children_queue i prev nxt (fold unmountComponent (missing prev es) s1) = (children, s2)"
    by (cases "update_children_queue i prev nxt (fold unmountComponent (missing prev es) s1)")
  have out: "c' = Component i m (Element t k w es) children" "s' = leave_update s2"
    using elem.prems(5) r u by simp_all
  note L = elem.prems(1) [unfolded live_def]
  have "reconciled prev es ?s0 nxt s1"
  proof (rule elem.IH [OF _ _ _ _ _ _ r])
    show "\<forall>nc \<in> set prev. live ?s0 (snd nc)" using live_children [OF elem.prems(1)] by (simp add: live_def)
  qed (use L elem.prems(2,4) in \<open>simp_all add: children_ok_def ids_of_def\<close>)
  then have "received (Component i m e prev) (Element t k w es) ?s0 c' s2"
    unfolding out using L elem.prems(2) by (intro element_received [OF _ _ _ _ _ u]) simp_all
  then show ?case unfolding out(2) using elem.prems(4) by (rule received_deep)
next
  case (text1 i m e prev x s)
  then show ?case by (cases e) (auto intro!: received_text)
next
  case (other i m e prev x s)
  then show ?case by (cases e) (auto intro!: received_text)
next
  case (none prev s)
  then show ?case by (simp add: reconciled_Nil)
next
  case (some prev name e rest s)
  let ?first = "case map_of prev name of
      Some pc \<Rightarrow> if shouldUpdateReactComponent (Some (current_element pc)) (Some e) then receiveComponent pc e s
        else instantiate e (unmountComponent pc s)
    | None \<Rightarrow> instantiate e s"
  obtain c s1 where first: "?first = (c, s1)" by (cases ?first)
  obtain cs1 s2 where rest: "reconcile prev rest s1 = (cs1, s2)" by (cases "reconcile prev rest s1")
  have out: "cs = (name, c) # cs1" "s' = s2" using some.prems(7) first rest by simp_all
  have low: "set (ids_of prev) \<subseteq> {..<next_id s}" using some.prems(1) by (auto simp: live_def set_ids_of)
  have H: "reconciled1 prev name e s c s1"
  proof (cases "map_of prev name")
    case None
    then show ?thesis using first reconciled1_new [OF None, of e s] by simp
  next
    case (Some pc)
    show ?thesis
    proof (cases "shouldUpdateReactComponent (Some (current_element pc)) (Some e)")
      case True
      have "live s pc" using some.prems(1) map_of_SomeD [OF Some] by fastforce
      then have "received pc e s c s1"
        using some.prems(4,6) first Some True by (intro some.IH(1) [OF Some True]) simp_all
      then show ?thesis by (rule reconciled1_keep [OF Some some.prems(2) True])
    next
      case False
      then show ?thesis using first Some reconciled1_replace [OF Some some.prems(2,3) low False] by simp
    qed
  qed
  have st: "next_id s \<le> next_id s1" "\<forall>q < next_id s. child_nodes s1 q = child_nodes s q" "updateDepth s1 = updateDepth s"
    using H by (auto simp: reconciled1_def upd_step_def)
  have "reconciled prev rest s1 cs1 s2"
  proof (rule some.IH(2) [OF first [symmetric] refl _ _ _ _ _ _ rest])
    show "\<forall>nc \<in> set prev. live s1 (snd nc)" using some.prems(1) live_later [OF _ st(1,2)] by blast
  qed (use some.prems st(3) in simp_all)
  then show ?case unfolding out using some.prems(3,5) low by (intro reconciled_Cons [OF H]) simp_all
qed

section \<open>An update from outside\<close>

definition idle :: "react_dom \<Rightarrow> bool" where
  "idle s \<longleftrightarrow> updateDepth s = 0 \<and> updateQueue s = [] \<and> \<not> threw s"

text \<open>The end of the outermost update: the queue is processed, and the DOM becomes what the steps have promised.\<close>

lemma flush_queue:
  assumes "upd_step N P L new (s\<lparr>updateDepth := 1\<rparr>) s2" "idle s" "P \<subseteq> {..<N}"
  shows "idle (leave_update s2) \<and> child_nodes (leave_update s2) = will_be P new s2 \<and>
    next_id (leave_update s2) = next_id s2 \<and> unmounted (leave_update s2) = unmounted s @ L"
proof -
  let ?s2 = "s2\<lparr>updateDepth := 0\<rparr>"
  have f: "updateDepth s2 = 1" "\<not> threw s2" "unmounted s2 = unmounted s @ L" using assms(1,2) by (auto simp: upd_step_def idle_def)
  then have l: "leave_update s2 = processQueue ?s2" by (simp add: leave_update_def)
  have R: "realises (markupQueue s2) (updateQueue s2) P (child_nodes s) new" and same: "\<forall>q \<in> P. child_nodes s2 q = child_nodes s q"
    using assms by (auto simp: upd_step_def idle_def)
  have p: "processUpdates (updateQueue s2) (markupQueue s2) (child_nodes s2) (next_id s2) = Some (will_be P new s2, next_id s2)"
    unfolding will_be_def by (rule realises_process [OF R same])
  show ?thesis
  proof (cases "updateQueue s2 = []")
    case True
    then have "will_be P new s2 = child_nodes s2" using p by (simp add: processUpdates_def)
    with True f show ?thesis by (simp add: l processQueue_def idle_def)
  next
    case False
    with p f show ?thesis by (simp add: l processQueue_def idle_def clearQueue_def)
  qed
qed

lemma received_idle:
  assumes "received c e (s\<lparr>updateDepth := 1\<rparr>) c' s2" "idle s" "live s c"
  shows "idle (leave_update s2) \<and> live (leave_update s2) c' \<and>
    (\<forall>q < next_id s. q \<notin> set (ids c) \<longrightarrow> child_nodes (leave_update s2) q = child_nodes s q) \<and>
    (\<exists>L. unmounted (leave_update s2) = unmounted s @ L \<and> distinct L \<and> set L = set (ids c) - set (ids c'))"
proof -
  obtain new L where R: "upd_step (next_id s) (set (ids c)) L new (s\<lparr>updateDepth := 1\<rparr>) s2"
    "consistent (will_be (set (ids c)) new s2) c'" "distinct L" "set L = set (ids c) - set (ids c')"
    using assms(1) by (auto simp: received_def)
  have below: "set (ids c) \<subseteq> {..<next_id s}" using assms(3) by (simp add: live_def)
  note F = flush_queue [OF R(1) assms(2) below]
  have le: "next_id s \<le> next_id s2" using R(1) by (simp add: upd_step_def)
  have sub: "set (ids c') \<subseteq> set (ids c) \<union> {next_id s..<next_id s2}" "distinct (ids c')" using assms(1) by (simp_all add: received_def)
  have "set (ids c) \<subseteq> {..<next_id s2}" "{next_id s..<next_id s2} \<subseteq> {..<next_id s2}" using below le by auto
  with sub(1) have "set (ids c') \<subseteq> {..<next_id s2}" by blast
  then have "live (leave_update s2) c'" using F R(2) sub(2) by (simp add: live_def)
  moreover have "child_nodes (leave_update s2) q = child_nodes s q" if "q < next_id s" "q \<notin> set (ids c)" for q
    using F R(1) that by (simp add: will_be_def upd_step_def)
  ultimately show ?thesis using F R(3,4) by blast
qed

lemma placed_cids: "cids (fst (place_children p prev nxt ni li s)) = cids nxt"
proof (induction nxt arbitrary: ni li s)
  case (Cons nc nxt)
  have m: "cid (fst (mountChildByNameAtIndex p c j s)) = cid c" for p c j s
    using mount_cid [of c "current_element c" s] by (simp add: mountChildByNameAtIndex_def split: prod.splits) (metis fst_conv)
  obtain name c where nc: "nc = (name, c)" by (cases nc)
  show ?case
    using Cons m by (auto simp: nc Let_def case_prod_unfold split: option.split)
qed simp

lemma element_cids: "update_children_queue i prev nxt s = (children, s2) \<Longrightarrow> cids children = cids nxt"
  using placed_cids [of i prev nxt 0 0 s] by (auto simp: update_children_queue_def split: prod.splits)

text \<open>What an outermost update of a component does, put together.\<close>

lemma receive_outermost:
  assumes "live s c" "idle s" "element_ok e" "shouldUpdateReactComponent (Some (current_element c)) (Some e)"
    and "receiveComponent c e s = (c', s')"
  shows "idle s' \<and> live s' c' \<and> cid c' = cid c \<and> mount_index c' = mount_index c \<and> shows_element c' e \<and>
    (\<forall>q < next_id s. q \<notin> set (ids c) \<longrightarrow> child_nodes s' q = child_nodes s q) \<and>
    (\<exists>L. unmounted s' = unmounted s @ L \<and> distinct L \<and> set L = set (ids c) - set (ids c'))"
proof (cases "el_children e = [] \<and> (\<nexists>t k w cs. e = Element t k w cs)")
  case True
  obtain i m e0 prev where c: "c = Component i m e0 prev" by (cases c)
  have e0: "el_children e0 = []" using assms(4) True by (cases e; cases e0) (simp_all add: c)
  have prev: "prev = []" using assms(1) e0 by (simp add: live_def c)
  have "c' = Component i m e prev \<and> s' = s" using assms(5) True by (cases e) (simp_all add: c)
  then show ?thesis using assms(1,2) prev True by (auto simp: c live_def)
next
  case False
  then obtain t k w cs where e: "e = Element t k w cs" by (cases e) auto
  obtain i m e0 prev where c: "c = Component i m e0 prev" by (cases c)
  let ?s0 = "s\<lparr>updateDepth := 1\<rparr>"
  have d: "updateDepth s = 0" using assms(2) by (simp add: idle_def)
  obtain nxt s1 where r: "reconcile prev cs ?s0 = (nxt, s1)" by (cases "reconcile prev cs ?s0")
  obtain children s2 where u: "update_children_queue i prev nxt (fold unmountComponent (missing prev cs) s1) = (children, s2)"
    by (cases "update_children_queue i prev nxt (fold unmountComponent (missing prev cs) s1)")
  have out: "c' = Component i m e children" "s' = leave_update s2" using assms(5) r u by (simp_all add: c e d)
  have L: "live ?s0 (Component i m e0 prev)" using assms(1) by (simp add: live_def c)
  have "reconciled prev cs ?s0 nxt s1"
    using L assms(3) live_children [OF L]
    by (intro update_correct(2) [OF _ _ _ _ _ _ r]) (simp_all add: live_def e children_ok_def ids_of_def)
  then have R: "received c e ?s0 c' s2"
    unfolding c e out(1) using L assms(3) by (intro element_received [OF _ _ _ _ _ u]) (simp_all add: live_def e)
  have "cid c' = cid c \<and> mount_index c' = mount_index c \<and> shows_element c' e" using R by (simp add: received_def)
  with received_idle [OF R assms(2,1)] show ?thesis by (simp add: out(2))
qed

lemma mount_live:
  assumes "instantiate e s = (c, s1)" "mountComponent c e s1 = (c', s2)" "element_ok e" "idle s"
  shows "live s2 c' \<and> idle s2 \<and> shows_element c' e \<and> current_element c' = e"
proof -
  have M: "mounted c e s1 c' s2" using assms by (intro mount_correct(1)) (auto simp: instantiate_def)
  moreover from this have "current_element c' = e" by (cases c') (simp add: mounted_def)
  ultimately show ?thesis using assms(1,4) by (auto simp: mounted_def quiet_def live_def idle_def instantiate_def)
qed

text \<open>The children that are reused: those with the name of a previous one that has the same type, key and owner.\<close>

lemma receive_reuses:
  assumes "live s (Component i m e0 prev)" "element_ok (Element t k w cs)"
    and "receiveComponent (Component i m e0 prev) (Element t k w cs) s = (c', s')"
  shows "list_all2 (\<lambda>ne nc. fst nc = fst ne \<and>
    ((\<exists>pc. reuses prev (fst ne) (snd ne) pc \<and> cid (snd nc) = cid pc) \<or>
     (\<nexists>pc. reuses prev (fst ne) (snd ne) pc) \<and> next_id s \<le> cid (snd nc))) cs (rendered_children c')"
proof -
  let ?s0 = "s\<lparr>updateDepth := updateDepth s + 1\<rparr>"
  obtain nxt s1 where r: "reconcile prev cs ?s0 = (nxt, s1)" by (cases "reconcile prev cs ?s0")
  obtain children s2 where u: "update_children_queue i prev nxt (fold unmountComponent (missing prev cs) s1) = (children, s2)"
    by (cases "update_children_queue i prev nxt (fold unmountComponent (missing prev cs) s1)")
  have out: "rendered_children c' = children" using assms(3) r u by auto
  have L: "live ?s0 (Component i m e0 prev)" using assms(1) by (simp add: live_def)
  have R: "reconciled prev cs ?s0 nxt s1"
    using L assms(2) live_children [OF L]
    by (intro update_correct(2) [OF _ _ _ _ _ _ r]) (simp_all add: live_def children_ok_def ids_of_def)
  then have rel: "list_all2 (\<lambda>ne nc. (\<exists>pc. reuses prev (fst ne) (snd ne) pc \<and> cid (snd nc) = cid pc) \<or>
      (\<nexists>pc. reuses prev (fst ne) (snd ne) pc) \<and> next_id s \<le> cid (snd nc)) cs nxt"
    unfolding reconciled_def by (elim conjE exE list_all2_mono) (auto simp: reconciled_child_def fresh_def)
  have cc: "cids (rendered_children c') = cids nxt"
    using element_cids [OF u] by (simp add: out)
  have "map fst (rendered_children c') = map fst cs"
    using element_received [OF _ _ _ assms(2) R u] L by (auto simp: received_def live_def out dest!: shows_elements_names)
  then have names: "length (rendered_children c') = length cs" "j < length cs \<Longrightarrow> fst (rendered_children c' ! j) = fst (cs ! j)" for j
    by (metis length_map, metis length_map nth_map)
  have "length nxt = length cs" using rel by (simp add: list_all2_lengthD)
  then have "cid (snd (rendered_children c' ! j)) = cid (snd (nxt ! j))" if "j < length cs" for j
    using arg_cong [OF cc, of "\<lambda>l. l ! j"] that names(1) by simp
  then show ?thesis using rel names by (auto simp: list_all2_conv_all_nth)
qed

section \<open>Text content\<close>

lemma fold_unmountComponent:
  "fold unmountComponent cs s = s\<lparr>unmounted := unmounted s @ concat (map unmount_order cs)\<rparr>"
  by (induction cs arbitrary: s) (simp_all add: unmountComponent_def)

lemma remove_all_updates:
  assumes "children_ok prev" "d p = cids prev"
  shows "processUpdates (map (\<lambda>c. REMOVE_NODE p (mount_index_number c)) (map snd prev) @ [TEXT_CONTENT p content]) ms d n =
    Some (if content = '''' then (d(p := []), n) else (d(p := [n]), n + 1))"
proof -
  have all: "map snd prev = missing prev ([] :: (string \<times> component) list)" by (simp add: missing_def)
  let ?fs = "map mount_index_number (missing prev ([] :: (string \<times> component) list))"
  have fs: "distinct ?fs" "set ?fs = {..<length prev}"
    using distinct_missing_ix [OF assms(1), of "[]"] set_missing_ix [OF assms(1), of "[]"] by auto
  have ps: "distinct (cids prev)" using assms(1) by (simp add: children_ok_def)
  have "set (cids prev) = (!) (cids prev) ` {..<length prev}"
    by (simp only: set_conv_nth [of "cids prev"] cids_simps(4)) blast
  then have "filter (\<lambda>x. x \<notin> (!) (cids prev) ` ({} \<union> set ?fs)) (cids prev) = []"
    unfolding fs(2) by (metis filter_False sup_bot_left)
  moreover have "remove_children (map (\<lambda>f. ((p, f), cids prev ! f)) ?fs @ []) d =
      remove_children [] (d(p := filter (\<lambda>x. x \<notin> (!) (cids prev) ` ({} \<union> set ?fs)) (cids prev)))"
    using assms(2) fs by (intro remove_listed [OF ps]) auto
  moreover have "updated_children d (map (\<lambda>c. REMOVE_NODE p (mount_index_number c)) (missing prev ([] :: (string \<times> component) list)) @ [TEXT_CONTENT p content]) =
      Some (map (\<lambda>f. ((p, f), d p ! f)) ?fs)"
    using fs assms(2) by (subst updated_missing) auto
  ultimately show ?thesis
    unfolding processUpdates_def all using assms(2) by (simp add: apply_missing)
qed

text \<open>Setting the text content of an element replaces all its children by a text node, and by nothing if it is empty.\<close>

lemma updateTextContent_replaces:
  assumes "live s c" "idle s" "updateTextContent c content s = (c', s')"
  shows "idle s' \<and> child_nodes s' = (child_nodes s)(cid c := if content = '''' then [] else [next_id s]) \<and>
    unmounted s' = unmounted s @ concat (map unmount_order (map snd (rendered_children c)))"
proof -
  obtain i m e prev where c: "c = Component i m e prev" by (cases c)
  have "children_ok prev" "child_nodes s i = cids prev" using assms(1) by (simp_all add: c live_def)
  note P = remove_all_updates [of prev "child_nodes s" i, OF this, of content]
  show ?thesis
    using assms(2,3) P [of "markupQueue s" "next_id s"]
    by (auto simp: c updateTextContent_def fold_unmountComponent fold_removeChild enqueueTextContent_def leave_update_def
        processQueue_def clearQueue_def idle_def Let_def split: if_splits)
qed

section \<open>The properties of an update\<close>

text \<open>
  C23. Updating a tree that is mounted. When the element has the type, key and owner of the current one, the
  component stays and from now on stands for the new element: after the queue has been processed, the
  children of every DOM node below it are the nodes of the children of its component, in order, the queue is
  empty, and no node outside of the tree has changed. The result can be updated again.
\<close>
theorem update_shows_element:
  assumes "live s c" "idle s" "element_ok e" "shouldUpdateReactComponent (Some (current_element c)) (Some e)"
    and "receiveComponent c e s = (c', s')"
  shows "cid c' = cid c \<and> shows_element c' e \<and> live s' c' \<and> idle s' \<and>
    (\<forall>q < next_id s. q \<notin> set (ids c) \<longrightarrow> child_nodes s' q = child_nodes s q)"
  using receive_outermost [OF assms] by simp

text \<open>
  C24. Unmounting. An update unmounts exactly the components that are no longer part of the tree, each of them once.
\<close>
theorem vanished_unmounted_once:
  assumes "live s c" "idle s" "element_ok e" "shouldUpdateReactComponent (Some (current_element c)) (Some e)"
    and "receiveComponent c e s = (c', s')"
  shows "\<exists>L. unmounted s' = unmounted s @ L \<and> distinct L \<and> set L = set (ids c) - set (ids c')"
  using receive_outermost [OF assms] by simp

text \<open>
  C25. Keys. A child of the new element takes over the component of the previous child of its name when type,
  key and owner agree, whatever their positions are, and with it the state; any other child gets a new component.
\<close>
theorem children_reused:
  assumes "live s c" "idle s" "element_ok e" "shouldUpdateReactComponent (Some (current_element c)) (Some e)"
    and "receiveComponent c e s = (c', s')"
  shows "list_all2 (\<lambda>ne nc. fst nc = fst ne \<and>
    (case map_of (rendered_children c) (fst ne) of
       Some pc \<Rightarrow> if shouldUpdateReactComponent (Some (current_element pc)) (Some (snd ne)) then cid (snd nc) = cid pc
         else next_id s \<le> cid (snd nc)
     | None \<Rightarrow> next_id s \<le> cid (snd nc))) (el_children e) (rendered_children c')"
proof -
  have shown: "el_children e = [] \<Longrightarrow> rendered_children c' = []"
    using receive_outermost [OF assms] by (cases c'; cases "rendered_children c'") auto
  show ?thesis
  proof (cases e)
    case (Element t k w cs)
    obtain i m e0 prev where c: "c = Component i m e0 prev" by (cases c)
    have "list_all2 (\<lambda>ne nc. fst nc = fst ne \<and>
      ((\<exists>pc. reuses prev (fst ne) (snd ne) pc \<and> cid (snd nc) = cid pc) \<or>
       (\<nexists>pc. reuses prev (fst ne) (snd ne) pc) \<and> next_id s \<le> cid (snd nc))) cs (rendered_children c')"
      using assms(1,3,5) unfolding c Element by (rule receive_reuses)
    then show ?thesis
      unfolding Element c by (auto simp: reuses_def elim!: list_all2_mono split: option.split)
  qed (use shown in simp_all)
qed

definition sample_list :: "string list \<Rightarrow> element" where
  "sample_list names = Element ''ul'' None None (map (\<lambda>n. (n, if n = ''c'' then Element ''b'' None None [(n, Text n)] else Text n)) names)"

definition no_dom :: react_dom where
  "no_dom = \<lparr>updateDepth = 0, updateQueue = [], markupQueue = [], child_nodes = \<lambda>_. [], next_id = 0, unmounted = [], threw = False\<rparr>"

definition sample_tree :: "component \<times> react_dom" where
  "sample_tree = (let (c, s) = instantiate (sample_list [''a'', ''b'', ''c'']) no_dom
     in mountComponent c (sample_list [''a'', ''b'', ''c'']) s)"

lemma sample_live:
  "live (snd sample_tree) (fst sample_tree) \<and> idle (snd sample_tree) \<and>
   current_element (fst sample_tree) = sample_list [''a'', ''b'', ''c'']"
proof -
  obtain c s where i: "instantiate (sample_list [''a'', ''b'', ''c'']) no_dom = (c, s)" by fastforce
  have "element_ok (sample_list [''a'', ''b'', ''c''])" "idle no_dom" by (simp_all add: sample_list_def no_dom_def idle_def)
  then show ?thesis
    using mount_live [OF i surjective_pairing] by (simp add: sample_tree_def i)
qed

lemmas sample_hyps = sample_live [THEN conjunct1] sample_live [THEN conjunct2, THEN conjunct1]

theorem update_shows_element_witness:
  "(case receiveComponent (fst sample_tree) (sample_list [''c'', ''d'', ''a'']) (snd sample_tree) of (c', s') \<Rightarrow>
     shows_element c' (sample_list [''c'', ''d'', ''a'']) \<and> child_nodes s' 0 = cids (rendered_children c'))"
proof -
  obtain c' s' where r: "receiveComponent (fst sample_tree) (sample_list [''c'', ''d'', ''a'']) (snd sample_tree) = (c', s')"
    by fastforce
  have "shows_element c' (sample_list [''c'', ''d'', ''a'']) \<and> live s' c' \<and> cid c' = cid (fst sample_tree)"
    using update_shows_element [OF sample_hyps _ _ r] sample_live by (simp add: sample_list_def)
  moreover have "cid (fst sample_tree) = 0"
    by (simp add: sample_tree_def instantiate_def no_dom_def Let_def mount_cid)
  ultimately show ?thesis by (cases c') (simp add: r live_def)
qed

theorem vanished_unmounted_once_witness:
  "unmounted (snd (receiveComponent (fst sample_tree) (sample_list [''c'', ''d'', ''a'']) (snd sample_tree))) = [2]"
proof -
  let ?r = "receiveComponent (fst sample_tree) (sample_list [''c'', ''d'', ''a'']) (snd sample_tree)"
  have "\<exists>L. unmounted (snd ?r) = unmounted (snd sample_tree) @ L \<and> distinct L \<and>
      set L = set (ids (fst sample_tree)) - set (ids (fst ?r))"
    using vanished_unmounted_once [OF sample_hyps _ _ surjective_pairing] sample_live by (simp add: sample_list_def)
  moreover have "unmounted (snd sample_tree) = []" "set (ids (fst sample_tree)) - set (ids (fst ?r)) = {2}"
    by code_simp+
  ultimately obtain L where "unmounted (snd ?r) = L" "distinct L" "set L = {2}" by auto
  then show ?thesis by (cases L) (auto simp: subset_singleton_iff)
qed

theorem children_reused_witness:
  "cid (snd (rendered_children (fst (receiveComponent (fst sample_tree) (sample_list [''c'', ''d'', ''a'']) (snd sample_tree))) ! 0)) = 3"
proof -
  let ?r = "receiveComponent (fst sample_tree) (sample_list [''c'', ''d'', ''a'']) (snd sample_tree)"
  have pc: "map_of (rendered_children (fst sample_tree)) ''c'' =
      Some (Component 3 (Some 2) (Element ''b'' None None [(''c'', Text ''c'')])
        [(''c'', Component 4 (Some 0) (Text ''c'') [])])"
    by code_simp
  have "el_children (sample_list [''c'', ''d'', ''a'']) ! 0 = (''c'', Element ''b'' None None [(''c'', Text ''c'')])"
    "length (el_children (sample_list [''c'', ''d'', ''a''])) = 3" by (simp_all add: sample_list_def)
  then show ?thesis
    using list_all2_nthD [OF children_reused [OF sample_hyps _ _ surjective_pairing], of "sample_list [''c'', ''d'', ''a'']" 0]
      sample_live pc by (simp add: sample_list_def)
qed

end
