(* ===== verification/ReactElements.thy ===== *)
theory ReactElements
  imports JsObject
begin

text \<open>
  The values that React handles, and \<open>ReactElement\<close> (\<open>webfiles/react.js\<close>): making an element of a type,
  a configuration and children, and making one from another.

  A function, an array, an object or an element has an address. An object has its own members; of the members
  it inherits only the names of \<open>Object.prototype\<close> are modelled, all as functions, and the names of the
  classes it is an instance of. A \<open>Fragment\<close> is what \<open>createFragment\<close> makes of a keyed object. Numbers
  other than integers and \<open>NaN\<close> behave like integers here. The conversion of a value to a string
  (\<open>'' + value\<close>), which calls methods of the value, is a parameter. The context of an element is left out.
\<close>

section \<open>Values\<close>

datatype js_value = Undefined | Null | Bool bool | NaN | Num int | Str string | Func nat
  | Arr nat "js_value list"
  | Obj nat "string list" "(string \<times> js_value) list"
  | Fragment nat "(string \<times> js_value) list"
  | Elt nat js_value "string option" js_value "nat option" "(string \<times> js_value) list"

type_synonym members = "(string \<times> js_value) list"

text \<open>The parts of an element.\<close>

fun el_type :: "js_value \<Rightarrow> js_value" where
  "el_type (Elt a t k r w ps) = t"
| "el_type v = Undefined"

fun el_key :: "js_value \<Rightarrow> string option" where
  "el_key (Elt a t k r w ps) = k"
| "el_key v = None"

fun el_ref :: "js_value \<Rightarrow> js_value" where
  "el_ref (Elt a t k r w ps) = r"
| "el_ref v = Undefined"

fun el_owner :: "js_value \<Rightarrow> nat option" where
  "el_owner (Elt a t k r w ps) = w"
| "el_owner v = None"

fun el_props :: "js_value \<Rightarrow> members" where
  "el_props (Elt a t k r w ps) = ps"
| "el_props v = []"

fun typeof :: "js_value \<Rightarrow> string" where
  "typeof Undefined = ''undefined''"
| "typeof (Bool b) = ''boolean''"
| "typeof NaN = ''number''"
| "typeof (Num n) = ''number''"
| "typeof (Str s) = ''string''"
| "typeof (Func f) = ''function''"
| "typeof v = ''object''"

fun isArray :: "js_value \<Rightarrow> bool" where
  "isArray (Arr a vs) = True"
| "isArray v = False"

fun truthy :: "js_value \<Rightarrow> bool" where
  "truthy Undefined = False"
| "truthy Null = False"
| "truthy (Bool b) = b"
| "truthy NaN = False"
| "truthy (Num n) = (n \<noteq> 0)"
| "truthy (Str s) = (s \<noteq> '''')"
| "truthy v = True"

text \<open>\<open>v == null\<close>\<close>

definition nullish :: "js_value \<Rightarrow> bool" where
  "nullish v \<longleftrightarrow> v = Undefined \<or> v = Null"

text \<open>\<open>a === b\<close>: by address for everything that has one.\<close>

fun address :: "js_value \<Rightarrow> nat option" where
  "address (Func a) = Some a"
| "address (Arr a vs) = Some a"
| "address (Obj a cs ps) = Some a"
| "address (Fragment a ps) = Some a"
| "address (Elt a t k r w ps) = Some a"
| "address v = None"

definition strict_eq :: "js_value \<Rightarrow> js_value \<Rightarrow> bool" where
  "strict_eq u v = (if address u \<noteq> None \<or> address v \<noteq> None then address u = address v else u = v \<and> u \<noteq> NaN)"

text \<open>The member of an object with the given own members.\<close>

definition get_member :: "members \<Rightarrow> string \<Rightarrow> js_value" where
  "get_member ps n = (case map_of ps n of Some v \<Rightarrow> v | None \<Rightarrow> if n \<in> set object_prototype_keys then Func 0 else Undefined)"

text \<open>Elements have the flag \<open>_isReactElement\<close> from their prototype; an object may carry it as well.\<close>

fun isValidElement :: "js_value \<Rightarrow> bool" where
  "isValidElement (Elt a t k r w ps) = True"
| "isValidElement (Obj a cs ps) = truthy (get_member ps ''_isReactElement'')"
| "isValidElement (Fragment a ps) = truthy (get_member ps ''_isReactElement'')"
| "isValidElement v = False"

section \<open>Making elements\<close>

definition RESERVED_PROPS :: "string list" where
  "RESERVED_PROPS = [''key'', ''ref'']"

text \<open>The loop over the configuration.\<close>

definition copy_config :: "members \<Rightarrow> members \<Rightarrow> members" where
  "copy_config config props = js_copy (filter (\<lambda>(n, v). n \<notin> set RESERVED_PROPS) config) props"

text \<open>Several children become a new array, at the address \<open>a\<close>.\<close>

definition put_children :: "nat \<Rightarrow> js_value list \<Rightarrow> members \<Rightarrow> members" where
  "put_children a children props =
     (if length children = 1 then js_put ''children'' (hd children) props
      else if length children > 1 then js_put ''children'' (Arr a children) props
      else props)"

definition put_default :: "string \<times> js_value \<Rightarrow> members \<Rightarrow> members" where
  "put_default nv props = (if typeof (get_member props (fst nv)) = ''undefined'' then js_put (fst nv) (snd nv) props else props)"

text \<open>
  \<open>str\<close> converts to a string, \<open>defaultProps\<close> is the static of a class, \<open>owner\<close> is \<open>ReactCurrentOwner.current\<close>. \<open>a\<close> and
  \<open>a + 1\<close> are addresses that are not in use. The configuration \<open>None\<close> is \<open>null\<close> or \<open>undefined\<close>.
\<close>

definition createElement ::
  "(js_value \<Rightarrow> string) \<Rightarrow> (js_value \<Rightarrow> members option) \<Rightarrow> nat option \<Rightarrow> nat
   \<Rightarrow> js_value \<Rightarrow> members option \<Rightarrow> js_value list \<Rightarrow> js_value" where
  "createElement str defaultProps owner a type config children =
     (let ref = (case config of None \<Rightarrow> Null
          | Some c \<Rightarrow> if get_member c ''ref'' = Undefined then Null else get_member c ''ref'');
        key = (case config of None \<Rightarrow> None
          | Some c \<Rightarrow> if get_member c ''key'' = Undefined then None else Some (str (get_member c ''key'')));
        props = (case config of None \<Rightarrow> [] | Some c \<Rightarrow> copy_config c []);
        props = put_children a children props;
        props = (case (if truthy type then defaultProps type else None) of
            None \<Rightarrow> props
          | Some d \<Rightarrow> fold put_default d props)
      in Elt (a + 1) type key ref owner props)"

definition cloneAndReplaceProps :: "nat \<Rightarrow> js_value \<Rightarrow> members \<Rightarrow> js_value" where
  "cloneAndReplaceProps a oldElement newProps =
     Elt a (el_type oldElement) (el_key oldElement) (el_ref oldElement) (el_owner oldElement) newProps"

definition cloneElement ::
  "(js_value \<Rightarrow> string) \<Rightarrow> nat option \<Rightarrow> nat \<Rightarrow> js_value \<Rightarrow> members option \<Rightarrow> js_value list \<Rightarrow> js_value" where
  "cloneElement str current a element config children =
     (let props = js_copy (el_props element) [];
        (ref, owner) = (case config of
            Some c \<Rightarrow> if get_member c ''ref'' \<noteq> Undefined then (get_member c ''ref'', current) else (el_ref element, el_owner element)
          | None \<Rightarrow> (el_ref element, el_owner element));
        key = (case config of
            Some c \<Rightarrow> if get_member c ''key'' \<noteq> Undefined then Some (str (get_member c ''key'')) else el_key element
          | None \<Rightarrow> el_key element);
        props = (case config of Some c \<Rightarrow> copy_config c props | None \<Rightarrow> props);
        props = put_children a children props
      in Elt (a + 1) (el_type element) key ref owner props)"

section \<open>What the properties are\<close>

lemma get_member_put: "get_member (js_put n v ps) m = (if m = n then v else get_member ps m)"
  by (simp add: get_member_def)

lemma typeof_undefined [simp]: "typeof v = ''undefined'' \<longleftrightarrow> v = Undefined"
  by (cases v) simp_all

lemma get_member_copy_config:
  assumes "distinct (map fst c)"
  shows "get_member (copy_config c ps) n =
    (if n \<notin> set RESERVED_PROPS \<and> n \<in> fst ` set c then get_member c n else get_member ps n)"
proof -
  let ?f = "filter (\<lambda>(n, v). n \<notin> set RESERVED_PROPS) c"
  have d: "distinct (map fst ?f)" using assms by (simp add: distinct_map_filter)
  have f: "map_of ?f n = (if n \<in> set RESERVED_PROPS then None else map_of c n)"
    by (induction c) (auto split: prod.splits)
  have "map_of (copy_config c ps) n = (case map_of ?f n of None \<Rightarrow> map_of ps n | Some v \<Rightarrow> Some v)"
    using map_of_rev_distinct [OF d] by (simp add: copy_config_def map_of_js_copy map_add_def)
  moreover have "map_of c n = None \<longleftrightarrow> n \<notin> fst ` set c" by (simp add: map_of_eq_None_iff)
  ultimately show ?thesis
    using f by (cases "map_of c n") (auto simp: get_member_def)
qed

lemma get_member_children:
  "get_member (put_children a cs ps) n =
    (if n = ''children'' \<and> cs \<noteq> [] then (case cs of [c] \<Rightarrow> c | _ \<Rightarrow> Arr a cs) else get_member ps n)"
  by (cases cs rule: list.exhaust; cases "tl cs") (auto simp: put_children_def get_member_put)

lemma get_member_defaults:
  assumes "distinct (map fst d)"
  shows "get_member (fold put_default d ps) n =
    (if get_member ps n = Undefined \<and> n \<in> fst ` set d then get_member d n else get_member ps n)"
  using assms
proof (induction d arbitrary: ps)
  case (Cons nv d)
  obtain m v where nv: "nv = (m, v)" by (cases nv)
  have rest: "m \<notin> fst ` set d" "distinct (map fst d)" using Cons.prems by (simp_all add: nv)
  have "get_member (fold put_default (nv # d) ps) n = get_member (fold put_default d (put_default nv ps)) n" by simp
  also have "\<dots> = (if get_member (put_default nv ps) n = Undefined \<and> n \<in> fst ` set d then get_member d n
      else get_member (put_default nv ps) n)"
    using rest(2) by (rule Cons.IH)
  also have "\<dots> = (if get_member ps n = Undefined \<and> n \<in> fst ` set (nv # d) then get_member (nv # d) n else get_member ps n)"
    using rest(1) by (auto simp: nv put_default_def get_member_put) (auto simp: get_member_def)
  finally show ?case .
qed simp

text \<open>
  The properties of a new element: the children that were given; else the member of the configuration, except the
  key and the reference, which do not become properties; and where this is undefined the default of the class.
\<close>
theorem createElement_props:
  assumes "distinct (map fst config)" "distinct (map fst defaults)" "truthy type" "defaultProps type = Some defaults"
    and "n \<notin> set object_prototype_keys"
  shows "get_member (el_props (createElement str defaultProps owner a type (Some config) children)) n =
    (let given = (if n = ''children'' \<and> children \<noteq> [] then (case children of [c] \<Rightarrow> c | _ \<Rightarrow> Arr a children)
        else if n = ''key'' \<or> n = ''ref'' then Undefined else get_member config n)
     in if given = Undefined then get_member defaults n else given)"
proof -
  let ?props = "put_children a children (copy_config config [])"
  have out: "get_member ps n = Undefined" if "n \<notin> fst ` set ps" for ps
  proof -
    have "map_of ps n = None" using that by (simp add: map_of_eq_None_iff)
    then show ?thesis using assms(5) by (simp add: get_member_def)
  qed
  have "get_member ?props n =
      (if n = ''children'' \<and> children \<noteq> [] then (case children of [c] \<Rightarrow> c | _ \<Rightarrow> Arr a children)
       else if n = ''key'' \<or> n = ''ref'' then Undefined else get_member config n)"
    using out [of config] out [of "[]"]
    by (auto simp: get_member_children get_member_copy_config [OF assms(1)] RESERVED_PROPS_def)
  then show ?thesis
    using assms(3,4) out [of defaults]
    by (simp add: createElement_def Let_def get_member_defaults [OF assms(2)])
qed

theorem createElement_props_witness:
  "get_member (el_props (createElement (\<lambda>v. ''k'') (\<lambda>t. Some [(''size'', Num 1), (''label'', Str ''x'')]) None 7 (Str ''li'')
     (Some [(''key'', Num 3), (''label'', Str ''y'')]) [])) ''label'' = Str ''y''"
  using createElement_props [of "[(''key'', Num 3), (''label'', Str ''y'')]" "[(''size'', Num 1), (''label'', Str ''x'')]" "Str ''li''"
      "\<lambda>t. Some [(''size'', Num 1), (''label'', Str ''x'')]" "''label''" "\<lambda>v. ''k''" None 7 "[]"]
  by (simp add: object_prototype_keys_def get_member_def Let_def)

text \<open>A clone without a configuration and children differs from the element by its address only.\<close>

lemma js_copy_same:
  assumes "distinct (map fst (m @ ps))"
  shows "js_copy ps m = m @ ps"
  using assms
proof (induction ps arbitrary: m)
  case (Cons kv ps)
  obtain k v where kv: "kv = (k, v)" by (cases kv)
  have "js_put k v m = m @ [(k, v)]" using Cons.prems by (intro js_put_new) (auto simp: kv map_of_eq_None_iff)
  then show ?case using Cons.IH [of "m @ [(k, v)]"] Cons.prems by (simp add: js_copy_def kv)
qed (simp add: js_copy_def)

lemma cloneElement_plain:
  assumes "distinct (map fst (el_props e))"
  shows "cloneElement str current a e None [] = Elt (a + 1) (el_type e) (el_key e) (el_ref e) (el_owner e) (el_props e)"
  using js_copy_same [of "[]" "el_props e"] assms by (simp add: cloneElement_def put_children_def)

end
