(* ===== verification/ReactInstanceHandles.thy ===== *)
theory ReactInstanceHandles
  imports Prelude "HOL-Library.Sublist"
begin

text \<open>
  The ids of DOM nodes (\<open>ReactInstanceHandles\<close> in \<open>webfiles/react.js\<close>): strings such as \<open>.0.$row.1\<close>, one
  name after a dot for each level of the tree, by which events find the components between the root and
  their target. \<open>id_of\<close> is the id of a path of names; the operations on strings are shown to be the ones on
  paths. An invariant that fails is \<open>None\<close> or an error.
\<close>

section \<open>The operations on ids\<close>

definition SEPARATOR :: string where
  "SEPARATOR = ''.''"

definition MAX_TREE_DEPTH :: nat where
  "MAX_TREE_DEPTH = 100"

text \<open>\<open>charAt\<close>: a string of length 1 or 0.\<close>

definition char_at :: "string \<Rightarrow> nat \<Rightarrow> string" where
  "char_at s i = (if i < length s then [s ! i] else [])"

text \<open>\<open>lastIndexOf\<close> and \<open>indexOf\<close> of a character, the latter from a position on; \<open>None\<close> is \<open>-1\<close>.\<close>

fun last_index_of :: "char \<Rightarrow> string \<Rightarrow> nat option" where
  "last_index_of c [] = None"
| "last_index_of c (x # xs) =
     (case last_index_of c xs of Some i \<Rightarrow> Some (i + 1) | None \<Rightarrow> if x = c then Some 0 else None)"

fun index_of :: "char \<Rightarrow> string \<Rightarrow> nat option" where
  "index_of c [] = None"
| "index_of c (x # xs) = (if x = c then Some 0 else map_option Suc (index_of c xs))"

definition isBoundary :: "string \<Rightarrow> nat \<Rightarrow> bool" where
  "isBoundary s i \<longleftrightarrow> char_at s i = SEPARATOR \<or> i = length s"

definition isValidID :: "string \<Rightarrow> bool" where
  "isValidID s \<longleftrightarrow> s = '''' \<or> char_at s 0 = SEPARATOR \<and> char_at s (length s - 1) \<noteq> SEPARATOR"

definition isAncestorIDOf :: "string \<Rightarrow> string \<Rightarrow> bool" where
  "isAncestorIDOf ancestorID descendantID \<longleftrightarrow>
     prefix ancestorID descendantID \<and> isBoundary descendantID (length ancestorID)"

definition getParentID :: "string \<Rightarrow> string" where
  "getParentID s = (if s \<noteq> '''' then (case last_index_of CHR ''.'' s of Some i \<Rightarrow> take i s | None \<Rightarrow> '''') else '''')"

function first_boundary :: "string \<Rightarrow> nat \<Rightarrow> nat" where
  "first_boundary s i = (if i < length s \<and> \<not> isBoundary s i then first_boundary s (i + 1) else i)"
  by pat_completeness auto
termination by (relation "measure (\<lambda>(s, i). length s - i)") auto

declare first_boundary.simps [simp del]

definition getNextDescendantID :: "string \<Rightarrow> string \<Rightarrow> string option" where
  "getNextDescendantID ancestorID destinationID =
     (if \<not> (isValidID ancestorID \<and> isValidID destinationID) then None
      else if \<not> isAncestorIDOf ancestorID destinationID then None
      else if ancestorID = destinationID then Some ancestorID
      else Some (take (first_boundary destinationID (length ancestorID + length SEPARATOR)) destinationID))"

function common_loop :: "string \<Rightarrow> string \<Rightarrow> nat \<Rightarrow> nat \<Rightarrow> nat" where
  "common_loop oneID twoID i lastCommonMarkerIndex =
     (if i \<le> min (length oneID) (length twoID) then
        (if isBoundary oneID i \<and> isBoundary twoID i then common_loop oneID twoID (i + 1) i
         else if char_at oneID i \<noteq> char_at twoID i then lastCommonMarkerIndex
         else common_loop oneID twoID (i + 1) lastCommonMarkerIndex)
      else lastCommonMarkerIndex)"
  by pat_completeness auto
termination by (relation "measure (\<lambda>(a, b, i, l). length a + 1 - i)") auto

declare common_loop.simps [simp del]

definition getFirstCommonAncestorID :: "string \<Rightarrow> string \<Rightarrow> string option" where
  "getFirstCommonAncestorID oneID twoID =
     (if min (length oneID) (length twoID) = 0 then Some ''''
      else (let longestCommonID = take (common_loop oneID twoID 0 0) oneID
            in if isValidID longestCommonID then Some longestCommonID else None))"

datatype id_error = SameID | NoPath | BadID | InfiniteLoop

text \<open>
  The loop of \<open>traverseParentPath\<close>. The callback works on a state and tells whether it returned \<open>false\<close>; \<open>arg\<close> has
  been applied. \<open>MAX_TREE_DEPTH\<close> bounds the loop.
\<close>

function traverse_loop ::
  "bool \<Rightarrow> bool \<Rightarrow> bool \<Rightarrow> (string \<Rightarrow> bool \<Rightarrow> 's \<Rightarrow> bool \<times> 's) \<Rightarrow> string \<Rightarrow> string \<Rightarrow> string \<Rightarrow> nat \<Rightarrow> 's
   \<Rightarrow> 's \<times> id_error option" where
  "traverse_loop traverseUp skipFirst skipLast cb start stop pos depth s =
     (let (false, s1) = if (\<not> skipFirst \<or> pos \<noteq> start) \<and> (\<not> skipLast \<or> pos \<noteq> stop) then cb pos traverseUp s else (False, s)
      in if false \<or> pos = stop then (s1, None)
         else if depth < MAX_TREE_DEPTH then
           (case (if traverseUp then Some (getParentID pos) else getNextDescendantID pos stop) of
              Some pos' \<Rightarrow> traverse_loop traverseUp skipFirst skipLast cb start stop pos' (depth + 1) s1
            | None \<Rightarrow> (s1, Some BadID))
         else (s1, Some InfiniteLoop))"
  by pat_completeness auto
termination by (relation "measure (\<lambda>(u, f, l, cb, start, stop, pos, depth, s). MAX_TREE_DEPTH - depth)") auto

declare traverse_loop.simps [simp del]

definition traverseParentPath ::
  "string \<Rightarrow> string \<Rightarrow> (string \<Rightarrow> bool \<Rightarrow> 's \<Rightarrow> bool \<times> 's) \<Rightarrow> bool \<Rightarrow> bool \<Rightarrow> 's \<Rightarrow> 's \<times> id_error option" where
  "traverseParentPath start stop cb skipFirst skipLast s =
     (if start = stop then (s, Some SameID)
      else (let traverseUp = isAncestorIDOf stop start
            in if \<not> (traverseUp \<or> isAncestorIDOf start stop) then (s, Some NoPath)
               else traverse_loop traverseUp skipFirst skipLast cb start stop start 0 s))"

definition getReactRootIDFromNodeID :: "string \<Rightarrow> string option" where
  "getReactRootIDFromNodeID s =
     (if s \<noteq> '''' \<and> char_at s 0 = SEPARATOR \<and> length s > 1 then
        (case index_of CHR ''.'' (drop 1 s) of Some i \<Rightarrow> Some (take (i + 1) s) | None \<Rightarrow> Some s)
      else None)"

text \<open>An exception in the first half ends the operation.\<close>

definition and_traverse :: "'s \<times> id_error option \<Rightarrow> ('s \<Rightarrow> 's \<times> id_error option) \<Rightarrow> 's \<times> id_error option" where
  "and_traverse r f = (case snd r of None \<Rightarrow> f (fst r) | Some e \<Rightarrow> r)"

definition traverseEnterLeave ::
  "string \<Rightarrow> string \<Rightarrow> (string \<Rightarrow> bool \<Rightarrow> 's \<Rightarrow> bool \<times> 's) \<Rightarrow> (string \<Rightarrow> bool \<Rightarrow> 's \<Rightarrow> bool \<times> 's) \<Rightarrow> 's \<Rightarrow> 's \<times> id_error option" where
  "traverseEnterLeave leaveID enterID upCb downCb s =
     (case getFirstCommonAncestorID leaveID enterID of
        None \<Rightarrow> (s, Some BadID)
      | Some ancestorID \<Rightarrow>
          and_traverse (if ancestorID \<noteq> leaveID then traverseParentPath leaveID ancestorID upCb False True s else (s, None))
            (\<lambda>s1. if ancestorID \<noteq> enterID then traverseParentPath ancestorID enterID downCb True False s1 else (s1, None)))"

definition traverseTwoPhase :: "string \<Rightarrow> (string \<Rightarrow> bool \<Rightarrow> 's \<Rightarrow> bool \<times> 's) \<Rightarrow> 's \<Rightarrow> 's \<times> id_error option" where
  "traverseTwoPhase targetID cb s =
     (if targetID \<noteq> '''' then
        and_traverse (traverseParentPath '''' targetID cb True False s) (traverseParentPath targetID '''' cb False True)
      else (s, None))"

definition traverseAncestors :: "string \<Rightarrow> (string \<Rightarrow> bool \<Rightarrow> 's \<Rightarrow> bool \<times> 's) \<Rightarrow> 's \<Rightarrow> 's \<times> id_error option" where
  "traverseAncestors targetID cb s = traverseParentPath '''' targetID cb True False s"

section \<open>Ids of paths\<close>

text \<open>\<open>createReactID\<close> appends a name, which begins with the separator.\<close>

definition createReactID :: "string \<Rightarrow> string \<Rightarrow> string" where
  "createReactID rootID name = rootID @ name"

definition name_ok :: "string \<Rightarrow> bool" where
  "name_ok n \<longleftrightarrow> n \<noteq> '''' \<and> CHR ''.'' \<notin> set n"

fun id_of :: "string list \<Rightarrow> string" where
  "id_of [] = ''''"
| "id_of (n # ns) = CHR ''.'' # n @ id_of ns"

lemma id_of_append [simp]: "id_of (ns @ ms) = id_of ns @ id_of ms"
  by (induction ns) simp_all

lemma id_of_Nil_iff [simp]: "id_of ns = [] \<longleftrightarrow> ns = []" "[] = id_of ns \<longleftrightarrow> ns = []"
  by (cases ns; simp)+

lemma createReactID_id_of: "createReactID (id_of ns) (CHR ''.'' # n) = id_of (ns @ [n])"
  by (simp add: createReactID_def)

definition starts_level :: "string \<Rightarrow> bool" where
  "starts_level r \<longleftrightarrow> r = [] \<or> hd r = CHR ''.''"

lemma starts_level_id_of [simp]: "starts_level (id_of ns)"
  by (cases ns) (simp_all add: starts_level_def)

lemma starts_level_append [simp]: "starts_level r \<Longrightarrow> starts_level (id_of ns @ r)"
  by (cases ns) (simp_all add: starts_level_def)

lemma name_unique:
  assumes "CHR ''.'' \<notin> set n" "CHR ''.'' \<notin> set m" "n @ r = m @ r'" "starts_level r" "starts_level r'"
  shows "n = m \<and> r = r'"
proof -
  have "takeWhile (\<lambda>c. c \<noteq> CHR ''.'') (n @ r) = n" if "CHR ''.'' \<notin> set n" "starts_level r" for n r
    using that by (cases r) (auto simp: starts_level_def takeWhile_append)
  from this [OF assms(1,4)] this [OF assms(2,5)] have "n = m" using assms(3) by simp
  then show ?thesis using assms(3) by simp
qed

lemma id_of_unique:
  assumes "\<forall>n \<in> set ns. name_ok n" "\<forall>n \<in> set ms. name_ok n" "id_of ms = id_of ns @ r" "starts_level r"
  shows "\<exists>rest. ms = ns @ rest \<and> r = id_of rest"
  using assms
proof (induction ns arbitrary: ms)
  case (Cons n ns)
  then obtain m ms' where ms: "ms = m # ms'" by (cases ms) auto
  have "m = n \<and> id_of ms' = id_of ns @ r"
    using Cons.prems by (intro name_unique) (auto simp: ms name_ok_def)
  then show ?case using Cons.IH [of ms'] Cons.prems by (auto simp: ms)
qed auto

lemma id_of_inject:
  assumes "\<forall>n \<in> set ns. name_ok n" "\<forall>n \<in> set ms. name_ok n"
  shows "id_of ns = id_of ms \<longleftrightarrow> ns = ms"
  using id_of_unique [OF assms, of "[]"] by (auto simp: starts_level_def)

lemma isAncestor_conv: "isAncestorIDOf a d \<longleftrightarrow> (\<exists>r. d = a @ r \<and> starts_level r)"
proof -
  have "isBoundary (a @ r) (length a) \<longleftrightarrow> starts_level r" for r
    by (cases r) (auto simp: isBoundary_def starts_level_def char_at_def SEPARATOR_def nth_append)
  then show ?thesis by (auto simp: isAncestorIDOf_def prefix_def)
qed

text \<open>An id is an ancestor of another when its path is a prefix of the other's.\<close>

lemma isAncestor_id_of:
  assumes "\<forall>n \<in> set ns. name_ok n" "\<forall>n \<in> set ms. name_ok n"
  shows "isAncestorIDOf (id_of ns) (id_of ms) \<longleftrightarrow> prefix ns ms"
  using id_of_unique [OF assms] by (auto simp: isAncestor_conv prefix_def)

lemma last_name: "name_ok n \<Longrightarrow> n \<noteq> [] \<and> last n \<noteq> CHR ''.''"
  using last_in_set [of n] unfolding name_ok_def by metis

lemma isValidID_id_of:
  assumes "\<forall>n \<in> set ns. name_ok n"
  shows "isValidID (id_of ns)"
proof (cases ns rule: rev_cases)
  case (snoc ms n)
  have "char_at (id_of ns) 0 = SEPARATOR" using snoc by (cases ms) (simp_all add: char_at_def SEPARATOR_def)
  moreover have "last (id_of ns) \<noteq> CHR ''.''" using assms snoc last_name by auto
  moreover have "id_of ns \<noteq> []" using snoc by simp
  ultimately show ?thesis by (simp add: isValidID_def char_at_def SEPARATOR_def last_conv_nth)
qed (simp add: isValidID_def)

lemma last_index_of_append: "c \<notin> set n \<Longrightarrow> last_index_of c (xs @ c # n) = Some (length xs)"
proof (induction xs)
  case Nil
  have "last_index_of c n = None" using Nil by (induction n) auto
  then show ?case by simp
qed simp

lemma getParentID_snoc: "name_ok n \<Longrightarrow> getParentID (id_of (ns @ [n])) = id_of ns"
  using last_index_of_append [of "CHR ''.''" n "id_of ns"] by (simp add: getParentID_def name_ok_def)

lemma first_boundary_in_name:
  assumes "CHR ''.'' \<notin> set n" "starts_level r" "length xs \<le> i" "i \<le> length (xs @ n)"
  shows "first_boundary (xs @ n @ r) i = length (xs @ n)"
  using assms(3,4)
proof (induction "length (xs @ n) - i" arbitrary: i)
  case 0
  then have i: "i = length (xs @ n)" by simp
  have "isBoundary (xs @ n @ r) i"
    using assms(2) i by (cases r) (auto simp: isBoundary_def char_at_def SEPARATOR_def starts_level_def nth_append)
  then show ?case by (subst first_boundary.simps) (simp add: i)
next
  case (Suc k)
  then have i: "i < length (xs @ n)" by simp
  then have n: "(xs @ n @ r) ! i = n ! (i - length xs)" "i - length xs < length n"
    using Suc.prems(1) by (auto simp: nth_append)
  then have "(xs @ n @ r) ! i \<noteq> CHR ''.''" using assms(1) nth_mem [OF n(2)] by metis
  then have "\<not> isBoundary (xs @ n @ r) i"
    using i by (simp add: isBoundary_def char_at_def SEPARATOR_def)
  then have "first_boundary (xs @ n @ r) i = first_boundary (xs @ n @ r) (i + 1)"
    using i by (subst first_boundary.simps) simp
  also have "\<dots> = length (xs @ n)" using Suc.hyps(2) Suc.prems i by (intro Suc.hyps(1)) auto
  finally show ?case .
qed

lemma getNextDescendant_id_of:
  assumes "\<forall>n \<in> set (ns @ m # ms). name_ok n"
  shows "getNextDescendantID (id_of ns) (id_of (ns @ m # ms)) = Some (id_of (ns @ [m]))"
proof -
  have "isAncestorIDOf (id_of ns) (id_of (ns @ m # ms))" using assms by (subst isAncestor_id_of) auto
  moreover have "first_boundary ((id_of ns @ ''.'') @ m @ id_of ms) (length (id_of ns) + 1) = length ((id_of ns @ ''.'') @ m)"
    using assms by (intro first_boundary_in_name) (auto simp: name_ok_def)
  ultimately show ?thesis
    using isValidID_id_of [of ns] isValidID_id_of [of "ns @ m # ms"] assms
    by (simp add: getNextDescendantID_def SEPARATOR_def)
qed

section \<open>The nearest common ancestor\<close>

lemma boundary_at_level:
  assumes "isBoundary (id_of ns) j" "j \<le> length (id_of ns)" "\<forall>n \<in> set ns. name_ok n"
  shows "\<exists>ms. prefix ms ns \<and> take j (id_of ns) = id_of ms"
  using assms
proof (induction ns arbitrary: j)
  case Nil
  then show ?case by simp
next
  case (Cons n ns)
  show ?case
  proof (cases j)
    case 0
    then show ?thesis by (intro exI [of _ "[]"]) simp
  next
    case (Suc k)
    show ?thesis
    proof (cases "k < length n")
      case True
      then have "id_of (n # ns) ! j = n ! k" by (simp add: Suc nth_append)
      moreover have "n ! k \<noteq> CHR ''.''" using Cons.prems(3) nth_mem [OF True] unfolding name_ok_def by (metis list.set_intros(1))
      ultimately have "\<not> isBoundary (id_of (n # ns)) j"
        using True by (simp add: isBoundary_def char_at_def SEPARATOR_def Suc)
      then show ?thesis using Cons.prems(1) by simp
    next
      case False
      have "char_at (id_of (n # ns)) j = char_at (id_of ns) (k - length n)"
        using False by (auto simp: char_at_def Suc nth_append)
      then have "isBoundary (id_of ns) (k - length n)" using Cons.prems(1) False by (auto simp: isBoundary_def Suc)
      moreover have "k - length n \<le> length (id_of ns)" using Cons.prems(2) by (simp add: Suc)
      ultimately obtain ms where "prefix ms ns" "take (k - length n) (id_of ns) = id_of ms"
        using Cons.IH [of "k - length n"] Cons.prems(3) by auto
      then show ?thesis using False by (intro exI [of _ "n # ms"]) (simp add: Suc)
    qed
  qed
qed

lemma level_boundary:
  assumes "prefix ms ns"
  shows "isBoundary (id_of ns) (length (id_of ms)) \<and> take (length (id_of ms)) (id_of ns) = id_of ms"
proof -
  obtain rest where "ns = ms @ rest" using assms by (auto simp: prefix_def)
  then show ?thesis by (cases rest) (auto simp: isBoundary_def char_at_def SEPARATOR_def nth_append)
qed

text \<open>The markers up to which two ids agree.\<close>

definition common_marker :: "string \<Rightarrow> string \<Rightarrow> nat \<Rightarrow> bool" where
  "common_marker a b j \<longleftrightarrow> j \<le> min (length a) (length b) \<and> take j a = take j b \<and> isBoundary a j \<and> isBoundary b j"

lemma common_loop_max:
  assumes "common_marker a b l" "l \<le> i" "i \<le> min (length a) (length b) + 1" "take (i - 1) a = take (i - 1) b"
    and "i \<le> min (length a) (length b) \<Longrightarrow> take i a = take i b"
    and "\<forall>j. common_marker a b j \<and> j < i \<longrightarrow> j \<le> l"
  shows "common_marker a b (common_loop a b i l) \<and> (\<forall>j. common_marker a b j \<longrightarrow> j \<le> common_loop a b i l)"
  using assms
proof (induction a b i l rule: common_loop.induct)
  case (1 a b i l)
  show ?case
  proof (cases "i \<le> min (length a) (length b)")
    case False
    then have "\<forall>j. common_marker a b j \<longrightarrow> j < i" by (auto simp: common_marker_def)
    moreover have "common_loop a b i l = l" by (subst common_loop.simps) (simp only: False if_False)
    ultimately show ?thesis using "1.prems"(1,6) by simp
  next
    case True
    note same = "1.prems"(5) [OF True]
    have up: "take (i + 1) a = take (i + 1) b"
      if "i + 1 \<le> min (length a) (length b)" "char_at a i = char_at b i"
      using that same by (simp add: take_Suc_conv_app_nth char_at_def)
    show ?thesis
    proof (cases "isBoundary a i \<and> isBoundary b i")
      case both: True
      then have m: "common_marker a b i" using True same by (simp add: common_marker_def)
      have "char_at a i = char_at b i" if "i + 1 \<le> min (length a) (length b)"
        using both that by (auto simp: isBoundary_def)
      then have "common_marker a b (common_loop a b (i + 1) i) \<and> (\<forall>j. common_marker a b j \<longrightarrow> j \<le> common_loop a b (i + 1) i)"
        using True both m up same by (intro "1.IH"(1)) auto
      then show ?thesis using True both by (simp add: common_loop.simps [of a b i])
    next
      case notboth: False
      show ?thesis
      proof (cases "char_at a i = char_at b i")
        case eq: True
        have "j \<le> l" if "common_marker a b j" "j < i + 1" for j
          using that notboth "1.prems"(6) by (cases "j = i") (auto simp: common_marker_def)
        then have "common_marker a b (common_loop a b (i + 1) l) \<and> (\<forall>j. common_marker a b j \<longrightarrow> j \<le> common_loop a b (i + 1) l)"
          using True notboth eq up same "1.prems"(1,2) by (intro "1.IH"(2)) auto
        moreover have "common_loop a b i l = common_loop a b (i + 1) l"
          by (subst common_loop.simps) (simp only: True notboth eq if_True if_False simp_thms)
        ultimately show ?thesis by simp
      next
        case neq: False
        have "j \<le> l" if j: "common_marker a b j" for j
        proof (cases "j \<le> i")
          case le: True
          then show ?thesis using j notboth "1.prems"(6) by (cases "j = i") (auto simp: common_marker_def)
        next
          case gt: False
          then have "take j a ! i = take j b ! i" "i < length a" "i < length b" using j by (auto simp: common_marker_def)
          then have "a ! i = b ! i" using gt by simp
          then show ?thesis using neq \<open>i < length a\<close> \<open>i < length b\<close> by (simp add: char_at_def)
        qed
        moreover have "common_loop a b i l = l"
          by (subst common_loop.simps) (simp only: True notboth neq if_True if_False simp_thms)
        ultimately show ?thesis using "1.prems"(1) by simp
      qed
    qed
  qed
qed

lemma common_marker_0:
  assumes "\<forall>n \<in> set ns. name_ok n" "\<forall>n \<in> set ms. name_ok n"
  shows "common_marker (id_of ns) (id_of ms) 0"
  using level_boundary [of "[]" ns] level_boundary [of "[]" ms] by (simp add: common_marker_def)

lemma common_ancestor_path:
  assumes "\<forall>n \<in> set ns. name_ok n" "\<forall>n \<in> set ms. name_ok n"
  shows "getFirstCommonAncestorID (id_of ns) (id_of ms) = Some (id_of (longest_common_prefix ns ms))"
proof -
  let ?a = "id_of ns" and ?b = "id_of ms" and ?l = "common_loop (id_of ns) (id_of ms) 0 0" and ?p = "longest_common_prefix ns ms"
  have max: "common_marker ?a ?b ?l" "\<forall>j. common_marker ?a ?b j \<longrightarrow> j \<le> ?l"
    using common_loop_max [OF common_marker_0 [OF assms], of 0] by auto
  have p: "prefix ?p ns" "prefix ?p ms" by (rule longest_common_prefix_prefix1, rule longest_common_prefix_prefix2)
  have pl: "common_marker ?a ?b (length (id_of ?p))"
    using level_boundary [OF p(1)] level_boundary [OF p(2)] unfolding common_marker_def by (metis nat_le_linear min.bounded_iff length_take min.commute min_def)
  obtain q where q: "prefix q ns" "take ?l ?a = id_of q"
    using boundary_at_level [of ns ?l] max(1) assms(1) by (auto simp: common_marker_def)
  obtain q' where q': "prefix q' ms" "take ?l ?b = id_of q'"
    using boundary_at_level [of ms ?l] max(1) assms(2) by (auto simp: common_marker_def)
  have ok: "\<forall>n \<in> set q. name_ok n" "\<forall>n \<in> set q'. name_ok n" using q(1) q'(1) assms set_mono_prefix by blast+
  have "id_of q = id_of q'" using q(2) q'(2) max(1) by (simp add: common_marker_def)
  then have "q' = q" using id_of_inject [OF ok] by simp
  then have "prefix q ?p" using q(1) q'(1) by (auto intro: longest_common_prefix_max_prefix)
  moreover have "length (id_of ?p) \<le> length (id_of q)"
    using max pl q(2) unfolding common_marker_def by (metis length_take min.absorb2 min.bounded_iff)
  ultimately have "q = ?p" by (auto simp: prefix_def)
  then have t: "take ?l ?a = id_of ?p" using q(2) by simp
  have "isValidID (id_of ?p)" using assms(1) p(1) set_mono_prefix by (intro isValidID_id_of) blast
  then show ?thesis
  proof (cases "ns = [] \<or> ms = []")
    case True
    then have "?p = []" by (cases ns; cases ms) auto
    with True show ?thesis by (auto simp: getFirstCommonAncestorID_def)
  next
    case False
    then have "min (length ?a) (length ?b) \<noteq> 0" by (simp add: min_def)
    then show ?thesis using \<open>isValidID (id_of ?p)\<close> by (simp only: getFirstCommonAncestorID_def t Let_def if_True if_False)
  qed
qed

text \<open>
  C26. The nearest common ancestor. The character by character search finds the id of the longest common prefix of
  the two paths.
\<close>
theorem common_ancestor_is_common_path:
  assumes "\<forall>n \<in> set ns. name_ok n" "\<forall>n \<in> set ms. name_ok n"
  shows "getFirstCommonAncestorID (id_of ns) (id_of ms) = Some (id_of (longest_common_prefix ns ms))"
  using assms by (rule common_ancestor_path)

theorem common_ancestor_is_common_path_witness:
  "getFirstCommonAncestorID ''.0.$row.1'' ''.0.$row.10'' = Some ''.0.$row''"
proof -
  have "getFirstCommonAncestorID (id_of [''0'', ''$row'', ''1'']) (id_of [''0'', ''$row'', ''10'']) =
      Some (id_of (longest_common_prefix [''0'', ''$row'', ''1''] [''0'', ''$row'', ''10'']))"
    by (rule common_ancestor_is_common_path) (simp_all add: name_ok_def)
  then show ?thesis by simp
qed

section \<open>Traversals\<close>

text \<open>Calling the callback on ids in turn until it returns \<open>false\<close>; whether it did.\<close>

fun visit :: "(string \<Rightarrow> bool \<Rightarrow> 's \<Rightarrow> bool \<times> 's) \<Rightarrow> bool \<Rightarrow> string list \<Rightarrow> 's \<Rightarrow> bool \<times> 's" where
  "visit cb up [] s = (False, s)"
| "visit cb up (x # xs) s = (let (false, s1) = cb x up s in if false then (True, s1) else visit cb up xs s1)"

lemma visit_append: "visit cb up (xs @ ys) s =
    (let (false, s1) = visit cb up xs s in if false then (True, s1) else visit cb up ys s1)"
  by (induction xs arbitrary: s) (simp_all add: case_prod_unfold Let_def)

text \<open>The ids that are not skipped.\<close>

definition unskipped :: "bool \<Rightarrow> bool \<Rightarrow> string \<Rightarrow> string \<Rightarrow> string list \<Rightarrow> string list" where
  "unskipped skipFirst skipLast start stop = filter (\<lambda>x. (\<not> skipFirst \<or> x \<noteq> start) \<and> (\<not> skipLast \<or> x \<noteq> stop))"

text \<open>
  A loop along a path \<open>pos # path\<close> that ends in \<open>stop\<close>, when \<open>next\<close> leads from each id to the following one: what
  it visits, and whether it exceeds the depth.
\<close>

definition step_to :: "bool \<Rightarrow> string \<Rightarrow> string \<Rightarrow> string option" where
  "step_to up stop pos = (if up then Some (getParentID pos) else getNextDescendantID pos stop)"

fun path_to :: "bool \<Rightarrow> string \<Rightarrow> string list \<Rightarrow> bool" where
  "path_to up stop [] = False"
| "path_to up stop [x] = (x = stop)"
| "path_to up stop (x # y # ys) = (x \<noteq> stop \<and> step_to up stop x = Some y \<and> path_to up stop (y # ys))"

lemma traverse_loop_path:
  assumes "path_to up stop (pos # path)" "depth + length path \<le> MAX_TREE_DEPTH"
  shows "traverse_loop up sf sl cb start stop pos depth s = (snd (visit cb up (unskipped sf sl start stop (pos # path)) s), None)"
  using assms
proof (induction path arbitrary: pos depth s)
  case Nil
  then show ?case
    by (subst traverse_loop.simps) (auto simp: unskipped_def case_prod_unfold Let_def)
next
  case (Cons y ys)
  have n: "pos \<noteq> stop" "(if up then Some (getParentID pos) else getNextDescendantID pos stop) = Some y"
    using Cons.prems(1) by (simp_all add: step_to_def)
  have IH: "traverse_loop up sf sl cb start stop y (depth + 1) s' =
      (snd (visit cb up (unskipped sf sl start stop (y # ys)) s'), None)" for s'
    using Cons.prems by (intro Cons.IH) auto
  have d: "depth < MAX_TREE_DEPTH" using Cons.prems(2) by simp
  show ?case
    by (subst traverse_loop.simps, subst n(2))
      (use n(1) d IH in \<open>auto simp: unskipped_def case_prod_unfold Let_def\<close>)
qed

lemma traverse_loop_too_deep:
  assumes "path_to up stop (pos # path)" "depth + length path > MAX_TREE_DEPTH" "depth \<le> MAX_TREE_DEPTH"
    and "\<And>x s. \<not> fst (cb x up s)"
  shows "snd (traverse_loop up sf sl cb start stop pos depth s) = Some InfiniteLoop"
  using assms(1-3)
proof (induction path arbitrary: pos depth s)
  case (Cons y ys)
  have n: "pos \<noteq> stop" "(if up then Some (getParentID pos) else getNextDescendantID pos stop) = Some y"
    using Cons.prems(1) by (simp_all add: step_to_def)
  have IH: "snd (traverse_loop up sf sl cb start stop y (depth + 1) s') = Some InfiniteLoop" if "depth < MAX_TREE_DEPTH" for s'
    using Cons.prems that by (intro Cons.IH) auto
  show ?case
    by (subst traverse_loop.simps, subst n(2)) (use n(1) assms(4) IH in \<open>auto simp: case_prod_unfold Let_def\<close>)
qed simp

text \<open>The ids from an ancestor down to a node, both included.\<close>

fun path_down :: "string list \<Rightarrow> string list \<Rightarrow> string list" where
  "path_down ns [] = [id_of ns]"
| "path_down ns (m # ms) = id_of ns # path_down (ns @ [m]) ms"

lemma path_down_hd: "\<exists>rest. path_down ns ms = id_of ns # rest"
  by (cases ms) simp_all

lemma path_down_snoc: "path_down ns (ms @ [m]) = path_down ns ms @ [id_of (ns @ ms @ [m])]"
  by (induction ms arbitrary: ns) simp_all

lemma length_path_down [simp]: "length (path_down ns ms) = length ms + 1"
  by (induction ms arbitrary: ns) simp_all

lemma path_down_last: "\<exists>rest. path_down ns ms = rest @ [id_of (ns @ ms)]"
proof (cases ms rule: rev_cases)
  case (snoc ms' m)
  then show ?thesis by (simp add: path_down_snoc)
qed simp

lemma path_to_down:
  assumes "\<forall>n \<in> set (ns @ ms). name_ok n"
  shows "path_to False (id_of (ns @ ms)) (path_down ns ms)"
  using assms
proof (induction ms arbitrary: ns)
  case (Cons m ms)
  have IH: "path_to False (id_of (ns @ m # ms)) (path_down (ns @ [m]) ms)"
    using Cons.IH [of "ns @ [m]"] Cons.prems by simp
  obtain rest where rest: "path_down (ns @ [m]) ms = id_of (ns @ [m]) # rest" using path_down_hd by blast
  have "id_of ns \<noteq> id_of (ns @ m # ms)" by simp
  moreover have "step_to False (id_of (ns @ m # ms)) (id_of ns) = Some (id_of (ns @ [m]))"
    unfolding step_to_def using getNextDescendant_id_of [OF Cons.prems] by simp
  ultimately show ?case using IH unfolding path_down.simps rest path_to.simps by blast
qed simp

lemma path_to_up:
  assumes "\<forall>n \<in> set (ns @ ms). name_ok n"
  shows "path_to True (id_of ns) (rev (path_down ns ms))"
  using assms
proof (induction ms rule: rev_induct)
  case (snoc m ms)
  obtain start where "path_down ns ms = start @ [id_of (ns @ ms)]" using path_down_last by blast
  then obtain rest where rest: "rev (path_down ns ms) = id_of (ns @ ms) # rest" by simp
  have "id_of (ns @ ms @ [m]) \<noteq> id_of ns" by simp
  moreover have "step_to True (id_of ns) (id_of (ns @ ms @ [m])) = Some (id_of (ns @ ms))"
    unfolding step_to_def using getParentID_snoc [of m "ns @ ms"] snoc.prems by simp
  moreover have "rev (path_down ns (ms @ [m])) = id_of (ns @ ms @ [m]) # id_of (ns @ ms) # rest"
    by (simp only: path_down_snoc rev_append rest) simp
  moreover have "path_to True (id_of ns) (id_of (ns @ ms) # rest)" using snoc unfolding rest by simp
  ultimately show ?case by (simp only: path_to.simps simp_thms)
qed simp

text \<open>A traversal between an ancestor and a node below it, downwards and upwards.\<close>

lemma traverse_down:
  assumes "\<forall>n \<in> set (ns @ ms). name_ok n" "ms \<noteq> []"
  shows "length ms \<le> MAX_TREE_DEPTH \<Longrightarrow> traverseParentPath (id_of ns) (id_of (ns @ ms)) cb sf sl s =
      (snd (visit cb False (unskipped sf sl (id_of ns) (id_of (ns @ ms)) (path_down ns ms)) s), None)"
    "length ms > MAX_TREE_DEPTH \<Longrightarrow> (\<And>x s. \<not> fst (cb x False s)) \<Longrightarrow>
      snd (traverseParentPath (id_of ns) (id_of (ns @ ms)) cb sf sl s) = Some InfiniteLoop"
proof -
  have ok: "\<forall>n \<in> set ns. name_ok n" using assms(1) by simp
  have a: "isAncestorIDOf (id_of ns) (id_of (ns @ ms))" "\<not> isAncestorIDOf (id_of (ns @ ms)) (id_of ns)"
    using assms(2) isAncestor_id_of [OF ok assms(1)] isAncestor_id_of [OF assms(1) ok] by (simp_all add: prefix_def)
  have ne: "id_of ns \<noteq> id_of (ns @ ms)" using assms(2) by simp
  obtain rest where rest: "path_down ns ms = id_of ns # rest" using path_down_hd by blast
  then have len: "length rest = length ms" using length_path_down [of ns ms] by simp
  have p: "path_to False (id_of (ns @ ms)) (id_of ns # rest)" using path_to_down [OF assms(1)] rest by simp
  have t: "traverseParentPath (id_of ns) (id_of (ns @ ms)) cb sf sl s =
      traverse_loop False sf sl cb (id_of ns) (id_of (ns @ ms)) (id_of ns) 0 s"
    unfolding traverseParentPath_def Let_def by (simp only: a ne if_False if_True simp_thms)
  show "length ms \<le> MAX_TREE_DEPTH \<Longrightarrow> traverseParentPath (id_of ns) (id_of (ns @ ms)) cb sf sl s =
      (snd (visit cb False (unskipped sf sl (id_of ns) (id_of (ns @ ms)) (path_down ns ms)) s), None)"
    unfolding t rest by (rule traverse_loop_path [OF p]) (simp add: len)
  show "length ms > MAX_TREE_DEPTH \<Longrightarrow> (\<And>x s. \<not> fst (cb x False s)) \<Longrightarrow>
      snd (traverseParentPath (id_of ns) (id_of (ns @ ms)) cb sf sl s) = Some InfiniteLoop"
    unfolding t by (rule traverse_loop_too_deep [OF p]) (simp_all add: len)
qed

lemma traverse_up:
  assumes "\<forall>n \<in> set (ns @ ms). name_ok n" "ms \<noteq> []" "length ms \<le> MAX_TREE_DEPTH"
  shows "traverseParentPath (id_of (ns @ ms)) (id_of ns) cb sf sl s =
      (snd (visit cb True (unskipped sf sl (id_of (ns @ ms)) (id_of ns) (rev (path_down ns ms))) s), None)"
proof -
  have ok: "\<forall>n \<in> set ns. name_ok n" using assms(1) by simp
  have a: "isAncestorIDOf (id_of ns) (id_of (ns @ ms))"
    using isAncestor_id_of [OF ok assms(1)] by simp
  have ne: "id_of (ns @ ms) \<noteq> id_of ns" using assms(2) by simp
  obtain start where "path_down ns ms = start @ [id_of (ns @ ms)]" using path_down_last by blast
  then obtain rest where rest: "rev (path_down ns ms) = id_of (ns @ ms) # rest" by simp
  then have len: "length rest = length ms" using length_path_down [of ns ms] by (metis Suc_eq_plus1 add_right_cancel length_Cons length_rev)
  have p: "path_to True (id_of ns) (id_of (ns @ ms) # rest)" using path_to_up [OF assms(1)] rest by simp
  have t: "traverseParentPath (id_of (ns @ ms)) (id_of ns) cb sf sl s =
      traverse_loop True sf sl cb (id_of (ns @ ms)) (id_of ns) (id_of (ns @ ms)) 0 s"
    unfolding traverseParentPath_def Let_def by (simp only: a ne if_False if_True simp_thms)
  show ?thesis
    unfolding t rest by (rule traverse_loop_path [OF p]) (simp add: len assms(3))
qed

text \<open>Leaving out the first or the last id of a path.\<close>

lemma path_down_longer: "x \<in> set (tl (path_down ns ms)) \<Longrightarrow> length x > length (id_of ns)"
proof (induction ms arbitrary: ns)
  case (Cons m ms)
  obtain rest where rest: "path_down (ns @ [m]) ms = id_of (ns @ [m]) # rest" using path_down_hd by blast
  show ?case using Cons.IH [of "ns @ [m]"] Cons.prems rest by auto
qed simp

lemma skip_first: "unskipped True False (id_of ns) y (path_down ns ms) = tl (path_down ns ms)"
proof -
  obtain rest where rest: "path_down ns ms = id_of ns # rest" using path_down_hd by blast
  have "id_of ns \<notin> set rest" using path_down_longer [of "id_of ns" ns ms] rest by auto
  then have "filter (\<lambda>x. x \<noteq> id_of ns) rest = rest" by (auto intro!: filter_True)
  then show ?thesis by (simp add: unskipped_def rest)
qed

lemma unskipped_rev: "unskipped sf sl x y (rev xs) = rev (unskipped sf sl x y xs)"
  by (simp add: unskipped_def rev_filter)

lemma skip_last: "unskipped False True y (id_of ns) (rev (path_down ns ms)) = rev (tl (path_down ns ms))"
proof -
  have "unskipped False True y (id_of ns) xs = unskipped True False (id_of ns) y xs" for xs
    by (simp add: unskipped_def)
  then show ?thesis by (simp add: unskipped_rev skip_first)
qed

lemma two_phase_visits:
  assumes "\<forall>n \<in> set ns. name_ok n" "length ns \<le> MAX_TREE_DEPTH"
  shows "traverseTwoPhase (id_of ns) cb s =
    (snd (visit cb True (rev (tl (path_down [] ns))) (snd (visit cb False (tl (path_down [] ns)) s))), None)"
proof (cases "ns = []")
  case False
  have d: "traverseParentPath '''' (id_of ns) cb True False s' = (snd (visit cb False (tl (path_down [] ns)) s'), None)" for s'
    using traverse_down(1) [of "[]" ns cb True False s'] assms False skip_first [of "[]" "id_of ns" ns] by simp
  have u: "traverseParentPath (id_of ns) '''' cb False True s' = (snd (visit cb True (rev (tl (path_down [] ns))) s'), None)" for s'
    using traverse_up [of "[]" ns cb False True s'] assms False skip_last [of "id_of ns" "[]" ns] by simp
  show ?thesis using False by (simp add: traverseTwoPhase_def and_traverse_def d u)
qed (simp add: traverseTwoPhase_def)

text \<open>
  Capture and bubble. An event for a node is offered to all nodes from the root down to the node, and then to
  the same nodes in the opposite order, as long as the callback does not return false; no exception is thrown as long
  as the tree is not deeper than \<open>MAX_TREE_DEPTH\<close>.
\<close>
theorem two_phase_order:
  assumes "\<forall>n \<in> set ns. name_ok n" "length ns \<le> MAX_TREE_DEPTH"
  shows "traverseTwoPhase (id_of ns) cb s =
    (snd (visit cb True (rev (tl (path_down [] ns))) (snd (visit cb False (tl (path_down [] ns)) s))), None)"
  using assms by (rule two_phase_visits)

theorem two_phase_order_witness:
  "traverseTwoPhase ''.0.$a'' (\<lambda>x up log. (False, log @ [(x, up)])) [] =
    ([(''.0'', False), (''.0.$a'', False), (''.0.$a'', True), (''.0'', True)], None)"
  using two_phase_order [of "[''0'', ''$a'']" "\<lambda>x up log. (False, log @ [(x, up)])" "[]"]
  by (simp add: name_ok_def MAX_TREE_DEPTH_def)

text \<open>
  The depth of the tree. Events reach no node that is deeper than \<open>MAX_TREE_DEPTH\<close>: when no callback stops it, the
  traversal throws if and only if the path of the node has more than 100 names.
\<close>
theorem deep_tree_throws:
  assumes "\<forall>n \<in> set ns. name_ok n" "\<And>x up s. \<not> fst (cb x up s)"
  shows "(snd (traverseTwoPhase (id_of ns) cb s) = None) = (length ns \<le> MAX_TREE_DEPTH)"
proof (cases "length ns \<le> MAX_TREE_DEPTH")
  case False
  then have ne: "ns \<noteq> []" by auto
  have "snd (traverseParentPath '''' (id_of ns) cb True False s) = Some InfiniteLoop"
    using traverse_down(2) [of "[]" ns cb True False s] assms False ne by simp
  then show ?thesis using False ne by (simp add: traverseTwoPhase_def and_traverse_def)
qed (simp add: two_phase_visits [OF assms(1)])

theorem deep_tree_throws_witness:
  "snd (traverseTwoPhase (id_of (replicate 101 ''0'')) (\<lambda>x up n. (False, n + 1)) (0 :: nat)) \<noteq> None"
  using deep_tree_throws [of "replicate 101 ''0''" "\<lambda>x up n. (False, n + 1)" "0 :: nat"]
  by (simp add: name_ok_def MAX_TREE_DEPTH_def)

text \<open>The mouse: what was left is told from the node up to the common ancestor, what was entered from there down.\<close>

lemma enter_leave_order:
  assumes "\<forall>n \<in> set (ps @ ns). name_ok n" "\<forall>n \<in> set (ps @ ms). name_ok n" "longest_common_prefix ns ms = []"
    and "length ns \<le> MAX_TREE_DEPTH" "length ms \<le> MAX_TREE_DEPTH"
  shows "traverseEnterLeave (id_of (ps @ ns)) (id_of (ps @ ms)) upCb downCb s =
    (snd (visit downCb False (tl (path_down ps ms)) (snd (visit upCb True (rev (tl (path_down ps ns))) s))), None)"
proof -
  have "longest_common_prefix (ps @ ns) (ps @ ms) = ps" using assms(3) by (induction ps) simp_all
  then have c: "getFirstCommonAncestorID (id_of (ps @ ns)) (id_of (ps @ ms)) = Some (id_of ps)"
    using common_ancestor_path [OF assms(1,2)] by simp
  have u: "(if id_of ps \<noteq> id_of (ps @ ns) then traverseParentPath (id_of (ps @ ns)) (id_of ps) upCb False True s' else (s', None)) =
      (snd (visit upCb True (rev (tl (path_down ps ns))) s'), None)" for s'
    using traverse_up [OF assms(1) _ assms(4), of upCb False True s'] skip_last [of "id_of (ps @ ns)" ps ns] by (cases "ns = []") auto
  have d: "(if id_of ps \<noteq> id_of (ps @ ms) then traverseParentPath (id_of ps) (id_of (ps @ ms)) downCb True False s' else (s', None)) =
      (snd (visit downCb False (tl (path_down ps ms)) s'), None)" for s'
    using traverse_down(1) [OF assms(2) _ assms(5), of downCb True False s'] skip_first [of ps "id_of (ps @ ms)" ms]
    by (cases "ms = []") auto
  show ?thesis unfolding traverseEnterLeave_def c by (simp only: option.case u d and_traverse_def prod.sel)
qed

text \<open>The root of a node.\<close>

lemma root_of_path:
  assumes "name_ok n" "\<forall>m \<in> set ms. name_ok m"
  shows "getReactRootIDFromNodeID (id_of (n # ms)) = Some (id_of [n])"
proof -
  have i: "index_of CHR ''.'' (xs @ id_of ms) = (case ms of [] \<Rightarrow> None | _ \<Rightarrow> Some (length xs))" if "CHR ''.'' \<notin> set xs" for xs
    using that by (induction xs) (auto split: list.split)
  have "n \<noteq> []" "CHR ''.'' \<notin> set n" using assms(1) by (auto simp: name_ok_def)
  then show ?thesis
    using i [of n] by (cases ms) (auto simp: getReactRootIDFromNodeID_def char_at_def SEPARATOR_def)
qed

end
