(* ===== verification/ReactChildren.thy ===== *)
theory ReactChildren
  imports ReactElements ReactInstanceHandles
begin

text \<open>
  The children of an element and their names (\<open>traverseAllChildren\<close>, \<open>flattenChildren\<close> and
  \<open>ReactChildren\<close> in \<open>webfiles/react.js\<close>). A child is named by the keys on the way to it; by its name it is
  found again in the next update (see ReactMultiChild), and the name becomes part of the id of its node
  (see ReactInstanceHandles).

  Objects that have an iterator are left out. \<open>str\<close> converts a value to a string. A traversal is the list
  of the calls of its callback, name, child and index, and their number; \<open>None\<close> when the invariant fails.
\<close>

section \<open>Keys\<close>

definition digit36 :: "nat \<Rightarrow> char" where
  "digit36 d = char_of (if d < 10 then 48 + d else 87 + d)"

text \<open>\<open>index.toString(36)\<close>\<close>

fun base36 :: "nat \<Rightarrow> string" where
  "base36 n = (if n < 36 then [digit36 n] else base36 (n div 36) @ [digit36 (n mod 36)])"

declare base36.simps [simp del]

definition userProvidedKeyEscaper :: "char \<Rightarrow> string" where
  "userProvidedKeyEscaper c =
     (if c = CHR ''='' then ''=0'' else if c = CHR ''.'' then ''=1'' else if c = CHR '':'' then ''=2'' else [c])"

definition escapeUserProvidedKey :: "string \<Rightarrow> string" where
  "escapeUserProvidedKey text = concat (map userProvidedKeyEscaper text)"

definition wrapUserProvidedKey :: "string \<Rightarrow> string" where
  "wrapUserProvidedKey key = ''$'' @ escapeUserProvidedKey key"

text \<open>\<open>component.key\<close>, when it is not \<open>null\<close>, as a string.\<close>

fun explicit_key :: "(js_value \<Rightarrow> string) \<Rightarrow> js_value \<Rightarrow> string option" where
  "explicit_key str (Elt a t k r w ps) = k"
| "explicit_key str (Obj a cs ps) = (let k = get_member ps ''key'' in if nullish k then None else Some (str k))"
| "explicit_key str (Fragment a ps) = (let k = get_member ps ''key'' in if nullish k then None else Some (str k))"
| "explicit_key str v = None"

definition getComponentKey :: "(js_value \<Rightarrow> string) \<Rightarrow> js_value \<Rightarrow> nat \<Rightarrow> string" where
  "getComponentKey str component index =
     (case explicit_key str component of Some k \<Rightarrow> wrapUserProvidedKey k | None \<Rightarrow> base36 index)"

section \<open>Traversal\<close>

type_synonym calls = "(string \<times> js_value \<times> nat) list"

definition SUBSEPARATOR :: string where
  "SUBSEPARATOR = '':''"

definition next_name :: "string \<Rightarrow> string \<Rightarrow> string" where
  "next_name nameSoFar key = (if nameSoFar \<noteq> '''' then nameSoFar @ SUBSEPARATOR else SEPARATOR) @ key"

definition one_child :: "(js_value \<Rightarrow> string) \<Rightarrow> js_value \<Rightarrow> string \<Rightarrow> nat \<Rightarrow> (calls \<times> nat) option" where
  "one_child str child nameSoFar indexSoFar =
     Some ([(if nameSoFar = '''' then SEPARATOR @ getComponentKey str child 0 else nameSoFar, child, indexSoFar)], 1)"

fun traverseAllChildrenImpl :: "(js_value \<Rightarrow> string) \<Rightarrow> js_value \<Rightarrow> string \<Rightarrow> nat \<Rightarrow> (calls \<times> nat) option"
  and traverse_array :: "(js_value \<Rightarrow> string) \<Rightarrow> js_value list \<Rightarrow> nat \<Rightarrow> string \<Rightarrow> nat \<Rightarrow> nat \<Rightarrow> (calls \<times> nat) option"
  and traverse_members :: "(js_value \<Rightarrow> string) \<Rightarrow> members \<Rightarrow> string \<Rightarrow> nat \<Rightarrow> nat \<Rightarrow> (calls \<times> nat) option" where
  "traverseAllChildrenImpl str Undefined name index = one_child str Null name index"
| "traverseAllChildrenImpl str (Bool b) name index = one_child str Null name index"
| "traverseAllChildrenImpl str (Arr a cs) name index = traverse_array str cs 0 name index 0"
| "traverseAllChildrenImpl str (Obj a cls ps) name index =
     (if isValidElement (Obj a cls ps) then one_child str (Obj a cls ps) name index
      else if get_member ps ''nodeType'' = Num 1 then None
      else traverse_members str ps name index 0)"
| "traverseAllChildrenImpl str (Fragment a ps) name index =
     (if isValidElement (Fragment a ps) then one_child str (Fragment a ps) name index
      else if get_member ps ''nodeType'' = Num 1 then None
      else traverse_members str ps name index 0)"
| "traverseAllChildrenImpl str (Func f) name index = Some ([], 0)"
| "traverseAllChildrenImpl str v name index = one_child str v name index"
| "traverse_array str [] i name index subtreeCount = Some ([], subtreeCount)"
| "traverse_array str (child # cs) i name index subtreeCount =
     (case traverseAllChildrenImpl str child (next_name name (getComponentKey str child i)) (index + subtreeCount) of
        None \<Rightarrow> None
      | Some (calls, n) \<Rightarrow>
          map_option (\<lambda>(calls', n'). (calls @ calls', n')) (traverse_array str cs (i + 1) name index (subtreeCount + n)))"
| "traverse_members str [] name index subtreeCount = Some ([], subtreeCount)"
| "traverse_members str ((key, child) # ps) name index subtreeCount =
     (case traverseAllChildrenImpl str child
         (next_name name (wrapUserProvidedKey key @ SUBSEPARATOR @ getComponentKey str child 0)) (index + subtreeCount) of
        None \<Rightarrow> None
      | Some (calls, n) \<Rightarrow>
          map_option (\<lambda>(calls', n'). (calls @ calls', n')) (traverse_members str ps name index (subtreeCount + n)))"

definition traverseAllChildren :: "(js_value \<Rightarrow> string) \<Rightarrow> js_value \<Rightarrow> (calls \<times> nat) option" where
  "traverseAllChildren str children =
     (if nullish children then Some ([], 0) else traverseAllChildrenImpl str children '''' 0)"

section \<open>What the traversals are used for\<close>

text \<open>The result so far and the names that were found twice, of which React warns.\<close>

definition flattenSingleChildIntoContext :: "string \<times> js_value \<times> nat \<Rightarrow> members \<times> string list \<Rightarrow> members \<times> string list" where
  "flattenSingleChildIntoContext call context =
     (case (call, context) of ((name, child, i), (result, warned)) \<Rightarrow>
        (let keyUnique = (name \<notin> fst ` set result)
         in (if keyUnique \<and> \<not> nullish child then js_put name child result else result,
             if keyUnique then warned else warned @ [name])))"

text \<open>\<open>Inl\<close>: the argument is returned as it is.\<close>

definition flattenChildren :: "(js_value \<Rightarrow> string) \<Rightarrow> js_value \<Rightarrow> (js_value + members \<times> string list) option" where
  "flattenChildren str children =
     (if nullish children then Some (Inl children)
      else map_option (\<lambda>(calls, n). Inr (fold flattenSingleChildIntoContext calls ([], []))) (traverseAllChildren str children))"

definition forEachChildren :: "(js_value \<Rightarrow> string) \<Rightarrow> js_value \<Rightarrow> (js_value \<Rightarrow> nat \<Rightarrow> 's \<Rightarrow> 's) \<Rightarrow> 's \<Rightarrow> 's option" where
  "forEachChildren str children forEachFunc s =
     (if nullish children then Some s
      else map_option (\<lambda>(calls, n). fold (\<lambda>(name, child, i) s. forEachFunc child i s) calls s) (traverseAllChildren str children))"

definition mapSingleChildIntoContext ::
  "(js_value \<Rightarrow> nat \<Rightarrow> 's \<Rightarrow> js_value \<times> 's) \<Rightarrow> string \<times> js_value \<times> nat \<Rightarrow> members \<times> 's \<Rightarrow> members \<times> 's" where
  "mapSingleChildIntoContext mapFunction call context =
     (case (call, context) of ((name, child, i), (mapResult, s)) \<Rightarrow>
        if name \<notin> fst ` set mapResult then
          (let (mappedChild, s') = mapFunction child i s in (js_put name mappedChild mapResult, s'))
        else (mapResult, s))"

text \<open>The result is a fragment at the address \<open>a\<close>.\<close>

definition mapChildren ::
  "(js_value \<Rightarrow> string) \<Rightarrow> nat \<Rightarrow> js_value \<Rightarrow> (js_value \<Rightarrow> nat \<Rightarrow> 's \<Rightarrow> js_value \<times> 's) \<Rightarrow> 's \<Rightarrow> (js_value \<times> 's) option" where
  "mapChildren str a children func s =
     (if nullish children then Some (children, s)
      else map_option (\<lambda>(calls, n). map_prod (Fragment a) id (fold (mapSingleChildIntoContext func) calls ([], s)))
        (traverseAllChildren str children))"

definition countChildren :: "(js_value \<Rightarrow> string) \<Rightarrow> js_value \<Rightarrow> nat option" where
  "countChildren str children = map_option snd (traverseAllChildren str children)"

section \<open>Keys can be read back\<close>

definition value36 :: "char \<Rightarrow> nat" where
  "value36 c = (if of_char c < (58 :: nat) then of_char c - 48 else of_char c - 87)"

lemma of_char_digit36: "d < 36 \<Longrightarrow> of_char (digit36 d) = (if d < 10 then 48 + d else 87 + d :: nat)"
  by (simp add: digit36_def)

lemma value_digit36: "d < 36 \<Longrightarrow> value36 (digit36 d) = d"
  by (simp add: value36_def of_char_digit36)

definition read36 :: "string \<Rightarrow> nat" where
  "read36 s = foldl (\<lambda>n c. 36 * n + value36 c) 0 s"

lemma read_base36: "read36 (base36 n) = n"
proof (induction n rule: base36.induct)
  case (1 n)
  then show ?case
    by (subst base36.simps) (auto simp: read36_def value_digit36)
qed

lemma digit36_plain:
  assumes "d < 36"
  shows "digit36 d \<noteq> CHR ''.'' \<and> digit36 d \<noteq> CHR '':'' \<and> digit36 d \<noteq> CHR ''$''"
proof -
  have "(of_char (digit36 d) :: nat) \<noteq> 46 \<and> (of_char (digit36 d) :: nat) \<noteq> 58 \<and> (of_char (digit36 d) :: nat) \<noteq> 36"
    using of_char_digit36 [OF assms] by (simp split: if_splits)
  moreover have "(of_char CHR ''.'' :: nat) = 46" "(of_char CHR '':'' :: nat) = 58" "(of_char CHR ''$'' :: nat) = 36" by simp_all
  ultimately show ?thesis by metis
qed

lemma base36_plain: "c \<in> set (base36 n) \<Longrightarrow> c \<noteq> CHR ''.'' \<and> c \<noteq> CHR '':'' \<and> c \<noteq> CHR ''$''"
proof (induction n rule: base36.induct)
  case (1 n)
  show ?case
    using 1 digit36_plain [of n] digit36_plain [of "n mod 36"]
    by (subst (asm) (2) base36.simps) (auto split: if_splits)
qed

lemma base36_nonempty [simp]: "base36 n \<noteq> []"
  by (subst base36.simps) simp

fun unescapeKey :: "string \<Rightarrow> string" where
  "unescapeKey [] = []"
| "unescapeKey [c] = [c]"
| "unescapeKey (c # d # s) =
     (if c = CHR ''='' then (if d = CHR ''0'' then CHR ''='' else if d = CHR ''1'' then CHR ''.'' else CHR '':'') # unescapeKey s
      else c # unescapeKey (d # s))"

lemma escape_simps [simp]:
  "escapeUserProvidedKey [] = []" "escapeUserProvidedKey (c # s) = userProvidedKeyEscaper c @ escapeUserProvidedKey s"
  by (simp_all add: escapeUserProvidedKey_def)

lemma unescape_escape: "unescapeKey (escapeUserProvidedKey key) = key"
proof (induction key)
  case (Cons c s)
  show ?case
  proof (cases "escapeUserProvidedKey s")
    case Nil
    then show ?thesis using Cons by (auto simp: userProvidedKeyEscaper_def)
  next
    case (Cons d ds)
    then show ?thesis using Cons.IH by (auto simp: userProvidedKeyEscaper_def)
  qed
qed simp

lemma escape_plain: "c \<in> set (escapeUserProvidedKey key) \<Longrightarrow> c \<noteq> CHR ''.'' \<and> c \<noteq> CHR '':''"
  by (induction key) (auto simp: userProvidedKeyEscaper_def split: if_splits)

section \<open>Names are paths of keys\<close>

datatype key_part = Explicit string | Index nat

fun part_string :: "key_part \<Rightarrow> string" where
  "part_string (Explicit k) = wrapUserProvidedKey k"
| "part_string (Index n) = base36 n"

definition component_part :: "(js_value \<Rightarrow> string) \<Rightarrow> js_value \<Rightarrow> nat \<Rightarrow> key_part" where
  "component_part str v i = (case explicit_key str v of Some k \<Rightarrow> Explicit k | None \<Rightarrow> Index i)"

lemma getComponentKey_part: "getComponentKey str v i = part_string (component_part str v i)"
  by (simp add: getComponentKey_def component_part_def split: option.split)

fun join_parts :: "key_part list \<Rightarrow> string" where
  "join_parts [] = ''''"
| "join_parts [q] = part_string q"
| "join_parts (q # qs) = part_string q @ SUBSEPARATOR @ join_parts qs"

text \<open>The name of a path.\<close>

definition name_of :: "key_part list \<Rightarrow> string" where
  "name_of path = (if path = [] then '''' else SEPARATOR @ join_parts path)"

lemma join_parts_snoc: "path \<noteq> [] \<Longrightarrow> join_parts (path @ [q]) = join_parts path @ SUBSEPARATOR @ part_string q"
  by (induction path rule: join_parts.induct) simp_all

lemma name_of_iff [simp]: "name_of path = [] \<longleftrightarrow> path = []"
  by (simp add: name_of_def SEPARATOR_def)

lemma next_name_of: "next_name (name_of path) (part_string q) = name_of (path @ [q])"
proof (cases "path = []")
  case False
  then have "name_of (path @ [q]) = name_of path @ SUBSEPARATOR @ part_string q"
    by (simp add: name_of_def join_parts_snoc)
  with False show ?thesis by (simp add: next_name_def)
qed (simp add: next_name_def name_of_def)

lemma next_name_of_member: "next_name (name_of path) (wrapUserProvidedKey k @ SUBSEPARATOR @ part_string q) = name_of (path @ [Explicit k, q])"
proof -
  have "name_of (path @ [Explicit k, q]) = name_of (path @ [Explicit k]) @ SUBSEPARATOR @ part_string q"
    using join_parts_snoc [of "path @ [Explicit k]" q] by (simp add: name_of_def)
  then show ?thesis using next_name_of [of path "Explicit k"] by (simp add: next_name_def)
qed

lemma part_plain: "part_string q \<noteq> [] \<and> CHR ''.'' \<notin> set (part_string q) \<and> CHR '':'' \<notin> set (part_string q)"
  using base36_plain escape_plain by (cases q) (auto simp: wrapUserProvidedKey_def)

lemma part_inject: "part_string q = part_string r \<longleftrightarrow> q = r"
proof
  assume e: "part_string q = part_string r"
  have dollar: "CHR ''$'' \<notin> set (base36 n)" for n using base36_plain by blast
  show "q = r"
  proof (cases q)
    case (Explicit k)
    show ?thesis
    proof (cases r)
      case r: (Explicit l)
      have "unescapeKey (escapeUserProvidedKey k) = unescapeKey (escapeUserProvidedKey l)"
        using e by (simp add: Explicit r wrapUserProvidedKey_def)
      then show ?thesis by (simp add: Explicit r unescape_escape)
    next
      case r: (Index n)
      then show ?thesis using e dollar [of n] by (simp add: Explicit wrapUserProvidedKey_def) (metis list.set_intros(1))
    qed
  next
    case (Index n)
    show ?thesis
    proof (cases r)
      case r: (Explicit l)
      then show ?thesis using e dollar [of n] by (simp add: Index wrapUserProvidedKey_def)
    next
      case r: (Index m)
      have "read36 (base36 n) = read36 (base36 m)" using e by (simp add: Index r)
      then show ?thesis by (simp add: Index r read_base36)
    qed
  qed
qed simp

text \<open>Reading every colon as a dot turns a name into the id of its parts.\<close>

lemma name_of_id: "map (\<lambda>c. if c = CHR '':'' then CHR ''.'' else c) (name_of path) = id_of (map part_string path)"
proof -
  have plain: "map (\<lambda>c. if c = CHR '':'' then CHR ''.'' else c) (part_string q) = part_string q" for q
    using part_plain [of q] by (intro map_idI) auto
  have "map (\<lambda>c. if c = CHR '':'' then CHR ''.'' else c) (SEPARATOR @ join_parts path) = id_of (map part_string path)"
    if "path \<noteq> []" for path
    using that plain by (induction path rule: join_parts.induct) (simp_all add: SEPARATOR_def SUBSEPARATOR_def)
  then show ?thesis by (simp add: name_of_def)
qed

lemma name_of_inject: "name_of p = name_of q \<longleftrightarrow> p = q"
proof
  assume "name_of p = name_of q"
  then have "id_of (map part_string p) = id_of (map part_string q)" using name_of_id by metis
  then have "map part_string p = map part_string q"
    using part_plain by (subst (asm) id_of_inject) (auto simp: name_ok_def)
  then show "p = q" using part_inject by (metis list.inj_map_strong)
qed simp

lemma name_of_ok:
  assumes "path \<noteq> []"
  shows "\<exists>n. name_of path = CHR ''.'' # n \<and> name_ok n"
proof -
  have "name_ok (join_parts path)"
    using assms part_plain by (induction path rule: join_parts.induct) (auto simp: name_ok_def SUBSEPARATOR_def)
  then show ?thesis using assms by (simp add: name_of_def SEPARATOR_def)
qed

section \<open>The paths of the children\<close>

text \<open>The children of a tree of arrays and keyed objects with their paths.\<close>

definition child_at :: "(js_value \<Rightarrow> string) \<Rightarrow> js_value \<Rightarrow> key_part list \<Rightarrow> (key_part list \<times> js_value) list" where
  "child_at str v path = [(if path = [] then [component_part str v 0] else path, v)]"

fun child_paths :: "(js_value \<Rightarrow> string) \<Rightarrow> js_value \<Rightarrow> key_part list \<Rightarrow> (key_part list \<times> js_value) list"
  and array_paths :: "(js_value \<Rightarrow> string) \<Rightarrow> js_value list \<Rightarrow> nat \<Rightarrow> key_part list \<Rightarrow> (key_part list \<times> js_value) list"
  and member_paths :: "(js_value \<Rightarrow> string) \<Rightarrow> members \<Rightarrow> key_part list \<Rightarrow> (key_part list \<times> js_value) list" where
  "child_paths str (Func f) path = []"
| "child_paths str (Arr a vs) path = array_paths str vs 0 path"
| "child_paths str (Obj a cls ps) path =
     (if isValidElement (Obj a cls ps) then child_at str (Obj a cls ps) path else member_paths str ps path)"
| "child_paths str (Fragment a ps) path =
     (if isValidElement (Fragment a ps) then child_at str (Fragment a ps) path else member_paths str ps path)"
| "child_paths str Undefined path = child_at str Null path"
| "child_paths str (Bool b) path = child_at str Null path"
| "child_paths str v path = child_at str v path"
| "array_paths str [] i path = []"
| "array_paths str (v # vs) i path = child_paths str v (path @ [component_part str v i]) @ array_paths str vs (i + 1) path"
| "member_paths str [] path = []"
| "member_paths str ((k, v) # ps) path = child_paths str v (path @ [Explicit k, component_part str v 0]) @ member_paths str ps path"

definition named :: "calls \<Rightarrow> (key_part list \<times> js_value) list \<Rightarrow> nat \<Rightarrow> bool" where
  "named calls paths index \<longleftrightarrow> map (\<lambda>(name, c, i). (name, c)) calls = map (\<lambda>(p, c). (name_of p, c)) paths \<and>
     map (\<lambda>(name, c, i). i) calls = [index..<index + length calls]"

lemma named_append:
  assumes "named xs ps i" "named ys qs (i + length xs)"
  shows "named (xs @ ys) (ps @ qs) i"
proof -
  have "[i..<i + length (xs @ ys)] = [i..<i + length xs] @ [i + length xs..<i + length xs + length ys]"
    by (metis add.assoc le_add1 length_append upt_add_eq_append)
  then show ?thesis using assms by (simp add: named_def)
qed

lemma named_one: "one_child str v (name_of path) index = Some (calls, n) \<Longrightarrow> named calls (child_at str v path) index \<and> n = length calls"
  by (auto simp: one_child_def child_at_def named_def getComponentKey_part name_of_def SEPARATOR_def)

lemma traverse_named:
  "traverseAllChildrenImpl str v (name_of path) index = Some (calls, n) \<Longrightarrow>
    named calls (child_paths str v path) index \<and> n = length calls"
  "traverse_array str vs i (name_of path) index cnt = Some (calls, n) \<Longrightarrow>
    named calls (array_paths str vs i path) (index + cnt) \<and> n = cnt + length calls"
  "traverse_members str ps (name_of path) index cnt = Some (calls, n) \<Longrightarrow>
    named calls (member_paths str ps path) (index + cnt) \<and> n = cnt + length calls"
proof (induction str v path and str vs i path and str ps path arbitrary: index calls n and index cnt calls n and index cnt calls n
    rule: child_paths_array_paths_member_paths.induct)
  case (2 str a vs path)
  then show ?case using "2.IH" [of index 0] by simp
next
  case (3 str a cls ps path)
  then show ?case using named_one "3.IH" [of index 0] by (auto split: if_splits)
next
  case (4 str a ps path)
  then show ?case using named_one "4.IH" [of index 0] by (auto split: if_splits)
next
  case (9 str v vs i path)
  let ?p = "path @ [component_part str v i]"
  have name: "next_name (name_of path) (getComponentKey str v i) = name_of ?p"
    by (simp only: getComponentKey_part next_name_of)
  obtain xs k where x: "traverseAllChildrenImpl str v (name_of ?p) (index + cnt) = Some (xs, k)"
    using "9.prems" by (auto simp: name split: option.splits)
  then obtain ys l where y: "traverse_array str vs (i + 1) (name_of path) index (cnt + k) = Some (ys, l)"
    using "9.prems" by (auto simp: name)
  have "calls = xs @ ys" "n = l" using "9.prems" x y by (simp_all add: name)
  moreover have "named xs (child_paths str v ?p) (index + cnt) \<and> k = length xs" by (rule "9.IH"(1) [OF x])
  moreover have "named ys (array_paths str vs (i + 1) path) (index + (cnt + k)) \<and> l = cnt + k + length ys" by (rule "9.IH"(2) [OF y])
  ultimately show ?case using named_append [of xs _ "index + cnt" ys] by (simp add: add.assoc)
next
  case (11 str key v ps path)
  let ?p = "path @ [Explicit key, component_part str v 0]"
  have name: "next_name (name_of path) (wrapUserProvidedKey key @ SUBSEPARATOR @ getComponentKey str v 0) = name_of ?p"
    by (simp only: getComponentKey_part next_name_of_member)
  obtain xs k where x: "traverseAllChildrenImpl str v (name_of ?p) (index + cnt) = Some (xs, k)"
    using "11.prems" by (auto simp: name split: option.splits)
  then obtain ys l where y: "traverse_members str ps (name_of path) index (cnt + k) = Some (ys, l)"
    using "11.prems" by (auto simp: name)
  have "calls = xs @ ys" "n = l" using "11.prems" x y by (simp_all add: name)
  moreover have "named xs (child_paths str v ?p) (index + cnt) \<and> k = length xs" by (rule "11.IH"(1) [OF x])
  moreover have "named ys (member_paths str ps path) (index + (cnt + k)) \<and> l = cnt + k + length ys" by (rule "11.IH"(2) [OF y])
  ultimately show ?case using named_append [of xs _ "index + cnt" ys] by (simp add: add.assoc)
qed (use named_one in \<open>auto simp: named_def\<close>)

section \<open>Distinct keys, distinct names\<close>

text \<open>Among the entries of every array the explicit keys are distinct, and so are the members of every object.\<close>

fun keys_ok :: "(js_value \<Rightarrow> string) \<Rightarrow> js_value \<Rightarrow> bool" where
  "keys_ok str (Arr a vs) = (distinct (List.map_filter (explicit_key str) vs) \<and> (\<forall>v \<in> set vs. keys_ok str v))"
| "keys_ok str (Obj a cls ps) =
     (isValidElement (Obj a cls ps) \<or> distinct (map fst ps) \<and> (\<forall>nv \<in> set ps. keys_ok str (snd nv)))"
| "keys_ok str (Fragment a ps) =
     (isValidElement (Fragment a ps) \<or> distinct (map fst ps) \<and> (\<forall>nv \<in> set ps. keys_ok str (snd nv)))"
| "keys_ok str v = True"

fun entry_parts :: "(js_value \<Rightarrow> string) \<Rightarrow> js_value list \<Rightarrow> nat \<Rightarrow> key_part list" where
  "entry_parts str [] i = []"
| "entry_parts str (v # vs) i = component_part str v i # entry_parts str vs (i + 1)"

lemma entry_parts_in:
  "Explicit k \<in> set (entry_parts str vs i) \<Longrightarrow> k \<in> set (List.map_filter (explicit_key str) vs)"
  "Index j \<in> set (entry_parts str vs i) \<Longrightarrow> i \<le> j"
  by (induction vs arbitrary: i) (fastforce simp: component_part_def List.map_filter_simps split: option.splits)+

lemma distinct_entry_parts: "distinct (List.map_filter (explicit_key str) vs) \<Longrightarrow> distinct (entry_parts str vs i)"
proof (induction vs arbitrary: i)
  case (Cons v vs)
  have "component_part str v i \<notin> set (entry_parts str vs (i + 1))"
    using Cons.prems entry_parts_in [of _ str vs "i + 1"]
    by (fastforce simp: component_part_def List.map_filter_simps split: option.splits)
  with Cons show ?case by (auto simp: List.map_filter_simps split: option.splits)
qed simp

lemma paths_extend:
  "pv \<in> set (child_paths str v path) \<Longrightarrow> path \<noteq> [] \<Longrightarrow> prefix path (fst pv)"
  "pv \<in> set (array_paths str vs i path) \<Longrightarrow> \<exists>q \<in> set (entry_parts str vs i). prefix (path @ [q]) (fst pv)"
  "pv \<in> set (member_paths str ps path) \<Longrightarrow> \<exists>n \<in> fst ` set ps. prefix (path @ [Explicit n]) (fst pv)"
proof (induction str v path and str vs i path and str ps path arbitrary: pv and pv and pv
    rule: child_paths_array_paths_member_paths.induct)
  case (2 str a vs path)
  then obtain q where "prefix (path @ [q]) (fst pv)" by fastforce
  then show ?case by (rule append_prefixD)
next
  case (3 str a cls ps path)
  show ?case
  proof (cases "isValidElement (Obj a cls ps)")
    case False
    then obtain m where "prefix (path @ [Explicit m]) (fst pv)" using 3 by fastforce
    then show ?thesis by (rule append_prefixD)
  qed (use 3 in \<open>simp add: child_at_def\<close>)
next
  case (4 str a ps path)
  show ?case
  proof (cases "isValidElement (Fragment a ps)")
    case False
    then obtain m where "prefix (path @ [Explicit m]) (fst pv)" using 4 by fastforce
    then show ?thesis by (rule append_prefixD)
  qed (use 4 in \<open>simp add: child_at_def\<close>)
next
  case (9 str v vs i path)
  then show ?case by fastforce
next
  case (11 str k v ps path)
  have "prefix (path @ [Explicit k]) (fst pv)" if "pv \<in> set (child_paths str v (path @ [Explicit k, component_part str v 0]))"
    using "11.IH"(1) [OF that] append_prefixD [of "path @ [Explicit k]" "[component_part str v 0]" "fst pv"] by simp
  moreover have "\<exists>n \<in> fst ` set ps. prefix (path @ [Explicit n]) (fst pv)" if "pv \<in> set (member_paths str ps path)"
    using that by (rule "11.IH"(2))
  ultimately show ?case using "11.prems" unfolding member_paths.simps set_append list.set image_insert fst_conv by blast
qed (auto simp: child_at_def)

lemma same_extension: "prefix (path @ [q]) p \<Longrightarrow> prefix (path @ [r]) p \<Longrightarrow> q = r"
  by (auto simp: prefix_def)

lemma paths_distinct:
  "keys_ok str v \<Longrightarrow> distinct (map fst (child_paths str v path))"
  "\<forall>v \<in> set vs. keys_ok str v \<Longrightarrow> distinct (entry_parts str vs i) \<Longrightarrow> distinct (map fst (array_paths str vs i path))"
  "\<forall>nv \<in> set ps. keys_ok str (snd nv) \<Longrightarrow> distinct (map fst ps) \<Longrightarrow> distinct (map fst (member_paths str ps path))"
proof (induction str v path and str vs i path and str ps path rule: child_paths_array_paths_member_paths.induct)
  case (2 str a vs path)
  then show ?case by (simp add: distinct_entry_parts)
next
  case (3 str a cls ps path)
  then show ?case by (auto simp: child_at_def)
next
  case (4 str a ps path)
  then show ?case by (auto simp: child_at_def)
next
  case (9 str v vs i path)
  let ?q = "component_part str v i"
  have "False" if x: "x \<in> set (child_paths str v (path @ [?q]))" and y: "y \<in> set (array_paths str vs (i + 1) path)" "fst x = fst y" for x y
  proof -
    obtain r where r: "r \<in> set (entry_parts str vs (i + 1))" "prefix (path @ [r]) (fst y)" using paths_extend(2) [OF y(1)] by blast
    have "prefix (path @ [?q]) (fst y)" using paths_extend(1) [OF x] y(2) by simp
    from same_extension [OF this r(2)] show False using r(1) "9.prems"(2) by simp
  qed
  then have "fst ` set (child_paths str v (path @ [?q])) \<inter> fst ` set (array_paths str vs (i + 1) path) = {}" by blast
  moreover have "distinct (map fst (child_paths str v (path @ [?q])))" using "9.IH"(1) "9.prems"(1) by simp
  moreover have "distinct (map fst (array_paths str vs (i + 1) path))" using "9.IH"(2) "9.prems" by simp
  ultimately show ?case by simp
next
  case (11 str k v ps path)
  let ?q = "path @ [Explicit k, component_part str v 0]"
  have "False" if x: "x \<in> set (child_paths str v ?q)" and y: "y \<in> set (member_paths str ps path)" "fst x = fst y" for x y
  proof -
    obtain n where n: "n \<in> fst ` set ps" "prefix (path @ [Explicit n]) (fst y)" using paths_extend(3) [OF y(1)] by blast
    have "prefix (path @ [Explicit k]) (fst y)"
      using paths_extend(1) [OF x] y(2) append_prefixD [of "path @ [Explicit k]" "[component_part str v 0]" "fst y"] by simp
    from same_extension [OF this n(2)] show False using n(1) "11.prems"(2) by auto
  qed
  then have "fst ` set (child_paths str v ?q) \<inter> fst ` set (member_paths str ps path) = {}" by blast
  moreover have "distinct (map fst (child_paths str v ?q))" using "11.IH"(1) "11.prems"(1) by simp
  moreover have "distinct (map fst (member_paths str ps path))" using "11.IH"(2) "11.prems" by simp
  ultimately show ?case by simp
qed (simp_all add: child_at_def)

lemma paths_nonempty:
  "(p, c) \<in> set (child_paths str v path) \<Longrightarrow> p \<noteq> []"
  "(p, c) \<in> set (array_paths str vs i path) \<Longrightarrow> p \<noteq> []"
  "(p, c) \<in> set (member_paths str ps path) \<Longrightarrow> p \<noteq> []"
  by (induction str v path and str vs i path and str ps path rule: child_paths_array_paths_member_paths.induct)
    (auto simp: child_at_def split: if_splits)

section \<open>The properties of names\<close>

text \<open>
  C27. Names. The name of a child begins with a dot, holds no other one, and is not empty otherwise, so that it is one
  level of an id; and two children have the same name only if they have the same path of keys, since explicit keys are
  escaped and marked and cannot be taken for indices.
\<close>
theorem names_tell_paths:
  assumes "traverseAllChildren str v = Some (calls, n)"
  shows "\<exists>paths. map fst calls = map name_of paths \<and> (v \<noteq> Undefined \<and> v \<noteq> Null \<longrightarrow> paths = map fst (child_paths str v [])) \<and>
    (\<forall>p q. name_of p = name_of q \<longrightarrow> p = q) \<and>
    (\<forall>name \<in> set (map fst calls). \<exists>m. name = CHR ''.'' # m \<and> name_ok m)"
proof (cases "nullish v")
  case True
  then have "calls = []" using assms by (simp add: traverseAllChildren_def)
  moreover have "v = Undefined \<or> v = Null" using True by (simp add: nullish_def)
  ultimately show ?thesis using name_of_inject by (intro exI [of _ "[]"]) auto
next
  case False
  let ?paths = "map fst (child_paths str v [])"
  have "named calls (child_paths str v []) 0"
    using traverse_named(1) [of str v "[]" 0 calls n] assms False by (simp add: traverseAllChildren_def name_of_def)
  then have "map fst (map (\<lambda>(name, c, i). (name, c)) calls) = map fst (map (\<lambda>(p, c). (name_of p, c)) (child_paths str v []))"
    by (simp only: named_def)
  then have names: "map fst calls = map name_of ?paths" by (simp add: comp_def case_prod_unfold)
  have "p \<noteq> []" if "p \<in> set ?paths" for p
    using that paths_nonempty(1) [of p _ str v "[]"] by fastforce
  then have "\<forall>name \<in> set (map fst calls). \<exists>m. name = CHR ''.'' # m \<and> name_ok m"
    using name_of_ok unfolding names by auto
  then show ?thesis using names name_of_inject by (intro exI [of _ ?paths]) blast
qed

theorem names_tell_paths_witness:
  "map fst (fst (the (traverseAllChildren (\<lambda>v. '''') (Arr 7 [Elt 2 (Str ''li'') (Some ''a.b'') Null None []])))) = [''.$a=1b''] \<and>
   (\<exists>m. ''.$a=1b'' = CHR ''.'' # m \<and> name_ok m)"
proof -
  let ?v = "Arr 7 [Elt 2 (Str ''li'') (Some ''a.b'') Null None []]"
  have t: "traverseAllChildren (\<lambda>v. '''') ?v = Some ([(''.$a=1b'', Elt 2 (Str ''li'') (Some ''a.b'') Null None [], 0)], 1)"
    by (simp add: traverseAllChildren_def nullish_def next_name_def SEPARATOR_def one_child_def getComponentKey_def
        wrapUserProvidedKey_def userProvidedKeyEscaper_def)
  show ?thesis using names_tell_paths [OF t] by (simp add: t)
qed

lemma flatten_distinct:
  assumes "distinct (map fst calls)" "fst ` set calls \<inter> fst ` set result = {}"
  shows "fold flattenSingleChildIntoContext calls (result, warned) =
    (result @ map (\<lambda>(name, c, i). (name, c)) (filter (\<lambda>(name, c, i). \<not> nullish c) calls), warned)"
  using assms
proof (induction calls arbitrary: result)
  case (Cons call calls)
  obtain name c i where call: "call = (name, c, i)" by (cases call)
  have new: "name \<notin> fst ` set result" using Cons.prems(2) by (auto simp: call)
  then have put: "js_put name c result = result @ [(name, c)]" by (intro js_put_new) (simp add: map_of_eq_None_iff)
  let ?r = "if nullish c then result else result @ [(name, c)]"
  have "fold flattenSingleChildIntoContext (call # calls) (result, warned) = fold flattenSingleChildIntoContext calls (?r, warned)"
    using new put by (simp add: call flattenSingleChildIntoContext_def)
  also have "\<dots> = (?r @ map (\<lambda>(name, c, i). (name, c)) (filter (\<lambda>(name, c, i). \<not> nullish c) calls), warned)"
    using Cons.prems by (intro Cons.IH) (auto simp: call)
  finally show ?case by (simp add: call)
qed simp

text \<open>
  Flattening. When the explicit keys in every array are distinct, no child is lost: the result has all children that
  are not \<open>null\<close>, in order, under distinct names, and there is no warning.
\<close>
theorem flattenChildren_keeps_all:
  assumes "traverseAllChildren str v = Some (calls, n)" "\<not> nullish v" "keys_ok str v"
  shows "flattenChildren str v =
      Some (Inr (map (\<lambda>(name, c, i). (name, c)) (filter (\<lambda>(name, c, i). \<not> nullish c) calls), [])) \<and>
    distinct (map fst calls) \<and> n = length calls"
proof -
  have N: "named calls (child_paths str v []) 0" "n = length calls"
    using traverse_named(1) [of str v "[]" 0 calls n] assms(1,2) by (simp_all add: traverseAllChildren_def name_of_def)
  then have "map fst (map (\<lambda>(name, c, i). (name, c)) calls) = map fst (map (\<lambda>(p, c). (name_of p, c)) (child_paths str v []))"
    by (simp only: named_def)
  then have "map fst calls = map name_of (map fst (child_paths str v []))" by (simp add: comp_def case_prod_unfold)
  moreover have "distinct (map name_of (map fst (child_paths str v [])))"
    using paths_distinct(1) [OF assms(3), of "[]"] name_of_inject
    unfolding distinct_map [of name_of] by (simp add: inj_on_def)
  ultimately have d: "distinct (map fst calls)" by simp
  show ?thesis
    using flatten_distinct [OF d, of "[]" "[]"] assms(1,2) d N(2) by (simp add: flattenChildren_def)
qed

theorem flattenChildren_keeps_all_witness:
  "flattenChildren (\<lambda>v. '''') (Arr 7 [Elt 2 (Str ''li'') (Some ''k'') Null None [], Null, Str ''x'']) =
    Some (Inr ([(''.$k'', Elt 2 (Str ''li'') (Some ''k'') Null None []), (''.2'', Str ''x'')], []))"
proof -
  let ?v = "Arr 7 [Elt 2 (Str ''li'') (Some ''k'') Null None [], Null, Str ''x'']"
  have t: "traverseAllChildren (\<lambda>v. '''') ?v =
      Some ([(''.$k'', Elt 2 (Str ''li'') (Some ''k'') Null None [], 0), (''.1'', Null, 1), (''.2'', Str ''x'', 2)], 3)"
    by (simp add: traverseAllChildren_def nullish_def next_name_def SEPARATOR_def one_child_def getComponentKey_def
        wrapUserProvidedKey_def userProvidedKeyEscaper_def base36.simps digit36_def char_of_def bit_0)
  show ?thesis
    using flattenChildren_keeps_all [OF t] by (simp add: nullish_def List.map_filter_simps)
qed

text \<open>Mapping visits every child once, in order, when the keys are distinct.\<close>

lemma map_distinct:
  assumes "distinct (map fst calls)" "fst ` set calls \<inter> fst ` set result = {}"
  shows "snd (fold (mapSingleChildIntoContext f) calls (result, s)) = fold (\<lambda>(name, c, i) s. snd (f c i s)) calls s \<and>
    map fst (fst (fold (mapSingleChildIntoContext f) calls (result, s))) = map fst result @ map fst calls"
  using assms
proof (induction calls arbitrary: result s)
  case (Cons call calls)
  obtain name c i where call: "call = (name, c, i)" by (cases call)
  obtain x s' where f: "f c i s = (x, s')" by (cases "f c i s")
  have new: "name \<notin> fst ` set result" using Cons.prems(2) by (auto simp: call)
  then have put: "js_put name x result = result @ [(name, x)]" by (intro js_put_new) (simp add: map_of_eq_None_iff)
  have "mapSingleChildIntoContext f call (result, s) = (result @ [(name, x)], s')"
    using new put f by (simp add: call mapSingleChildIntoContext_def)
  moreover have "fst ` set calls \<inter> fst ` set (result @ [(name, x)]) = {}" using Cons.prems by (auto simp: call)
  ultimately show ?case using Cons.IH [of "result @ [(name, x)]" s'] Cons.prems(1) f by (simp add: call)
qed simp

end
