(* ===== verification/ReactPropTypes.thy ===== *)
theory ReactPropTypes
  imports ReactElements
begin

text \<open>
  The types that a class declares for its properties, and their checkers (\<open>ReactPropTypes\<close> in
  \<open>webfiles/react.js\<close>). A checker is a function of an object, the name of one of its properties, the name of the
  component and the location; checkers that the program brings itself may return anything. An error is the
  template of its message with the parts that are filled in. The members of an element as an object are left out.
\<close>

section \<open>Types of values\<close>

datatype prop_key = Name string | At nat

fun own_members :: "js_value \<Rightarrow> members" where
  "own_members (Obj a cls ps) = ps"
| "own_members (Fragment a ps) = ps"
| "own_members v = []"

text \<open>\<open>props[propName]\<close>\<close>

fun prop_of :: "js_value \<Rightarrow> prop_key \<Rightarrow> js_value" where
  "prop_of (Arr a vs) (At i) = (if i < length vs then vs ! i else Undefined)"
| "prop_of v (Name n) = get_member (own_members v) n"
| "prop_of v (At i) = Undefined"

fun instance_of :: "js_value \<Rightarrow> string \<Rightarrow> bool" where
  "instance_of (Obj a cls ps) c = (c \<in> set cls \<or> c = ''Object'')"
| "instance_of (Arr a vs) c = (c = ''Array'' \<or> c = ''Object'')"
| "instance_of (Func a) c = (c = ''Function'' \<or> c = ''Object'')"
| "instance_of (Fragment a ps) c = (c = ''Object'')"
| "instance_of (Elt a t k r w ps) c = (c = ''ReactElement'' \<or> c = ''Object'')"
| "instance_of v c = False"

definition getPropType :: "js_value \<Rightarrow> string" where
  "getPropType v = (if isArray v then ''array'' else if instance_of v ''RegExp'' then ''object'' else typeof v)"

definition getPreciseType :: "js_value \<Rightarrow> string" where
  "getPreciseType v =
     (if getPropType v = ''object'' then
        (if instance_of v ''Date'' then ''date'' else if instance_of v ''RegExp'' then ''regexp'' else getPropType v)
      else getPropType v)"

fun isNode :: "js_value \<Rightarrow> bool" where
  "isNode (Func f) = False"
| "isNode (Bool b) = (\<not> b)"
| "isNode (Arr a vs) = list_all isNode vs"
| "isNode (Obj a cls ps) = (isValidElement (Obj a cls ps) \<or> list_all (\<lambda>nv. isNode (snd nv)) ps)"
| "isNode (Fragment a ps) = (isValidElement (Fragment a ps) \<or> list_all (\<lambda>nv. isNode (snd nv)) ps)"
| "isNode v = True"

section \<open>Checkers\<close>

datatype type_error =
    Required string prop_key string
  | WrongType string prop_key string string string
  | NoArray string prop_key string string
  | NoElement string prop_key string
  | NoInstance string prop_key string string
  | NoneOf string prop_key js_value string "js_value list"
  | NoObject string prop_key string string
  | NoFit string prop_key string
  | NoNode string prop_key string
  | NoShape string prop_key string string
  | CustomError string

text \<open>What a checker returns: \<open>null\<close> or \<open>undefined\<close>; an error; something else that is or is not truthy.\<close>

datatype verdict = Ok | Err type_error | Other bool

type_synonym validator = "js_value \<Rightarrow> prop_key \<Rightarrow> string \<Rightarrow> string \<Rightarrow> verdict"
type_synonym checker = "js_value \<Rightarrow> prop_key \<Rightarrow> string option \<Rightarrow> string \<Rightarrow> verdict"

definition ANONYMOUS :: string where
  "ANONYMOUS = ''<<anonymous>>''"

definition ReactPropTypeLocationNames :: "(string \<times> string) list" where
  "ReactPropTypeLocationNames = [(''prop'', ''prop''), (''context'', ''context''), (''childContext'', ''child context'')]"

definition location_name :: "string \<Rightarrow> string" where
  "location_name location = (case map_of ReactPropTypeLocationNames location of Some n \<Rightarrow> n | None \<Rightarrow> ''undefined'')"

text \<open>\<open>componentName || ANONYMOUS\<close>\<close>

definition component_name :: "string option \<Rightarrow> string" where
  "component_name c = (case c of None \<Rightarrow> ANONYMOUS | Some n \<Rightarrow> if n = '''' then ANONYMOUS else n)"

definition createChainableTypeChecker :: "validator \<Rightarrow> bool \<Rightarrow> checker" where
  "createChainableTypeChecker validate isRequired props propName componentName location =
     (if nullish (prop_of props propName) then
        (if isRequired then Err (Required (location_name location) propName (component_name componentName)) else Ok)
      else validate props propName (component_name componentName) location)"

definition createPrimitiveTypeChecker :: "string \<Rightarrow> validator" where
  "createPrimitiveTypeChecker expectedType props propName componentName location =
     (if getPropType (prop_of props propName) \<noteq> expectedType then
        Err (WrongType (location_name location) propName (getPreciseType (prop_of props propName)) componentName expectedType)
      else Ok)"

definition createAnyTypeChecker :: validator where
  "createAnyTypeChecker props propName componentName location = Ok"

text \<open>The first error among the members; other results do not count.\<close>

fun first_error :: "checker \<Rightarrow> js_value \<Rightarrow> prop_key list \<Rightarrow> string \<Rightarrow> string \<Rightarrow> verdict" where
  "first_error typeChecker v [] componentName location = Ok"
| "first_error typeChecker v (k # ks) componentName location =
     (case typeChecker v k (Some componentName) location of
        Err e \<Rightarrow> Err e
      | _ \<Rightarrow> first_error typeChecker v ks componentName location)"

definition createArrayOfTypeChecker :: "checker \<Rightarrow> validator" where
  "createArrayOfTypeChecker typeChecker props propName componentName location =
     (case prop_of props propName of
        Arr a vs \<Rightarrow> first_error typeChecker (Arr a vs) (map At [0..<length vs]) componentName location
      | v \<Rightarrow> Err (NoArray (location_name location) propName (getPropType v) componentName))"

definition createElementTypeChecker :: validator where
  "createElementTypeChecker props propName componentName location =
     (if \<not> isValidElement (prop_of props propName) then Err (NoElement (location_name location) propName componentName) else Ok)"

definition createInstanceTypeChecker :: "string \<Rightarrow> validator" where
  "createInstanceTypeChecker expectedClass props propName componentName location =
     (if \<not> instance_of (prop_of props propName) expectedClass
      then Err (NoInstance (location_name location) propName componentName (if expectedClass = '''' then ANONYMOUS else expectedClass))
      else Ok)"

fun any_equal :: "js_value \<Rightarrow> js_value list \<Rightarrow> bool" where
  "any_equal v [] = False"
| "any_equal v (x # xs) = (strict_eq v x \<or> any_equal v xs)"

definition createEnumTypeChecker :: "js_value list \<Rightarrow> validator" where
  "createEnumTypeChecker expectedValues props propName componentName location =
     (if any_equal (prop_of props propName) expectedValues then Ok
      else Err (NoneOf (location_name location) propName (prop_of props propName) componentName expectedValues))"

definition createObjectOfTypeChecker :: "checker \<Rightarrow> validator" where
  "createObjectOfTypeChecker typeChecker props propName componentName location =
     (let propValue = prop_of props propName
      in if getPropType propValue \<noteq> ''object''
         then Err (NoObject (location_name location) propName (getPropType propValue) componentName)
         else first_error typeChecker propValue (map (\<lambda>nv. Name (fst nv)) (own_members propValue)) componentName location)"

fun some_fits :: "checker list \<Rightarrow> checker" where
  "some_fits [] props propName componentName location = Other True"
| "some_fits (c # cs) props propName componentName location =
     (if c props propName componentName location = Ok then Ok else some_fits cs props propName componentName location)"

definition createUnionTypeChecker :: "checker list \<Rightarrow> validator" where
  "createUnionTypeChecker arrayOfTypeCheckers props propName componentName location =
     (if some_fits arrayOfTypeCheckers props propName (Some componentName) location = Ok then Ok
      else Err (NoFit (location_name location) propName componentName))"

definition createNodeChecker :: validator where
  "createNodeChecker props propName componentName location =
     (if \<not> isNode (prop_of props propName) then Err (NoNode (location_name location) propName componentName) else Ok)"

text \<open>The loop over the shape; a missing checker is skipped, any truthy result is returned.\<close>

fun shape_errors :: "(string \<times> checker option) list \<Rightarrow> js_value \<Rightarrow> string \<Rightarrow> string \<Rightarrow> verdict" where
  "shape_errors [] v componentName location = Ok"
| "shape_errors ((key, checker) # ks) v componentName location =
     (case checker of
        None \<Rightarrow> shape_errors ks v componentName location
      | Some c \<Rightarrow>
          (case c v (Name key) (Some componentName) location of
             Err e \<Rightarrow> Err e
           | Other True \<Rightarrow> Other True
           | _ \<Rightarrow> shape_errors ks v componentName location))"

definition createShapeTypeChecker :: "(string \<times> checker option) list \<Rightarrow> validator" where
  "createShapeTypeChecker shapeTypes props propName componentName location =
     (let propValue = prop_of props propName
      in if getPropType propValue \<noteq> ''object''
         then Err (NoShape (location_name location) propName (getPropType propValue) componentName)
         else shape_errors shapeTypes propValue componentName location)"

section \<open>Declarations\<close>

text \<open>
  The declarations that can be written with \<open>ReactPropTypes\<close>. The flag with every type tells whether it is
  used with \<open>isRequired\<close>.
\<close>

datatype prop_type = Primitive string | Any | ArrayOf bool prop_type | AnElement | InstanceOf string | ANode
  | ObjectOf bool prop_type | OneOf "js_value list" | OneOfType "(bool \<times> prop_type) list" | Shape "(string \<times> bool \<times> prop_type) list"

text \<open>The values that have a declared type.\<close>

fun of_type :: "prop_type \<Rightarrow> js_value \<Rightarrow> bool"
  and any_of_types :: "(bool \<times> prop_type) list \<Rightarrow> js_value \<Rightarrow> bool"
  and of_shape :: "(string \<times> bool \<times> prop_type) list \<Rightarrow> js_value \<Rightarrow> bool" where
  "of_type (Primitive p) v = (getPropType v = p)"
| "of_type Any v = True"
| "of_type (ArrayOf r t) v = (case v of Arr a vs \<Rightarrow> (\<forall>x \<in> set vs. if nullish x then \<not> r else of_type t x) | _ \<Rightarrow> False)"
| "of_type AnElement v = isValidElement v"
| "of_type (InstanceOf c) v = instance_of v c"
| "of_type ANode v = isNode v"
| "of_type (ObjectOf r t) v = (getPropType v = ''object'' \<and>
     (\<forall>n \<in> fst ` set (own_members v). if nullish (get_member (own_members v) n) then \<not> r else of_type t (get_member (own_members v) n)))"
| "of_type (OneOf xs) v = (\<exists>x \<in> set xs. strict_eq v x)"
| "of_type (OneOfType ts) v = any_of_types ts v"
| "of_type (Shape ts) v = (getPropType v = ''object'' \<and> of_shape ts v)"
| "any_of_types [] v = False"
| "any_of_types ((r, t) # ts) v = ((if nullish v then \<not> r else of_type t v) \<or> any_of_types ts v)"
| "of_shape [] v = True"
| "of_shape ((n, r, t) # ts) v =
     ((if nullish (get_member (own_members v) n) then \<not> r else of_type t (get_member (own_members v) n)) \<and> of_shape ts v)"

definition has_type :: "bool \<Rightarrow> prop_type \<Rightarrow> js_value \<Rightarrow> bool" where
  "has_type r t v = (if nullish v then \<not> r else of_type t v)"

text \<open>The checker that \<open>ReactPropTypes\<close> makes of a declaration.\<close>

fun checker_of :: "bool \<Rightarrow> prop_type \<Rightarrow> checker"
  and checkers_of :: "(bool \<times> prop_type) list \<Rightarrow> checker list"
  and shape_of :: "(string \<times> bool \<times> prop_type) list \<Rightarrow> (string \<times> checker option) list" where
  "checker_of r (Primitive p) = createChainableTypeChecker (createPrimitiveTypeChecker p) r"
| "checker_of r Any = createChainableTypeChecker createAnyTypeChecker r"
| "checker_of r (ArrayOf r' t) = createChainableTypeChecker (createArrayOfTypeChecker (checker_of r' t)) r"
| "checker_of r AnElement = createChainableTypeChecker createElementTypeChecker r"
| "checker_of r (InstanceOf c) = createChainableTypeChecker (createInstanceTypeChecker c) r"
| "checker_of r ANode = createChainableTypeChecker createNodeChecker r"
| "checker_of r (ObjectOf r' t) = createChainableTypeChecker (createObjectOfTypeChecker (checker_of r' t)) r"
| "checker_of r (OneOf xs) = createChainableTypeChecker (createEnumTypeChecker xs) r"
| "checker_of r (OneOfType ts) = createChainableTypeChecker (createUnionTypeChecker (checkers_of ts)) r"
| "checker_of r (Shape ts) = createChainableTypeChecker (createShapeTypeChecker (shape_of ts)) r"
| "checkers_of [] = []"
| "checkers_of ((r, t) # ts) = checker_of r t # checkers_of ts"
| "shape_of [] = []"
| "shape_of ((n, r, t) # ts) = (n, Some (checker_of r t)) # shape_of ts"

section \<open>Checkers decide types\<close>

text \<open>The location and the component that an error names.\<close>

fun error_parts :: "type_error \<Rightarrow> (string \<times> string) option" where
  "error_parts (Required l k c) = Some (l, c)"
| "error_parts (WrongType l k p c x) = Some (l, c)"
| "error_parts (NoArray l k t c) = Some (l, c)"
| "error_parts (NoElement l k c) = Some (l, c)"
| "error_parts (NoInstance l k c x) = Some (l, c)"
| "error_parts (NoneOf l k v c xs) = Some (l, c)"
| "error_parts (NoObject l k t c) = Some (l, c)"
| "error_parts (NoFit l k c) = Some (l, c)"
| "error_parts (NoNode l k c) = Some (l, c)"
| "error_parts (NoShape l k t c) = Some (l, c)"
| "error_parts (CustomError m) = None"

text \<open>A verdict that is \<open>Ok\<close> exactly if \<open>b\<close>, and an error for the location and the component otherwise.\<close>

definition decides :: "verdict \<Rightarrow> bool \<Rightarrow> string \<Rightarrow> string \<Rightarrow> bool" where
  "decides r b componentName location \<longleftrightarrow>
     (if b then r = Ok else \<exists>e. r = Err e \<and> error_parts e = Some (location_name location, componentName))"

definition validator_ok :: "validator \<Rightarrow> (js_value \<Rightarrow> bool) \<Rightarrow> bool" where
  "validator_ok validate Q \<longleftrightarrow> (\<forall>props k c l. c \<noteq> '''' \<longrightarrow> decides (validate props k c l) (Q (prop_of props k)) c l)"

definition checker_ok :: "checker \<Rightarrow> (js_value \<Rightarrow> bool) \<Rightarrow> bool" where
  "checker_ok checker Q \<longleftrightarrow> (\<forall>props k c l. decides (checker props k c l) (Q (prop_of props k)) (component_name c) l)"

lemma component_name_nonempty [simp]: "component_name c \<noteq> []" "n \<noteq> [] \<Longrightarrow> component_name (Some n) = n"
  by (auto simp: component_name_def ANONYMOUS_def split: option.split)

lemma chain_ok: "validator_ok validate (of_type t) \<Longrightarrow> checker_ok (createChainableTypeChecker validate r) (has_type r t)"
  by (auto simp: checker_ok_def validator_ok_def createChainableTypeChecker_def has_type_def decides_def)

lemma checker_okD: "checker_ok checker Q \<Longrightarrow> c \<noteq> '''' \<Longrightarrow> decides (checker props k (Some c) l) (Q (prop_of props k)) c l"
  unfolding checker_ok_def by (metis component_name_nonempty(2))

lemma first_error_decides:
  assumes "checker_ok checker Q" "c \<noteq> ''''"
  shows "decides (first_error checker v ks c l) (\<forall>k \<in> set ks. Q (prop_of v k)) c l"
proof (induction ks)
  case (Cons k ks)
  then show ?case
    using checker_okD [OF assms, of v k l] by (cases "Q (prop_of v k)") (auto simp: decides_def)
qed (simp add: decides_def)

lemma any_equal_iff: "any_equal v xs \<longleftrightarrow> (\<exists>x \<in> set xs. strict_eq v x)"
  by (induction xs) auto

lemma prop_of_name [simp]: "prop_of v (Name n) = get_member (own_members v) n"
  by (cases v) simp_all

lemma of_type_ObjectOf: "of_type (ObjectOf r t) v =
    (getPropType v = ''object'' \<and> (\<forall>k \<in> set (map (\<lambda>nv. Name (fst nv)) (own_members v)). has_type r t (prop_of v k)))"
  by (simp add: has_type_def)

lemma array_ok:
  assumes "checker_ok checker (has_type r t)"
  shows "validator_ok (createArrayOfTypeChecker checker) (of_type (ArrayOf r t))"
  unfolding validator_ok_def
proof (intro allI impI)
  fix props k and c l :: string
  assume c: "c \<noteq> ''''"
  show "decides (createArrayOfTypeChecker checker props k c l) (of_type (ArrayOf r t) (prop_of props k)) c l"
  proof (cases "prop_of props k")
    case (Arr a vs)
    have "(\<forall>x \<in> set vs. has_type r t x) = (\<forall>k \<in> set (map At [0..<length vs]). has_type r t (prop_of (Arr a vs) k))"
      by (auto simp: all_set_conv_all_nth)
    then show ?thesis
      using first_error_decides [OF assms c, of "Arr a vs" "map At [0..<length vs]" l]
      by (simp add: Arr createArrayOfTypeChecker_def has_type_def)
  qed (auto simp: createArrayOfTypeChecker_def decides_def)
qed

lemma object_ok:
  assumes "checker_ok checker (has_type r t)"
  shows "validator_ok (createObjectOfTypeChecker checker) (of_type (ObjectOf r t))"
  unfolding validator_ok_def
proof (intro allI impI)
  fix props k and c l :: string
  assume c: "c \<noteq> ''''"
  show "decides (createObjectOfTypeChecker checker props k c l) (of_type (ObjectOf r t) (prop_of props k)) c l"
    using first_error_decides [OF assms c, of "prop_of props k" "map (\<lambda>nv. Name (fst nv)) (own_members (prop_of props k))" l]
    unfolding of_type_ObjectOf by (auto simp: createObjectOfTypeChecker_def Let_def decides_def simp del: prop_of_name)
qed

lemma type_checkers_ok:
  "checker_ok (checker_of r t) (has_type r t)"
  "\<forall>props k c l. c \<noteq> '''' \<longrightarrow> (some_fits (checkers_of ts) props k (Some c) l = Ok) = any_of_types ts (prop_of props k)"
  "\<forall>v c l. c \<noteq> '''' \<longrightarrow> decides (shape_errors (shape_of ss) v c l) (of_shape ss v) c l"
proof (induction r t and ts and ss rule: checker_of_checkers_of_shape_of.induct)
  case (3 r r' t)
  then show ?case by (simp only: checker_of.simps) (intro chain_ok array_ok)
next
  case (7 r r' t)
  then show ?case by (simp only: checker_of.simps) (intro chain_ok object_ok)
next
  case (9 r ts)
  have "validator_ok (createUnionTypeChecker (checkers_of ts)) (of_type (OneOfType ts))"
    using 9 by (simp add: validator_ok_def createUnionTypeChecker_def decides_def)
  then show ?case by (simp only: checker_of.simps chain_ok)
next
  case (10 r ts)
  have "validator_ok (createShapeTypeChecker (shape_of ts)) (of_type (Shape ts))"
    using 10 by (auto simp: validator_ok_def createShapeTypeChecker_def decides_def Let_def)
  then show ?case by (simp only: checker_of.simps chain_ok)
next
  case (12 r t ts)
  show ?case
  proof (intro allI impI)
    fix props k and c :: string and l
    assume c: "c \<noteq> ''''"
    have "(checker_of r t props k (Some c) l = Ok) = has_type r t (prop_of props k)"
      using checker_okD [OF "12.IH"(1) c, of props k l] by (auto simp: decides_def split: if_splits)
    then show "(some_fits (checkers_of ((r, t) # ts)) props k (Some c) l = Ok) = any_of_types ((r, t) # ts) (prop_of props k)"
      using "12.IH"(2) c by (simp add: has_type_def)
  qed
next
  case (14 n r t ss)
  show ?case
  proof (intro allI impI)
    fix v and c :: string and l
    assume c: "c \<noteq> ''''"
    show "decides (shape_errors (shape_of ((n, r, t) # ss)) v c l) (of_shape ((n, r, t) # ss) v) c l"
      using checker_okD [OF "14.IH"(1) c, of v "Name n" l] "14.IH"(2) c
      by (cases "has_type r t (get_member (own_members v) n)")
        (auto simp: decides_def has_type_def [symmetric])
  qed
qed (auto intro!: chain_ok simp: validator_ok_def decides_def createPrimitiveTypeChecker_def createAnyTypeChecker_def
    createElementTypeChecker_def createInstanceTypeChecker_def createNodeChecker_def createEnumTypeChecker_def any_equal_iff)

text \<open>
  C28. Declared types. The checker of a declaration accepts a property exactly if its value has the declared type:
  nothing is accepted by mistake in a nested array, object, union or shape, and a missing value only where it is
  not required.
\<close>
theorem prop_type_decided:
  "(checker_of r t props propName componentName location = Ok) = has_type r t (prop_of props propName)"
  using type_checkers_ok(1) [of r t] unfolding checker_ok_def decides_def by (metis verdict.distinct(1))

text \<open>
  Errors of declared types. A value that is not accepted is answered by an error, never by another result, and
  the error names the location and the component that were passed down, wherever in the value it was found.
\<close>
theorem prop_type_error:
  assumes "\<not> has_type r t (prop_of props propName)"
  shows "\<exists>e. checker_of r t props propName componentName location = Err e \<and>
    error_parts e = Some (location_name location, component_name componentName)"
  using type_checkers_ok(1) [of r t] assms unfolding checker_ok_def decides_def by metis

theorem prop_type_error_witness:
  "checker_of False (ArrayOf True (Primitive ''number'')) (Obj 1 [] [(''xs'', Arr 2 [Num 1, Null])]) (Name ''xs'') None ''prop''
    = Err (Required ''prop'' (At 1) ''<<anonymous>>'')"
proof -
  let ?o = "Obj 1 [] [(''xs'', Arr 2 [Num 1, Null])]"
  have "\<not> has_type False (ArrayOf True (Primitive ''number'')) (prop_of ?o (Name ''xs''))"
    by (simp add: has_type_def get_member_def nullish_def)
  from prop_type_error [OF this, of None "''prop''"]
  have "checker_of False (ArrayOf True (Primitive ''number'')) ?o (Name ''xs'') None ''prop'' \<noteq> Ok" by auto
  then show ?thesis
    by (simp add: createChainableTypeChecker_def createArrayOfTypeChecker_def createPrimitiveTypeChecker_def get_member_def
        nullish_def getPropType_def location_name_def ReactPropTypeLocationNames_def component_name_def ANONYMOUS_def)
qed

end
