(* ===== verification/ReactElementValidator.thy ===== *)
theory ReactElementValidator
  imports ReactPropTypes
begin

text \<open>
  The checks when an element is made (\<open>ReactElementValidator\<close> in \<open>webfiles/react.js\<close>): children in arrays need
  keys, and the properties need the declared types. The checks only warn, and keep record of what they have
  warned of. A step returns the new record and the exception it has thrown, if any.

  Parameters (\<open>env\<close>): the current owner and the names of owners, the name and the property types of a type, the
  text of an error, the default properties, and the conversion to strings. Objects with an iterator are left out;
  the strings among them are not, since no character is an element.
\<close>

section \<open>The record and the environment\<close>

datatype react_warning = KeyWarning string string "string option" "string option" | FailedPropType string | NullType

record validation =
  validated :: "nat list"
  ownerHasKeyUseWarning :: "(string \<times> string) list"
  loggedTypeFailures :: "string list"
  warnings :: "react_warning list"

record react_env =
  current_owner :: "nat option"
  owner_name :: "nat \<Rightarrow> string option"
  display_name :: "js_value \<Rightarrow> string option"
  propTypes :: "js_value \<Rightarrow> (string \<times> checker option) list"
  error_message :: "type_error \<Rightarrow> string"
  default_props :: "js_value \<Rightarrow> members option"
  to_str :: "js_value \<Rightarrow> string"

definition no_warnings :: validation where
  "no_warnings = \<lparr>validated = [], ownerHasKeyUseWarning = [], loggedTypeFailures = [], warnings = []\<rparr>"

definition warn :: "react_warning \<Rightarrow> validation \<Rightarrow> validation" where
  "warn w v = v\<lparr>warnings := warnings v @ [w]\<rparr>"

section \<open>Keys\<close>

definition getCurrentOwnerDisplayName :: "react_env \<Rightarrow> string option" where
  "getCurrentOwnerDisplayName env =
     (case current_owner env of None \<Rightarrow> None
      | Some w \<Rightarrow> (case owner_name env w of Some n \<Rightarrow> if n = '''' then None else Some n | None \<Rightarrow> None))"

text \<open>The name of a type; \<open>null\<close> and \<open>undefined\<close> have no members, so that the access throws.\<close>

definition parent_name :: "react_env \<Rightarrow> js_value \<Rightarrow> (string option) option" where
  "parent_name env parentType =
     (if nullish parentType then None else case parentType of Str s \<Rightarrow> Some (Some s) | t \<Rightarrow> Some (display_name env t))"

text \<open>\<open>ownerName || parentName\<close>, as the name of a member\<close>

definition use_name :: "react_env \<Rightarrow> string option \<Rightarrow> string" where
  "use_name env parentName =
     (case getCurrentOwnerDisplayName env of Some n \<Rightarrow> n
      | None \<Rightarrow> (case parentName of Some p \<Rightarrow> p | None \<Rightarrow> ''undefined''))"

definition warnAndMonitorForKeyUse ::
  "react_env \<Rightarrow> string \<Rightarrow> js_value \<Rightarrow> js_value \<Rightarrow> validation \<Rightarrow> validation \<times> js_error option" where
  "warnAndMonitorForKeyUse env msg element parentType v =
     (case parent_name env parentType of
        None \<Rightarrow> (v, Some TypeError)
      | Some parentName \<Rightarrow>
          (let useName = use_name env parentName
           in if (msg, useName) \<in> set (ownerHasKeyUseWarning v) then (v, None)
              else (warn (KeyWarning msg useName parentName
                       (if el_owner element \<noteq> None \<and> el_owner element \<noteq> current_owner env
                        then owner_name env (the (el_owner element)) else None))
                     (v\<lparr>ownerHasKeyUseWarning := ownerHasKeyUseWarning v @ [(msg, useName)]\<rparr>), None)))"

definition EXPLICIT_KEY :: string where
  "EXPLICIT_KEY = ''Each child in an array or iterator should have a unique \"key\" prop.''"

definition PROPERTY_KEY :: string where
  "PROPERTY_KEY = ''Child objects should have non-numeric keys so ordering is preserved.''"

text \<open>Only elements that React has made have a \<open>_store\<close>; for other objects the access throws.\<close>

fun validateExplicitKey :: "react_env \<Rightarrow> js_value \<Rightarrow> js_value \<Rightarrow> validation \<Rightarrow> validation \<times> js_error option" where
  "validateExplicitKey env (Elt a t k r w ps) parentType v =
     (if a \<in> set (validated v) \<or> k \<noteq> None then (v, None)
      else warnAndMonitorForKeyUse env EXPLICIT_KEY (Elt a t k r w ps) parentType (v\<lparr>validated := validated v @ [a]\<rparr>))"
| "validateExplicitKey env element parentType v = (v, Some TypeError)"

definition numeric_property :: "string \<Rightarrow> bool" where
  "numeric_property name \<longleftrightarrow> name \<noteq> '''' \<and> list_all (\<lambda>c. c \<in> set ''0123456789'') name"

definition validatePropertyKey :: "react_env \<Rightarrow> string \<Rightarrow> js_value \<Rightarrow> js_value \<Rightarrow> validation \<Rightarrow> validation \<times> js_error option" where
  "validatePropertyKey env name element parentType v =
     (if \<not> numeric_property name then (v, None) else warnAndMonitorForKeyUse env PROPERTY_KEY element parentType v)"

text \<open>One step after the other, until one throws.\<close>

fun each_step :: "('x \<Rightarrow> validation \<Rightarrow> validation \<times> js_error option) \<Rightarrow> 'x list \<Rightarrow> validation \<Rightarrow> validation \<times> js_error option" where
  "each_step f [] v = (v, None)"
| "each_step f (x # xs) v = (case f x v of (v1, None) \<Rightarrow> each_step f xs v1 | (v1, Some e) \<Rightarrow> (v1, Some e))"

fun validateChildKeys :: "react_env \<Rightarrow> js_value \<Rightarrow> js_value \<Rightarrow> validation \<Rightarrow> validation \<times> js_error option" where
  "validateChildKeys env (Arr a vs) parentType v =
     each_step (\<lambda>child v. if isValidElement child then validateExplicitKey env child parentType v else (v, None)) vs v"
| "validateChildKeys env (Elt a t k r w ps) parentType v = (v\<lparr>validated := validated v @ [a]\<rparr>, None)"
| "validateChildKeys env (Obj a cls ps) parentType v =
     (if isValidElement (Obj a cls ps) then (v, Some TypeError)
      else each_step (\<lambda>(key, child) v. validatePropertyKey env key child parentType v) ps v)"
| "validateChildKeys env (Fragment a ps) parentType v =
     (if isValidElement (Fragment a ps) then (v, Some TypeError)
      else each_step (\<lambda>(key, child) v. validatePropertyKey env key child parentType v) ps v)"
| "validateChildKeys env node parentType v = (v, None)"

section \<open>Property types\<close>

text \<open>The message when a declared type is no function.\<close>

definition no_function :: "string option \<Rightarrow> string \<Rightarrow> string \<Rightarrow> string" where
  "no_function componentName location propName =
     ''Invariant Violation: '' @ (case componentName of Some n \<Rightarrow> if n = '''' then ''React class'' else n | None \<Rightarrow> ''React class'') @
     '': '' @ location_name location @ '' type `'' @ propName @
     ''` is invalid; it must be a function, usually from React.PropTypes.''"

text \<open>What a checker throws counts as what it returns.\<close>

definition checkPropType :: "react_env \<Rightarrow> string option \<Rightarrow> js_value \<Rightarrow> string \<Rightarrow> string \<times> checker option \<Rightarrow> validation \<Rightarrow> validation" where
  "checkPropType env componentName props location prop v =
     (let error = (case snd prop of None \<Rightarrow> Err (CustomError (no_function componentName location (fst prop)))
          | Some checker \<Rightarrow> checker props (Name (fst prop)) componentName location)
      in case error of
           Err e \<Rightarrow>
             (if error_message env e \<in> set (loggedTypeFailures v) \<or> error_message env e \<in> set object_prototype_keys then v
              else warn (FailedPropType (error_message env e))
                (v\<lparr>loggedTypeFailures := loggedTypeFailures v @ [error_message env e]\<rparr>))
         | _ \<Rightarrow> v)"

definition checkPropTypes ::
  "react_env \<Rightarrow> string option \<Rightarrow> (string \<times> checker option) list \<Rightarrow> js_value \<Rightarrow> string \<Rightarrow> validation \<Rightarrow> validation" where
  "checkPropTypes env componentName types props location v = fold (checkPropType env componentName props location) types v"

definition validatePropTypes :: "react_env \<Rightarrow> js_value \<Rightarrow> validation \<Rightarrow> validation" where
  "validatePropTypes env element v =
     (if nullish (el_type element) then v
      else checkPropTypes env (display_name env (el_type element)) (propTypes env (el_type element))
        (Obj 0 [] (el_props element)) ''prop'' v)"

text \<open>\<open>ReactElementValidator.createElement\<close>\<close>

definition validatedCreateElement ::
  "react_env \<Rightarrow> nat \<Rightarrow> js_value \<Rightarrow> members option \<Rightarrow> js_value list \<Rightarrow> validation \<Rightarrow> (js_value option \<times> validation)" where
  "validatedCreateElement env a type config children v =
     (let v1 = (if nullish type then warn NullType v else v);
          element = createElement (to_str env) (default_props env) (current_owner env) a type config children
      in case each_step (\<lambda>child v. validateChildKeys env child type v) children v1 of
           (v2, None) \<Rightarrow> (Some element, validatePropTypes env element v2)
         | (v2, Some e) \<Rightarrow> (None, v2))"

section \<open>Warnings are not repeated\<close>

definition key_warnings :: "react_warning list \<Rightarrow> (string \<times> string) list" where
  "key_warnings ws = concat (map (\<lambda>w. case w of KeyWarning m u p c \<Rightarrow> [(m, u)] | _ \<Rightarrow> []) ws)"

definition failed_types :: "react_warning list \<Rightarrow> string list" where
  "failed_types ws = concat (map (\<lambda>w. case w of FailedPropType m \<Rightarrow> [m] | _ \<Rightarrow> []) ws)"

lemma warnings_simps [simp]:
  "key_warnings [] = []" "key_warnings (ws @ [KeyWarning m u p c]) = key_warnings ws @ [(m, u)]"
  "key_warnings (ws @ [FailedPropType x]) = key_warnings ws" "key_warnings (ws @ [NullType]) = key_warnings ws"
  "failed_types [] = []" "failed_types (ws @ [KeyWarning m u p c]) = failed_types ws"
  "failed_types (ws @ [FailedPropType x]) = failed_types ws @ [x]" "failed_types (ws @ [NullType]) = failed_types ws"
  by (simp_all add: key_warnings_def failed_types_def)

text \<open>The record is what the warnings say, without repetition.\<close>

definition record_ok :: "validation \<Rightarrow> bool" where
  "record_ok v \<longleftrightarrow> key_warnings (warnings v) = ownerHasKeyUseWarning v \<and> failed_types (warnings v) = loggedTypeFailures v \<and>
     distinct (ownerHasKeyUseWarning v) \<and> distinct (loggedTypeFailures v)"

lemma monitor_ok: "record_ok v \<Longrightarrow> record_ok (fst (warnAndMonitorForKeyUse env m e t v))"
  by (auto simp: warnAndMonitorForKeyUse_def record_ok_def warn_def Let_def split: option.split)

lemma record_ok_validated [simp]: "record_ok (v\<lparr>validated := xs\<rparr>) = record_ok v"
  by (simp add: record_ok_def)

lemma each_step_ok:
  "(\<And>x v. record_ok v \<Longrightarrow> record_ok (fst (f x v))) \<Longrightarrow> record_ok v \<Longrightarrow> record_ok (fst (each_step f xs v))"
proof (induction xs arbitrary: v)
  case (Cons x xs)
  have "record_ok (fst (f x v))" using Cons.prems by blast
  then show ?case using Cons.IH [OF Cons.prems(1)] by (cases "f x v") (auto split: option.split)
qed simp

lemma explicit_ok: "record_ok v \<Longrightarrow> record_ok (fst (validateExplicitKey env e t v))"
  by (cases e) (auto intro!: monitor_ok)

lemma children_record_ok: "record_ok v \<Longrightarrow> record_ok (fst (validateChildKeys env c t v))"
  by (cases c) (auto intro!: each_step_ok explicit_ok monitor_ok simp: validatePropertyKey_def)

lemma prop_types_record_ok: "record_ok v \<Longrightarrow> record_ok (checkPropTypes env n types props l v)"
proof -
  have "record_ok v \<Longrightarrow> record_ok (checkPropType env n props l p v)" for p v
    by (auto simp: checkPropType_def record_ok_def warn_def Let_def split: verdict.split)
  then show "record_ok v \<Longrightarrow> record_ok (checkPropTypes env n types props l v)"
    unfolding checkPropTypes_def by (induction types arbitrary: v) auto
qed

lemma create_record_ok: "record_ok v \<Longrightarrow> record_ok (snd (validatedCreateElement env a type config children v))"
proof -
  assume "record_ok v"
  then have "record_ok (if nullish type then warn NullType v else v)" by (simp add: record_ok_def warn_def)
  then have "record_ok (fst (each_step (\<lambda>child v. validateChildKeys env child type v) children (if nullish type then warn NullType v else v)))"
    by (intro each_step_ok children_record_ok)
  then show ?thesis
    by (auto simp: validatedCreateElement_def validatePropTypes_def Let_def split: prod.split option.split
        intro: prop_types_record_ok)
qed

text \<open>
  C29. No repetition. However many elements are made, with whatever children and properties, no warning about keys is
  given twice for one component or parent, and no failure of a property type is logged twice.
\<close>
theorem warned_once:
  "distinct (key_warnings (warnings (fold (\<lambda>(env, a, type, config, children) v.
      snd (validatedCreateElement env a type config children v)) calls no_warnings))) \<and>
   distinct (failed_types (warnings (fold (\<lambda>(env, a, type, config, children) v.
      snd (validatedCreateElement env a type config children v)) calls no_warnings)))"
proof -
  have "record_ok (fold (\<lambda>(env, a, type, config, children) v. snd (validatedCreateElement env a type config children v)) calls v)"
    if "record_ok v" for v
    using that by (induction calls arbitrary: v) (auto intro: create_record_ok)
  from this [of no_warnings] show ?thesis
    by (simp add: record_ok_def no_warnings_def)
qed

section \<open>Who is warned of missing keys\<close>

text \<open>The elements that React has made without a key and has not validated.\<close>

definition unkeyed :: "nat list \<Rightarrow> js_value list \<Rightarrow> nat list" where
  "unkeyed seen vs = concat (map (\<lambda>v. case v of Elt a t k r w ps \<Rightarrow> if k = None \<and> a \<notin> set seen then [a] else [] | _ \<Rightarrow> []) vs)"

lemma array_keys:
  assumes "validateChildKeys env (Arr b vs) parentType v = (v', None)" "parent_name env parentType = Some p"
  shows "set (validated v') = set (validated v) \<union> set (unkeyed (validated v) vs) \<and>
    set (ownerHasKeyUseWarning v') = set (ownerHasKeyUseWarning v) \<union>
      (if unkeyed (validated v) vs = [] then {} else {(EXPLICIT_KEY, use_name env p)})"
  using assms(1)
proof (induction vs arbitrary: v)
  case Nil
  then show ?case by (simp add: unkeyed_def)
next
  case (Cons c vs)
  have plain: ?case if "validateChildKeys env (Arr b vs) parentType v = (v', None)" "unkeyed (validated v) (c # vs) = unkeyed (validated v) vs"
    using Cons.IH [OF that(1)] that(2) by simp
  show ?case
  proof (cases c)
    case (Elt a t k r w ps)
    show ?thesis
    proof (cases "a \<in> set (validated v) \<or> k \<noteq> None")
      case True
      then show ?thesis using Cons.prems by (intro plain) (auto simp: Elt unkeyed_def)
    next
      case False
      let ?v1 = "fst (warnAndMonitorForKeyUse env EXPLICIT_KEY c parentType (v\<lparr>validated := validated v @ [a]\<rparr>))"
      have v1: "validated ?v1 = validated v @ [a]"
        "set (ownerHasKeyUseWarning ?v1) = insert (EXPLICIT_KEY, use_name env p) (set (ownerHasKeyUseWarning v))"
        "snd (warnAndMonitorForKeyUse env EXPLICIT_KEY c parentType (v\<lparr>validated := validated v @ [a]\<rparr>)) = None"
        using assms(2) by (auto simp: warnAndMonitorForKeyUse_def warn_def Let_def)
      have rest: "validateChildKeys env (Arr b vs) parentType ?v1 = (v', None)"
        using Cons.prems v1(3) False by (auto simp: Elt split: prod.splits option.splits)
      have un: "set (unkeyed (validated v) (c # vs)) = insert a (set (unkeyed (validated v @ [a]) vs))"
      proof -
        have "set (unkeyed seen vs) - {a} = set (unkeyed (seen @ [a]) vs) - {a}" for seen
          by (auto simp: unkeyed_def split: js_value.splits if_splits)
        moreover have "a \<notin> set (unkeyed (validated v @ [a]) vs)"
          by (auto simp: unkeyed_def split: js_value.splits if_splits)
        moreover have "set (unkeyed (validated v) (c # vs)) = insert a (set (unkeyed (validated v) vs))"
          using False by (auto simp: Elt unkeyed_def)
        ultimately show ?thesis by blast
      qed
      then have "unkeyed (validated v) (c # vs) \<noteq> []" by (metis empty_iff empty_set insertI1)
      then show ?thesis using Cons.IH [OF rest] v1 un by auto
    qed
  next
    case (Obj a cls ps)
    then show ?thesis using Cons.prems by (intro plain) (auto simp: unkeyed_def split: if_splits)
  next
    case (Fragment a ps)
    then show ?thesis using Cons.prems by (intro plain) (auto simp: unkeyed_def split: if_splits)
  qed (use Cons.prems in \<open>intro plain; simp add: unkeyed_def\<close>)+
qed

text \<open>
  C30. Missing keys. For an array of children the warning about keys is recorded for the component exactly if an element
  in the array has neither a key nor been validated before, or it was recorded already; the elements count as
  validated from then on.
\<close>
theorem missing_keys_noticed:
  assumes "validateChildKeys env (Arr b vs) parentType v = (v', None)" "parent_name env parentType = Some p"
  shows "((EXPLICIT_KEY, use_name env p) \<in> set (ownerHasKeyUseWarning v')) =
      ((EXPLICIT_KEY, use_name env p) \<in> set (ownerHasKeyUseWarning v) \<or> unkeyed (validated v) vs \<noteq> []) \<and>
    set (unkeyed (validated v) vs) \<subseteq> set (validated v')"
  using array_keys [OF assms] by (simp split: if_splits)

definition sample_env :: react_env where
  "sample_env = \<lparr>current_owner = None, owner_name = \<lambda>w. None, display_name = \<lambda>t. None, propTypes = \<lambda>t. [],
     error_message = \<lambda>e. '''', default_props = \<lambda>t. None, to_str = \<lambda>v. ''''\<rparr>"

theorem missing_keys_noticed_witness:
  "(EXPLICIT_KEY, ''ul'') \<in> set (ownerHasKeyUseWarning
     (fst (validateChildKeys sample_env (Arr 5 [Elt 6 (Str ''li'') None Null None []]) (Str ''ul'') no_warnings)))"
proof -
  let ?r = "validateChildKeys sample_env (Arr 5 [Elt 6 (Str ''li'') None Null None []]) (Str ''ul'') no_warnings"
  have p: "parent_name sample_env (Str ''ul'') = Some (Some ''ul'')" by (simp add: parent_name_def nullish_def)
  have "snd ?r = None" using p by (simp add: warnAndMonitorForKeyUse_def no_warnings_def Let_def)
  then have r: "?r = (fst ?r, None)" by (metis prod.collapse)
  have "unkeyed (validated no_warnings) [Elt 6 (Str ''li'') None Null None []] \<noteq> []" by (simp add: unkeyed_def no_warnings_def)
  moreover have "use_name sample_env (Some ''ul'') = ''ul''" by (simp add: use_name_def getCurrentOwnerDisplayName_def sample_env_def)
  ultimately show ?thesis using missing_keys_noticed [OF r p] by simp
qed

text \<open>
  A type that is \<open>null\<close> is meant to be warned of only; with an array that holds an element without a key, making the
  element throws instead.
\<close>

lemma null_type_throws:
  assumes "unkeyed (validated v) [c] = [a]"
  shows "fst (validatedCreateElement env b Null config [Arr d [c]] v) = None"
proof -
  obtain t r w ps where "c = Elt a t None r w ps" "a \<notin> set (validated v)"
    using assms by (cases c) (auto simp: unkeyed_def split: if_splits)
  then show ?thesis
    by (simp add: validatedCreateElement_def Let_def warnAndMonitorForKeyUse_def parent_name_def nullish_def warn_def)
qed

end
