(* ===== verification/ReactComposite.thy ===== *)
theory ReactComposite
  imports ReactElements
begin

text \<open>
  The internal instance of a composite component, as far as updates are concerned: the fields of
  \<open>ReactCompositeComponent\<close> that hold pending work, what the methods of \<open>ReactUpdateQueue\<close> write into them,
  and \<open>_processPendingState\<close>. The address of an instance is its identity. Contexts and references are left out.

  A partial state is an object (only its own members count) or a function of the state reached so far and the
  next props, which may throw. What such a function sees as \<open>this\<close> is left out.
\<close>

section \<open>The instance\<close>

datatype partial_state =
    Members members
  | Updater "members \<Rightarrow> members \<Rightarrow> string + members"

record composite =
  mountOrder :: nat
  isTopLevel :: bool
  currentElement :: js_value
  pendingElement :: "js_value option"
  pendingStateQueue :: "partial_state list option"
  pendingReplaceState :: bool
  pendingForceUpdate :: bool
  pendingCallbacks :: "nat list option"
  inst_props :: members
  inst_state :: "members option"
  registered :: bool

text \<open>\<open>construct\<close>: the public instance, and so its place in \<open>ReactInstanceMap\<close>, comes with the mounting.\<close>

definition construct :: "js_value \<Rightarrow> composite" where
  "construct element = \<lparr>mountOrder = 0, isTopLevel = False, currentElement = element, pendingElement = None,
     pendingStateQueue = None, pendingReplaceState = False, pendingForceUpdate = False, pendingCallbacks = None,
     inst_props = [], inst_state = None, registered = False\<rparr>"

section \<open>What is written by ReactUpdateQueue\<close>

definition push_partial_state :: "partial_state \<Rightarrow> composite \<Rightarrow> composite" where
  "push_partial_state p c = c\<lparr>pendingStateQueue :=
     Some ((case pendingStateQueue c of Some q \<Rightarrow> q | None \<Rightarrow> []) @ [p])\<rparr>"

definition replace_pending_state :: "members \<Rightarrow> composite \<Rightarrow> composite" where
  "replace_pending_state m c = c\<lparr>pendingStateQueue := Some [Members m], pendingReplaceState := True\<rparr>"

definition push_callback :: "nat \<Rightarrow> composite \<Rightarrow> composite" where
  "push_callback cb c = c\<lparr>pendingCallbacks := Some (case pendingCallbacks c of Some cbs \<Rightarrow> cbs @ [cb] | None \<Rightarrow> [cb])\<rparr>"

text \<open>The element that the next props are merged with, and the two ways to do so; \<open>a\<close> is the new element's address.\<close>

definition next_element :: "composite \<Rightarrow> js_value" where
  "next_element c = (case pendingElement c of Some e \<Rightarrow> e | None \<Rightarrow> currentElement c)"

definition merge_pending_props :: "nat \<Rightarrow> members \<Rightarrow> composite \<Rightarrow> composite" where
  "merge_pending_props a partialProps c = c\<lparr>pendingElement :=
     Some (cloneAndReplaceProps a (next_element c) (js_copy partialProps (js_copy (el_props (next_element c)) [])))\<rparr>"

definition replace_pending_props :: "nat \<Rightarrow> members \<Rightarrow> composite \<Rightarrow> composite" where
  "replace_pending_props a props c = c\<lparr>pendingElement := Some (cloneAndReplaceProps a (next_element c) props)\<rparr>"

section \<open>The next state\<close>

text \<open>\<open>Object.assign({}, state)\<close>; null has no members.\<close>

definition copy_state :: "members option \<Rightarrow> members" where
  "copy_state st = (case st of Some m \<Rightarrow> js_copy m [] | None \<Rightarrow> [])"

definition merge_partial :: "members \<Rightarrow> partial_state \<Rightarrow> members \<Rightarrow> string + members" where
  "merge_partial props p st = (case p of
     Members m \<Rightarrow> Inr (js_copy m st)
   | Updater f \<Rightarrow> (case f st props of Inl e \<Rightarrow> Inl e | Inr m \<Rightarrow> Inr (js_copy m st)))"

fun merge_partials :: "members \<Rightarrow> partial_state list \<Rightarrow> members \<Rightarrow> string + members" where
  "merge_partials props [] st = Inr st"
| "merge_partials props (p # ps) st = (case merge_partial props p st of
     Inl e \<Rightarrow> Inl e
   | Inr st' \<Rightarrow> merge_partials props ps st')"

text \<open>Copying a function copies its own members: it has none.\<close>

definition first_state :: "partial_state list \<Rightarrow> members" where
  "first_state q = (case q of Members m # _ \<Rightarrow> js_copy m [] | _ \<Rightarrow> [])"

definition next_state :: "composite \<Rightarrow> members \<Rightarrow> string + members option" where
  "next_state c props = (case pendingStateQueue c of
     None \<Rightarrow> Inr (inst_state c)
   | Some q \<Rightarrow>
       (case (if pendingReplaceState c then merge_partials props (drop 1 q) (first_state q)
              else merge_partials props q (copy_state (inst_state c))) of
          Inl e \<Rightarrow> Inl e
        | Inr st \<Rightarrow> Inr (Some st)))"

text \<open>The queue and the flag are reset before the queue is gone through.\<close>

definition clear_pending_state :: "composite \<Rightarrow> composite" where
  "clear_pending_state c = c\<lparr>pendingReplaceState := False, pendingStateQueue := None\<rparr>"

definition processPendingState :: "members \<Rightarrow> composite \<Rightarrow> (string + members option) \<times> composite" where
  "processPendingState props c = (next_state c props, clear_pending_state c)"

section \<open>Requests for a new state, applied at once\<close>

datatype state_request = SetTo partial_state | ReplaceBy members

definition request_state :: "state_request \<Rightarrow> composite \<Rightarrow> composite" where
  "request_state r c = (case r of SetTo p \<Rightarrow> push_partial_state p c | ReplaceBy m \<Rightarrow> replace_pending_state m c)"

definition apply_request :: "members \<Rightarrow> state_request \<Rightarrow> members option \<Rightarrow> string + members" where
  "apply_request props r st = (case r of
     SetTo p \<Rightarrow> merge_partial props p (copy_state st)
   | ReplaceBy m \<Rightarrow> Inr (js_copy m []))"

fun apply_requests :: "members \<Rightarrow> state_request list \<Rightarrow> members option \<Rightarrow> string + members option" where
  "apply_requests props [] st = Inr st"
| "apply_requests props (r # rs) st = (case apply_request props r st of
     Inl e \<Rightarrow> Inl e
   | Inr st' \<Rightarrow> apply_requests props rs (Some st'))"

lemma merge_partials_append:
  "merge_partials props (ps @ qs) st = (case merge_partials props ps st of
     Inl e \<Rightarrow> Inl e | Inr st' \<Rightarrow> merge_partials props qs st')"
  by (induction ps arbitrary: st) (auto split: sum.split)

lemma apply_requests_snoc:
  "apply_requests props (rs @ [r]) st = (case apply_requests props rs st of
     Inl e \<Rightarrow> Inl e
   | Inr st' \<Rightarrow> (case apply_request props r st' of Inl e \<Rightarrow> Inl e | Inr st'' \<Rightarrow> Inr (Some st'')))"
  by (induction rs arbitrary: st) (auto split: sum.split)

lemma copy_again: "distinct (map fst m) \<Longrightarrow> js_copy m [] = m"
  using js_copy_same [of "[]" m] by simp

lemma distinct_copy_state: "distinct (map fst (copy_state st))"
  by (cases st) (simp_all add: copy_state_def distinct_js_copy)

lemma distinct_merge_partial:
  "merge_partial props p st = Inr st' \<Longrightarrow> distinct (map fst st) \<Longrightarrow> distinct (map fst st')"
  by (auto simp: merge_partial_def distinct_js_copy split: partial_state.splits sum.splits)

lemma distinct_apply_request: "apply_request props r st = Inr st' \<Longrightarrow> distinct (map fst st')"
  by (auto simp: apply_request_def distinct_js_copy distinct_copy_state dest: distinct_merge_partial split: state_request.splits)

lemma merge_snoc:
  "merge_partials props ps st = Inr st' \<Longrightarrow> merge_partials props (ps @ [p]) st = merge_partial props p st'"
  by (auto simp: merge_partials_append split: sum.split)

text \<open>What is pending after some requests, against the state that they would have led to one by one.\<close>

definition pending_ok :: "composite \<Rightarrow> composite \<Rightarrow> bool" where
  "pending_ok c c' \<longleftrightarrow> inst_state c' = inst_state c \<and> (pendingReplaceState c' \<longrightarrow> (\<exists>q qs. pendingStateQueue c' = Some (q # qs)))"

lemma next_state_requests:
  assumes "pendingStateQueue c = None" "\<not> pendingReplaceState c"
    "apply_requests props rs (inst_state c) = Inr st"
  shows "next_state (fold request_state rs c) props = Inr st \<and> pending_ok c (fold request_state rs c) \<and>
    (rs \<noteq> [] \<longrightarrow> (\<exists>m. st = Some m \<and> distinct (map fst m)) \<and> pendingStateQueue (fold request_state rs c) \<noteq> None) \<and>
    (rs = [] \<longrightarrow> fold request_state rs c = c)"
  using assms(3)
proof (induction rs arbitrary: st rule: rev_induct)
  case Nil
  then show ?case using assms by (simp add: next_state_def pending_ok_def)
next
  case (snoc r rs)
  let ?c = "fold request_state rs c"
  obtain st0 m where st0: "apply_requests props rs (inst_state c) = Inr st0" "apply_request props r st0 = Inr m" "st = Some m"
    using snoc.prems by (auto simp: apply_requests_snoc split: sum.splits)
  note IH = snoc.IH [OF st0(1)]
  have m: "distinct (map fst m)" using st0(2) by (rule distinct_apply_request)
  show ?case
  proof (cases r)
    case (ReplaceBy x)
    then show ?thesis using IH st0 m
      by (auto simp: request_state_def replace_pending_state_def next_state_def first_state_def apply_request_def pending_ok_def)
  next
    case (SetTo p)
    have set: "merge_partial props p (copy_state st0) = Inr m" using st0(2) by (simp add: SetTo apply_request_def)
    show ?thesis
    proof (cases "rs = []")
      case True
      then show ?thesis using IH st0 m set assms SetTo
        by (auto simp: request_state_def push_partial_state_def next_state_def pending_ok_def)
    next
      case False
      then obtain q m0 where q: "pendingStateQueue ?c = Some q" "st0 = Some m0" "distinct (map fst m0)" using IH by auto
      have c0: "copy_state st0 = m0" using q by (simp add: copy_state_def copy_again)
      have "next_state ?c props = Inr (Some m0)" using IH q by simp
      then have "next_state (push_partial_state p ?c) props = Inr (Some m)"
        using q(1) set c0 IH by (cases q)
          (auto simp: next_state_def push_partial_state_def pending_ok_def merge_snoc first_state_def split: sum.splits if_splits)
      moreover have "pending_ok c (push_partial_state p ?c)" using IH q(1)
        by (auto simp: pending_ok_def push_partial_state_def)
      moreover have "fold request_state (rs @ [r]) c = push_partial_state p ?c"
        by (simp add: SetTo request_state_def)
      moreover have "pendingStateQueue (push_partial_state p ?c) \<noteq> None" by (simp add: push_partial_state_def)
      ultimately show ?thesis using m by (simp only: st0(3)) simp
    qed
  qed
qed

text \<open> C34. Calls of \<open>setState\<close> and \<open>replaceState\<close> that are collected until the component is updated lead to the
  state that they would have led to one after the other, each applied at once to the state of the one before
  (functions among them that throw apart), and nothing is pending afterwards.\<close>

theorem collected_states_in_order:
  assumes "pendingStateQueue c = None" "\<not> pendingReplaceState c"
    "apply_requests props rs (inst_state c) = Inr st"
  shows "fst (processPendingState props (fold request_state rs c)) = Inr st \<and>
    pendingStateQueue (snd (processPendingState props (fold request_state rs c))) = None \<and>
    \<not> pendingReplaceState (snd (processPendingState props (fold request_state rs c)))"
  using next_state_requests [OF assms] by (simp add: processPendingState_def clear_pending_state_def)

definition sample_requests :: "state_request list" where
  "sample_requests = [
     SetTo (Members [(''n'', Num 1), (''m'', Num 5)]),
     SetTo (Updater (\<lambda>st props. case map_of st ''n'' of Some (Num n) \<Rightarrow> Inr [(''n'', Num (n + 1))] | _ \<Rightarrow> Inl ''none'')),
     SetTo (Updater (\<lambda>st props. case map_of st ''n'' of Some (Num n) \<Rightarrow> Inr [(''n'', Num (n * 10))] | _ \<Rightarrow> Inl ''none''))]"

lemma collected_states_in_order_witness:
  "fst (processPendingState [] (fold request_state sample_requests (construct Null))) =
     Inr (Some [(''n'', Num 20), (''m'', Num 5)]) \<and>
   pendingStateQueue (snd (processPendingState [] (fold request_state sample_requests (construct Null)))) = None \<and>
   \<not> pendingReplaceState (snd (processPendingState [] (fold request_state sample_requests (construct Null))))"
proof (rule collected_states_in_order)
  show "apply_requests [] sample_requests (inst_state (construct Null)) = Inr (Some [(''n'', Num 20), (''m'', Num 5)])"
    by (simp add: sample_requests_def construct_def apply_request_def merge_partial_def copy_state_def js_copy_def)
qed (simp_all add: construct_def)

end
