(* ===== verification/ReactTransaction.thy ===== *)
theory ReactTransaction
  imports Prelude
begin

text \<open>
  \<open>Transaction\<close>, \<open>CallbackQueue\<close> and \<open>PooledClass\<close> of react.js, the parts the scheduler of updates is made of.

  A piece of code is a command: a function on the state that returns a value or an exception together with the
  new state, or \<open>None\<close> when it does not return (the scheduler is given a fuel, see ReactUpdates). The fields
  \<open>_isInTransaction\<close> and \<open>wrapperInitData\<close> of one transaction object are reached in the state by a pair of
  functions \<open>get\<close> and \<open>put\<close>; the locale \<open>tx_lens\<close> has the laws these promise.
  \<open>initializeAll\<close>, \<open>closeAll\<close> and \<open>perform\<close> follow the code with its try/finally blocks; \<open>protocol\<close> is the short
  description of what they are for, and \<open>perform_is_protocol\<close> says that they do this.
\<close>

section \<open>Commands\<close>

type_synonym exn = string
type_synonym ('r, 's) cmd = "'s \<Rightarrow> ((exn + 'r) \<times> 's) option"

definition ret :: "'r \<Rightarrow> ('r, 's) cmd" where
  "ret r s = Some (Inr r, s)"

definition throw :: "exn \<Rightarrow> ('r, 's) cmd" where
  "throw e s = Some (Inl e, s)"

definition modify :: "('s \<Rightarrow> 's) \<Rightarrow> (unit, 's) cmd" where
  "modify f s = Some (Inr (), f s)"

definition bind_cmd :: "('a, 's) cmd \<Rightarrow> ('a \<Rightarrow> ('b, 's) cmd) \<Rightarrow> ('b, 's) cmd" where
  "bind_cmd f g s = (case f s of
     None \<Rightarrow> None
   | Some (Inl e, s') \<Rightarrow> Some (Inl e, s')
   | Some (Inr a, s') \<Rightarrow> g a s')"

definition after :: "('a, 's) cmd \<Rightarrow> ('b, 's) cmd \<Rightarrow> ('b, 's) cmd" where
  "after f g = bind_cmd f (\<lambda>_. g)"

text \<open>\<open>try { f } finally { g }\<close>, and \<open>try { f } catch (e) {}\<close>.\<close>

definition try_finally :: "('a, 's) cmd \<Rightarrow> ('b, 's) cmd \<Rightarrow> ('a, 's) cmd" where
  "try_finally f g s = (case f s of
     None \<Rightarrow> None
   | Some (r, s1) \<Rightarrow> (case g s1 of
       None \<Rightarrow> None
     | Some (Inl e, s2) \<Rightarrow> Some (Inl e, s2)
     | Some (Inr _, s2) \<Rightarrow> Some (r, s2)))"

definition silently :: "('a, 's) cmd \<Rightarrow> (unit, 's) cmd" where
  "silently f s = (case f s of None \<Rightarrow> None | Some (_, s') \<Rightarrow> Some (Inr (), s'))"

definition invariant :: "('s \<Rightarrow> bool) \<Rightarrow> exn \<Rightarrow> (unit, 's) cmd" where
  "invariant b msg s = (if b s then Some (Inr (), s) else Some (Inl msg, s))"

primrec foreach :: "('a \<Rightarrow> (unit, 's) cmd) \<Rightarrow> 'a list \<Rightarrow> (unit, 's) cmd" where
  "foreach f [] = ret ()"
| "foreach f (x # xs) = after (f x) (foreach f xs)"

named_theorems cmd \<open>the commands, to be evaluated\<close>

lemmas cmd_defs [cmd] = ret_def throw_def modify_def bind_cmd_def after_def try_finally_def silently_def invariant_def

lemma foreach_append: "foreach f (xs @ ys) s = after (foreach f xs) (foreach f ys) s"
  by (induction xs arbitrary: s) (auto simp: cmd split: option.splits sum.splits prod.splits)

section \<open>Transaction\<close>

datatype 'd init_data = OBSERVED_ERROR | InitData "'d option"

record 'd transaction =
  in_transaction :: bool
  wrapperInitData :: "'d init_data list"

text \<open>
  A wrapper; both methods may be missing. The value null and a missing element are \<open>None\<close>.
\<close>

record ('d, 's) wrapper =
  initialize :: "('d option, 's) cmd option"
  close :: "('d option \<Rightarrow> (unit, 's) cmd) option"

definition reinitializeTransaction :: "'d transaction" where
  "reinitializeTransaction = \<lparr>in_transaction = False, wrapperInitData = []\<rparr>"

definition run_initialize :: "('d, 's) wrapper \<Rightarrow> ('d option, 's) cmd" where
  "run_initialize w = (case initialize w of Some f \<Rightarrow> f | None \<Rightarrow> ret None)"

definition run_close :: "('d, 's) wrapper \<Rightarrow> 'd option \<Rightarrow> (unit, 's) cmd" where
  "run_close w d = (case close w of Some f \<Rightarrow> f d | None \<Rightarrow> ret ())"

definition assign_at :: "'d init_data list \<Rightarrow> nat \<Rightarrow> 'd init_data \<Rightarrow> 'd init_data list" where
  "assign_at xs i x = (if i < length xs then xs[i := x]
     else xs @ replicate (i - length xs) (InitData None) @ [x])"

definition set_init_data ::
    "('s \<Rightarrow> 'd transaction) \<Rightarrow> ('d transaction \<Rightarrow> 's \<Rightarrow> 's) \<Rightarrow> nat \<Rightarrow> 'd init_data \<Rightarrow> 's \<Rightarrow> 's" where
  "set_init_data get put i x s =
     put ((get s)\<lparr>wrapperInitData := assign_at (wrapperInitData (get s)) i x\<rparr>) s"

definition init_data_at :: "'d transaction \<Rightarrow> nat \<Rightarrow> 'd init_data" where
  "init_data_at t i = (if i < length (wrapperInitData t) then wrapperInitData t ! i else InitData None)"

definition set_open :: "('s \<Rightarrow> 'd transaction) \<Rightarrow> ('d transaction \<Rightarrow> 's \<Rightarrow> 's) \<Rightarrow> bool \<Rightarrow> (unit, 's) cmd" where
  "set_open get put b = modify (\<lambda>s. put ((get s)\<lparr>in_transaction := b\<rparr>) s)"

function initializeAll ::
    "('s \<Rightarrow> 'd transaction) \<Rightarrow> ('d transaction \<Rightarrow> 's \<Rightarrow> 's) \<Rightarrow> ('d, 's) wrapper list \<Rightarrow> nat \<Rightarrow> (unit, 's) cmd" where
  "initializeAll get put ws i = (if i < length ws then (\<lambda>s.
       case run_initialize (ws ! i) (set_init_data get put i OBSERVED_ERROR s) of
         None \<Rightarrow> None
       | Some (Inr d, s1) \<Rightarrow> initializeAll get put ws (Suc i) (set_init_data get put i (InitData d) s1)
       | Some (Inl e, s1) \<Rightarrow>
           (if init_data_at (get s1) i = OBSERVED_ERROR
            then after (silently (initializeAll get put ws (Suc i))) (throw e) s1
            else Some (Inl e, s1)))
     else ret ())"
  by pat_completeness auto
termination by (relation "measure (\<lambda>(get, put, ws, i). length ws - i)") auto

definition check_open :: "('s \<Rightarrow> 'd transaction) \<Rightarrow> (unit, 's) cmd" where
  "check_open get = invariant (\<lambda>s. in_transaction (get s))
     ''Transaction.closeAll(): Cannot close transaction when none are open.''"

text \<open>The loop of \<open>closeAll\<close> from an index on, and the method.\<close>

function close_from ::
    "('s \<Rightarrow> 'd transaction) \<Rightarrow> ('d transaction \<Rightarrow> 's \<Rightarrow> 's) \<Rightarrow> ('d, 's) wrapper list \<Rightarrow> nat \<Rightarrow> (unit, 's) cmd" where
  "close_from get put ws i = (if i < length ws then (\<lambda>s.
       case (case init_data_at (get s) i of
               OBSERVED_ERROR \<Rightarrow> ret () s
             | InitData d \<Rightarrow> run_close (ws ! i) d s) of
         None \<Rightarrow> None
       | Some (Inr _, s1) \<Rightarrow> close_from get put ws (Suc i) s1
       | Some (Inl e, s1) \<Rightarrow>
           after (silently (after (check_open get) (close_from get put ws (Suc i)))) (throw e) s1)
     else modify (\<lambda>s. put ((get s)\<lparr>wrapperInitData := []\<rparr>) s))"
  by pat_completeness auto
termination by (relation "measure (\<lambda>(get, put, ws, i). length ws - i)") auto

definition closeAll ::
    "('s \<Rightarrow> 'd transaction) \<Rightarrow> ('d transaction \<Rightarrow> 's \<Rightarrow> 's) \<Rightarrow> ('d, 's) wrapper list \<Rightarrow> nat \<Rightarrow> (unit, 's) cmd" where
  "closeAll get put ws i = after (check_open get) (close_from get put ws i)"

definition perform ::
    "('s \<Rightarrow> 'd transaction) \<Rightarrow> ('d transaction \<Rightarrow> 's \<Rightarrow> 's) \<Rightarrow> ('d, 's) wrapper list \<Rightarrow> ('r, 's) cmd \<Rightarrow> ('r, 's) cmd"
  where
  "perform get put ws method =
     after (invariant (\<lambda>s. \<not> in_transaction (get s)) ''Transaction.perform(...): Cannot initialize a transaction when there is already an outstanding transaction.'')
      (after (set_open get put True) (\<lambda>s.
        case after (initializeAll get put ws 0) method s of
          None \<Rightarrow> None
        | Some (Inl e, s1) \<Rightarrow>
            try_finally (after (silently (closeAll get put ws 0)) (throw e)) (set_open get put False) s1
        | Some (Inr r, s1) \<Rightarrow>
            try_finally (after (closeAll get put ws 0) (ret r)) (set_open get put False) s1))"

declare initializeAll.simps [simp del] close_from.simps [simp del]

section \<open>What a transaction is for\<close>

text \<open>
  Every wrapper is initialized, whatever the others throw; the method runs if none has thrown; every wrapper whose
  \<open>initialize\<close> has returned is closed. The first exception of these three phases is the one that leaves.
\<close>

primrec open_all :: "('d, 's) wrapper list \<Rightarrow> 's \<Rightarrow> ((exn + 'd option) list \<times> 's) option" where
  "open_all [] s = Some ([], s)"
| "open_all (w # ws) s = (case run_initialize w s of
     None \<Rightarrow> None
   | Some (r, s1) \<Rightarrow> (case open_all ws s1 of None \<Rightarrow> None | Some (rs, s2) \<Rightarrow> Some (r # rs, s2)))"

fun close_each :: "(('d, 's) wrapper \<times> (exn + 'd option)) list \<Rightarrow> 's \<Rightarrow> (exn option \<times> 's) option" where
  "close_each [] s = Some (None, s)"
| "close_each ((w, r) # rest) s = (case (case r of Inl _ \<Rightarrow> ret () s | Inr d \<Rightarrow> run_close w d s) of
     None \<Rightarrow> None
   | Some (x, s1) \<Rightarrow> (case close_each rest s1 of
       None \<Rightarrow> None
     | Some (later, s2) \<Rightarrow> Some (case x of Inl e \<Rightarrow> Some e | Inr _ \<Rightarrow> later, s2)))"

fun first_exn :: "(exn + 'x) list \<Rightarrow> exn option" where
  "first_exn [] = None"
| "first_exn (Inl e # rs) = Some e"
| "first_exn (Inr _ # rs) = first_exn rs"

definition protocol :: "('d, 's) wrapper list \<Rightarrow> ('r, 's) cmd \<Rightarrow> ('r, 's) cmd" where
  "protocol ws method s = (case open_all ws s of
     None \<Rightarrow> None
   | Some (rs, s1) \<Rightarrow> (case (case first_exn rs of Some e \<Rightarrow> throw e s1 | None \<Rightarrow> method s1) of
       None \<Rightarrow> None
     | Some (result, s2) \<Rightarrow> (case close_each (zip ws rs) s2 of
         None \<Rightarrow> None
       | Some (x, s3) \<Rightarrow> Some (case result of
             Inl e \<Rightarrow> Inl e
           | Inr r \<Rightarrow> (case x of Some e \<Rightarrow> Inl e | None \<Rightarrow> Inr r), s3))))"

text \<open>Code that neither reads nor writes the fields of the transaction.\<close>

definition untouched :: "('d transaction \<Rightarrow> 's \<Rightarrow> 's) \<Rightarrow> ('r, 's) cmd \<Rightarrow> bool" where
  "untouched put f \<longleftrightarrow> (\<forall>t s. f (put t s) = map_option (apsnd (put t)) (f s))"

definition wrapper_untouched :: "('d transaction \<Rightarrow> 's \<Rightarrow> 's) \<Rightarrow> ('d, 's) wrapper \<Rightarrow> bool" where
  "wrapper_untouched put w \<longleftrightarrow> untouched put (run_initialize w) \<and> (\<forall>d. untouched put (run_close w d))"

locale tx_lens =
  fixes get :: "'s \<Rightarrow> 'd transaction" and put :: "'d transaction \<Rightarrow> 's \<Rightarrow> 's"
  assumes get_put: "get (put t s) = t"
    and put_put: "put t (put u s) = put t s"
    and put_get: "put (get s) s = s"

context tx_lens
begin

lemmas lens = get_put put_put put_get

lemma untouchedD: "untouched put f \<Longrightarrow> f (put t s) = (case f s of None \<Rightarrow> None | Some (r, s') \<Rightarrow> Some (r, put t s'))"
  by (auto simp: untouched_def split: option.split)

text \<open>A transaction that is running is not started again, and nothing is changed.\<close>

lemma perform_busy:
  "in_transaction (get s) \<Longrightarrow> \<exists>e. perform get put ws method s = Some (Inl e, s)"
  by (simp add: perform_def cmd)

text \<open>After it returns or throws, the transaction can be used again, whatever the wrappers and the method do.\<close>

lemma perform_idle:
  assumes "\<not> in_transaction (get s)" "perform get put ws method s = Some (r, s')"
  shows "\<not> in_transaction (get s')"
  using assms by (auto simp: perform_def cmd set_open_def lens split: option.splits sum.splits prod.splits if_splits)

end

lemma open_all_length: "open_all ws s = Some (rs, s') \<Longrightarrow> length rs = length ws"
  by (induction ws arbitrary: s rs s') (auto split: option.splits prod.splits)

primrec recorded :: "exn + 'd option \<Rightarrow> 'd init_data" where
  "recorded (Inl e) = OBSERVED_ERROR"
| "recorded (Inr d) = InitData d"

context tx_lens
begin

lemma initializeAll_opens:
  assumes "\<forall>w \<in> set ws. wrapper_untouched put w" "i \<le> length ws" "length (wrapperInitData t) = i"
  shows "initializeAll get put ws i (put t s) = (case open_all (drop i ws) s of
      None \<Rightarrow> None
    | Some (rs, s') \<Rightarrow> Some (case first_exn rs of Some e \<Rightarrow> Inl e | None \<Rightarrow> Inr (),
        put (t\<lparr>wrapperInitData := wrapperInitData t @ map recorded rs\<rparr>) s'))"
  using assms(2,3)
proof (induction "length ws - i" arbitrary: i t s)
  case 0
  then show ?case by (simp add: initializeAll.simps cmd)
next
  case (Suc n)
  then have i: "i < length ws" by simp
  have w: "untouched put (run_initialize (ws ! i))" using assms(1) i by (simp add: wrapper_untouched_def)
  have set_data: "set_init_data get put i x (put t s) = put (t\<lparr>wrapperInitData := wrapperInitData t @ [x]\<rparr>) s" for x s
    using Suc.prems(2) by (simp add: set_init_data_def lens assign_at_def)
  have set_again: "set_init_data get put i y (put (t\<lparr>wrapperInitData := wrapperInitData t @ [x]\<rparr>) s) =
      put (t\<lparr>wrapperInitData := wrapperInitData t @ [y]\<rparr>) s" for x y s
    using Suc.prems(2) by (simp add: set_init_data_def lens assign_at_def list_update_append)
  have at: "init_data_at (t\<lparr>wrapperInitData := wrapperInitData t @ [x]\<rparr>) i = x" for x
    using Suc.prems(2) by (simp add: init_data_at_def nth_append)
  have step: "initializeAll get put ws (Suc i) (put (t\<lparr>wrapperInitData := wrapperInitData t @ [x]\<rparr>) s) =
      (case open_all (drop (Suc i) ws) s of
        None \<Rightarrow> None
      | Some (rs, s') \<Rightarrow> Some (case first_exn rs of Some e \<Rightarrow> Inl e | None \<Rightarrow> Inr (),
          put (t\<lparr>wrapperInitData := (wrapperInitData t @ [x]) @ map recorded rs\<rparr>) s'))" for x s
    using Suc.hyps(1) [of "Suc i" "t\<lparr>wrapperInitData := wrapperInitData t @ [x]\<rparr>" s] Suc.hyps(2) Suc.prems(2) i by (auto split: option.split)
  show ?case
    unfolding initializeAll.simps [of get put ws i] Cons_nth_drop_Suc [OF i, symmetric]
    using i by (auto simp: set_data untouchedD [OF w] set_again lens at step cmd split: option.splits sum.splits prod.splits)
qed

lemma close_from_closes:
  assumes "\<forall>w \<in> set ws. wrapper_untouched put w" "in_transaction t" "wrapperInitData t = map recorded rs"
    "length rs = length ws" "i \<le> length ws"
  shows "close_from get put ws i (put t s) = (case close_each (zip (drop i ws) (drop i rs)) s of
      None \<Rightarrow> None
    | Some (x, s') \<Rightarrow> Some (case x of Some e \<Rightarrow> Inl e | None \<Rightarrow> Inr (), put (t\<lparr>wrapperInitData := []\<rparr>) s'))"
  using assms(5)
proof (induction "length ws - i" arbitrary: i s)
  case 0
  then show ?case using assms(4) by (simp add: close_from.simps cmd lens)
next
  case (Suc n)
  then have i: "i < length ws" "i < length rs" using assms(4) by simp_all
  have w: "untouched put (run_close (ws ! i) d)" for d using assms(1) i by (simp add: wrapper_untouched_def)
  have at: "init_data_at t i = recorded (rs ! i)" using assms(3) i by (simp add: init_data_at_def)
  have step: "close_from get put ws (Suc i) (put t s) = (case close_each (zip (drop (Suc i) ws) (drop (Suc i) rs)) s of
      None \<Rightarrow> None
    | Some (x, s') \<Rightarrow> Some (case x of Some e \<Rightarrow> Inl e | None \<Rightarrow> Inr (), put (t\<lparr>wrapperInitData := []\<rparr>) s'))" for s
    using Suc.hyps(1) [of "Suc i" s] Suc.hyps(2) i by simp
  show ?case
    unfolding close_from.simps [of get put ws i] Cons_nth_drop_Suc [OF i(1), symmetric] Cons_nth_drop_Suc [OF i(2), symmetric]
    using i assms(2) by (cases "rs ! i")
      (auto simp: lens at untouchedD [OF w] step cmd check_open_def split: option.splits sum.splits prod.splits)
qed

lemma open_all_untouched:
  assumes "\<forall>w \<in> set ws. wrapper_untouched put w"
  shows "open_all ws (put t s) = (case open_all ws s of None \<Rightarrow> None | Some (rs, s') \<Rightarrow> Some (rs, put t s'))"
  using assms by (induction ws arbitrary: s) (auto simp: untouchedD wrapper_untouched_def split: option.splits prod.splits)

lemma close_each_untouched:
  assumes "\<forall>w \<in> fst ` set wrs. wrapper_untouched put w"
  shows "close_each wrs (put t s) = (case close_each wrs s of None \<Rightarrow> None | Some (x, s') \<Rightarrow> Some (x, put t s'))"
  using assms
proof (induction wrs arbitrary: s)
  case (Cons wr wrs)
  then show ?case
    by (cases wr; cases "snd wr")
      (auto simp: untouchedD wrapper_untouched_def ret_def split: option.splits prod.splits sum.splits)
qed simp

lemma perform_protocol:
  fixes body :: "('r, 's) cmd"
  assumes "\<forall>w \<in> set ws. wrapper_untouched put w" "untouched put body" "get s = reinitializeTransaction"
  shows "perform get put ws body s = protocol ws body s"
proof -
  let ?t = "\<lparr>in_transaction = True, wrapperInitData = []\<rparr> :: 'd transaction"
  let ?idle = "reinitializeTransaction :: 'd transaction"
  have s: "put ?idle s = s" using assms(3) put_get [of s] by simp
  have opened: "put ?idle s1 = s1" if "open_all ws s = Some (rs, s1)" for rs s1
    using open_all_untouched [OF assms(1), of ?idle s] s that by simp
  have ran: "put ?idle s2 = s2" if "body s1 = Some (r, s2)" "put ?idle s1 = s1" for r s1 s2
    using untouchedD [OF assms(2), of ?idle s1] that by simp
  have closed: "put ?idle s3 = s3" if "close_each (zip ws rs) s2 = Some (x, s3)" "put ?idle s2 = s2" for rs x s2 s3
  proof -
    have "\<forall>w \<in> fst ` set (zip ws rs). wrapper_untouched put w" using assms(1) by (auto dest: set_zip_leftD)
    from close_each_untouched [OF this, of ?idle s2] that show ?thesis by simp
  qed
  have start: "perform get put ws body s = (case after (initializeAll get put ws 0) body (put ?t s) of
        None \<Rightarrow> None
      | Some (Inl e, s1) \<Rightarrow>
          try_finally (after (silently (closeAll get put ws 0)) (throw e)) (set_open get put False) s1
      | Some (Inr r, s1) \<Rightarrow>
          try_finally (after (closeAll get put ws 0) (ret r)) (set_open get put False) s1)"
    using assms(3) by (simp add: perform_def cmd set_open_def lens reinitializeTransaction_def)
  show ?thesis
  proof (cases "open_all ws s")
    case None
    then have "initializeAll get put ws 0 (put ?t s) = None"
      using initializeAll_opens [OF assms(1), of 0 ?t s] by simp
    then show ?thesis unfolding start protocol_def using None by (simp add: cmd)
  next
    case (Some p)
    then obtain rs s1 where o: "open_all ws s = Some (rs, s1)" by (cases p) auto
    let ?u = "\<lparr>in_transaction = True, wrapperInitData = map recorded rs\<rparr>"
    have init: "initializeAll get put ws 0 (put ?t s) =
        Some (case first_exn rs of Some e \<Rightarrow> Inl e | None \<Rightarrow> Inr (), put ?u s1)"
      using initializeAll_opens [OF assms(1), of 0 ?t s] o by simp
    have close: "closeAll get put ws 0 (put ?u s2) = (case close_each (zip ws rs) s2 of
        None \<Rightarrow> None
      | Some (x, s') \<Rightarrow> Some (case x of Some e \<Rightarrow> Inl e | None \<Rightarrow> Inr (), put ?t s'))" for s2
      using close_from_closes [OF assms(1), of ?u rs 0 s2] open_all_length [OF o]
      by (auto simp: closeAll_def check_open_def cmd lens split: option.split)
    have stop: "try_finally f (set_open get put False) s = (case f s of None \<Rightarrow> None
      | Some (r, s2) \<Rightarrow> Some (r, put ((get s2)\<lparr>in_transaction := False\<rparr>) s2))" for f :: "('r, 's) cmd" and s
      by (simp add: try_finally_def set_open_def modify_def split: option.split prod.split)
    show ?thesis
    proof (cases "first_exn rs")
      case (Some e)
      show ?thesis unfolding start stop protocol_def
        using Some closed [OF _ opened [OF o]]
        by (auto simp: init close o cmd lens reinitializeTransaction_def split: option.split)
    next
      case None
      show ?thesis unfolding start stop protocol_def
        using None closed [OF _ ran [OF _ opened [OF o]]]
        by (auto simp: init close o cmd lens reinitializeTransaction_def untouchedD [OF assms(2)] split: option.splits sum.splits prod.splits)
    qed
  qed
qed

end

context tx_lens
begin

text \<open>Two wrappers that prepare nothing, around code that may look at the transaction but leaves its fields alone.\<close>

lemma perform_two:
  assumes "get s = reinitializeTransaction" "run_initialize v = ret None" "run_initialize w = ret None"
    "method (put \<lparr>in_transaction = True, wrapperInitData = [InitData None, InitData None]\<rparr> s) = Some (r, sa)"
    "run_close v None sa = Some (x, sb)" "run_close w None sb = Some (y, sc)"
    "get sa = \<lparr>in_transaction = True, wrapperInitData = [InitData None, InitData None]\<rparr>" "get sb = get sa" "get sc = get sa"
  shows "perform get put [v, w] method s = Some (case r of Inl e \<Rightarrow> Inl e | Inr a \<Rightarrow> (case x of Inl e \<Rightarrow> Inl e
     | Inr _ \<Rightarrow> (case y of Inl e \<Rightarrow> Inl e | Inr _ \<Rightarrow> Inr a)), put reinitializeTransaction sc)"
proof -
  have init: "initializeAll get put [v, w] 0 (put \<lparr>in_transaction = True, wrapperInitData = []\<rparr> s) =
      Some (Inr (), put \<lparr>in_transaction = True, wrapperInitData = [InitData None, InitData None]\<rparr> s)"
    using assms(2,3) by (simp add: initializeAll.simps ret_def set_init_data_def assign_at_def lens)
  have close: "closeAll get put [v, w] 0 sa = Some (case x of Inl e \<Rightarrow> Inl e | Inr _ \<Rightarrow> y,
      put \<lparr>in_transaction = True, wrapperInitData = []\<rparr> sc)"
    using assms(5-9) by (auto simp: closeAll_def check_open_def close_from.simps cmd init_data_at_def lens split: sum.split)
  show ?thesis using assms(1,4) init close
    by (auto simp: perform_def cmd set_open_def lens reinitializeTransaction_def split: sum.split)
qed

end

text \<open> C33. Take code that never touches the fields of the transaction it runs in, and a transaction at rest. Then
  \<open>perform\<close>, with all its nested try/finally blocks, is the short protocol: every wrapper is initialized, the
  method runs unless an initializer has thrown, exactly the wrappers that were initialized are closed, in their order
  and even when the method or another closer throws, the first exception is the one that leaves, and the transaction
  is at rest again.\<close>

theorem perform_is_protocol:
  assumes "tx_lens get put" "\<forall>w \<in> set ws. wrapper_untouched put w" "untouched put method"
    "get s = reinitializeTransaction"
  shows "perform get put ws method s = protocol ws method s"
  using assms(2,3,4) by (rule tx_lens.perform_protocol [OF assms(1)])

text \<open>A transaction beside the state it works on.\<close>

definition first_put :: "'d transaction \<Rightarrow> 'd transaction \<times> 'w \<Rightarrow> 'd transaction \<times> 'w" where
  "first_put t s = (t, snd s)"

interpretation beside: tx_lens fst first_put
  by unfold_locales (simp_all add: first_put_def)

lemma untouched_beside:
  "untouched first_put (\<lambda>s. case f (snd s) of None \<Rightarrow> None | Some (r, w) \<Rightarrow> Some (r, (fst s, w)))"
  by (auto simp: untouched_def first_put_def split: option.split)

text \<open>Two wrappers, the first of which throws while it is initialized, and code that is not reached.\<close>

definition note_on :: "nat \<Rightarrow> ('r \<Rightarrow> ('r, nat transaction \<times> nat list) cmd)" where
  "note_on n r s = Some (Inr r, (fst s, snd s @ [n]))"

definition sample_wrappers :: "(nat, nat transaction \<times> nat list) wrapper list" where
  "sample_wrappers = [
     \<lparr>initialize = Some (\<lambda>s. throw ''broken'' s), close = Some (\<lambda>_. note_on 1 ())\<rparr>,
     \<lparr>initialize = Some (note_on 2 (Some 7)), close = Some (\<lambda>d. note_on (case d of Some n \<Rightarrow> n | None \<Rightarrow> 0) ())\<rparr>]"

lemma untouched_note_on: "untouched first_put (note_on n r)"
  by (simp add: untouched_def note_on_def first_put_def)

lemma untouched_throw: "untouched first_put (\<lambda>s. throw e s)"
  by (simp add: untouched_def throw_def first_put_def)

lemma perform_is_protocol_witness:
  "perform fst first_put sample_wrappers (note_on 3 ()) (reinitializeTransaction, []) =
     protocol sample_wrappers (note_on 3 ()) (reinitializeTransaction, []) \<and>
   protocol sample_wrappers (note_on 3 ()) (reinitializeTransaction, []) =
     Some (Inl ''broken'', (reinitializeTransaction, [2, 7]))"
proof (rule conjI)
  show "perform fst first_put sample_wrappers (note_on 3 ()) (reinitializeTransaction, []) =
     protocol sample_wrappers (note_on 3 ()) (reinitializeTransaction, [])"
  proof (rule perform_is_protocol)
    show "tx_lens fst first_put" by unfold_locales
    show "\<forall>w \<in> set sample_wrappers. wrapper_untouched first_put w"
      by (simp add: sample_wrappers_def wrapper_untouched_def run_initialize_def run_close_def untouched_note_on untouched_throw)
  qed (simp_all add: untouched_note_on)
  show "protocol sample_wrappers (note_on 3 ()) (reinitializeTransaction, []) =
     Some (Inl ''broken'', (reinitializeTransaction, [2, 7]))"
    by (simp add: protocol_def sample_wrappers_def run_initialize_def run_close_def throw_def note_on_def ret_def)
qed

section \<open>CallbackQueue\<close>

text \<open>The two arrays are kept apart, as in the code; both are null at first.\<close>

record ('c, 'k) callback_queue =
  callbacks :: "'c list option"
  contexts :: "'k list option"

definition CallbackQueue :: "('c, 'k) callback_queue" where
  "CallbackQueue = \<lparr>callbacks = None, contexts = None\<rparr>"

definition array_or_new :: "'a list option \<Rightarrow> 'a list" where
  "array_or_new a = (case a of Some xs \<Rightarrow> xs | None \<Rightarrow> [])"

definition enqueue :: "'c \<Rightarrow> 'k \<Rightarrow> ('c, 'k) callback_queue \<Rightarrow> ('c, 'k) callback_queue" where
  "enqueue callback ctx q = q\<lparr>callbacks := Some (array_or_new (callbacks q) @ [callback]),
     contexts := Some (array_or_new (contexts q) @ [ctx])\<rparr>"

definition reset_queue :: "('c, 'k) callback_queue \<Rightarrow> ('c, 'k) callback_queue" where
  "reset_queue q = q\<lparr>callbacks := None, contexts := None\<rparr>"

text \<open>
  The queue is emptied before the first callback is called, so what the callbacks enqueue waits for the next call.
  The arrays that are gone through are not reachable by anybody else. Without \<open>contexts\<close> its length cannot be read.
\<close>

definition notifyAll ::
    "('s \<Rightarrow> ('c, 'k) callback_queue) \<Rightarrow> (('c, 'k) callback_queue \<Rightarrow> 's \<Rightarrow> 's) \<Rightarrow> ('c \<Rightarrow> 'k \<Rightarrow> (unit, 's) cmd) \<Rightarrow> (unit, 's) cmd"
  where
  "notifyAll getq putq call s = (case callbacks (getq s) of
     None \<Rightarrow> ret () s
   | Some cs \<Rightarrow> (case contexts (getq s) of
       None \<Rightarrow> throw ''TypeError'' s
     | Some ks \<Rightarrow>
         after (invariant (\<lambda>_. length cs = length ks) ''Mismatched list of contexts in callback queue'')
          (after (modify (\<lambda>s. putq (reset_queue (getq s)) s))
           (foreach (\<lambda>(c, k). call c k) (zip cs ks))) s))"

definition queue_entries :: "('c, 'k) callback_queue \<Rightarrow> ('c \<times> 'k) list" where
  "queue_entries q = zip (array_or_new (callbacks q)) (array_or_new (contexts q))"

definition queue_ok :: "('c, 'k) callback_queue \<Rightarrow> bool" where
  "queue_ok q \<longleftrightarrow> (callbacks q = None \<longleftrightarrow> contexts q = None) \<and>
     length (array_or_new (callbacks q)) = length (array_or_new (contexts q))"

lemma queue_new [simp]: "queue_ok CallbackQueue" "queue_entries CallbackQueue = []"
  by (simp_all add: queue_ok_def queue_entries_def CallbackQueue_def array_or_new_def)

lemma queue_reset [simp]: "queue_ok (reset_queue q)" "queue_entries (reset_queue q) = []"
  by (simp_all add: queue_ok_def queue_entries_def reset_queue_def array_or_new_def)

lemma queue_enqueue [simp]:
  "queue_ok q \<Longrightarrow> queue_ok (enqueue c k q)"
  "queue_ok q \<Longrightarrow> queue_entries (enqueue c k q) = queue_entries q @ [(c, k)]"
  by (simp_all add: queue_ok_def queue_entries_def enqueue_def array_or_new_def)

lemma notifyAll_entries:
  assumes "queue_ok (getq s)" "putq (reset_queue (getq s)) s = s'" "callbacks (getq s) = None \<Longrightarrow> s' = s"
  shows "notifyAll getq putq call s = foreach (\<lambda>(c, k). call c k) (queue_entries (getq s)) s'"
  using assms by (auto simp: notifyAll_def queue_ok_def queue_entries_def array_or_new_def cmd split: option.splits)

section \<open>PooledClass\<close>

text \<open>
  A class keeps at most \<open>poolSize\<close> released objects and hands the last one out again. Objects are addresses; the
  arguments of the constructor and what the destructor does belong to the class. \<open>in_use\<close> has no counterpart in
  the code: it lists the objects that are handed out and not yet released.
\<close>

record pool =
  instancePool :: "nat list"
  poolSize :: nat
  next_object :: nat

definition DEFAULT_POOL_SIZE :: nat where
  "DEFAULT_POOL_SIZE = 10"

definition addPoolingTo :: "nat option \<Rightarrow> nat \<Rightarrow> pool" where
  "addPoolingTo own_size fresh = \<lparr>instancePool = [],
     poolSize = (case own_size of Some n \<Rightarrow> if n = 0 then DEFAULT_POOL_SIZE else n | None \<Rightarrow> DEFAULT_POOL_SIZE),
     next_object = fresh\<rparr>"

definition getPooled :: "pool \<Rightarrow> nat \<times> pool" where
  "getPooled p = (if instancePool p \<noteq> [] then (last (instancePool p), p\<lparr>instancePool := butlast (instancePool p)\<rparr>)
     else (next_object p, p\<lparr>next_object := next_object p + 1\<rparr>))"

definition release :: "nat \<Rightarrow> pool \<Rightarrow> pool" where
  "release obj p = (if length (instancePool p) < poolSize p
     then p\<lparr>instancePool := instancePool p @ [obj]\<rparr> else p)"

definition pool_ok :: "nat list \<Rightarrow> pool \<Rightarrow> bool" where
  "pool_ok in_use p \<longleftrightarrow> distinct (in_use @ instancePool p) \<and> length (instancePool p) \<le> poolSize p \<and>
     (\<forall>obj \<in> set (in_use @ instancePool p). obj < next_object p)"

lemma pool_ok_new: "pool_ok [] (addPoolingTo own_size fresh)"
  by (simp add: pool_ok_def addPoolingTo_def)

text \<open>An object that somebody uses is never handed out a second time, as long as objects are released once.\<close>

lemma getPooled_fresh:
  assumes "pool_ok in_use p" "getPooled p = (obj, p')"
  shows "obj \<notin> set in_use" "pool_ok (obj # in_use) p'"
proof -
  show "obj \<notin> set in_use"
    using assms by (cases "instancePool p = []") (auto simp: pool_ok_def getPooled_def)
  show "pool_ok (obj # in_use) p'"
  proof (cases "instancePool p = []")
    case False
    then obtain xs x where "instancePool p = xs @ [x]" by (metis rev_exhaust)
    then show ?thesis using assms by (auto simp: pool_ok_def getPooled_def)
  qed (use assms in \<open>auto simp: pool_ok_def getPooled_def less_Suc_eq\<close>)
qed

lemma release_ok: "pool_ok (obj # in_use) p \<Longrightarrow> pool_ok in_use (release obj p)"
  by (auto simp: pool_ok_def release_def)

lemma release_bounded: "pool_ok in_use p \<Longrightarrow> length (instancePool (release obj p)) \<le> poolSize (release obj p)"
  by (auto simp: pool_ok_def release_def)

end
