(* ===== verification/ReactUpdates.thy ===== *)
theory ReactUpdates
  imports ReactComposite ReactTransaction
begin

text \<open>
  The scheduling of updates in react.js: \<open>ReactUpdateQueue\<close>, \<open>ReactDefaultBatchingStrategy\<close>, \<open>ReactUpdates\<close>,
  \<open>ReactReconcileTransaction\<close>, and the life cycle of \<open>ReactCompositeComponent\<close> (mounting, updating, unmounting).

  The code of the page is a parameter (\<open>user\<close>): what a method of a component or a callback does is a list of calls
  of React and perhaps an exception, which may depend on everything there is; \<open>world\<close> is its own state. What a
  component renders is the work this makes for other components: some receive a new element, some are mounted, some
  unmounted; the list inside says what their own rendering makes necessary in turn. A list that mounts a component
  twice is none that can occur, and the second mounting does nothing.

  \<open>fl\<close> is the function that flushes: inside a flush it is the flush with less fuel. \<open>trace\<close> has no counterpart
  in the code; it records which methods and callbacks have been called.
  Left out: contexts, references, propTypes, the warnings, the markup, the saved selection and the queue of
  listeners of a reconcile transaction, \<open>ReactPerf\<close>, and \<open>enqueueElementInternal\<close>, which only \<open>ReactMount\<close> calls.
\<close>

section \<open>The state\<close>

datatype call = Render | WillMount | DidMount | WillReceiveProps | WillUpdate | DidUpdate | WillUnmount | User nat

datatype event = Ran call nat | Unmounted nat

type_synonym calls = "(call, nat) callback_queue"

record 'w sched =
  composites :: "nat \<Rightarrow> composite"
  nextMountID :: nat
  next_address :: nat
  dirtyComponents :: "nat list"
  asapCallbackQueue :: calls
  asapEnqueued :: bool
  isBatchingUpdates :: bool
  strategy_tx :: "unit transaction"
  currentOwner :: "nat option"
  currentlyMounting :: "nat option"
  currentlyUnmounting :: "nat option"
  events_enabled :: bool
  world :: 'w
  trace :: "event list"

text \<open>The calls of React that the code of the page makes.\<close>

datatype react_op =
    SetState nat partial_state
  | ReplaceState nat members
  | ForceUpdate nat
  | EnqueueCallback nat nat
  | SetProps nat members
  | ReplaceProps nat members
  | Asap nat nat
  | Batched "react_op list"

datatype work =
    Receive nat js_value "work list"
  | Mount nat js_value "work list"
  | Unmount nat "work list"

record 'w user =
  code :: "call \<Rightarrow> nat \<Rightarrow> 'w sched \<Rightarrow> react_op list \<times> exn option \<times> 'w"
  has_method :: "nat \<Rightarrow> call \<Rightarrow> bool"
  shouldUpdate :: "nat \<Rightarrow> members \<Rightarrow> members option \<Rightarrow> 'w sched \<Rightarrow> bool"
  initial :: "nat \<Rightarrow> 'w sched \<Rightarrow> members option"
  rendered :: "nat \<Rightarrow> 'w sched \<Rightarrow> work list"

definition update_composite :: "nat \<Rightarrow> (composite \<Rightarrow> composite) \<Rightarrow> 'w sched \<Rightarrow> 'w sched" where
  "update_composite c f s = s\<lparr>composites := (composites s)(c := f (composites s c))\<rparr>"

section \<open>ReactDefaultBatchingStrategy\<close>

definition put_strategy :: "unit transaction \<Rightarrow> 'w sched \<Rightarrow> 'w sched" where
  "put_strategy t s = s\<lparr>strategy_tx := t\<rparr>"

definition RESET_BATCHED_UPDATES :: "(unit, 'w sched) wrapper" where
  "RESET_BATCHED_UPDATES = \<lparr>initialize = Some (ret None),
     close = Some (\<lambda>_. modify (\<lambda>s. s\<lparr>isBatchingUpdates := False\<rparr>))\<rparr>"

definition FLUSH_BATCHED_UPDATES :: "(unit, 'w sched) cmd \<Rightarrow> (unit, 'w sched) wrapper" where
  "FLUSH_BATCHED_UPDATES fl = \<lparr>initialize = Some (ret None), close = Some (\<lambda>_. fl)\<rparr>"

definition batchedUpdates :: "(unit, 'w sched) cmd \<Rightarrow> (unit, 'w sched) cmd \<Rightarrow> (unit, 'w sched) cmd" where
  "batchedUpdates fl callback s =
     (let alreadyBatchingUpdates = isBatchingUpdates s
      in after (modify (\<lambda>s. s\<lparr>isBatchingUpdates := True\<rparr>))
          (if alreadyBatchingUpdates then callback
           else perform strategy_tx put_strategy [FLUSH_BATCHED_UPDATES fl, RESET_BATCHED_UPDATES] callback) s)"

section \<open>ReactUpdates.enqueueUpdate, ReactUpdates.asap and ReactUpdateQueue\<close>

definition push_dirty :: "nat \<Rightarrow> (unit, 'w sched) cmd" where
  "push_dirty c = modify (\<lambda>s. s\<lparr>dirtyComponents := dirtyComponents s @ [c]\<rparr>)"

text \<open>Outside of a batch it starts one and calls itself in it, where the flag is set.\<close>

definition enqueueUpdate :: "(unit, 'w sched) cmd \<Rightarrow> nat \<Rightarrow> (unit, 'w sched) cmd" where
  "enqueueUpdate fl c s = (if \<not> isBatchingUpdates s then batchedUpdates fl (push_dirty c) s else push_dirty c s)"

definition asap :: "call \<Rightarrow> nat \<Rightarrow> (unit, 'w sched) cmd" where
  "asap callback ctx = after
     (invariant isBatchingUpdates ''ReactUpdates.asap: Can't enqueue an asap callback in a context whereupdates are not being batched.'')
     (modify (\<lambda>s. s\<lparr>asapCallbackQueue := enqueue callback ctx (asapCallbackQueue s), asapEnqueued := True\<rparr>))"

definition enqueue_unless_mounting :: "(unit, 'w sched) cmd \<Rightarrow> nat \<Rightarrow> (unit, 'w sched) cmd" where
  "enqueue_unless_mounting fl c s = (if Some c \<noteq> currentlyMounting s then enqueueUpdate fl c s else ret () s)"

text \<open>Whether there is an internal instance to be updated.\<close>

definition ready_for_update :: "nat \<Rightarrow> (bool, 'w sched) cmd" where
  "ready_for_update c = after
     (invariant (\<lambda>s. currentOwner s = None) ''Cannot update during an existing state transition (such as within `render`).'')
     (\<lambda>s. ret (registered (composites s c) \<and> currentlyUnmounting s \<noteq> Some c) s)"

definition enqueue_change :: "(unit, 'w sched) cmd \<Rightarrow> nat \<Rightarrow> (composite \<Rightarrow> composite) \<Rightarrow> (unit, 'w sched) cmd" where
  "enqueue_change fl c f = bind_cmd (ready_for_update c) (\<lambda>ok.
     if ok then after (modify (update_composite c f)) (enqueue_unless_mounting fl c) else ret ())"

definition enqueueSetState :: "(unit, 'w sched) cmd \<Rightarrow> nat \<Rightarrow> partial_state \<Rightarrow> (unit, 'w sched) cmd" where
  "enqueueSetState fl c p = enqueue_change fl c (push_partial_state p)"

definition enqueueReplaceState :: "(unit, 'w sched) cmd \<Rightarrow> nat \<Rightarrow> members \<Rightarrow> (unit, 'w sched) cmd" where
  "enqueueReplaceState fl c m = enqueue_change fl c (replace_pending_state m)"

definition enqueueForceUpdate :: "(unit, 'w sched) cmd \<Rightarrow> nat \<Rightarrow> (unit, 'w sched) cmd" where
  "enqueueForceUpdate fl c = enqueue_change fl c (\<lambda>x. x\<lparr>pendingForceUpdate := True\<rparr>)"

definition enqueueCallback :: "(unit, 'w sched) cmd \<Rightarrow> nat \<Rightarrow> nat \<Rightarrow> (unit, 'w sched) cmd" where
  "enqueueCallback fl c cb = bind_cmd (ready_for_update c) (\<lambda>ok s.
     if \<not> ok \<or> currentlyMounting s = Some c then ret () s
     else after (modify (update_composite c (push_callback cb))) (enqueue_unless_mounting fl c) s)"

definition enqueue_props ::
    "(unit, 'w sched) cmd \<Rightarrow> nat \<Rightarrow> (nat \<Rightarrow> composite \<Rightarrow> composite) \<Rightarrow> exn \<Rightarrow> (unit, 'w sched) cmd" where
  "enqueue_props fl c f msg = bind_cmd (ready_for_update c) (\<lambda>ok.
     if ok then after (invariant (\<lambda>s. isTopLevel (composites s c)) msg)
       (after (modify (\<lambda>s. update_composite c (f (next_address s)) (s\<lparr>next_address := next_address s + 1\<rparr>)))
         (enqueue_unless_mounting fl c))
     else ret ())"

definition enqueueSetProps :: "(unit, 'w sched) cmd \<Rightarrow> nat \<Rightarrow> members \<Rightarrow> (unit, 'w sched) cmd" where
  "enqueueSetProps fl c partialProps = enqueue_props fl c (\<lambda>a. merge_pending_props a partialProps)
     ''setProps(...): You called `setProps` on a component with a parent.''"

definition enqueueReplaceProps :: "(unit, 'w sched) cmd \<Rightarrow> nat \<Rightarrow> members \<Rightarrow> (unit, 'w sched) cmd" where
  "enqueueReplaceProps fl c props = enqueue_props fl c (\<lambda>a. replace_pending_props a props)
     ''replaceProps(...): You called `replaceProps` on a component with a parent.''"

lemma foreach_cong [fundef_cong]:
  "xs = ys \<Longrightarrow> (\<And>x. x \<in> set ys \<Longrightarrow> f x = g x) \<Longrightarrow> foreach f xs = foreach g ys"
proof (induction ys arbitrary: xs)
  case (Cons y ys)
  then show ?case by simp
qed simp

fun run_op :: "(unit, 'w sched) cmd \<Rightarrow> react_op \<Rightarrow> (unit, 'w sched) cmd" where
  "run_op fl (SetState c p) = enqueueSetState fl c p"
| "run_op fl (ReplaceState c m) = enqueueReplaceState fl c m"
| "run_op fl (ForceUpdate c) = enqueueForceUpdate fl c"
| "run_op fl (EnqueueCallback c cb) = enqueueCallback fl c cb"
| "run_op fl (SetProps c m) = enqueueSetProps fl c m"
| "run_op fl (ReplaceProps c m) = enqueueReplaceProps fl c m"
| "run_op fl (Asap cb c) = asap (User cb) c"
| "run_op fl (Batched ops) = batchedUpdates fl (foreach (run_op fl) ops)"

definition run_code :: "'w user \<Rightarrow> (unit, 'w sched) cmd \<Rightarrow> call \<Rightarrow> nat \<Rightarrow> (unit, 'w sched) cmd" where
  "run_code U fl k c s = (case code U k c s of (ops, exn, w) \<Rightarrow>
     after (modify (\<lambda>s. s\<lparr>world := w, trace := trace s @ [Ran k c]\<rparr>))
      (after (foreach (run_op fl) ops) (case exn of None \<Rightarrow> ret () | Some e \<Rightarrow> throw e)) s)"

definition run_if_defined :: "'w user \<Rightarrow> (unit, 'w sched) cmd \<Rightarrow> call \<Rightarrow> nat \<Rightarrow> (unit, 'w sched) cmd" where
  "run_if_defined U fl k c = (if has_method U c k then run_code U fl k c else ret ())"

section \<open>The objects of one flush\<close>

text \<open>
  The flush transaction and its reconcile transaction come from pools, freshly constructed, and nobody else has them:
  what they hold stands beside the state. \<open>inner\<close> is seen by the methods of the wrappers and by the reconciliation;
  the fields of \<open>Transaction.Mixin\<close> of the reconcile transaction, then those of the flush transaction, are put around.
\<close>

record flush_tx =
  dirtyComponentsLength :: "nat option"
  callbackQueue :: calls
  reactMountReady :: calls

type_synonym 'w inner = "flush_tx \<times> 'w sched"

definition new_flush_tx :: flush_tx where
  "new_flush_tx = \<lparr>dirtyComponentsLength = None, callbackQueue = CallbackQueue, reactMountReady = CallbackQueue\<rparr>"

definition beside :: "('r, 's) cmd \<Rightarrow> ('r, 't \<times> 's) cmd" where
  "beside f s = (case f (snd s) of None \<Rightarrow> None | Some (r, s') \<Rightarrow> Some (r, (fst s, s')))"

definition wrapper_beside :: "('d, 's) wrapper \<Rightarrow> ('d, 't \<times> 's) wrapper" where
  "wrapper_beside w = \<lparr>initialize = map_option beside (initialize w),
     close = map_option (\<lambda>g d. beside (g d)) (close w)\<rparr>"

definition on_composite :: "nat \<Rightarrow> (composite \<Rightarrow> composite) \<Rightarrow> (unit, 'w sched) cmd" where
  "on_composite c f = modify (update_composite c f)"

definition mount_ready :: "'w user \<Rightarrow> call \<Rightarrow> nat \<Rightarrow> (unit, 'w inner) cmd" where
  "mount_ready U k c = (if has_method U c k
     then modify (\<lambda>(t, s). (t\<lparr>reactMountReady := enqueue k c (reactMountReady t)\<rparr>, s)) else ret ())"

section \<open>ReactCompositeComponent and ReactReconciler\<close>

definition render_component :: "'w user \<Rightarrow> (unit, 'w sched) cmd \<Rightarrow> nat \<Rightarrow> (unit, 'w sched) cmd" where
  "render_component U fl c = after (modify (\<lambda>s. s\<lparr>currentOwner := Some c\<rparr>))
     (try_finally (run_code U fl Render c) (modify (\<lambda>s. s\<lparr>currentOwner := None\<rparr>)))"

definition process_state :: "nat \<Rightarrow> members \<Rightarrow> (members option, 'w sched) cmd" where
  "process_state c props s = (case processPendingState props (composites s c) of
     (r, c') \<Rightarrow> Some (r, update_composite c (\<lambda>_. c') s))"

definition set_instance :: "nat \<Rightarrow> js_value \<Rightarrow> members \<Rightarrow> members option \<Rightarrow> (unit, 'w sched) cmd" where
  "set_instance c next props st =
     on_composite c (\<lambda>x. x\<lparr>currentElement := next, inst_props := props, inst_state := st\<rparr>)"

definition performComponentUpdate ::
    "'w user \<Rightarrow> (unit, 'w sched) cmd \<Rightarrow> nat \<Rightarrow> js_value \<Rightarrow> members \<Rightarrow> members option \<Rightarrow> (unit, 'w inner) cmd \<Rightarrow> (unit, 'w inner) cmd"
  where
  "performComponentUpdate U fl c next nextProps nextState children =
     after (beside (run_if_defined U fl WillUpdate c))
      (after (beside (set_instance c next nextProps nextState))
        (after (beside (render_component U fl c))
          (after children (mount_ready U DidUpdate c))))"

definition updateComponent ::
    "'w user \<Rightarrow> (unit, 'w sched) cmd \<Rightarrow> nat \<Rightarrow> js_value \<Rightarrow> js_value \<Rightarrow> (unit, 'w inner) cmd \<Rightarrow> (unit, 'w inner) cmd"
  where
  "updateComponent U fl c prev next children s0 =
     (let nextProps = (if \<not> strict_eq prev next then el_props next else inst_props (composites (snd s0) c))
      in after (if \<not> strict_eq prev next then beside (run_if_defined U fl WillReceiveProps c) else ret ())
          (bind_cmd (beside (process_state c nextProps)) (\<lambda>nextState s.
             if pendingForceUpdate (composites (snd s) c) \<or> shouldUpdate U c nextProps nextState (snd s)
             then after (beside (on_composite c (\<lambda>x. x\<lparr>pendingForceUpdate := False\<rparr>)))
                    (performComponentUpdate U fl c next nextProps nextState children) s
             else beside (set_instance c next nextProps nextState) s)) s0)"

definition receiveComponent ::
    "'w user \<Rightarrow> (unit, 'w sched) cmd \<Rightarrow> nat \<Rightarrow> js_value \<Rightarrow> (unit, 'w inner) cmd \<Rightarrow> (unit, 'w inner) cmd" where
  "receiveComponent U fl c next children s =
     (let prev = currentElement (composites (snd s) c)
      in if strict_eq next prev \<and> el_owner next \<noteq> None then ret () s
         else after (beside (on_composite c (\<lambda>x. x\<lparr>pendingElement := None\<rparr>))) (updateComponent U fl c prev next children) s)"

definition never_mounted :: "nat \<Rightarrow> 'w sched \<Rightarrow> bool" where
  "never_mounted c s \<longleftrightarrow> mountOrder (composites s c) = 0 \<and> pendingStateQueue (composites s c) = None \<and>
     pendingCallbacks (composites s c) = None"

definition will_mount :: "'w user \<Rightarrow> (unit, 'w sched) cmd \<Rightarrow> nat \<Rightarrow> (unit, 'w sched) cmd" where
  "will_mount U fl c = (if has_method U c WillMount
     then after (run_code U fl WillMount c) (\<lambda>s.
       let x = composites s c
       in if pendingStateQueue x \<noteq> None
          then bind_cmd (process_state c (inst_props x)) (\<lambda>st. on_composite c (\<lambda>x. x\<lparr>inst_state := st\<rparr>)) s
          else ret () s)
     else ret ())"

definition initial_mount :: "'w user \<Rightarrow> (unit, 'w sched) cmd \<Rightarrow> nat \<Rightarrow> js_value \<Rightarrow> (unit, 'w sched) cmd" where
  "initial_mount U fl c element = after
     (modify (\<lambda>s. update_composite c (\<lambda>_. (construct element)\<lparr>mountOrder := nextMountID s,
          inst_props := el_props element, inst_state := initial U c s, registered := True\<rparr>)
        (s\<lparr>nextMountID := nextMountID s + 1\<rparr>)))
     (\<lambda>s. let previouslyMounting = currentlyMounting s
       in after (modify (\<lambda>s. s\<lparr>currentlyMounting := Some c\<rparr>))
           (try_finally (after (will_mount U fl c) (render_component U fl c))
             (modify (\<lambda>s. s\<lparr>currentlyMounting := previouslyMounting\<rparr>))) s)"

definition mountComponent ::
    "'w user \<Rightarrow> (unit, 'w sched) cmd \<Rightarrow> nat \<Rightarrow> js_value \<Rightarrow> (unit, 'w inner) cmd \<Rightarrow> (unit, 'w inner) cmd" where
  "mountComponent U fl c element children s =
     (if never_mounted c (snd s)
      then after (beside (initial_mount U fl c element)) (after children (mount_ready U DidMount c)) s
      else ret () s)"

definition will_unmount :: "'w user \<Rightarrow> (unit, 'w sched) cmd \<Rightarrow> nat \<Rightarrow> (unit, 'w sched) cmd" where
  "will_unmount U fl c s =
     (if has_method U c WillUnmount
      then let previouslyUnmounting = currentlyUnmounting s
        in after (modify (\<lambda>s. s\<lparr>currentlyUnmounting := Some c\<rparr>))
            (try_finally (run_code U fl WillUnmount c)
              (modify (\<lambda>s. s\<lparr>currentlyUnmounting := previouslyUnmounting\<rparr>))) s
      else ret () s)"

definition reset_instance :: "composite \<Rightarrow> composite" where
  "reset_instance x = x\<lparr>pendingStateQueue := None, pendingReplaceState := False, pendingForceUpdate := False,
     pendingCallbacks := None, pendingElement := None, registered := False\<rparr>"

definition unmountComponent :: "'w user \<Rightarrow> (unit, 'w sched) cmd \<Rightarrow> nat \<Rightarrow> (unit, 'w inner) cmd \<Rightarrow> (unit, 'w inner) cmd"
  where
  "unmountComponent U fl c children =
     after (beside (will_unmount U fl c)) (after children
       (beside (modify (\<lambda>s. (update_composite c reset_instance s)\<lparr>trace := trace s @ [Unmounted c]\<rparr>))))"

fun do_work :: "'w user \<Rightarrow> (unit, 'w sched) cmd \<Rightarrow> work \<Rightarrow> (unit, 'w inner) cmd" where
  "do_work U fl (Receive c e ws) = receiveComponent U fl c e (foreach (do_work U fl) ws)"
| "do_work U fl (Mount c e ws) = mountComponent U fl c e (foreach (do_work U fl) ws)"
| "do_work U fl (Unmount c ws) = unmountComponent U fl c (foreach (do_work U fl) ws)"

definition do_rendered :: "'w user \<Rightarrow> (unit, 'w sched) cmd \<Rightarrow> nat \<Rightarrow> (unit, 'w inner) cmd" where
  "do_rendered U fl c s = foreach (do_work U fl) (rendered U c (snd s)) s"

definition performUpdateIfNecessary :: "'w user \<Rightarrow> (unit, 'w sched) cmd \<Rightarrow> nat \<Rightarrow> (unit, 'w inner) cmd" where
  "performUpdateIfNecessary U fl c =
     after (\<lambda>s. case pendingElement (composites (snd s) c) of
         Some e \<Rightarrow> receiveComponent U fl c e (do_rendered U fl c) s
       | None \<Rightarrow> ret () s)
      (\<lambda>s. let x = composites (snd s) c
        in if pendingStateQueue x \<noteq> None \<or> pendingForceUpdate x
           then updateComponent U fl c (currentElement x) (currentElement x) (do_rendered U fl c) s
           else ret () s)"

section \<open>ReactReconcileTransaction and ReactUpdates\<close>

definition EVENT_SUPPRESSION :: "(bool, 'w inner) wrapper" where
  "EVENT_SUPPRESSION = \<lparr>
     initialize = Some (beside (\<lambda>s. Some (Inr (Some (events_enabled s)), s\<lparr>events_enabled := False\<rparr>))),
     close = Some (\<lambda>previouslyEnabled. beside (modify (\<lambda>s. s\<lparr>events_enabled := (previouslyEnabled = Some True)\<rparr>)))\<rparr>"

definition ON_DOM_READY_QUEUEING :: "'w user \<Rightarrow> (unit, 'w sched) cmd \<Rightarrow> (bool, 'w inner) wrapper" where
  "ON_DOM_READY_QUEUEING U fl = \<lparr>
     initialize = Some (\<lambda>(t, s). ret None (t\<lparr>reactMountReady := reset_queue (reactMountReady t)\<rparr>, s)),
     close = Some (\<lambda>_. notifyAll (\<lambda>s. reactMountReady (fst s)) (\<lambda>q (t, s). (t\<lparr>reactMountReady := q\<rparr>, s))
       (\<lambda>k c. beside (run_code U fl k c)))\<rparr>"

definition NESTED_UPDATES :: "(unit, 'w sched) cmd \<Rightarrow> (unit, 'w inner) wrapper" where
  "NESTED_UPDATES fl = \<lparr>
     initialize = Some (\<lambda>(t, s). ret None (t\<lparr>dirtyComponentsLength := Some (length (dirtyComponents s))\<rparr>, s)),
     close = Some (\<lambda>_ (t, s).
       if dirtyComponentsLength t \<noteq> Some (length (dirtyComponents s))
       then after (beside (modify (\<lambda>s. s\<lparr>dirtyComponents :=
                drop (case dirtyComponentsLength t of Some n \<Rightarrow> n | None \<Rightarrow> 0) (dirtyComponents s)\<rparr>)))
              (beside fl) (t, s)
       else beside (modify (\<lambda>s. s\<lparr>dirtyComponents := []\<rparr>)) (t, s))\<rparr>"

definition UPDATE_QUEUEING :: "'w user \<Rightarrow> (unit, 'w sched) cmd \<Rightarrow> (unit, 'w inner) wrapper" where
  "UPDATE_QUEUEING U fl = \<lparr>
     initialize = Some (\<lambda>(t, s). ret None (t\<lparr>callbackQueue := reset_queue (callbackQueue t)\<rparr>, s)),
     close = Some (\<lambda>_. notifyAll (\<lambda>s. callbackQueue (fst s)) (\<lambda>q (t, s). (t\<lparr>callbackQueue := q\<rparr>, s))
       (\<lambda>k c. beside (run_code U fl k c)))\<rparr>"

definition update_dirty :: "'w user \<Rightarrow> (unit, 'w sched) cmd \<Rightarrow> nat \<Rightarrow> (unit, 'w inner) cmd" where
  "update_dirty U fl i s =
     (let c = dirtyComponents (snd s) ! i; cbs = pendingCallbacks (composites (snd s) c)
      in after (beside (on_composite c (\<lambda>x. x\<lparr>pendingCallbacks := None\<rparr>)))
          (after (performUpdateIfNecessary U fl c)
            (modify (\<lambda>(t, s). (case cbs of
                None \<Rightarrow> t
              | Some ks \<Rightarrow> t\<lparr>callbackQueue := fold (\<lambda>k. enqueue (User k) c) ks (callbackQueue t)\<rparr>, s)))) s)"

definition runBatchedUpdates :: "'w user \<Rightarrow> (unit, 'w sched) cmd \<Rightarrow> (unit, 'w inner) cmd" where
  "runBatchedUpdates U fl =
     after (invariant (\<lambda>(t, s). dirtyComponentsLength t = Some (length (dirtyComponents s)))
         ''Expected flush transaction's stored dirty-components length to match dirty-components array length.'')
      (after (beside (modify (\<lambda>s. s\<lparr>dirtyComponents :=
             sort_key (\<lambda>c. mountOrder (composites s c)) (dirtyComponents s)\<rparr>)))
        (\<lambda>s. foreach (update_dirty U fl) [0..<length (dirtyComponents (snd s))] s))"

text \<open>\<open>ReactUpdatesFlushTransaction.perform\<close>, around the \<open>perform\<close> of the reconcile transaction.\<close>

definition reconcile :: "'w user \<Rightarrow> (unit, 'w sched) cmd \<Rightarrow> (unit, bool transaction \<times> 'w inner) cmd" where
  "reconcile U fl = perform fst first_put
     [wrapper_beside EVENT_SUPPRESSION, wrapper_beside (ON_DOM_READY_QUEUEING U fl)] (beside (runBatchedUpdates U fl))"

definition flush_transaction :: "'w user \<Rightarrow> (unit, 'w sched) cmd \<Rightarrow> (unit, 'w sched) cmd" where
  "flush_transaction U fl s =
     (case perform fst first_put
        [wrapper_beside (wrapper_beside (NESTED_UPDATES fl)), wrapper_beside (wrapper_beside (UPDATE_QUEUEING U fl))]
        (beside (reconcile U fl)) (reinitializeTransaction, reinitializeTransaction, new_flush_tx, s) of
      None \<Rightarrow> None
    | Some (r, _, _, _, s') \<Rightarrow> Some (r, s'))"

definition notify_asap :: "'w user \<Rightarrow> (unit, 'w sched) cmd \<Rightarrow> (unit, 'w sched) cmd" where
  "notify_asap U fl s = (if asapEnqueued s
     then (case notifyAll fst (\<lambda>q s. (q, snd s)) (\<lambda>k c. beside (run_code U fl k c))
             (asapCallbackQueue s, s\<lparr>asapEnqueued := False, asapCallbackQueue := CallbackQueue\<rparr>) of
         None \<Rightarrow> None
       | Some (r, _, s') \<Rightarrow> Some (r, s'))
     else ret () s)"

primrec flushBatchedUpdates :: "'w user \<Rightarrow> nat \<Rightarrow> (unit, 'w sched) cmd" where
  "flushBatchedUpdates U 0 = (\<lambda>s. None)"
| "flushBatchedUpdates U (Suc n) = (\<lambda>s.
     if dirtyComponents s \<noteq> [] \<or> asapEnqueued s
     then after (if dirtyComponents s \<noteq> [] then flush_transaction U (flushBatchedUpdates U n) else ret ())
            (after (notify_asap U (flushBatchedUpdates U n)) (flushBatchedUpdates U n)) s
     else ret () s)"

text \<open>A call of React from outside, an event or a reply of the server, for which this fuel is enough.\<close>

definition batched_event :: "'w user \<Rightarrow> nat \<Rightarrow> react_op list \<Rightarrow> (unit, 'w sched) cmd" where
  "batched_event U n ops = batchedUpdates (flushBatchedUpdates U n) (foreach (run_op (flushBatchedUpdates U n)) ops)"

end
