(* ===== verification/ReactFlush.thy ===== *)
theory ReactFlush
  imports ReactUpdates
begin

text \<open>
  What ReactUpdates promises. The locale \<open>guarantee\<close> has the rules for commands that always return, keep an
  invariant and move the state along a reflexive and transitive relation; it is interpreted on the relation between
  the states before and after code of the page runs inside a batch, and on the one for the steps of a flush.
  The measure of termination is a budget that the code of the page spends whenever it calls React.
\<close>

section \<open>Commands that return and keep their promises\<close>

text \<open>With \<open>q\<close> nothing is thrown.\<close>

definition holds_at :: "('s \<Rightarrow> bool) \<Rightarrow> ('s \<Rightarrow> 's \<Rightarrow> bool) \<Rightarrow> bool \<Rightarrow> ('r, 's) cmd \<Rightarrow> 's \<Rightarrow> bool" where
  "holds_at I R q f s \<longleftrightarrow> (\<exists>r s'. f s = Some (r, s') \<and> I s' \<and> R s s' \<and> (q \<longrightarrow> \<not> isl r))"

lemma holds_atD:
  assumes "holds_at I R q f s"
  obtains r s' where "f s = Some (r, s')" "I s'" "R s s'" "q \<longrightarrow> \<not> isl r"
  using assms unfolding holds_at_def by blast

locale guarantee =
  fixes I :: "'s \<Rightarrow> bool" and R :: "'s \<Rightarrow> 's \<Rightarrow> bool"
  assumes R_refl: "I s \<Longrightarrow> R s s"
    and R_trans: "R s t \<Longrightarrow> R t u \<Longrightarrow> R s u"

context guarantee
begin

lemma ret_at: "I s \<Longrightarrow> holds_at I R q (ret v) s"
  by (simp add: holds_at_def cmd R_refl)

lemma throw_at: "I s \<Longrightarrow> \<not> q \<Longrightarrow> holds_at I R q (throw e) s"
  by (simp add: holds_at_def cmd R_refl)

lemma modify_at: "I (f s) \<Longrightarrow> R s (f s) \<Longrightarrow> holds_at I R q (modify f) s"
  by (simp add: holds_at_def cmd)

text \<open>A property that holds in the end unless something is thrown.\<close>

lemma bind_post:
  assumes "holds_at I R q f s"
    "\<And>v s'. f s = Some (Inr v, s') \<Longrightarrow> I s' \<Longrightarrow> R s s' \<Longrightarrow> holds_at (\<lambda>u. I u \<and> (q \<longrightarrow> P u)) R q (g v) s'"
  shows "holds_at (\<lambda>u. I u \<and> (q \<longrightarrow> P u)) R q (bind_cmd f g) s"
proof -
  obtain r s' where f: "f s = Some (r, s')" "I s'" "R s s'" "q \<longrightarrow> \<not> isl r" using assms(1) by (rule holds_atD)
  show ?thesis
  proof (cases r)
    case (Inl e)
    then show ?thesis using f by (auto simp: holds_at_def bind_cmd_def)
  next
    case (Inr v)
    then have "holds_at (\<lambda>u. I u \<and> (q \<longrightarrow> P u)) R q (g v) s'" using f by (intro assms(2)) simp_all
    then show ?thesis using f R_trans [OF f(3)] by (auto simp: holds_at_def bind_cmd_def Inr)
  qed
qed

lemma bind_at:
  assumes "holds_at I R q f s" "\<And>v s'. f s = Some (Inr v, s') \<Longrightarrow> I s' \<Longrightarrow> R s s' \<Longrightarrow> holds_at I R q (g v) s'"
  shows "holds_at I R q (bind_cmd f g) s"
  using bind_post [OF assms(1), of "\<lambda>_. True" g] assms(2) by simp

lemma after_at:
  assumes "holds_at I R q f s" "\<And>s'. I s' \<Longrightarrow> R s s' \<Longrightarrow> holds_at I R q g s'"
  shows "holds_at I R q (after f g) s"
  unfolding after_def using assms(2) by (intro bind_at [OF assms(1)]) blast

lemma after_post:
  assumes "holds_at I R q f s"
    "\<And>s'. I s' \<Longrightarrow> R s s' \<Longrightarrow> f s = Some (Inr (), s') \<Longrightarrow> holds_at (\<lambda>u. I u \<and> (q \<longrightarrow> P u)) R q g s'"
  shows "holds_at (\<lambda>u. I u \<and> (q \<longrightarrow> P u)) R q (after f g) s"
  unfolding after_def using assms by (intro bind_post) simp_all

lemma foreach_at:
  assumes "I s" "\<And>x s'. x \<in> set xs \<Longrightarrow> I s' \<Longrightarrow> R s s' \<Longrightarrow> holds_at I R q (f x) s'"
  shows "holds_at I R q (foreach f xs) s"
  using assms
proof (induction xs arbitrary: s)
  case Nil
  then show ?case by (simp add: ret_at)
next
  case (Cons x xs)
  have "holds_at I R q (foreach f xs) s'" if "I s'" "R s s'" for s'
    using that Cons.prems(2) R_trans [OF that(2)] by (intro Cons.IH) simp_all
  then show ?case using Cons.prems by (simp only: foreach.simps) (rule after_at, auto simp: R_refl)
qed

end

lemma holds_at_cong: "f s = g s \<Longrightarrow> holds_at I R q g s \<Longrightarrow> holds_at I R q f s"
  by (simp add: holds_at_def)

text \<open>A weaker invariant and relation.\<close>

lemma holds_at_mono:
  "holds_at I R q f s \<Longrightarrow> (\<And>s'. I s' \<Longrightarrow> R s s' \<Longrightarrow> I' s' \<and> R' s s') \<Longrightarrow> holds_at I' R' q f s"
  by (auto simp: holds_at_def)

lemma holds_at_finally:
  assumes "holds_at I R q f s" "\<And>r s'. f s = Some (r, s') \<Longrightarrow> I s' \<Longrightarrow> R s s' \<Longrightarrow> (q \<longrightarrow> \<not> isl r) \<Longrightarrow> I' (g s') \<and> R' s (g s')"
  shows "holds_at I' R' q (try_finally f (modify g)) s"
  using assms by (fastforce simp: holds_at_def cmd)

section \<open>Inside a batch\<close>

definition safe_partial :: "partial_state \<Rightarrow> bool" where
  "safe_partial p = (case p of Members m \<Rightarrow> True | Updater f \<Rightarrow> (\<forall>st props. \<not> isl (f st props)))"

text \<open>
  Calls of React that throw nothing. \<open>setProps\<close> and \<open>replaceProps\<close> are not among them: they throw for every
  component that is no root.
\<close>

fun safe_op :: "react_op \<Rightarrow> bool" where
  "safe_op (SetState c p) = safe_partial p"
| "safe_op (SetProps c m) = False"
| "safe_op (ReplaceProps c m) = False"
| "safe_op (Batched ops) = (\<forall>op \<in> set ops. safe_op op)"
| "safe_op op = True"

definition quiet_code :: "'w user \<Rightarrow> bool" where
  "quiet_code U \<longleftrightarrow> (\<forall>k c s. case code U k c s of (ops, exn, w) \<Rightarrow>
     exn = None \<and> (\<forall>op \<in> set ops. safe_op op) \<and> (k = Render \<longrightarrow> ops = []))"

definition spends_budget :: "('w \<Rightarrow> nat) \<Rightarrow> 'w user \<Rightarrow> bool" where
  "spends_budget budget U \<longleftrightarrow> (\<forall>k c s. case code U k c s of (ops, exn, w) \<Rightarrow>
     budget w \<le> budget (world s) \<and> (ops \<noteq> [] \<longrightarrow> budget w < budget (world s)))"

definition state_pending :: "'w sched \<Rightarrow> nat \<Rightarrow> bool" where
  "state_pending s c \<longleftrightarrow> pendingStateQueue (composites s c) \<noteq> None"

definition callback_pending :: "'w sched \<Rightarrow> nat \<Rightarrow> nat \<Rightarrow> bool" where
  "callback_pending s c k \<longleftrightarrow> (case pendingCallbacks (composites s c) of Some ks \<Rightarrow> k \<in> set ks | None \<Rightarrow> False)"

text \<open>In a batch, with nothing that could throw in the queues.\<close>

definition composite_quiet :: "composite \<Rightarrow> bool" where
  "composite_quiet x \<longleftrightarrow> pendingElement x = None \<and>
     (\<forall>ps p. pendingStateQueue x = Some ps \<longrightarrow> p \<in> set ps \<longrightarrow> safe_partial p)"

definition batching :: "bool \<Rightarrow> 'w sched \<Rightarrow> bool" where
  "batching q s \<longleftrightarrow> isBatchingUpdates s \<and> queue_ok (asapCallbackQueue s) \<and>
     (asapEnqueued s \<or> queue_entries (asapCallbackQueue s) = []) \<and> (q \<longrightarrow> (\<forall>c. composite_quiet (composites s c)))"

text \<open>Fields that code inside a batch leaves alone.\<close>

definition same_frame :: "'w sched \<Rightarrow> 'w sched \<Rightarrow> bool" where
  "same_frame s s' \<longleftrightarrow> strategy_tx s' = strategy_tx s \<and> currentOwner s' = currentOwner s \<and>
     currentlyMounting s' = currentlyMounting s \<and> currentlyUnmounting s' = currentlyUnmounting s \<and>
     events_enabled s' = events_enabled s"

definition grows :: "'w sched \<Rightarrow> 'w sched \<Rightarrow> bool" where
  "grows s s' \<longleftrightarrow> (\<exists>new. dirtyComponents s' = dirtyComponents s @ new) \<and> set (trace s) \<subseteq> set (trace s') \<and>
     set (queue_entries (asapCallbackQueue s)) \<subseteq> set (queue_entries (asapCallbackQueue s')) \<and>
     (asapEnqueued s \<longrightarrow> asapEnqueued s')"

text \<open>
  State that is newly pending belongs to a component that is now dirty, or to the one that is being mounted;
  callbacks to one that is now dirty. Callbacks wait until they are called or their component is unmounted.
\<close>

definition newly_dirty :: "'w sched \<Rightarrow> 'w sched \<Rightarrow> nat set" where
  "newly_dirty s s' = set (drop (length (dirtyComponents s)) (dirtyComponents s'))"

definition has_callbacks :: "'w sched \<Rightarrow> nat \<Rightarrow> bool" where
  "has_callbacks s c \<longleftrightarrow> pendingCallbacks (composites s c) \<noteq> None"

definition work_kept :: "'w sched \<Rightarrow> 'w sched \<Rightarrow> bool" where
  "work_kept s s' \<longleftrightarrow>
     (\<forall>c. state_pending s' c \<longrightarrow> state_pending s c \<or> c \<in> newly_dirty s s' \<or> currentlyMounting s = Some c) \<and>
     (\<forall>c. has_callbacks s' c \<longrightarrow> has_callbacks s c \<or> c \<in> newly_dirty s s') \<and>
     (\<forall>c k. callback_pending s c k \<longrightarrow> callback_pending s' c k \<or> Unmounted c \<in> set (trace s'))"

definition spent :: "('w \<Rightarrow> nat) \<Rightarrow> 'w sched \<Rightarrow> 'w sched \<Rightarrow> bool" where
  "spent budget s s' \<longleftrightarrow> budget (world s') \<le> budget (world s) \<and>
     (dirtyComponents s' \<noteq> dirtyComponents s \<or> asapEnqueued s' \<noteq> asapEnqueued s \<longrightarrow> budget (world s') < budget (world s))"

text \<open>One call of React leaves the state of the page alone; a piece of code spends.\<close>

definition op_step :: "bool \<Rightarrow> 'w sched \<Rightarrow> 'w sched \<Rightarrow> bool" where
  "op_step q s s' \<longleftrightarrow> same_frame s s' \<and> grows s s' \<and> (q \<longrightarrow> work_kept s s') \<and> world s' = world s \<and>
     (\<forall>c. registered (composites s' c) = registered (composites s c))"

definition code_step :: "bool \<Rightarrow> ('w \<Rightarrow> nat) \<Rightarrow> 'w sched \<Rightarrow> 'w sched \<Rightarrow> bool" where
  "code_step q budget s s' \<longleftrightarrow> same_frame s s' \<and> grows s s' \<and> (q \<longrightarrow> work_kept s s') \<and> spent budget s s'"

lemma more_dirty_trans: "grows s t \<Longrightarrow> grows t u \<Longrightarrow> grows s u"
  by (auto simp: grows_def)

lemma grows_refl: "grows s s"
  by (simp add: grows_def)

lemma same_frame_trans: "same_frame s t \<Longrightarrow> same_frame t u \<Longrightarrow> same_frame s u"
  by (simp add: same_frame_def)

lemma work_kept_refl: "work_kept s s"
  by (simp add: work_kept_def)

lemma newly_dirty_trans:
  assumes "grows s t" "grows t u"
  shows "newly_dirty s u = newly_dirty s t \<union> newly_dirty t u"
proof -
  obtain n1 n2 where "dirtyComponents t = dirtyComponents s @ n1" "dirtyComponents u = dirtyComponents s @ n1 @ n2"
    using assms by (auto simp: grows_def)
  then show ?thesis by (simp add: newly_dirty_def)
qed

lemma work_kept_trans:
  assumes "same_frame s t" "grows s t" "grows t u" "work_kept s t" "work_kept t u"
  shows "work_kept s u"
proof -
  have tr: "set (trace t) \<subseteq> set (trace u)" using assms(3) by (simp add: grows_def)
  have m: "currentlyMounting t = currentlyMounting s" using assms(1) by (simp add: same_frame_def)
  show ?thesis unfolding work_kept_def newly_dirty_trans [OF assms(2,3)]
  proof (intro conjI allI impI)
    fix c
    assume "state_pending u c"
    then have "state_pending t c \<or> c \<in> newly_dirty t u \<or> currentlyMounting s = Some c"
      using assms(5) by (simp add: work_kept_def m)
    then show "state_pending s c \<or> c \<in> newly_dirty s t \<union> newly_dirty t u \<or> currentlyMounting s = Some c"
      using assms(4) by (auto simp: work_kept_def)
  next
    fix c
    assume "has_callbacks u c"
    then have "has_callbacks t c \<or> c \<in> newly_dirty t u" using assms(5) by (simp add: work_kept_def)
    then show "has_callbacks s c \<or> c \<in> newly_dirty s t \<union> newly_dirty t u" using assms(4) by (auto simp: work_kept_def)
  next
    fix c k
    assume "callback_pending s c k"
    then have "callback_pending t c k \<or> Unmounted c \<in> set (trace t)" using assms(4) by (simp add: work_kept_def)
    then show "callback_pending u c k \<or> Unmounted c \<in> set (trace u)"
    proof
      assume "callback_pending t c k"
      then show ?thesis using assms(5) by (simp add: work_kept_def)
    qed (use tr in blast)
  qed
qed

lemma spent_refl: "spent budget s s"
  by (simp add: spent_def)

lemma spent_trans: "spent budget s t \<Longrightarrow> spent budget t u \<Longrightarrow> spent budget s u"
  by (auto simp: spent_def)

interpretation op: guarantee "batching q" "op_step q" for q
  by unfold_locales
    (auto simp: op_step_def grows_refl work_kept_refl same_frame_def intro: more_dirty_trans work_kept_trans)

interpretation code: guarantee "batching q" "code_step q budget" for q budget
  by unfold_locales
    (auto simp: code_step_def grows_refl work_kept_refl spent_refl same_frame_def intro: more_dirty_trans work_kept_trans spent_trans)

section \<open>Calls of React in a batch\<close>

lemma batchedUpdates_inside: "isBatchingUpdates s \<Longrightarrow> batchedUpdates fl f s = f s"
  by (cases s) (simp add: batchedUpdates_def cmd)

lemma enqueueUpdate_inside: "isBatchingUpdates s \<Longrightarrow> enqueueUpdate fl c s = push_dirty c s"
  by (simp add: enqueueUpdate_def)

definition changed :: "nat \<Rightarrow> (composite \<Rightarrow> composite) \<Rightarrow> 'w sched \<Rightarrow> 'w sched" where
  "changed c f s = (if currentlyMounting s = Some c then update_composite c f s
     else (update_composite c f s)\<lparr>dirtyComponents := dirtyComponents s @ [c]\<rparr>)"

lemma enqueue_unless_mounting_inside:
  "isBatchingUpdates s \<Longrightarrow> after (modify (update_composite c f)) (enqueue_unless_mounting fl c) s = Some (Inr (), changed c f s)"
  by (simp add: cmd enqueue_unless_mounting_def changed_def enqueueUpdate_inside push_dirty_def update_composite_def)

lemma composites_changed: "composites (changed c f s) x = (if x = c then f (composites s c) else composites s x)"
  by (simp add: changed_def update_composite_def)

lemma changed_simps [simp]:
  "isBatchingUpdates (changed c f s) = isBatchingUpdates s"
  "asapCallbackQueue (changed c f s) = asapCallbackQueue s"
  "asapEnqueued (changed c f s) = asapEnqueued s"
  "trace (changed c f s) = trace s" "world (changed c f s) = world s"
  "dirtyComponents (changed c f s) = dirtyComponents s @ (if currentlyMounting s = Some c then [] else [c])"
  "strategy_tx (changed c f s) = strategy_tx s" "currentOwner (changed c f s) = currentOwner s"
  "currentlyMounting (changed c f s) = currentlyMounting s" "currentlyUnmounting (changed c f s) = currentlyUnmounting s"
  "events_enabled (changed c f s) = events_enabled s" "next_address (changed c f s) = next_address s"
  by (simp_all add: changed_def update_composite_def)

text \<open>A change that adds state, or a callback of a component that is not being mounted.\<close>

definition adds :: "bool \<Rightarrow> 'w sched \<Rightarrow> nat \<Rightarrow> (composite \<Rightarrow> composite) \<Rightarrow> bool" where
  "adds q s c f \<longleftrightarrow>
     (q \<longrightarrow> composite_quiet (composites s c) \<longrightarrow> composite_quiet (f (composites s c))) \<and>
     (currentlyMounting s = Some c \<longrightarrow> pendingCallbacks (f (composites s c)) = pendingCallbacks (composites s c)) \<and>
     registered (f (composites s c)) = registered (composites s c) \<and>
     (\<forall>k. callback_pending s c k \<longrightarrow> (case pendingCallbacks (f (composites s c)) of Some ks \<Rightarrow> k \<in> set ks | None \<Rightarrow> False))"

lemma changed_step:
  assumes "batching q s" "adds q s c f"
  shows "batching q (changed c f s)" "op_step q s (changed c f s)"
proof -
  show "batching q (changed c f s)" using assms by (simp add: batching_def adds_def composites_changed)
  have "x \<noteq> c \<Longrightarrow> composites (changed c f s) x = composites s x" for x by (simp add: composites_changed)
  then have "state_pending (changed c f s) x \<Longrightarrow> state_pending s x \<or> x = c"
    "has_callbacks (changed c f s) x \<Longrightarrow> has_callbacks s x \<or> x = c" for x
    by (auto simp: state_pending_def has_callbacks_def)
  moreover have "callback_pending s x k \<Longrightarrow> callback_pending (changed c f s) x k" for x k
    using assms(2) by (auto simp: adds_def callback_pending_def composites_changed)
  moreover have "currentlyMounting s = Some c \<Longrightarrow> has_callbacks (changed c f s) c \<Longrightarrow> has_callbacks s c"
    using assms(2) by (simp add: adds_def composites_changed has_callbacks_def)
  moreover have "registered (composites (changed c f s) x) = registered (composites s x)" for x
    using assms(2) by (simp add: adds_def composites_changed)
  ultimately show "op_step q s (changed c f s)"
    by (fastforce simp: op_step_def same_frame_def grows_def work_kept_def newly_dirty_def)
qed

lemma changed_at:
  assumes "batching q s" "adds q s c f"
  shows "holds_at (batching q) (op_step q) q (after (modify (update_composite c f)) (enqueue_unless_mounting fl c)) s"
proof -
  have "isBatchingUpdates s" using assms(1) by (simp add: batching_def)
  then show ?thesis using changed_step [OF assms] by (simp add: holds_at_def enqueue_unless_mounting_inside)
qed

lemma ready_cases:
  assumes "batching q s" "q \<longrightarrow> currentOwner s = None" "batching q s \<Longrightarrow> holds_at (batching q) (op_step q) q (g True) s"
    "batching q s \<Longrightarrow> holds_at (batching q) (op_step q) q (g False) s"
  shows "holds_at (batching q) (op_step q) q (bind_cmd (ready_for_update c) g) s"
proof (cases "currentOwner s = None")
  case True
  then have "bind_cmd (ready_for_update c) g s = g (registered (composites s c) \<and> currentlyUnmounting s \<noteq> Some c) s"
    by (simp add: ready_for_update_def cmd)
  then show ?thesis using assms(3,4) [OF assms(1)]
    by (cases "registered (composites s c) \<and> currentlyUnmounting s \<noteq> Some c") (simp_all add: holds_at_def)
next
  case False
  then show ?thesis using assms(1,2) by (auto simp: holds_at_def ready_for_update_def cmd op.R_refl)
qed

lemma enqueue_change_at:
  assumes "batching q s" "q \<longrightarrow> currentOwner s = None" "adds q s c f"
  shows "holds_at (batching q) (op_step q) q (enqueue_change fl c f) s"
  unfolding enqueue_change_def
  by (rule ready_cases [OF assms(1,2)]) (simp_all add: changed_at assms(3) op.ret_at)

lemma asap_at:
  assumes "batching q s"
  shows "holds_at (batching q) (op_step q) q (asap k c) s"
  using assms by (auto simp: asap_def cmd holds_at_def batching_def op_step_def same_frame_def grows_def
      work_kept_def newly_dirty_def state_pending_def has_callbacks_def callback_pending_def)

lemma adds_partial_state: "safe_partial p \<or> \<not> q \<Longrightarrow> adds q s c (push_partial_state p)"
  by (cases "pendingStateQueue (composites s c)")
    (auto simp: adds_def push_partial_state_def composite_quiet_def callback_pending_def)

lemma adds_state:
  "adds q s c (replace_pending_state m)"
  "adds q s c (\<lambda>x. x\<lparr>pendingForceUpdate := True\<rparr>)"
  "currentlyMounting s \<noteq> Some c \<Longrightarrow> adds q s c (push_callback k)"
  "\<not> q \<Longrightarrow> adds q s c (merge_pending_props a m)"
  "\<not> q \<Longrightarrow> adds q s c (replace_pending_props a m)"
  by (auto simp: adds_def replace_pending_state_def push_callback_def merge_pending_props_def
      replace_pending_props_def composite_quiet_def callback_pending_def safe_partial_def
      split: option.splits)

lemma enqueueCallback_at:
  assumes "batching q s" "q \<longrightarrow> currentOwner s = None"
  shows "holds_at (batching q) (op_step q) q (enqueueCallback fl c k) s"
  unfolding enqueueCallback_def
proof (rule ready_cases [OF assms])
  show "holds_at (batching q) (op_step q) q (\<lambda>s. if \<not> True \<or> currentlyMounting s = Some c then ret () s
     else after (modify (update_composite c (push_callback k))) (enqueue_unless_mounting fl c) s) s"
    using changed_at [OF assms(1) adds_state(3), of c k] op.ret_at [OF assms(1)]
    by (auto simp: holds_at_def)
qed (use op.ret_at [OF assms(1)] in \<open>simp add: holds_at_def\<close>)

lemma enqueue_props_at:
  assumes "batching q s" "\<not> q" "\<And>a. adds q s c (f a)"
  shows "holds_at (batching q) (op_step q) q (enqueue_props fl c f msg) s"
  unfolding enqueue_props_def
proof (rule ready_cases)
  let ?s = "s\<lparr>next_address := next_address s + 1\<rparr>"
  have b: "batching q ?s" "adds q ?s c (f a)" for a
    using assms by (simp_all add: batching_def adds_def callback_pending_def)
  obtain s' where s': "after (modify (update_composite c (f (next_address s)))) (enqueue_unless_mounting fl c) ?s = Some (Inr (), s')"
      "batching q s'" "op_step q ?s s'"
    using changed_step [OF b] b(1) by (simp add: enqueue_unless_mounting_inside batching_def)
  have r: "op_step q s s'" using s'(3) assms(2) by (simp add: op_step_def same_frame_def grows_def)
  show "holds_at (batching q) (op_step q) q (if True then after (invariant (\<lambda>s. isTopLevel (composites s c)) msg)
       (after (modify (\<lambda>s. update_composite c (f (next_address s)) (s\<lparr>next_address := next_address s + 1\<rparr>)))
         (enqueue_unless_mounting fl c)) else ret ()) s"
    using s' r assms op.R_refl [OF assms(1)] by (auto simp: holds_at_def cmd)
qed (use assms op.ret_at [OF assms(1)] in simp_all)

lemma run_op_at:
  assumes "batching q s" "q \<longrightarrow> currentOwner s = None \<and> safe_op op"
  shows "holds_at (batching q) (op_step q) q (run_op fl op) s"
  using assms
proof (induction fl op arbitrary: s rule: run_op.induct)
  case (8 fl ops)
  have "isBatchingUpdates s" using "8.prems"(1) by (simp add: batching_def)
  then have "run_op fl (Batched ops) s = foreach (run_op fl) ops s" by (simp add: batchedUpdates_inside)
  moreover have "holds_at (batching q) (op_step q) q (foreach (run_op fl) ops) s"
    using "8.prems" by (intro op.foreach_at) (auto intro!: "8.IH" simp: op_step_def same_frame_def)
  ultimately show ?case by (simp add: holds_at_def)
qed (auto simp: enqueueSetState_def enqueueReplaceState_def enqueueForceUpdate_def enqueueSetProps_def enqueueReplaceProps_def
    intro!: enqueue_change_at enqueue_props_at adds_partial_state adds_state enqueueCallback_at asap_at)

lemma grows_dirty: "grows s s' \<Longrightarrow> length (dirtyComponents s) \<le> length (dirtyComponents s')"
  by (auto simp: grows_def)

text \<open>A piece of code: it is noted in the trace, its calls are made, it pays for them.\<close>

lemma run_code_at:
  assumes "batching q s" "q \<longrightarrow> quiet_code U \<and> (currentOwner s = None \<or> k = Render)" "spends_budget budget U"
  shows "holds_at (\<lambda>s'. batching q s' \<and> Ran k c \<in> set (trace s')) (code_step q budget) q (run_code U fl k c) s"
proof -
  obtain ops exn w where c: "code U k c s = (ops, exn, w)" by (cases "code U k c s")
  let ?s = "s\<lparr>world := w, trace := trace s @ [Ran k c]\<rparr>"
  have b: "batching q ?s" using assms(1) by (simp add: batching_def)
  have quiet: "q \<longrightarrow> exn = None \<and> (\<forall>op \<in> set ops. safe_op op) \<and> (currentOwner s = None \<or> ops = [])"
  proof
    assume q
    then have "case code U k c s of (ops, exn, w) \<Rightarrow> exn = None \<and> (\<forall>op \<in> set ops. safe_op op) \<and> (k = Render \<longrightarrow> ops = [])"
      using assms(2) by (simp add: quiet_code_def)
    then show "exn = None \<and> (\<forall>op \<in> set ops. safe_op op) \<and> (currentOwner s = None \<or> ops = [])"
      using assms(2) \<open>q\<close> by (auto simp: c)
  qed
  have pays: "budget w \<le> budget (world s)" "ops \<noteq> [] \<Longrightarrow> budget w < budget (world s)"
  proof -
    have "case code U k c s of (ops, exn, w) \<Rightarrow>
        budget w \<le> budget (world s) \<and> (ops \<noteq> [] \<longrightarrow> budget w < budget (world s))"
      by (rule assms(3) [unfolded spends_budget_def, THEN spec, THEN spec, THEN spec])
    then show "budget w \<le> budget (world s)" "ops \<noteq> [] \<Longrightarrow> budget w < budget (world s)" by (simp_all add: c)
  qed
  have ops: "holds_at (batching q) (op_step q) q (foreach (run_op fl) ops) ?s"
  proof (cases "ops = []")
    case True
    then show ?thesis using b by (simp add: op.ret_at)
  next
    case False
    then show ?thesis using b quiet by (intro op.foreach_at run_op_at) (auto simp: op_step_def same_frame_def)
  qed
  obtain r s' where r: "foreach (run_op fl) ops ?s = Some (r, s')" "batching q s'" "op_step q ?s s'" "q \<longrightarrow> \<not> isl r"
    using ops by (rule holds_atD)
  have step: "code_step q budget s s'"
  proof -
    have "dirtyComponents s' \<noteq> dirtyComponents s \<or> asapEnqueued s' \<noteq> asapEnqueued s \<Longrightarrow> ops \<noteq> []"
      using r(1) by (auto simp: ret_def)
    then have "spent budget s s'" using r(3) pays by (auto simp: spent_def op_step_def)
    moreover have "grows s s'" using r(3) by (auto simp: op_step_def grows_def)
    moreover have "q \<longrightarrow> work_kept s s'" using r(3)
      by (auto simp: op_step_def work_kept_def newly_dirty_def state_pending_def has_callbacks_def callback_pending_def)
    ultimately show ?thesis using r(3) by (simp add: code_step_def op_step_def same_frame_def)
  qed
  have ran: "Ran k c \<in> set (trace s')" using r(3) by (auto simp: op_step_def grows_def)
  have "run_code U fl k c s = after (foreach (run_op fl) ops) (case exn of None \<Rightarrow> ret () | Some e \<Rightarrow> throw e) ?s"
    by (simp add: run_code_def c cmd)
  also have "\<dots> = Some (case r of Inl e \<Rightarrow> Inl e | Inr _ \<Rightarrow> (case exn of None \<Rightarrow> Inr () | Some e \<Rightarrow> Inl e), s')"
    using r(1) by (simp add: cmd split: sum.split option.split)
  finally show ?thesis using r(2,4) step ran quiet
    by (auto simp: holds_at_def split: sum.split option.split)
qed

lemma run_if_defined_at:
  assumes "batching q s" "q \<longrightarrow> quiet_code U \<and> currentOwner s = None" "spends_budget budget U"
  shows "holds_at (batching q) (code_step q budget) q (run_if_defined U fl k c) s"
  using run_code_at [of q s U k budget c fl] assms
  by (auto simp: run_if_defined_def code.ret_at elim: holds_at_mono)

section \<open>Reconciliation\<close>

text \<open>Code of the page runs where nothing is being rendered or mounted.\<close>

definition inner_ok :: "bool \<Rightarrow> 'w inner \<Rightarrow> bool" where
  "inner_ok q p \<longleftrightarrow> batching q (snd p) \<and> currentOwner (snd p) = None \<and> currentlyMounting (snd p) = None \<and>
     queue_ok (reactMountReady (fst p)) \<and> queue_ok (callbackQueue (fst p))"

definition inner_step :: "bool \<Rightarrow> ('w \<Rightarrow> nat) \<Rightarrow> 'w inner \<Rightarrow> 'w inner \<Rightarrow> bool" where
  "inner_step q budget p p' \<longleftrightarrow> code_step q budget (snd p) (snd p') \<and>
     dirtyComponentsLength (fst p') = dirtyComponentsLength (fst p) \<and>
     set (queue_entries (callbackQueue (fst p))) \<subseteq> set (queue_entries (callbackQueue (fst p')))"

interpretation inner: guarantee "inner_ok q" "inner_step q budget" for q budget
  by unfold_locales
    (auto simp: inner_ok_def inner_step_def code.R_refl intro: code.R_trans)

lemma beside_at:
  assumes "inner_ok q p" "holds_at (batching q) (code_step q budget) q f (snd p)"
  shows "holds_at (inner_ok q) (inner_step q budget) q (beside f) p"
  using assms by (auto simp: holds_at_def beside_def inner_ok_def inner_step_def code_step_def same_frame_def)

definition user_ok :: "bool \<Rightarrow> ('w \<Rightarrow> nat) \<Rightarrow> 'w user \<Rightarrow> bool" where
  "user_ok q budget U \<longleftrightarrow> (q \<longrightarrow> quiet_code U) \<and> spends_budget budget U"

text \<open>A change of one instance that makes no new work and drops no callback.\<close>

definition harmless :: "bool \<Rightarrow> 'w sched \<Rightarrow> nat \<Rightarrow> composite \<Rightarrow> bool" where
  "harmless q s c x \<longleftrightarrow> (q \<longrightarrow> composite_quiet (composites s c) \<longrightarrow> composite_quiet x) \<and>
     (pendingStateQueue x = None \<or> pendingStateQueue x = pendingStateQueue (composites s c)) \<and>
     pendingCallbacks x = pendingCallbacks (composites s c)"

lemma harmless_step:
  assumes "batching q s" "harmless q s c (f (composites s c))"
  shows "batching q (update_composite c f s)" "code_step q budget s (update_composite c f s)"
proof -
  have pending: "state_pending (update_composite c f s) x \<Longrightarrow> state_pending s x"
    "pendingCallbacks (composites (update_composite c f s) x) = pendingCallbacks (composites s x)" for x
    using assms(2) by (auto simp: state_pending_def update_composite_def harmless_def split: if_splits)
  show "batching q (update_composite c f s)"
    using assms by (auto simp: batching_def harmless_def update_composite_def)
  show "code_step q budget s (update_composite c f s)"
    using pending(1) by (auto simp: code_step_def same_frame_def grows_def spent_def work_kept_def newly_dirty_def has_callbacks_def callback_pending_def
        pending(2)) (auto simp: update_composite_def)
qed

lemma on_composite_at:
  assumes "batching q s" "harmless q s c (f (composites s c))"
  shows "holds_at (batching q) (code_step q budget) q (on_composite c f) s"
  unfolding on_composite_def using assms
  by (intro code.modify_at harmless_step(1) [where f = f] harmless_step(2) [where f = f])

lemma mount_ready_at:
  assumes "inner_ok q p"
  shows "holds_at (inner_ok q) (inner_step q budget) q (mount_ready U k c) p"
  using assms by (auto simp: mount_ready_def holds_at_def cmd inner_ok_def inner_step_def code.R_refl split: prod.split)

lemmas step_defs = code_step_def same_frame_def grows_def work_kept_def newly_dirty_def state_pending_def
  has_callbacks_def callback_pending_def spent_def

lemma code_step_owner:
  "code_step q budget (s\<lparr>currentOwner := x\<rparr>) s' \<Longrightarrow> code_step q budget s (s'\<lparr>currentOwner := currentOwner s\<rparr>)"
  by (auto simp: step_defs)

lemma code_step_unmounting:
  "code_step q budget (s\<lparr>currentlyUnmounting := x\<rparr>) s' \<Longrightarrow>
    code_step q budget s (s'\<lparr>currentlyUnmounting := currentlyUnmounting s\<rparr>)"
  by (auto simp: step_defs)

lemma render_component_at:
  assumes "batching q s" "currentOwner s = None" "user_ok q budget U"
  shows "holds_at (batching q) (code_step q budget) q (render_component U fl c) s"
proof -
  let ?s = "s\<lparr>currentOwner := Some c\<rparr>"
  have "batching q ?s" using assms(1) by (simp add: batching_def)
  then have "holds_at (\<lambda>s'. batching q s' \<and> Ran Render c \<in> set (trace s')) (code_step q budget) q (run_code U fl Render c) ?s"
    using assms(3) by (intro run_code_at) (simp_all add: user_ok_def)
  then obtain r s' where r: "run_code U fl Render c ?s = Some (r, s')" "batching q s'" "code_step q budget ?s s'" "q \<longrightarrow> \<not> isl r"
    by (auto elim: holds_atD)
  have "code_step q budget s (s'\<lparr>currentOwner := None\<rparr>)" using code_step_owner [OF r(3)] assms(2) by simp
  moreover have "batching q (s'\<lparr>currentOwner := None\<rparr>)" using r(2) by (simp add: batching_def)
  ultimately show ?thesis using r(1,4) by (simp add: render_component_def holds_at_def cmd)
qed

lemma not_isl: "\<not> isl r \<longleftrightarrow> (\<exists>v. r = Inr v)"
  by (cases r) simp_all

lemma merge_partials_safe: "(\<And>p. p \<in> set ps \<Longrightarrow> safe_partial p) \<Longrightarrow> \<not> isl (merge_partials props ps st)"
proof (induction ps arbitrary: st)
  case (Cons p ps)
  have "safe_partial p" using Cons.prems by simp
  then have "\<not> isl (merge_partial props p st)"
    by (auto simp: merge_partial_def safe_partial_def not_isl split: partial_state.splits sum.split) (metis Inr_not_Inl)
  then show ?case using Cons by (auto split: sum.split)
qed simp

lemma next_state_safe: "composite_quiet x \<Longrightarrow> \<not> isl (next_state x props)"
proof (cases "pendingStateQueue x")
  case (Some ps)
  assume "composite_quiet x"
  then have safe: "\<And>p. p \<in> set ps \<Longrightarrow> safe_partial p" using Some by (auto simp: composite_quiet_def)
  have "\<not> isl (merge_partials props (drop 1 ps) st)" "\<not> isl (merge_partials props ps st)" for st
    using safe by (auto intro!: merge_partials_safe dest: in_set_dropD)
  then obtain st1 st2 where "merge_partials props (drop 1 ps) (first_state ps) = Inr st1"
      "merge_partials props ps (copy_state (inst_state x)) = Inr st2"
    unfolding not_isl by blast
  then show ?thesis using Some by (simp add: next_state_def)
qed (simp add: next_state_def)

lemma process_state_at:
  assumes "batching q s"
  shows "holds_at (batching q) (code_step q budget) q (process_state c props) s"
proof -
  let ?x = "composites s c"
  let ?s = "update_composite c (\<lambda>_. clear_pending_state ?x) s"
  have h: "harmless q s c (clear_pending_state ?x)" by (simp add: harmless_def clear_pending_state_def composite_quiet_def)
  have "process_state c props s = Some (next_state ?x props, ?s)"
    by (simp add: process_state_def processPendingState_def)
  moreover have "q \<longrightarrow> \<not> isl (next_state ?x props)" using assms by (simp add: batching_def next_state_safe)
  moreover have "batching q ?s" "code_step q budget s ?s"
    using harmless_step [of q s c "\<lambda>_. clear_pending_state ?x"] h assms by simp_all
  ultimately show ?thesis by (auto simp: holds_at_def)
qed

text \<open>Reconciliation of other components, in any state between two pieces of code.\<close>

definition good_work :: "bool \<Rightarrow> ('w \<Rightarrow> nat) \<Rightarrow> (unit, 'w inner) cmd \<Rightarrow> bool" where
  "good_work q budget f \<longleftrightarrow> (\<forall>p. inner_ok q p \<longrightarrow> holds_at (inner_ok q) (inner_step q budget) q f p)"

lemma good_workD: "good_work q budget f \<Longrightarrow> inner_ok q p \<Longrightarrow> holds_at (inner_ok q) (inner_step q budget) q f p"
  unfolding good_work_def by blast

lemma inner_okD: "inner_ok q p \<Longrightarrow> batching q (snd p) \<and> currentOwner (snd p) = None \<and> currentlyMounting (snd p) = None"
  by (simp add: inner_ok_def)

text \<open>A component whose pending work came after the first \<open>n\<close> dirty ones.\<close>

definition settled :: "nat \<Rightarrow> nat \<Rightarrow> 'w sched \<Rightarrow> bool" where
  "settled n c s \<longleftrightarrow> (state_pending s c \<or> has_callbacks s c \<longrightarrow> c \<in> set (drop n (dirtyComponents s)))"

lemma newly_dirty_drop:
  assumes "grows s s'" "n \<le> length (dirtyComponents s)"
  shows "set (drop n (dirtyComponents s)) \<union> newly_dirty s s' = set (drop n (dirtyComponents s'))"
proof -
  obtain new where "dirtyComponents s' = dirtyComponents s @ new" using assms(1) by (auto simp: grows_def)
  then show ?thesis using assms(2) by (simp add: newly_dirty_def)
qed

lemma settled_kept:
  assumes "settled n c s" "grows s s'" "work_kept s s'" "n \<le> length (dirtyComponents s)" "currentlyMounting s = None"
  shows "settled n c s'"
proof -
  have "state_pending s' c \<Longrightarrow> state_pending s c \<or> c \<in> newly_dirty s s'"
    "has_callbacks s' c \<Longrightarrow> has_callbacks s c \<or> c \<in> newly_dirty s s'"
    using assms(3,5) unfolding work_kept_def by auto
  then have "state_pending s' c \<or> has_callbacks s' c \<Longrightarrow> c \<in> set (drop n (dirtyComponents s)) \<union> newly_dirty s s'"
    using assms(1) by (auto simp: settled_def)
  then show ?thesis unfolding newly_dirty_drop [OF assms(2,4)] settled_def by blast
qed

lemma settled_step:
  assumes "settled n c s" "code_step True budget s s'" "n \<le> length (dirtyComponents s)" "currentlyMounting s = None"
  shows "settled n c s'"
  using assms by (intro settled_kept [of n c s s']) (simp_all add: code_step_def)

lemma set_instance_harmless: "harmless q s c ((composites s c)\<lparr>currentElement := e, inst_props := ps, inst_state := st\<rparr>)"
  by (simp add: harmless_def composite_quiet_def)

lemma set_instance_at:
  "batching q s \<Longrightarrow> holds_at (batching q) (code_step q budget) q (set_instance c e ps st) s"
  unfolding set_instance_def by (rule on_composite_at) (simp_all add: set_instance_harmless)

lemmas inner_rules = inner.after_at beside_at run_if_defined_at set_instance_at render_component_at mount_ready_at

lemma performComponentUpdate_at:
  assumes "inner_ok q p" "user_ok q budget U" "good_work q budget children"
  shows "holds_at (inner_ok q) (inner_step q budget) q (performComponentUpdate U fl c next ps st children) p"
  unfolding performComponentUpdate_def using assms
  by (intro inner_rules good_workD [OF assms(3)]) (auto dest: inner_okD simp: user_ok_def)

text \<open>Once the pending state has been taken, the component is settled, if its callbacks are.\<close>

definition callbacks_settled :: "nat \<Rightarrow> nat \<Rightarrow> 'w sched \<Rightarrow> bool" where
  "callbacks_settled n c s \<longleftrightarrow> n \<le> length (dirtyComponents s) \<and> currentlyMounting s = None \<and>
     (has_callbacks s c \<longrightarrow> c \<in> set (drop n (dirtyComponents s)))"

lemma callbacks_settled_step:
  assumes "callbacks_settled n c s" "code_step True budget s s'"
  shows "callbacks_settled n c s'"
proof -
  have g: "grows s s'" using assms(2) by (simp add: code_step_def)
  have n: "n \<le> length (dirtyComponents s)" using assms(1) by (simp add: callbacks_settled_def)
  have "has_callbacks s' c \<Longrightarrow> has_callbacks s c \<or> c \<in> newly_dirty s s'"
    using assms(2) by (simp add: code_step_def work_kept_def)
  then have "has_callbacks s' c \<Longrightarrow> c \<in> set (drop n (dirtyComponents s)) \<union> newly_dirty s s'"
    using assms(1) by (auto simp: callbacks_settled_def)
  then show ?thesis using grows_dirty [OF g] n assms
    unfolding newly_dirty_drop [OF g n] by (simp add: callbacks_settled_def code_step_def same_frame_def)
qed

lemma process_state_takes:
  "beside (process_state c ps) p = Some (r, p') \<Longrightarrow> callbacks_settled n c (snd p) \<Longrightarrow>
    callbacks_settled n c (snd p') \<and> settled n c (snd p')"
  by (auto simp: beside_def process_state_def processPendingState_def callbacks_settled_def settled_def has_callbacks_def
      state_pending_def update_composite_def clear_pending_state_def)

lemma holds_at_settled:
  assumes "holds_at (inner_ok q) (inner_step q budget) q f p" "q \<and> k \<longrightarrow> settled n c (snd p) \<and> callbacks_settled n c (snd p)"
  shows "holds_at (\<lambda>p'. inner_ok q p' \<and> (q \<longrightarrow> k \<longrightarrow> settled n c (snd p'))) (inner_step q budget) q f p"
  using assms(1)
proof (rule holds_at_mono)
  fix p'
  assume p': "inner_ok q p'" "inner_step q budget p p'"
  have "settled n c (snd p')" if "q" "k"
  proof -
    have c: "code_step True budget (snd p) (snd p')" using p'(2) that by (simp add: inner_step_def)
    have "n \<le> length (dirtyComponents (snd p))" "currentlyMounting (snd p) = None" "settled n c (snd p)"
      using assms(2) that by (simp_all add: callbacks_settled_def)
    then show ?thesis using settled_step [OF _ c] by simp
  qed
  then show "(inner_ok q p' \<and> (q \<longrightarrow> k \<longrightarrow> settled n c (snd p'))) \<and> inner_step q budget p p'" using p' by blast
qed

lemma callbacks_settled_inner:
  assumes "q \<and> k \<longrightarrow> callbacks_settled n c (snd p)" "inner_step q budget p p'"
  shows "q \<and> k \<longrightarrow> callbacks_settled n c (snd p')"
proof (intro impI, elim conjE)
  assume "q" "k"
  then have "callbacks_settled n c (snd p)" "code_step True budget (snd p) (snd p')" using assms by (simp_all add: inner_step_def)
  then show "callbacks_settled n c (snd p')" by (rule callbacks_settled_step)
qed

lemma updateComponent_settles:
  assumes "inner_ok q p" "user_ok q budget U" "good_work q budget children" "q \<and> k \<longrightarrow> callbacks_settled n c (snd p)"
  shows "holds_at (\<lambda>p'. inner_ok q p' \<and> (q \<longrightarrow> k \<longrightarrow> settled n c (snd p'))) (inner_step q budget) q
    (updateComponent U fl c prev next children) p"
proof (rule holds_at_cong, unfold updateComponent_def Let_def, rule refl, rule inner.after_post)
  let ?ps = "if \<not> strict_eq prev next then el_props next else inst_props (composites (snd p) c)"
  show "holds_at (inner_ok q) (inner_step q budget) q
      (if \<not> strict_eq prev next then beside (run_if_defined U fl WillReceiveProps c) else ret ()) p"
    using assms(1,2) by (auto intro!: beside_at run_if_defined_at inner.ret_at dest: inner_okD simp: user_ok_def)
  fix p1
  assume p1: "inner_ok q p1" "inner_step q budget p p1"
  show "holds_at (\<lambda>p'. inner_ok q p' \<and> (q \<longrightarrow> k \<longrightarrow> settled n c (snd p'))) (inner_step q budget) q
    (bind_cmd (beside (process_state c ?ps)) (\<lambda>st s.
       if pendingForceUpdate (composites (snd s) c) \<or> shouldUpdate U c ?ps st (snd s)
       then after (beside (on_composite c (\<lambda>x. x\<lparr>pendingForceUpdate := False\<rparr>)))
              (performComponentUpdate U fl c next ?ps st children) s
       else beside (set_instance c next ?ps st) s)) p1"
  proof (rule inner.bind_post)
    show "holds_at (inner_ok q) (inner_step q budget) q (beside (process_state c ?ps)) p1"
      using p1(1) by (intro beside_at process_state_at) (simp_all add: inner_ok_def)
    fix st p2
    assume p2: "beside (process_state c ?ps) p1 = Some (Inr st, p2)" "inner_ok q p2" "inner_step q budget p1 p2"
    have settled: "q \<and> k \<longrightarrow> settled n c (snd p2) \<and> callbacks_settled n c (snd p2)"
      using process_state_takes [OF p2(1)] callbacks_settled_inner [OF assms(4) p1(2)] by blast
    have "holds_at (inner_ok q) (inner_step q budget) q (beside (on_composite c (\<lambda>x. x\<lparr>pendingForceUpdate := False\<rparr>))) p2"
      using p2(2) by (intro beside_at on_composite_at) (auto dest: inner_okD simp: harmless_def composite_quiet_def)
    then have force: "holds_at (inner_ok q) (inner_step q budget) q (after (beside (on_composite c (\<lambda>x. x\<lparr>pendingForceUpdate := False\<rparr>)))
              (performComponentUpdate U fl c next ?ps st children)) p2"
      using assms(2,3) by (intro inner.after_at performComponentUpdate_at)
    have skip: "holds_at (inner_ok q) (inner_step q budget) q (beside (set_instance c next ?ps st)) p2"
      using p2(2) by (intro beside_at set_instance_at) (auto dest: inner_okD)
    show "holds_at (\<lambda>p'. inner_ok q p' \<and> (q \<longrightarrow> k \<longrightarrow> settled n c (snd p'))) (inner_step q budget) q
      (\<lambda>s. if pendingForceUpdate (composites (snd s) c) \<or> shouldUpdate U c ?ps st (snd s)
       then after (beside (on_composite c (\<lambda>x. x\<lparr>pendingForceUpdate := False\<rparr>)))
              (performComponentUpdate U fl c next ?ps st children) s
       else beside (set_instance c next ?ps st) s) p2"
      using holds_at_settled [OF force settled] holds_at_settled [OF skip settled]
      by (cases "pendingForceUpdate (composites (snd p2) c) \<or> shouldUpdate U c ?ps st (snd p2)") (simp_all add: holds_at_def)
  qed
qed

lemmas updateComponent_at = updateComponent_settles [where k = False, simplified]

lemma no_element_harmless: "harmless q s c ((composites s c)\<lparr>pendingElement := None\<rparr>)"
  by (simp add: harmless_def composite_quiet_def)

lemma receiveComponent_at:
  assumes "inner_ok q p" "user_ok q budget U" "good_work q budget children"
  shows "holds_at (inner_ok q) (inner_step q budget) q (receiveComponent U fl c e children) p"
proof (cases "strict_eq e (currentElement (composites (snd p) c)) \<and> el_owner e \<noteq> None")
  case True
  then show ?thesis using inner.ret_at [OF assms(1)] by (auto simp: receiveComponent_def holds_at_def)
next
  case False
  have "holds_at (inner_ok q) (inner_step q budget) q (after (beside (on_composite c (\<lambda>x. x\<lparr>pendingElement := None\<rparr>)))
      (updateComponent U fl c (currentElement (composites (snd p) c)) e children)) p"
  proof (rule inner.after_at)
    show "holds_at (inner_ok q) (inner_step q budget) q (beside (on_composite c (\<lambda>x. x\<lparr>pendingElement := None\<rparr>))) p"
      by (intro beside_at on_composite_at) (use assms(1) in \<open>simp_all add: inner_ok_def no_element_harmless\<close>)
  qed (rule updateComponent_at [OF _ assms(2,3)])
  moreover have "receiveComponent U fl c e children p = after (beside (on_composite c (\<lambda>x. x\<lparr>pendingElement := None\<rparr>)))
      (updateComponent U fl c (currentElement (composites (snd p) c)) e children) p"
    using False by (auto simp: receiveComponent_def)
  ultimately show ?thesis by (rule holds_at_cong [rotated])
qed

lemma will_unmount_at:
  assumes "batching q s" "currentOwner s = None" "user_ok q budget U"
  shows "holds_at (batching q) (code_step q budget) q (will_unmount U fl c) s"
proof (cases "has_method U c WillUnmount")
  case True
  let ?s = "s\<lparr>currentlyUnmounting := Some c\<rparr>"
  have "batching q ?s" using assms(1) by (simp add: batching_def)
  then have "holds_at (\<lambda>s'. batching q s' \<and> Ran WillUnmount c \<in> set (trace s')) (code_step q budget) q (run_code U fl WillUnmount c) ?s"
    using assms(2,3) by (intro run_code_at) (simp_all add: user_ok_def)
  then obtain r s' where r: "run_code U fl WillUnmount c ?s = Some (r, s')" "batching q s'" "code_step q budget ?s s'" "q \<longrightarrow> \<not> isl r"
    by (auto elim: holds_atD)
  have "batching q (s'\<lparr>currentlyUnmounting := currentlyUnmounting s\<rparr>)" using r(2) by (simp add: batching_def)
  then show ?thesis using True r(1,4) code_step_unmounting [OF r(3)] by (simp add: holds_at_def cmd will_unmount_def)
next
  case False
  then show ?thesis using code.ret_at [OF assms(1)] by (simp add: holds_at_def will_unmount_def)
qed

lemma reset_step:
  assumes "batching q s"
  shows "batching q ((update_composite c reset_instance s)\<lparr>trace := trace s @ [Unmounted c]\<rparr>)"
    "code_step q budget s ((update_composite c reset_instance s)\<lparr>trace := trace s @ [Unmounted c]\<rparr>)"
  using assms by (auto simp: batching_def step_defs update_composite_def reset_instance_def composite_quiet_def)

lemma unmountComponent_at:
  assumes "inner_ok q p" "user_ok q budget U" "good_work q budget children"
  shows "holds_at (inner_ok q) (inner_step q budget) q (unmountComponent U fl c children) p"
  unfolding unmountComponent_def using assms
  by (intro inner.after_at beside_at will_unmount_at good_workD [OF assms(3)] code.modify_at reset_step)
    (auto dest: inner_okD)

text \<open>In quiet code nothing is pending for a component that has just been mounted.\<close>

lemma quiet_render:
  assumes "quiet_code U" "render_component U fl c s = Some (r, s')"
  shows "composites s' = composites s"
proof -
  obtain ops exn w where c: "code U Render c (s\<lparr>currentOwner := Some c\<rparr>) = (ops, exn, w)"
    by (cases "code U Render c (s\<lparr>currentOwner := Some c\<rparr>)")
  have "case code U Render c (s\<lparr>currentOwner := Some c\<rparr>) of (ops, exn, w) \<Rightarrow>
      exn = None \<and> (\<forall>op \<in> set ops. safe_op op) \<and> (Render = Render \<longrightarrow> ops = [])"
    by (rule assms(1) [unfolded quiet_code_def, THEN spec, THEN spec, THEN spec])
  then have "ops = []" "exn = None" by (simp_all add: c)
  then show ?thesis using assms(2) by (auto simp: render_component_def run_code_def c cmd)
qed

lemma will_mount_at:
  fixes s :: "'w sched"
  assumes "batching q s" "currentOwner s = None" "user_ok q budget U"
  shows "holds_at (batching q) (code_step q budget) q (will_mount U fl c) s"
proof (cases "has_method U c WillMount")
  case True
  have "holds_at (batching q) (code_step q budget) q (run_code U fl WillMount c) s"
    using run_code_at [OF assms(1), of U WillMount budget c fl] assms(2,3) by (auto simp: user_ok_def holds_at_def)
  then have "holds_at (batching q) (code_step q budget) q (after (run_code U fl WillMount c) (\<lambda>s.
       let x = composites s c
       in if pendingStateQueue x \<noteq> None
          then bind_cmd (process_state c (inst_props x)) (\<lambda>st. on_composite c (\<lambda>x. x\<lparr>inst_state := st\<rparr>)) s
          else ret () s)) s"
  proof (rule code.after_at)
    fix s' :: "'w sched"
    assume s': "batching q s'"
    let ?f = "\<lambda>x. bind_cmd (process_state c (inst_props x)) (\<lambda>st. on_composite c (\<lambda>x. x\<lparr>inst_state := st\<rparr>)) :: (unit, 'w sched) cmd"
    have "holds_at (batching q) (code_step q budget) q (?f x) s'" for x
      using s' by (intro code.bind_at process_state_at on_composite_at) (auto simp: harmless_def composite_quiet_def)
    then show "holds_at (batching q) (code_step q budget) q (\<lambda>s. let x = composites s c
       in if pendingStateQueue x \<noteq> None then ?f x s else ret () s) s'"
      using code.ret_at [OF s'] by (cases "pendingStateQueue (composites s' c) \<noteq> None") (simp_all add: holds_at_def)
  qed
  then show ?thesis by (simp add: will_mount_def True)
qed (simp add: will_mount_def code.ret_at assms(1))

text \<open>A finished state step taken while \<open>c\<close> was being mounted, seen from before and after.\<close>

lemma mounted_step:
  assumes "code_step q budget ((update_composite c f (s0\<lparr>nextMountID := m\<rparr>))\<lparr>currentlyMounting := Some c\<rparr>) s1"
    "q \<longrightarrow> \<not> state_pending s1 c" "pendingCallbacks (composites s0 c) = None" "pendingCallbacks (f (composites s0 c)) = None"
    "currentlyMounting s0 = None"
  shows "code_step q budget s0 (s1\<lparr>currentlyMounting := None\<rparr>)"
proof -
  let ?s = "(update_composite c f (s0\<lparr>nextMountID := m\<rparr>))\<lparr>currentlyMounting := Some c\<rparr>"
  let ?t = "s1\<lparr>currentlyMounting := None\<rparr>"
  have other: "x \<noteq> c \<Longrightarrow> composites ?s x = composites s0 x" for x by (simp add: update_composite_def)
  have none: "\<not> has_callbacks ?s c" using assms(4) by (simp add: has_callbacks_def update_composite_def)
  have "work_kept s0 ?t" if q
  proof -
    have w: "work_kept ?s s1" using assms(1) that by (simp add: code_step_def)
    have d: "newly_dirty ?s s1 = newly_dirty s0 ?t" by (simp add: newly_dirty_def update_composite_def)
    show ?thesis unfolding work_kept_def
    proof (intro conjI allI impI)
      fix x
      assume x: "state_pending ?t x"
      then have "x \<noteq> c" using assms(2) that by (auto simp: state_pending_def)
      moreover have "state_pending ?s x \<or> x \<in> newly_dirty ?s s1 \<or> x = c"
        using w x by (auto simp: work_kept_def state_pending_def)
      ultimately show "state_pending s0 x \<or> x \<in> newly_dirty s0 ?t \<or> currentlyMounting s0 = Some x"
        using other by (auto simp: state_pending_def d)
    next
      fix x
      assume "has_callbacks ?t x"
      then have "has_callbacks ?s x \<or> x \<in> newly_dirty ?s s1" using w by (auto simp: work_kept_def has_callbacks_def)
      then show "has_callbacks s0 x \<or> x \<in> newly_dirty s0 ?t" using other none by (cases "x = c") (auto simp: has_callbacks_def d)
    next
      fix x k
      assume x: "callback_pending s0 x k"
      then have "x \<noteq> c" using assms(3) by (auto simp: callback_pending_def)
      then have "callback_pending ?s x k" using x other by (simp add: callback_pending_def)
      then show "callback_pending ?t x k \<or> Unmounted x \<in> set (trace ?t)" using w by (auto simp: work_kept_def callback_pending_def)
    qed
  qed
  moreover have "same_frame s0 ?t" "grows s0 ?t" "spent budget s0 ?t"
    using assms(1,5) by (auto simp: code_step_def same_frame_def grows_def spent_def update_composite_def)
  ultimately show ?thesis by (simp add: code_step_def)
qed

text \<open>\<open>componentWillMount\<close> and the first rendering, in quiet code: the state set meanwhile has been taken.\<close>

lemma will_mount_takes:
  assumes "will_mount U fl c s = Some (Inr (), s')" "\<not> state_pending s c"
  shows "\<not> state_pending s' c"
  using assms
  by (auto simp: will_mount_def cmd Let_def process_state_def processPendingState_def on_composite_def state_pending_def
      update_composite_def clear_pending_state_def split: if_splits option.splits sum.splits prod.splits)

lemma mount_code_at:
  assumes "batching q s" "currentOwner s = None" "user_ok q budget U" "\<not> state_pending s c"
  shows "holds_at (\<lambda>s'. batching q s' \<and> (q \<longrightarrow> \<not> state_pending s' c)) (code_step q budget) q
    (after (will_mount U fl c) (render_component U fl c)) s"
proof (rule code.after_post)
  show "holds_at (batching q) (code_step q budget) q (will_mount U fl c) s" using assms(1-3) by (rule will_mount_at)
  fix s'
  assume s': "batching q s'" "code_step q budget s s'" "will_mount U fl c s = Some (Inr (), s')"
  have taken: "\<not> state_pending s' c" using s'(3) assms(4) by (rule will_mount_takes)
  have owner: "currentOwner s' = None" using s'(2) assms(2) by (simp add: code_step_def same_frame_def)
  obtain r u where r: "render_component U fl c s' = Some (r, u)" "batching q u" "code_step q budget s' u" "q \<longrightarrow> \<not> isl r"
    using render_component_at [OF s'(1) owner assms(3)] by (rule holds_atD)
  have "\<not> state_pending u c" if q
    using quiet_render [OF _ r(1)] assms(3) taken that by (simp add: user_ok_def state_pending_def)
  then show "holds_at (\<lambda>s'. batching q s' \<and> (q \<longrightarrow> \<not> state_pending s' c)) (code_step q budget) q (render_component U fl c) s'"
    using r by (auto simp: holds_at_def)
qed

lemma initial_mount_at:
  assumes "batching q s" "currentOwner s = None" "currentlyMounting s = None" "user_ok q budget U" "never_mounted c s"
  shows "holds_at (batching q) (code_step q budget) q (initial_mount U fl c e) s"
proof -
  let ?f = "\<lambda>_. (construct e)\<lparr>mountOrder := nextMountID s, inst_props := el_props e, inst_state := initial U c s, registered := True\<rparr>"
  let ?s = "(update_composite c ?f (s\<lparr>nextMountID := nextMountID s + 1\<rparr>))\<lparr>currentlyMounting := Some c\<rparr>"
  have b: "batching q ?s" "currentOwner ?s = None" "\<not> state_pending ?s c"
    using assms(1,2) by (simp_all add: batching_def update_composite_def composite_quiet_def construct_def state_pending_def)
  obtain r s' where r: "after (will_mount U fl c) (render_component U fl c) ?s = Some (r, s')" "batching q s'"
      "q \<longrightarrow> \<not> state_pending s' c" "code_step q budget ?s s'" "q \<longrightarrow> \<not> isl r"
    using mount_code_at [OF b(1,2) assms(4) b(3), of fl] by (auto elim: holds_atD)
  have "code_step q budget s (s'\<lparr>currentlyMounting := None\<rparr>)"
    using r(3) assms(3,5) by (intro mounted_step [OF r(4)]) (simp_all add: never_mounted_def construct_def)
  moreover have "batching q (s'\<lparr>currentlyMounting := None\<rparr>)" using r(2) by (simp add: batching_def)
  moreover have "initial_mount U fl c e s = try_finally (after (will_mount U fl c) (render_component U fl c))
      (modify (\<lambda>s. s\<lparr>currentlyMounting := None\<rparr>)) ?s"
    using assms(3) by (simp add: initial_mount_def after_def bind_cmd_def modify_def Let_def update_composite_def)
  ultimately show ?thesis using r(1,5) by (simp add: holds_at_def try_finally_def modify_def)
qed

lemma mountComponent_at:
  assumes "inner_ok q p" "user_ok q budget U" "good_work q budget children"
  shows "holds_at (inner_ok q) (inner_step q budget) q (mountComponent U fl c e children) p"
proof (cases "never_mounted c (snd p)")
  case True
  have "holds_at (inner_ok q) (inner_step q budget) q
      (after (beside (initial_mount U fl c e)) (after children (mount_ready U DidMount c))) p"
    using assms True by (intro inner.after_at beside_at initial_mount_at good_workD [OF assms(3)] mount_ready_at)
      (auto dest: inner_okD)
  then show ?thesis by (rule holds_at_cong [rotated]) (simp add: mountComponent_def True)
next
  case False
  show ?thesis using inner.ret_at [OF assms(1)] by (rule holds_at_cong [rotated]) (simp add: mountComponent_def False)
qed

lemma good_workI: "(\<And>p. inner_ok q p \<Longrightarrow> holds_at (inner_ok q) (inner_step q budget) q f p) \<Longrightarrow> good_work q budget f"
  unfolding good_work_def by blast

lemma foreach_good:
  assumes "\<And>x. x \<in> set xs \<Longrightarrow> good_work q budget (f x)"
  shows "good_work q budget (foreach f xs)"
proof (rule good_workI, rule inner.foreach_at)
  show "holds_at (inner_ok q) (inner_step q budget) q (f x) p" if "x \<in> set xs" "inner_ok q p" for x p
    using that(2) by (rule good_workD [OF assms [OF that(1)]])
qed

lemma do_work_good: "user_ok q budget U \<Longrightarrow> good_work q budget (do_work U fl w)"
proof (induction U fl w rule: do_work.induct)
  case (1 U fl c e ws)
  have "good_work q budget (foreach (do_work U fl) ws)" using 1 by (intro foreach_good) simp
  then show ?case unfolding do_work.simps using "1.prems" by - (rule good_workI, rule receiveComponent_at)
next
  case (2 U fl c e ws)
  have "good_work q budget (foreach (do_work U fl) ws)" using 2 by (intro foreach_good) simp
  then show ?case unfolding do_work.simps using "2.prems" by - (rule good_workI, rule mountComponent_at)
next
  case (3 U fl c ws)
  have "good_work q budget (foreach (do_work U fl) ws)" using 3 by (intro foreach_good) simp
  then show ?case unfolding do_work.simps using "3.prems" by - (rule good_workI, rule unmountComponent_at)
qed

lemma do_rendered_good:
  fixes U :: "'w user"
  assumes "user_ok q budget U"
  shows "good_work q budget (do_rendered U fl c)"
proof (rule good_workI)
  fix p :: "'w inner"
  assume p: "inner_ok q p"
  have "good_work q budget (foreach (do_work U fl) (rendered U c (snd p)))"
    using assms by (intro foreach_good do_work_good)
  then have "holds_at (inner_ok q) (inner_step q budget) q (foreach (do_work U fl) (rendered U c (snd p))) p"
    using p by (rule good_workD)
  then show "holds_at (inner_ok q) (inner_step q budget) q (do_rendered U fl c) p"
    by (rule holds_at_cong [rotated]) (simp add: do_rendered_def)
qed

lemma performUpdateIfNecessary_settles:
  fixes U :: "'w user"
  assumes "inner_ok q p" "user_ok q budget U" "q \<longrightarrow> callbacks_settled n c (snd p)"
  shows "holds_at (\<lambda>p'. inner_ok q p' \<and> (q \<longrightarrow> settled n c (snd p'))) (inner_step q budget) q (performUpdateIfNecessary U fl c) p"
  unfolding performUpdateIfNecessary_def
proof (rule inner.after_post)
  have "holds_at (inner_ok q) (inner_step q budget) q (receiveComponent U fl c e (do_rendered U fl c)) p" for e
    by (rule receiveComponent_at [OF assms(1,2) do_rendered_good [OF assms(2)]])
  then show "holds_at (inner_ok q) (inner_step q budget) q (\<lambda>s. case pendingElement (composites (snd s) c) of
         Some e \<Rightarrow> receiveComponent U fl c e (do_rendered U fl c) s
       | None \<Rightarrow> ret () s) p"
    using inner.ret_at [OF assms(1)] by (cases "pendingElement (composites (snd p) c)") (simp_all add: holds_at_def)
  fix p' :: "'w inner"
  assume p': "inner_ok q p'" "inner_step q budget p p'"
  have cs: "q \<longrightarrow> callbacks_settled n c (snd p')" using callbacks_settled_inner [of q True, OF _ p'(2)] assms(3) by simp
  let ?x = "composites (snd p') c"
  have "holds_at (\<lambda>p'. inner_ok q p' \<and> (q \<longrightarrow> settled n c (snd p'))) (inner_step q budget) q
      (updateComponent U fl c (currentElement ?x) (currentElement ?x) (do_rendered U fl c)) p'"
    using updateComponent_settles [OF p'(1) assms(2) do_rendered_good [OF assms(2)], of True n c] cs by simp
  moreover have "holds_at (\<lambda>p'. inner_ok q p' \<and> (q \<longrightarrow> settled n c (snd p'))) (inner_step q budget) q (ret ()) p'"
    if "pendingStateQueue ?x = None"
    using that p' cs by (auto simp: holds_at_def ret_def inner.R_refl settled_def state_pending_def callbacks_settled_def)
  ultimately show "holds_at (\<lambda>p'. inner_ok q p' \<and> (q \<longrightarrow> settled n c (snd p'))) (inner_step q budget) q (\<lambda>s.
      let x = composites (snd s) c
      in if pendingStateQueue x \<noteq> None \<or> pendingForceUpdate x
         then updateComponent U fl c (currentElement x) (currentElement x) (do_rendered U fl c) s
         else ret () s) p'"
    by (cases "pendingStateQueue ?x \<noteq> None \<or> pendingForceUpdate ?x") (simp_all add: holds_at_def Let_def)
qed

section \<open>One pass over the dirty components\<close>

text \<open>
  The callbacks of a component that is updated move into the queue of the transaction. The dirty components are sorted,
  so only their number is compared.
\<close>

definition callbacks_kept :: "'w inner \<Rightarrow> 'w inner \<Rightarrow> bool" where
  "callbacks_kept p p' \<longleftrightarrow> (\<forall>c k. callback_pending (snd p) c k \<longrightarrow> callback_pending (snd p') c k \<or>
     Unmounted c \<in> set (trace (snd p')) \<or> (User k, c) \<in> set (queue_entries (callbackQueue (fst p'))))"

definition count_spent :: "('w \<Rightarrow> nat) \<Rightarrow> 'w sched \<Rightarrow> 'w sched \<Rightarrow> bool" where
  "count_spent budget s s' \<longleftrightarrow> budget (world s') \<le> budget (world s) \<and>
     (length (dirtyComponents s') \<noteq> length (dirtyComponents s) \<or> asapEnqueued s' \<noteq> asapEnqueued s
        \<longrightarrow> budget (world s') < budget (world s))"

lemma count_spent_trans: "count_spent budget s t \<Longrightarrow> count_spent budget t u \<Longrightarrow> count_spent budget s u"
  unfolding count_spent_def by (metis le_less_trans less_le_trans le_trans)

definition batch_step :: "bool \<Rightarrow> ('w \<Rightarrow> nat) \<Rightarrow> 'w inner \<Rightarrow> 'w inner \<Rightarrow> bool" where
  "batch_step q budget p p' \<longleftrightarrow> same_frame (snd p) (snd p') \<and> set (trace (snd p)) \<subseteq> set (trace (snd p')) \<and>
     set (queue_entries (asapCallbackQueue (snd p))) \<subseteq> set (queue_entries (asapCallbackQueue (snd p'))) \<and>
     (asapEnqueued (snd p) \<longrightarrow> asapEnqueued (snd p')) \<and>
     length (dirtyComponents (snd p)) \<le> length (dirtyComponents (snd p')) \<and>
     count_spent budget (snd p) (snd p') \<and>
     dirtyComponentsLength (fst p') = dirtyComponentsLength (fst p) \<and>
     set (queue_entries (callbackQueue (fst p))) \<subseteq> set (queue_entries (callbackQueue (fst p'))) \<and>
     (q \<longrightarrow> callbacks_kept p p')"

lemma callbacks_kept_trans:
  assumes "callbacks_kept p1 p2" "callbacks_kept p2 p3" "set (trace (snd p2)) \<subseteq> set (trace (snd p3))"
    "set (queue_entries (callbackQueue (fst p2))) \<subseteq> set (queue_entries (callbackQueue (fst p3)))"
  shows "callbacks_kept p1 p3"
  unfolding callbacks_kept_def
proof (intro allI impI)
  fix c k
  assume "callback_pending (snd p1) c k"
  then have "callback_pending (snd p2) c k \<or> Unmounted c \<in> set (trace (snd p2)) \<or>
      (User k, c) \<in> set (queue_entries (callbackQueue (fst p2)))"
    using assms(1) by (simp add: callbacks_kept_def)
  then show "callback_pending (snd p3) c k \<or> Unmounted c \<in> set (trace (snd p3)) \<or>
      (User k, c) \<in> set (queue_entries (callbackQueue (fst p3)))"
  proof
    assume "callback_pending (snd p2) c k"
    then show ?thesis using assms(2) by (simp add: callbacks_kept_def)
  qed (use assms(3,4) in blast)
qed

lemma batch_step_refl: "batch_step q budget p p"
  by (simp add: batch_step_def same_frame_def callbacks_kept_def count_spent_def)

lemma batch_step_trans:
  assumes "batch_step q budget p1 p2" "batch_step q budget p2 p3"
  shows "batch_step q budget p1 p3"
proof -
  have "q \<longrightarrow> callbacks_kept p1 p3" using assms callbacks_kept_trans [of p1 p2 p3] by (simp add: batch_step_def)
  moreover have "count_spent budget (snd p1) (snd p3)"
    using assms by (auto simp: batch_step_def intro: count_spent_trans)
  ultimately show ?thesis using assms by (auto simp: batch_step_def same_frame_def)
qed

interpretation batch: guarantee "inner_ok q" "batch_step q budget" for q budget
  by unfold_locales (auto simp: batch_step_refl intro: batch_step_trans)

lemma inner_batch_step:
  assumes "inner_step q budget p p'"
  shows "batch_step q budget p p'"
proof -
  have "q \<longrightarrow> callbacks_kept p p'" using assms by (auto simp: inner_step_def code_step_def work_kept_def callbacks_kept_def)
  then show ?thesis using assms grows_dirty [of "snd p" "snd p'"]
    by (auto simp: batch_step_def inner_step_def code_step_def grows_def spent_def count_spent_def)
qed

definition all_settled :: "nat \<Rightarrow> 'w sched \<Rightarrow> bool" where
  "all_settled n s \<longleftrightarrow> (\<forall>c. settled n c s)"

lemma fold_enqueue:
  "queue_ok qu \<Longrightarrow> queue_ok (fold (\<lambda>k. enqueue (User k) c) ks qu) \<and>
    queue_entries (fold (\<lambda>k. enqueue (User k) c) ks qu) = queue_entries qu @ map (\<lambda>k. (User k, c)) ks"
  by (induction ks arbitrary: qu) simp_all

lemma performUpdate_settles_all:
  assumes "inner_ok q p" "user_ok q budget U" "q \<longrightarrow> callbacks_settled n c (snd p) \<and> (\<forall>x. x \<noteq> c \<longrightarrow> settled n x (snd p))"
  shows "holds_at (\<lambda>p'. inner_ok q p' \<and> (q \<longrightarrow> all_settled n (snd p'))) (inner_step q budget) q (performUpdateIfNecessary U fl c) p"
proof -
  have "holds_at (\<lambda>p'. inner_ok q p' \<and> (q \<longrightarrow> settled n c (snd p'))) (inner_step q budget) q (performUpdateIfNecessary U fl c) p"
    using assms by (intro performUpdateIfNecessary_settles) simp_all
  then show ?thesis
  proof (rule holds_at_mono)
    fix p'
    assume p': "inner_ok q p' \<and> (q \<longrightarrow> settled n c (snd p'))" "inner_step q budget p p'"
    have "settled n x (snd p')" if q for x
    proof (cases "x = c")
      case True
      then show ?thesis using p'(1) that by simp
    next
      case False
      have c: "code_step True budget (snd p) (snd p')" using p'(2) that by (simp add: inner_step_def)
      have "settled n x (snd p)" "n \<le> length (dirtyComponents (snd p))" "currentlyMounting (snd p) = None"
        using assms(3) that False by (simp_all add: callbacks_settled_def)
      then show ?thesis using settled_step [OF _ c] by simp
    qed
    then show "(inner_ok q p' \<and> (q \<longrightarrow> all_settled n (snd p'))) \<and> inner_step q budget p p'" using p' by (simp add: all_settled_def)
  qed
qed

lemma update_dirty_at:
  fixes U :: "'w user"
  assumes "inner_ok q p" "user_ok q budget U" "i < length (dirtyComponents (snd p))" "q \<longrightarrow> all_settled i (snd p)"
  shows "holds_at (\<lambda>p'. inner_ok q p' \<and> (q \<longrightarrow> all_settled (Suc i) (snd p'))) (batch_step q budget) q (update_dirty U fl i) p"
proof -
  obtain t s where p: "p = (t, s)" by (cases p)
  define c where "c = dirtyComponents s ! i"
  define cbs where "cbs = pendingCallbacks (composites s c)"
  define s1 where "s1 = update_composite c (\<lambda>x. x\<lparr>pendingCallbacks := None\<rparr>) s"
  have i: "i < length (dirtyComponents s)" using assms(3) by (simp add: p)
  have drop: "drop i (dirtyComponents s) = c # drop (Suc i) (dirtyComponents s)"
    unfolding c_def using i by (rule Cons_nth_drop_Suc [symmetric])
  have same: "dirtyComponents s1 = dirtyComponents s" "\<And>x. x \<noteq> c \<Longrightarrow> composites s1 x = composites s x"
    "pendingCallbacks (composites s1 c) = None"
    by (simp_all add: s1_def update_composite_def)
  have ok: "inner_ok q (t, s1)"
    using assms(1) by (simp add: p inner_ok_def s1_def batching_def update_composite_def composite_quiet_def)
  have "callbacks_settled (Suc i) c s1"
    using ok i same by (simp add: callbacks_settled_def has_callbacks_def inner_ok_def)
  moreover have "settled (Suc i) x s1" if q "x \<noteq> c" for x
  proof -
    have "settled i x s" using assms(4) that(1) by (simp add: p all_settled_def)
    then show ?thesis using that(2) same(2) [OF that(2)] by (simp add: settled_def drop state_pending_def has_callbacks_def same(1))
  qed
  ultimately obtain r t2 s2 where r: "performUpdateIfNecessary U fl c (t, s1) = Some (r, (t2, s2))" "inner_ok q (t2, s2)"
      "q \<longrightarrow> all_settled (Suc i) s2" "inner_step q budget (t, s1) (t2, s2)" "q \<longrightarrow> \<not> isl r"
    using performUpdate_settles_all [OF ok assms(2), of "Suc i" c fl] by (auto simp: holds_at_def)
  let ?t = "case cbs of None \<Rightarrow> t2 | Some ks \<Rightarrow> t2\<lparr>callbackQueue := fold (\<lambda>k. enqueue (User k) c) ks (callbackQueue t2)\<rparr>"
  have run: "update_dirty U fl i p = Some (r, (case r of Inl _ \<Rightarrow> t2 | Inr _ \<Rightarrow> ?t), s2)"
    using r(1) by (simp add: update_dirty_def p c_def [symmetric] cbs_def [symmetric] on_composite_def beside_def s1_def [symmetric]
        cmd split: sum.split option.split)
  have qok: "queue_ok (callbackQueue t2)" using r(2) by (simp add: inner_ok_def)
  have ok2: "inner_ok q (?t, s2)" using r(2) fold_enqueue [OF qok, of c] by (cases cbs) (simp_all add: inner_ok_def)
  have entries: "queue_entries (callbackQueue ?t) = queue_entries (callbackQueue t2) @ map (\<lambda>k. (User k, c)) (case cbs of None \<Rightarrow> [] | Some ks \<Rightarrow> ks)"
    using fold_enqueue [OF qok, of c] by (cases cbs) simp_all
  have first: "batch_step q budget (t, s1) (t2, s2)" using r(4) by (rule inner_batch_step)
  have kept: "callbacks_kept (t, s) (?t, s2)" if q
    unfolding callbacks_kept_def
  proof (intro allI impI)
    fix x k
    assume x: "callback_pending (snd (t, s)) x k"
    have "callback_pending s1 x k \<or> (User k, x) \<in> set (queue_entries (callbackQueue ?t))"
    proof (cases "x = c")
      case True
      then have "k \<in> set (case cbs of None \<Rightarrow> [] | Some ks \<Rightarrow> ks)"
        using x by (auto simp: callback_pending_def cbs_def split: option.splits)
      then show ?thesis unfolding entries True by auto
    next
      case False
      then show ?thesis using x same(2) by (simp add: callback_pending_def)
    qed
    moreover have "callback_pending s1 x k \<Longrightarrow> callback_pending s2 x k \<or> Unmounted x \<in> set (trace s2) \<or>
        (User k, x) \<in> set (queue_entries (callbackQueue t2))"
      using first that by (simp add: batch_step_def callbacks_kept_def)
    ultimately show "callback_pending (snd (?t, s2)) x k \<or> Unmounted x \<in> set (trace (snd (?t, s2))) \<or>
        (User k, x) \<in> set (queue_entries (callbackQueue (fst (?t, s2))))"
      by (auto simp: entries)
  qed
  have fields: "dirtyComponentsLength ?t = dirtyComponentsLength t2" by (cases cbs) simp_all
  have s1: "strategy_tx s1 = strategy_tx s" "currentOwner s1 = currentOwner s" "currentlyMounting s1 = currentlyMounting s"
    "currentlyUnmounting s1 = currentlyUnmounting s" "events_enabled s1 = events_enabled s" "trace s1 = trace s"
    "asapCallbackQueue s1 = asapCallbackQueue s" "asapEnqueued s1 = asapEnqueued s" "world s1 = world s"
    by (simp_all add: s1_def update_composite_def)
  have step: "batch_step q budget p (?t, s2)"
    using first kept by (auto simp: p batch_step_def same_frame_def count_spent_def s1 same(1) fields entries)
  have thrown: "batch_step q budget p (t2, s2)" if "\<not> q"
    using first that by (auto simp: p batch_step_def same_frame_def count_spent_def s1 same(1))
  show ?thesis using run r(2,3,5) ok2 step thrown by (cases r) (auto simp: holds_at_def)
qed

lemma foreach_dirty_at:
  assumes "inner_ok q p" "user_ok q budget U" "i \<le> n" "n \<le> length (dirtyComponents (snd p))" "q \<longrightarrow> all_settled i (snd p)"
  shows "holds_at (\<lambda>p'. inner_ok q p' \<and> (q \<longrightarrow> all_settled n (snd p'))) (batch_step q budget) q
    (foreach (update_dirty U fl) [i..<n]) p"
  using assms
proof (induction "n - i" arbitrary: i p)
  case 0
  then show ?case by (simp add: holds_at_def ret_def batch_step_refl)
next
  case (Suc m)
  then have i: "i < n" "[i..<n] = i # [Suc i..<n]" by (simp_all add: upt_conv_Cons)
  obtain r p' where r: "update_dirty U fl i p = Some (r, p')" "inner_ok q p' \<and> (q \<longrightarrow> all_settled (Suc i) (snd p'))"
      "batch_step q budget p p'" "q \<longrightarrow> \<not> isl r"
    using update_dirty_at [OF Suc.prems(1,2), of i fl] Suc.prems(4,5) i(1) by (auto elim: holds_atD)
  have n: "n \<le> length (dirtyComponents (snd p'))" using Suc.prems(4) r(3) by (simp add: batch_step_def)
  show ?case unfolding i(2) foreach.simps
  proof (rule batch.after_post)
    show "holds_at (inner_ok q) (batch_step q budget) q (update_dirty U fl i) p" using r by (simp add: holds_at_def)
    fix p''
    assume "update_dirty U fl i p = Some (Inr (), p'')"
    then have "p'' = p'" using r(1) by simp
    then show "holds_at (\<lambda>u. inner_ok q u \<and> (q \<longrightarrow> all_settled n (snd u))) (batch_step q budget) q (foreach (update_dirty U fl) [Suc i..<n]) p''"
      using r(2) n i Suc.hyps(2) Suc.prems(2) by (intro Suc.hyps(1)) simp_all
  qed
qed

lemma settled_perm: "set (drop n (dirtyComponents s')) = set (drop n (dirtyComponents s)) \<Longrightarrow> composites s' = composites s \<Longrightarrow>
    settled n c s' = settled n c s"
  by (simp add: settled_def state_pending_def has_callbacks_def)

lemma runBatchedUpdates_at:
  fixes U :: "'w user"
  assumes "inner_ok q p" "user_ok q budget U" "q \<longrightarrow> all_settled 0 (snd p)"
    "dirtyComponentsLength (fst p) = Some (length (dirtyComponents (snd p)))"
  shows "holds_at (\<lambda>p'. inner_ok q p' \<and> (q \<longrightarrow> all_settled (length (dirtyComponents (snd p))) (snd p'))) (batch_step q budget) q
    (runBatchedUpdates U fl) p"
proof -
  obtain t s where p: "p = (t, s)" by (cases p)
  let ?s = "s\<lparr>dirtyComponents := sort_key (\<lambda>c. mountOrder (composites s c)) (dirtyComponents s)\<rparr>"
  have eq: "runBatchedUpdates U fl p = foreach (update_dirty U fl) [0..<length (dirtyComponents s)] (t, ?s)"
    using assms(4) by (simp add: runBatchedUpdates_def p cmd beside_def)
  have sort: "batch_step q budget p (t, ?s)"
    by (simp add: p batch_step_def same_frame_def count_spent_def callbacks_kept_def callback_pending_def)
  have "inner_ok q (t, ?s)" using assms(1) by (simp add: p inner_ok_def batching_def)
  moreover have "q \<longrightarrow> all_settled 0 ?s" using assms(3) by (simp add: p all_settled_def settled_def state_pending_def has_callbacks_def)
  ultimately have "holds_at (\<lambda>p'. inner_ok q p' \<and> (q \<longrightarrow> all_settled (length (dirtyComponents s)) (snd p'))) (batch_step q budget) q
      (foreach (update_dirty U fl) [0..<length (dirtyComponents s)]) (t, ?s)"
    using foreach_dirty_at [of q "(t, ?s)" budget U 0 "length (dirtyComponents s)" fl] assms(2) by simp
  then show ?thesis using batch_step_trans [OF sort] by (auto simp: holds_at_def eq [unfolded p] p)
qed

section \<open>The two transactions of a flush\<close>

lemma beside_pair: "beside f (t, s) = (case f s of None \<Rightarrow> None | Some (r, s') \<Rightarrow> Some (r, (t, s')))"
  by (auto simp: beside_def split: option.split)

lemma untouched_beside_cmd: "untouched first_put (beside f)"
  by (auto simp: untouched_def first_put_def beside_def split: option.split)

lemma run_wrapper_beside:
  "run_initialize (wrapper_beside w) (t, s) = beside (run_initialize w) (t, s)"
  "run_close (wrapper_beside w) d (t, s) = beside (run_close w d) (t, s)"
  by (auto simp: run_initialize_def run_close_def wrapper_beside_def beside_def ret_def split: option.split)

lemma run_wrapper_beside_fun:
  "run_initialize (wrapper_beside w) = beside (run_initialize w)"
  "run_close (wrapper_beside w) d = beside (run_close w d)"
  by (auto simp: fun_eq_iff run_wrapper_beside)

lemma wrapper_beside_untouched: "wrapper_untouched first_put (wrapper_beside w)"
  by (simp add: wrapper_untouched_def run_wrapper_beside_fun untouched_beside_cmd)

lemma protocol_two:
  assumes "run_initialize v s = Some (Inr dv, sa)" "run_initialize w sa = Some (Inr dw, sb)"
    "m sb = Some (r, sc)" "run_close v dv sc = Some (x, sd)" "run_close w dw sd = Some (y, se)"
  shows "protocol [v, w] m s = Some (case r of Inl e \<Rightarrow> Inl e | Inr a \<Rightarrow> (case x of Inl e \<Rightarrow> Inl e
     | Inr _ \<Rightarrow> (case y of Inl e \<Rightarrow> Inl e | Inr _ \<Rightarrow> Inr a)), se)"
  using assms by (auto simp: protocol_def split: sum.split)

text \<open>The methods of the two wrappers of a reconciliation, and of a flush.\<close>

lemma run_wrappers:
  "run_initialize EVENT_SUPPRESSION (t, s) = Some (Inr (Some (events_enabled s)), (t, s\<lparr>events_enabled := False\<rparr>))"
  "run_close EVENT_SUPPRESSION (Some b) (t, s) = Some (Inr (), (t, s\<lparr>events_enabled := b\<rparr>))"
  "run_initialize (ON_DOM_READY_QUEUEING U fl) (t, s) = Some (Inr None, (t\<lparr>reactMountReady := reset_queue (reactMountReady t)\<rparr>, s))"
  "run_initialize (NESTED_UPDATES fl) (t, s) = Some (Inr None, (t\<lparr>dirtyComponentsLength := Some (length (dirtyComponents s))\<rparr>, s))"
  "run_initialize (UPDATE_QUEUEING U fl) (t, s) = Some (Inr None, (t\<lparr>callbackQueue := reset_queue (callbackQueue t)\<rparr>, s))"
  by (simp_all add: run_initialize_def run_close_def EVENT_SUPPRESSION_def ON_DOM_READY_QUEUEING_def NESTED_UPDATES_def
      UPDATE_QUEUEING_def beside_def ret_def modify_def)

lemma reset_idle: "queue_ok qu \<Longrightarrow> callbacks qu = None \<Longrightarrow> reset_queue qu = qu"
  by (cases qu) (simp add: queue_ok_def reset_queue_def)

lemma close_ready:
  assumes "queue_ok (reactMountReady t)"
  shows "run_close (ON_DOM_READY_QUEUEING U fl) d (t, s) =
    foreach (\<lambda>(k, c). beside (run_code U fl k c)) (queue_entries (reactMountReady t))
      (t\<lparr>reactMountReady := reset_queue (reactMountReady t)\<rparr>, s)"
proof -
  have "notifyAll (\<lambda>s. reactMountReady (fst s)) (\<lambda>q (t, s). (t\<lparr>reactMountReady := q\<rparr>, s)) (\<lambda>k c. beside (run_code U fl k c)) (t, s) =
      foreach (\<lambda>(k, c). beside (run_code U fl k c)) (queue_entries (reactMountReady (fst (t, s))))
        (t\<lparr>reactMountReady := reset_queue (reactMountReady t)\<rparr>, s)"
    by (rule notifyAll_entries) (use assms in \<open>simp_all add: reset_idle\<close>)
  then show ?thesis by (simp add: run_close_def ON_DOM_READY_QUEUEING_def)
qed

lemma close_queueing:
  assumes "queue_ok (callbackQueue t)"
  shows "run_close (UPDATE_QUEUEING U fl) d (t, s) =
    foreach (\<lambda>(k, c). beside (run_code U fl k c)) (queue_entries (callbackQueue t))
      (t\<lparr>callbackQueue := reset_queue (callbackQueue t)\<rparr>, s)"
proof -
  have "notifyAll (\<lambda>s. callbackQueue (fst s)) (\<lambda>q (t, s). (t\<lparr>callbackQueue := q\<rparr>, s)) (\<lambda>k c. beside (run_code U fl k c)) (t, s) =
      foreach (\<lambda>(k, c). beside (run_code U fl k c)) (queue_entries (callbackQueue (fst (t, s))))
        (t\<lparr>callbackQueue := reset_queue (callbackQueue t)\<rparr>, s)"
    by (rule notifyAll_entries) (use assms in \<open>simp_all add: reset_idle\<close>)
  then show ?thesis by (simp add: run_close_def UPDATE_QUEUEING_def)
qed

text \<open>Code that is called for the entries of a queue.\<close>

lemma call_entries_at:
  assumes "inner_ok q p" "user_ok q budget U"
  shows "holds_at (\<lambda>p'. inner_ok q p' \<and> (q \<longrightarrow> (\<forall>(k, c) \<in> set es. Ran k c \<in> set (trace (snd p'))))) (inner_step q budget) q
    (foreach (\<lambda>(k, c). beside (run_code U fl k c)) es) p"
  using assms(1)
proof (induction es arbitrary: p)
  case Nil
  then show ?case by (simp add: holds_at_def ret_def inner.R_refl)
next
  case (Cons e es)
  obtain k c where e: "e = (k, c)" by (cases e)
  have run: "holds_at (\<lambda>s'. batching q s' \<and> Ran k c \<in> set (trace s')) (code_step q budget) q (run_code U fl k c) (snd p)"
    using Cons.prems assms(2) by (intro run_code_at) (simp_all add: inner_ok_def user_ok_def)
  show ?case unfolding foreach.simps e prod.case
  proof (rule inner.after_post)
    show "holds_at (inner_ok q) (inner_step q budget) q (beside (run_code U fl k c)) p"
      using Cons.prems run by (intro beside_at) (auto simp: holds_at_def)
    fix p'
    assume p': "inner_ok q p'" "beside (run_code U fl k c) p = Some (Inr (), p')"
    have ran: "Ran k c \<in> set (trace (snd p'))" using run p'(2) by (auto simp: holds_at_def beside_def split: option.splits prod.splits)
    show "holds_at (\<lambda>p'. inner_ok q p' \<and> (q \<longrightarrow> (\<forall>(k, c) \<in> set ((k, c) # es). Ran k c \<in> set (trace (snd p'))))) (inner_step q budget) q
      (foreach (\<lambda>(k, c). beside (run_code U fl k c)) es) p'"
      by (rule holds_at_mono [OF Cons.IH [OF p'(1)]]) (use ran in \<open>auto simp: inner_step_def code_step_def grows_def\<close>)
  qed
qed

lemma batch_step_events:
  "batch_step q budget (t, s\<lparr>events_enabled := x\<rparr>) (t', s') \<Longrightarrow> batch_step q budget (t, s) (t', s'\<lparr>events_enabled := events_enabled s\<rparr>)"
  by (auto simp: batch_step_def same_frame_def count_spent_def callbacks_kept_def callback_pending_def)

lemma all_settled_step:
  assumes "all_settled n (snd p)" "n \<le> length (dirtyComponents (snd p))" "inner_ok q p" "inner_step True budget p p'"
  shows "all_settled n (snd p')"
  using assms settled_step [of n _ "snd p" budget "snd p'"] by (simp add: all_settled_def inner_ok_def inner_step_def)

lemma reconcile_at:
  assumes "inner_ok q (t, s)" "user_ok q budget U" "q \<longrightarrow> all_settled 0 s"
    "dirtyComponentsLength t = Some (length (dirtyComponents s))"
  obtains r t' s' where "reconcile U fl (reinitializeTransaction, t, s) = Some (r, (reinitializeTransaction, t', s'))"
    "inner_ok q (t', s')" "batch_step q budget (t, s) (t', s')" "q \<longrightarrow> all_settled (length (dirtyComponents s)) s' \<and> \<not> isl r"
proof -
  let ?n = "length (dirtyComponents s)"
  let ?t = "t\<lparr>reactMountReady := reset_queue (reactMountReady t)\<rparr>"
  let ?s = "s\<lparr>events_enabled := False\<rparr>"
  let ?i = "reinitializeTransaction :: bool transaction"
  have ok: "inner_ok q (?t, ?s)" using assms(1) by (simp add: inner_ok_def batching_def)
  have settled: "q \<longrightarrow> all_settled 0 ?s"
    using assms(3) by (simp add: all_settled_def settled_def state_pending_def has_callbacks_def)
  obtain r t2 s2 where r: "runBatchedUpdates U fl (?t, ?s) = Some (r, (t2, s2))" "inner_ok q (t2, s2)"
      "q \<longrightarrow> all_settled ?n s2" "batch_step q budget (?t, ?s) (t2, s2)" "q \<longrightarrow> \<not> isl r"
    using runBatchedUpdates_at [OF ok assms(2), of fl] settled assms(4) by (auto simp: holds_at_def)
  let ?s3 = "s2\<lparr>events_enabled := events_enabled s\<rparr>"
  let ?t3 = "t2\<lparr>reactMountReady := reset_queue (reactMountReady t2)\<rparr>"
  have step3: "batch_step q budget (t, s) (t2, ?s3)"
  proof -
    have "batch_step q budget (t, s) (?t, s)"
      by (simp add: batch_step_def same_frame_def count_spent_def callbacks_kept_def)
    moreover have "batch_step q budget (?t, s) (t2, ?s3)" using r(4) by (rule batch_step_events)
    ultimately show ?thesis by (rule batch_step_trans)
  qed
  have ready: "queue_ok (reactMountReady t2)" using r(2) by (simp add: inner_ok_def)
  have ok3: "inner_ok q (?t3, ?s3)" using r(2) by (simp add: inner_ok_def batching_def)
  obtain x t4 s4 where x: "foreach (\<lambda>(k, c). beside (run_code U fl k c)) (queue_entries (reactMountReady t2)) (?t3, ?s3) = Some (x, (t4, s4))"
      "inner_ok q (t4, s4)" "inner_step q budget (?t3, ?s3) (t4, s4)" "q \<longrightarrow> \<not> isl x"
    using call_entries_at [OF ok3 assms(2), of "queue_entries (reactMountReady t2)" fl] unfolding holds_at_def by auto
  have "reconcile U fl (?i, t, s) = protocol [wrapper_beside EVENT_SUPPRESSION, wrapper_beside (ON_DOM_READY_QUEUEING U fl)]
      (beside (runBatchedUpdates U fl)) (?i, t, s)"
    unfolding reconcile_def by (rule beside.perform_protocol) (simp_all add: wrapper_beside_untouched untouched_beside_cmd)
  also have "\<dots> = Some (case r of Inl e \<Rightarrow> Inl e | Inr v \<Rightarrow> (case Inr () of Inl e \<Rightarrow> Inl e
     | Inr _ \<Rightarrow> (case x of Inl e \<Rightarrow> Inl e | Inr _ \<Rightarrow> Inr v)), (?i, t4, s4))"
    by (rule protocol_two [where dv = "Some (events_enabled s)" and dw = None and sa = "(?i, t, ?s)" and sb = "(?i, ?t, ?s)"
          and sc = "(?i, t2, s2)" and sd = "(?i, t2, ?s3)"])
      (simp_all add: run_wrapper_beside beside_pair run_wrappers close_ready [OF ready] r(1) x(1))
  finally have run: "reconcile U fl (?i, t, s) = Some (case r of Inl e \<Rightarrow> Inl e | Inr v \<Rightarrow> (case x of Inl e \<Rightarrow> Inl e | Inr _ \<Rightarrow> Inr v), (?i, t4, s4))"
    by (simp split: sum.split)
  have step4: "batch_step q budget (t, s) (t4, s4)"
  proof (rule batch_step_trans [OF step3])
    have "batch_step q budget (t2, ?s3) (?t3, ?s3)"
      by (simp add: batch_step_def same_frame_def count_spent_def callbacks_kept_def)
    then show "batch_step q budget (t2, ?s3) (t4, s4)" using inner_batch_step [OF x(3)] by (rule batch_step_trans)
  qed
  have "all_settled ?n s4" if q
  proof -
    have "all_settled ?n ?s3" using r(3) that by (simp add: all_settled_def settled_def state_pending_def has_callbacks_def)
    moreover have "?n \<le> length (dirtyComponents s2)" using r(4) by (simp add: batch_step_def)
    ultimately show ?thesis using all_settled_step [of ?n "(?t3, ?s3)" q budget "(t4, s4)"] ok3 x(3) that by simp
  qed
  then show thesis using r(5) x(2,4) step4 by (intro that [OF run]) (auto split: sum.split)
qed

text \<open>At rest in a batch: whatever is waiting belongs to a dirty component.\<close>

definition at_rest :: "bool \<Rightarrow> 'w sched \<Rightarrow> bool" where
  "at_rest q s \<longleftrightarrow> batching q s \<and> currentOwner s = None \<and> currentlyMounting s = None \<and> (q \<longrightarrow> all_settled 0 s)"

definition busy :: "'w sched \<Rightarrow> bool" where
  "busy s \<longleftrightarrow> dirtyComponents s \<noteq> [] \<or> asapEnqueued s"

text \<open>What a flush, or a part of one, has done to the state.\<close>

definition flushing :: "bool \<Rightarrow> ('w \<Rightarrow> nat) \<Rightarrow> 'w sched \<Rightarrow> 'w sched \<Rightarrow> bool" where
  "flushing q budget s s' \<longleftrightarrow> at_rest q s' \<and> same_frame s s' \<and> budget (world s') \<le> budget (world s) \<and>
     set (trace s) \<subseteq> set (trace s') \<and>
     (q \<longrightarrow> (\<forall>c k. callback_pending s c k \<longrightarrow> callback_pending s' c k \<or> Ran (User k) c \<in> set (trace s') \<or> Unmounted c \<in> set (trace s')) \<and>
       (\<forall>k c. (k, c) \<in> set (queue_entries (asapCallbackQueue s)) \<longrightarrow>
          (k, c) \<in> set (queue_entries (asapCallbackQueue s')) \<or> Ran k c \<in> set (trace s')))"

lemma flushing_trans:
  assumes "flushing q budget s t" "flushing q budget t u"
  shows "flushing q budget s u"
proof -
  have tr: "set (trace t) \<subseteq> set (trace u)" using assms(2) by (simp add: flushing_def)
  have "callback_pending u c k \<or> Ran (User k) c \<in> set (trace u) \<or> Unmounted c \<in> set (trace u)" if "q" "callback_pending s c k" for c k
  proof -
    have "callback_pending t c k \<or> Ran (User k) c \<in> set (trace t) \<or> Unmounted c \<in> set (trace t)"
      using assms(1) that by (simp add: flushing_def)
    then show ?thesis
    proof
      assume "callback_pending t c k"
      then show ?thesis using assms(2) that(1) by (simp add: flushing_def)
    qed (use tr in blast)
  qed
  moreover have "(k, c) \<in> set (queue_entries (asapCallbackQueue u)) \<or> Ran k c \<in> set (trace u)"
    if "q" "(k, c) \<in> set (queue_entries (asapCallbackQueue s))" for k c
  proof -
    have "(k, c) \<in> set (queue_entries (asapCallbackQueue t)) \<or> Ran k c \<in> set (trace t)"
      using assms(1) that by (simp add: flushing_def)
    then show ?thesis
    proof
      assume "(k, c) \<in> set (queue_entries (asapCallbackQueue t))"
      then show ?thesis using assms(2) that(1) by (simp add: flushing_def)
    qed (use tr in blast)
  qed
  ultimately show ?thesis using assms by (auto simp: flushing_def same_frame_def)
qed

lemma at_rest_quiet: "at_rest True s \<Longrightarrow> \<not> busy s \<Longrightarrow> \<not> state_pending s c \<and> \<not> has_callbacks s c"
  by (auto simp: at_rest_def all_settled_def settled_def busy_def)

lemma at_rest_inner: "at_rest q s \<Longrightarrow> queue_ok (reactMountReady t) \<Longrightarrow> queue_ok (callbackQueue t) \<Longrightarrow> inner_ok q (t, s)"
  by (simp add: at_rest_def inner_ok_def)

lemma inner_flushing:
  assumes "inner_step q budget (t, s) (t', s')" "inner_ok q (t', s')" "at_rest q s"
  shows "flushing q budget s s'"
proof -
  have c: "code_step q budget s s'" using assms(1) by (simp add: inner_step_def)
  have "all_settled 0 s'" if q
  proof -
    have "code_step True budget s s'" "currentlyMounting s = None" "all_settled 0 s"
      using c assms(3) that by (simp_all add: at_rest_def)
    then show ?thesis using settled_step [of 0 _ s budget s'] by (simp add: all_settled_def)
  qed
  then show ?thesis using assms(2,3) c
    by (auto simp: flushing_def at_rest_def inner_ok_def code_step_def grows_def spent_def work_kept_def)
qed

text \<open>A flush with enough fuel for the budget of the state.\<close>

definition flushes :: "bool \<Rightarrow> ('w \<Rightarrow> nat) \<Rightarrow> nat \<Rightarrow> (unit, 'w sched) cmd \<Rightarrow> bool" where
  "flushes q budget m fl \<longleftrightarrow> (\<forall>s. at_rest q s \<longrightarrow> budget (world s) + (if busy s then 1 else 0) < m \<longrightarrow>
     (\<exists>r s'. fl s = Some (r, s') \<and> flushing q budget s s' \<and> (q \<longrightarrow> \<not> isl r) \<and> (\<not> isl r \<longrightarrow> \<not> busy s')))"

lemma flushesD:
  assumes "flushes q budget m fl" "at_rest q s" "budget (world s) + (if busy s then 1 else 0) < m"
  obtains r s' where "fl s = Some (r, s')" "flushing q budget s s'" "q \<longrightarrow> \<not> isl r" "\<not> isl r \<longrightarrow> \<not> busy s'"
  using assms unfolding flushes_def by blast

lemma reset_new: "reset_queue CallbackQueue = CallbackQueue"
  by (simp add: reset_queue_def CallbackQueue_def)

lemma flushing_dirty: "flushing q budget (s\<lparr>dirtyComponents := ds\<rparr>) s' \<Longrightarrow> flushing q budget s s'"
  by (simp add: flushing_def same_frame_def callback_pending_def)

lemma nested_close:
  assumes "inner_ok q (t, s)" "dirtyComponentsLength t = Some n" "q \<longrightarrow> all_settled n s" "n \<le> length (dirtyComponents s)"
    "length (dirtyComponents s) \<noteq> n \<Longrightarrow> budget (world s) + 1 < m" "flushes q budget m fl"
  obtains x s' where "run_close (NESTED_UPDATES fl) d (t, s) = Some (x, (t, s'))" "flushing q budget s s'" "q \<longrightarrow> \<not> isl x"
    "\<not> isl x \<longrightarrow> dirtyComponents s' = [] \<and> (asapEnqueued s' \<longrightarrow> asapEnqueued s)"
proof (cases "length (dirtyComponents s) = n")
  case True
  let ?s = "s\<lparr>dirtyComponents := []\<rparr>"
  have run: "run_close (NESTED_UPDATES fl) d (t, s) = Some (Inr (), (t, ?s))"
    using True assms(2) by (simp add: run_close_def NESTED_UPDATES_def beside_pair modify_def)
  have "q \<longrightarrow> all_settled 0 ?s" using assms(3) True by (simp add: all_settled_def settled_def state_pending_def has_callbacks_def)
  then have "flushing q budget s ?s" using assms(1)
    by (simp add: flushing_def at_rest_def inner_ok_def batching_def same_frame_def callback_pending_def)
  then show thesis by (rule that [OF run]) simp_all
next
  case False
  let ?s = "s\<lparr>dirtyComponents := drop n (dirtyComponents s)\<rparr>"
  have rest: "at_rest q ?s" using assms(1,3)
    by (simp add: at_rest_def inner_ok_def batching_def all_settled_def settled_def state_pending_def has_callbacks_def)
  have fuel: "budget (world ?s) + (if busy ?s then 1 else 0) < m" using assms(5) [OF False] by simp
  obtain r s' where r: "fl ?s = Some (r, s')" "flushing q budget ?s s'" "q \<longrightarrow> \<not> isl r" "\<not> isl r \<longrightarrow> \<not> busy s'"
    by (rule flushesD [OF assms(6) rest fuel])
  have run: "run_close (NESTED_UPDATES fl) d (t, s) = Some (r, (t, s'))"
    using False assms(2) r(1) by (simp add: run_close_def NESTED_UPDATES_def after_def bind_cmd_def beside_pair modify_def)
  show thesis by (rule that [OF run flushing_dirty [OF r(2)] r(3)]) (use r(4) in \<open>simp add: busy_def\<close>)
qed

lemma flush_transaction_at:
  assumes "at_rest q s" "dirtyComponents s \<noteq> []" "budget (world s) < m" "flushes q budget m fl" "user_ok q budget U"
  obtains r s' where "flush_transaction U fl s = Some (r, s')" "flushing q budget s s'" "q \<longrightarrow> \<not> isl r"
    "\<not> isl r \<longrightarrow> dirtyComponents s' \<noteq> [] \<or> asapEnqueued s' \<and> \<not> asapEnqueued s \<longrightarrow> budget (world s') < budget (world s)"
proof -
  let ?n = "length (dirtyComponents s)"
  let ?f = "reinitializeTransaction :: unit transaction" and ?i = "reinitializeTransaction :: bool transaction"
  let ?t = "new_flush_tx\<lparr>dirtyComponentsLength := Some ?n\<rparr>"
  have rest: "batching q s" "q \<longrightarrow> all_settled 0 s" using assms(1) by (simp_all add: at_rest_def)
  have ok: "inner_ok q (?t, s)" using assms(1) by (simp add: at_rest_inner new_flush_tx_def)
  obtain r t2 s2 where r: "reconcile U fl (?i, ?t, s) = Some (r, (?i, t2, s2))" "inner_ok q (t2, s2)"
      "batch_step q budget (?t, s) (t2, s2)" "q \<longrightarrow> all_settled ?n s2 \<and> \<not> isl r"
    by (rule reconcile_at [OF ok assms(5) rest(2), of fl]) simp_all
  have len: "dirtyComponentsLength t2 = Some ?n" "?n \<le> length (dirtyComponents s2)" using r(3) by (simp_all add: batch_step_def)
  have spent: "count_spent budget s s2" using r(3) by (simp add: batch_step_def)
  have pays: "length (dirtyComponents s2) \<noteq> ?n \<Longrightarrow> budget (world s2) + 1 < m"
    using spent assms(3) by (simp add: count_spent_def)
  have settled2: "q \<longrightarrow> all_settled ?n s2" using r(4) by simp
  obtain x s3 where x: "run_close (NESTED_UPDATES fl) None (t2, s2) = Some (x, (t2, s3))" "flushing q budget s2 s3" "q \<longrightarrow> \<not> isl x"
      "\<not> isl x \<longrightarrow> dirtyComponents s3 = [] \<and> (asapEnqueued s3 \<longrightarrow> asapEnqueued s2)"
    by (rule nested_close [OF r(2) len(1) settled2 len(2) pays assms(4)])
  let ?t3 = "t2\<lparr>callbackQueue := reset_queue (callbackQueue t2)\<rparr>"
  have rest3: "at_rest q s3" using x(2) by (simp add: flushing_def)
  have qok: "queue_ok (callbackQueue t2)" using r(2) by (simp add: inner_ok_def)
  have ok3: "inner_ok q (?t3, s3)" using r(2) rest3 by (intro at_rest_inner) (simp_all add: inner_ok_def)
  obtain y t4 s4 where y: "foreach (\<lambda>(k, c). beside (run_code U fl k c)) (queue_entries (callbackQueue t2)) (?t3, s3) = Some (y, (t4, s4))"
      "inner_ok q (t4, s4)" "q \<longrightarrow> (\<forall>(k, c) \<in> set (queue_entries (callbackQueue t2)). Ran k c \<in> set (trace s4))"
      "inner_step q budget (?t3, s3) (t4, s4)" "q \<longrightarrow> \<not> isl y"
    using call_entries_at [OF ok3 assms(5), of "queue_entries (callbackQueue t2)" fl] unfolding holds_at_def by auto
  have step4: "flushing q budget s3 s4" using y(4,2) rest3 by (rule inner_flushing)
  let ?r = "case r of Inl e \<Rightarrow> Inl e | Inr v \<Rightarrow> (case x of Inl e \<Rightarrow> Inl e | Inr _ \<Rightarrow> (case y of Inl e \<Rightarrow> Inl e | Inr _ \<Rightarrow> Inr v))"
  have "perform fst first_put [wrapper_beside (wrapper_beside (NESTED_UPDATES fl)), wrapper_beside (wrapper_beside (UPDATE_QUEUEING U fl))]
      (beside (reconcile U fl)) (?f, ?i, new_flush_tx, s) =
    protocol [wrapper_beside (wrapper_beside (NESTED_UPDATES fl)), wrapper_beside (wrapper_beside (UPDATE_QUEUEING U fl))]
      (beside (reconcile U fl)) (?f, ?i, new_flush_tx, s)"
    by (rule beside.perform_protocol) (simp_all add: wrapper_beside_untouched untouched_beside_cmd)
  also have "\<dots> = Some (?r, (?f, ?i, t4, s4))"
    by (rule protocol_two [where dv = None and dw = None and sa = "(?f, ?i, ?t, s)" and sb = "(?f, ?i, ?t, s)"
          and sc = "(?f, ?i, t2, s2)" and sd = "(?f, ?i, t2, s3)"])
      (simp_all add: run_wrapper_beside beside_pair run_wrappers close_queueing [OF qok] r(1) [unfolded new_flush_tx_def, simplified] x(1) y(1) new_flush_tx_def reset_new)
  finally have run: "flush_transaction U fl s = Some (?r, s4)" by (simp add: flush_transaction_def)
  have trace: "set (trace s) \<subseteq> set (trace s2)" "set (trace s2) \<subseteq> set (trace s3)" "set (trace s3) \<subseteq> set (trace s4)"
    using r(3) x(2) step4 by (simp_all add: batch_step_def flushing_def)
  have "flushing q budget s s4" unfolding flushing_def
  proof (intro conjI impI allI)
    show "at_rest q s4" using step4 by (simp add: flushing_def)
    show "same_frame s s4" using r(3) x(2) step4 by (auto simp: batch_step_def flushing_def same_frame_def)
    show "budget (world s4) \<le> budget (world s)" using spent x(2) step4 by (simp add: count_spent_def flushing_def)
    show "set (trace s) \<subseteq> set (trace s4)" using trace by blast
  next
    fix c k
    assume q and "callback_pending s c k"
    then have "callback_pending s2 c k \<or> Unmounted c \<in> set (trace s2) \<or> (User k, c) \<in> set (queue_entries (callbackQueue t2))"
      using r(3) by (simp add: batch_step_def callbacks_kept_def)
    then consider "callback_pending s2 c k" | "Unmounted c \<in> set (trace s2)" | "(User k, c) \<in> set (queue_entries (callbackQueue t2))"
      by blast
    then show "callback_pending s4 c k \<or> Ran (User k) c \<in> set (trace s4) \<or> Unmounted c \<in> set (trace s4)"
    proof cases
      case 1
      have "flushing q budget s2 s4" using x(2) step4 by (rule flushing_trans)
      then show ?thesis using 1 \<open>q\<close> by (simp add: flushing_def)
    next
      case 3
      then show ?thesis using y(3) \<open>q\<close> by blast
    qed (use trace in blast)
  next
    fix k c
    assume q and "(k, c) \<in> set (queue_entries (asapCallbackQueue s))"
    then have "(k, c) \<in> set (queue_entries (asapCallbackQueue s2))" using r(3) by (auto simp: batch_step_def)
    then show "(k, c) \<in> set (queue_entries (asapCallbackQueue s4)) \<or> Ran k c \<in> set (trace s4)"
      using flushing_trans [OF x(2) step4] \<open>q\<close> by (simp add: flushing_def)
  qed
  moreover have "q \<longrightarrow> \<not> isl ?r" using r(4) x(3) y(5) by (auto split: sum.split)
  moreover have "budget (world s4) < budget (world s)"
    if ok: "\<not> isl ?r" and b: "dirtyComponents s4 \<noteq> [] \<or> asapEnqueued s4 \<and> \<not> asapEnqueued s"
  proof (cases "dirtyComponents s4 \<noteq> dirtyComponents s3 \<or> asapEnqueued s4 \<noteq> asapEnqueued s3")
    case True
    then have "budget (world s4) < budget (world s3)" using y(4) by (simp add: inner_step_def code_step_def spent_def)
    then show ?thesis using spent x(2) by (simp add: count_spent_def flushing_def)
  next
    case False
    have "\<not> isl x" using ok by (auto split: sum.splits)
    then have "asapEnqueued s2 \<noteq> asapEnqueued s" using b False x(4) by auto
    then have "budget (world s2) < budget (world s)" using spent by (simp add: count_spent_def)
    then show ?thesis using x(2) step4 by (simp add: flushing_def)
  qed
  ultimately show thesis by (intro that [OF run]) blast+
qed

section \<open>The loop\<close>

lemma foreach_beside: "foreach (\<lambda>x. beside (f x)) xs (t, s) = beside (foreach f xs) (t, s)"
proof (induction xs arbitrary: s)
  case (Cons x xs)
  then show ?case by (auto simp: cmd beside_pair split: option.split sum.split)
qed (simp add: beside_pair ret_def)

lemma foreach_beside_pairs:
  "foreach (\<lambda>(k, c). beside (f k c)) xs (t, s) = beside (foreach (\<lambda>(k, c). f k c) xs) (t, s)"
  using foreach_beside [of "\<lambda>(k, c). f k c" xs t s] by (simp add: case_prod_unfold)

lemma call_entries_sched:
  assumes "at_rest q s" "user_ok q budget U"
  obtains r s' where "foreach (\<lambda>(k, c). run_code U fl k c) es s = Some (r, s')" "flushing q budget s s'" "code_step q budget s s'"
    "q \<longrightarrow> (\<forall>(k, c) \<in> set es. Ran k c \<in> set (trace s'))" "q \<longrightarrow> \<not> isl r"
proof -
  have ok: "inner_ok q (new_flush_tx, s)" using assms(1) by (rule at_rest_inner) (simp_all add: new_flush_tx_def)
  obtain r t' s' where r: "foreach (\<lambda>(k, c). beside (run_code U fl k c)) es (new_flush_tx, s) = Some (r, (t', s'))"
      "inner_ok q (t', s')" "q \<longrightarrow> (\<forall>(k, c) \<in> set es. Ran k c \<in> set (trace s'))"
      "inner_step q budget (new_flush_tx, s) (t', s')" "q \<longrightarrow> \<not> isl r"
    using call_entries_at [OF ok assms(2), of es fl] unfolding holds_at_def by auto
  have "foreach (\<lambda>(k, c). run_code U fl k c) es s = Some (r, s')"
    using r(1) by (auto simp: foreach_beside_pairs beside_pair split: option.splits)
  moreover have "code_step q budget s s'" using r(4) by (simp add: inner_step_def)
  ultimately show thesis using r(3,5) inner_flushing [OF r(4,2) assms(1)] by (intro that)
qed

lemma notify_asap_at:
  assumes "at_rest q s" "user_ok q budget U"
  obtains r s' where "notify_asap U fl s = Some (r, s')" "flushing q budget s s'" "q \<longrightarrow> \<not> isl r"
    "dirtyComponents s' \<noteq> dirtyComponents s \<or> asapEnqueued s' \<longrightarrow> budget (world s') < budget (world s)"
proof (cases "asapEnqueued s")
  case False
  have "flushing q budget s s" using assms(1) by (simp add: flushing_def same_frame_def)
  then show thesis using False by (intro that [of "Inr ()" s]) (simp_all add: notify_asap_def ret_def)
next
  case True
  let ?q = "asapCallbackQueue s"
  let ?s = "s\<lparr>asapEnqueued := False, asapCallbackQueue := CallbackQueue\<rparr>"
  have rest: "at_rest q ?s" using assms(1)
    by (simp add: at_rest_def batching_def all_settled_def settled_def state_pending_def has_callbacks_def)
  have qok: "queue_ok ?q" using assms(1) by (simp add: at_rest_def batching_def)
  obtain r s' where r: "foreach (\<lambda>(k, c). run_code U fl k c) (queue_entries ?q) ?s = Some (r, s')" "flushing q budget ?s s'"
      "code_step q budget ?s s'" "q \<longrightarrow> (\<forall>(k, c) \<in> set (queue_entries ?q). Ran k c \<in> set (trace s'))" "q \<longrightarrow> \<not> isl r"
    by (rule call_entries_sched [OF rest assms(2)])
  have "notifyAll fst (\<lambda>q s. (q, snd s)) (\<lambda>k c. beside (run_code U fl k c)) (?q, ?s) =
      foreach (\<lambda>(k, c). beside (run_code U fl k c)) (queue_entries (fst (?q, ?s))) (reset_queue ?q, ?s)"
    by (rule notifyAll_entries) (use qok in \<open>simp_all add: reset_idle\<close>)
  then have run: "notify_asap U fl s = Some (r, s')"
    using True r(1) by (simp add: notify_asap_def foreach_beside_pairs beside_pair)
  have "flushing q budget s s'" using r(2,4) by (auto simp: flushing_def same_frame_def callback_pending_def)
  moreover have "dirtyComponents s' \<noteq> dirtyComponents s \<or> asapEnqueued s' \<longrightarrow> budget (world s') < budget (world s)"
    using r(3) by (simp add: code_step_def spent_def)
  ultimately show thesis using r(5) by (intro that [OF run])
qed

text \<open>Enough fuel: one more than the budget, and one for what is waiting now.\<close>

lemma flush_returns:
  assumes "user_ok q budget U"
  shows "flushes q budget n (flushBatchedUpdates U n)"
proof (induction n)
  case 0
  then show ?case by (simp add: flushes_def)
next
  case (Suc m)
  let ?fl = "flushBatchedUpdates U m"
  show ?case unfolding flushes_def
  proof (intro allI impI)
    fix s
    assume rest: "at_rest q s" and fuel: "budget (world s) + (if busy s then 1 else 0) < Suc m"
    show "\<exists>r s'. flushBatchedUpdates U (Suc m) s = Some (r, s') \<and> flushing q budget s s' \<and> (q \<longrightarrow> \<not> isl r) \<and> (\<not> isl r \<longrightarrow> \<not> busy s')"
    proof (cases "busy s")
      case False
      moreover have "flushing q budget s s" using rest by (simp add: flushing_def same_frame_def)
      ultimately show ?thesis by (simp add: busy_def ret_def)
    next
      case True
      have m: "budget (world s) < m" using fuel True by simp
      obtain r1 s1 where r1: "(if dirtyComponents s \<noteq> [] then flush_transaction U ?fl else ret ()) s = Some (r1, s1)"
          "flushing q budget s s1" "q \<longrightarrow> \<not> isl r1"
          "\<not> isl r1 \<longrightarrow> dirtyComponents s1 \<noteq> [] \<or> asapEnqueued s1 \<and> \<not> asapEnqueued s \<longrightarrow> budget (world s1) < budget (world s)"
      proof (cases "dirtyComponents s = []")
        case True
        have "flushing q budget s s" using rest by (simp add: flushing_def same_frame_def)
        then show thesis using True by (intro that [of "Inr ()" s]) (simp_all add: ret_def)
      next
        case False
        then show thesis using flush_transaction_at [OF rest False m Suc.IH assms] that by auto
      qed
      have rest1: "at_rest q s1" using r1(2) by (simp add: flushing_def)
      obtain r2 s2 where r2: "notify_asap U ?fl s1 = Some (r2, s2)" "flushing q budget s1 s2" "q \<longrightarrow> \<not> isl r2"
          "dirtyComponents s2 \<noteq> dirtyComponents s1 \<or> asapEnqueued s2 \<longrightarrow> budget (world s2) < budget (world s1)"
        by (rule notify_asap_at [OF rest1 assms])
      have f12: "flushing q budget s s2" using r1(2) r2(2) by (rule flushing_trans)
      have rest2: "at_rest q s2" using r2(2) by (simp add: flushing_def)
      have step: "flushBatchedUpdates U (Suc m) s =
          after (if dirtyComponents s \<noteq> [] then flush_transaction U ?fl else ret ()) (after (notify_asap U ?fl) ?fl) s"
        using True by (auto simp: busy_def)
      show ?thesis
      proof (cases r1)
        case (Inl e)
        then show ?thesis using r1(1-3) unfolding step by (auto simp: after_def bind_cmd_def)
      next
        case (Inr a)
        show ?thesis
        proof (cases r2)
          case (Inl e)
          then show ?thesis using r1(1) r2(1,3) f12 Inr unfolding step by (auto simp: after_def bind_cmd_def)
        next
          case (Inr b)
          have "budget (world s2) + (if busy s2 then 1 else 0) < m"
          proof (cases "busy s2")
            case True
            have le: "budget (world s1) \<le> budget (world s)" "budget (world s2) \<le> budget (world s1)"
              using r1(2) r2(2) by (simp_all add: flushing_def)
            have "budget (world s2) < budget (world s)"
            proof (cases "dirtyComponents s2 \<noteq> dirtyComponents s1 \<or> asapEnqueued s2")
              case True
              then show ?thesis using r2(4) le by simp
            next
              case False
              then have "dirtyComponents s1 \<noteq> []" using \<open>busy s2\<close> by (simp add: busy_def)
              then show ?thesis using r1(4) \<open>r1 = Inr a\<close> le by simp
            qed
            then show ?thesis using m by simp
          next
            case False
            have "budget (world s2) \<le> budget (world s)" using f12 by (simp add: flushing_def)
            then show ?thesis using False m by simp
          qed
          then obtain r3 s3 where r3: "?fl s2 = Some (r3, s3)" "flushing q budget s2 s3" "q \<longrightarrow> \<not> isl r3" "\<not> isl r3 \<longrightarrow> \<not> busy s3"
            by (rule flushesD [OF Suc.IH rest2])
          have "flushBatchedUpdates U (Suc m) s = Some (r3, s3)"
            unfolding step using r1(1) r2(1) r3(1) \<open>r1 = Inr a\<close> Inr by (simp add: after_def bind_cmd_def)
          then show ?thesis using flushing_trans [OF f12 r3(2)] r3(3,4) by blast
        qed
      qed
    qed
  qed
qed

section \<open>A whole batch\<close>

interpretation strategy: tx_lens strategy_tx put_strategy
  by unfold_locales (simp_all add: put_strategy_def)

text \<open>Between two batches.\<close>

definition outside :: "'w sched \<Rightarrow> bool" where
  "outside s \<longleftrightarrow> \<not> isBatchingUpdates s \<and> strategy_tx s = reinitializeTransaction \<and> currentOwner s = None \<and>
     currentlyMounting s = None \<and> queue_ok (asapCallbackQueue s) \<and>
     (asapEnqueued s \<or> queue_entries (asapCallbackQueue s) = [])"

definition idle :: "'w sched \<Rightarrow> bool" where
  "idle s \<longleftrightarrow> outside s \<and> currentlyUnmounting s = None \<and> all_settled 0 s \<and> (\<forall>c. composite_quiet (composites s c))"

text \<open>The state in which the code of the batch runs.\<close>

definition batch_start :: "'w sched \<Rightarrow> 'w sched" where
  "batch_start s = put_strategy \<lparr>in_transaction = True, wrapperInitData = [InitData None, InitData None]\<rparr>
     (s\<lparr>isBatchingUpdates := True\<rparr>)"

lemma run_strategy_wrappers:
  "run_initialize (FLUSH_BATCHED_UPDATES fl) = ret None" "run_initialize RESET_BATCHED_UPDATES = ret None"
  "run_close (FLUSH_BATCHED_UPDATES fl) d = fl"
  "run_close RESET_BATCHED_UPDATES d = modify (\<lambda>s. s\<lparr>isBatchingUpdates := False\<rparr>)"
  by (simp_all add: run_initialize_def run_close_def FLUSH_BATCHED_UPDATES_def RESET_BATCHED_UPDATES_def)

text \<open>The code, then the flush, whatever the code throws, then the end of the batch.\<close>

lemma batchedUpdates_outside:
  assumes "outside s" "f (batch_start s) = Some (r, sa)" "strategy_tx sa = strategy_tx (batch_start s)"
    "fl sa = Some (x, sb)" "strategy_tx sb = strategy_tx sa"
  shows "batchedUpdates fl f s = Some (case r of Inl e \<Rightarrow> Inl e | Inr a \<Rightarrow> (case x of Inl e \<Rightarrow> Inl e | Inr _ \<Rightarrow> Inr a),
    put_strategy reinitializeTransaction (sb\<lparr>isBatchingUpdates := False\<rparr>))"
proof -
  let ?s = "s\<lparr>isBatchingUpdates := True\<rparr>"
  have "perform strategy_tx put_strategy [FLUSH_BATCHED_UPDATES fl, RESET_BATCHED_UPDATES] f ?s =
      Some (case r of Inl e \<Rightarrow> Inl e | Inr a \<Rightarrow> (case x of Inl e \<Rightarrow> Inl e
        | Inr _ \<Rightarrow> (case Inr () of Inl e \<Rightarrow> Inl e | Inr _ \<Rightarrow> Inr a)),
        put_strategy reinitializeTransaction (sb\<lparr>isBatchingUpdates := False\<rparr>))"
    by (rule strategy.perform_two [where sa = sa and sb = sb])
      (use assms in \<open>simp_all add: run_strategy_wrappers modify_def batch_start_def outside_def put_strategy_def\<close>)
  then show ?thesis using assms(1) by (simp add: batchedUpdates_def cmd outside_def split: sum.split)
qed

lemma batch_start_ok: "outside s \<Longrightarrow> (q \<longrightarrow> idle s) \<Longrightarrow> at_rest q (batch_start s)"
  by (auto simp: outside_def idle_def batch_start_def put_strategy_def at_rest_def batching_def all_settled_def settled_def
      state_pending_def has_callbacks_def)

lemma ops_at:
  assumes "at_rest q s" "q \<longrightarrow> (\<forall>op \<in> set ops. safe_op op)"
  shows "holds_at (\<lambda>s'. at_rest q s') (op_step q) q (foreach (run_op fl) ops) s"
proof -
  have b: "batching q s" using assms(1) by (simp add: at_rest_def)
  have "holds_at (batching q) (op_step q) q (foreach (run_op fl) ops) s"
    using assms by (intro op.foreach_at [OF b] run_op_at) (simp_all add: at_rest_def op_step_def same_frame_def)
  then show ?thesis
  proof (rule holds_at_mono)
    fix s'
    assume s': "batching q s'" "op_step q s s'"
    have "all_settled 0 s'" if q
      using s'(2) assms(1) that settled_kept [of 0 _ s s'] by (simp add: op_step_def at_rest_def all_settled_def)
    then show "at_rest q s' \<and> op_step q s s'" using s' assms(1) by (simp add: at_rest_def op_step_def same_frame_def)
  qed
qed

text \<open>The callbacks that some calls leave behind.\<close>

lemma ops_leave_callback:
  assumes "at_rest True s" "\<forall>op \<in> set ops. safe_op op" "EnqueueCallback c k \<in> set ops" "registered (composites s c)"
    "currentlyUnmounting s = None" "foreach (run_op fl) ops s = Some (r, s')"
  shows "callback_pending s' c k \<or> Unmounted c \<in> set (trace s')"
proof -
  obtain xs ys where split: "ops = xs @ EnqueueCallback c k # ys" using assms(3) by (meson split_list)
  obtain r1 s1 where s1: "foreach (run_op fl) xs s = Some (r1, s1)" "at_rest True s1" "op_step True s s1" "\<not> isl r1"
    using ops_at [OF assms(1), of xs fl] assms(2) split by (auto elim: holds_atD)
  have s1_ok: "isBatchingUpdates s1" "currentOwner s1 = None" "currentlyMounting s1 = None" "registered (composites s1 c)"
      "currentlyUnmounting s1 = None"
    using s1(2,3) assms(4,5) by (simp_all add: at_rest_def batching_def op_step_def same_frame_def)
  let ?s = "changed c (push_callback k) s1"
  have run: "run_op fl (EnqueueCallback c k) s1 = Some (Inr (), ?s)"
    using s1_ok enqueue_unless_mounting_inside [OF s1_ok(1), of c "push_callback k" fl]
    by (simp add: enqueueCallback_def ready_for_update_def cmd)
  have "adds True s1 c (push_callback k)" using s1_ok(3) by (intro adds_state) simp
  then have "batching True ?s" "op_step True s1 ?s" using s1(2) changed_step by (auto simp: at_rest_def)
  then have rest: "at_rest True ?s"
    using s1(2) settled_kept [of 0 _ s1 ?s] by (auto simp: at_rest_def op_step_def all_settled_def)
  have pending: "callback_pending ?s c k"
    by (simp add: callback_pending_def composites_changed push_callback_def split: option.split)
  obtain r2 s2 where s2: "foreach (run_op fl) ys ?s = Some (r2, s2)" "op_step True ?s s2"
    using ops_at [OF rest, of ys fl] assms(2) split by (auto elim: holds_atD)
  have "foreach (run_op fl) ops s = Some (r2, s2)"
    using s1(1,4) run s2(1) by (auto simp: split foreach_append after_def bind_cmd_def not_isl)
  then have "s' = s2" using assms(6) by simp
  then show ?thesis using s2(2) pending by (simp add: op_step_def work_kept_def)
qed

lemma ops_leave_asap:
  assumes "at_rest True s" "\<forall>op \<in> set ops. safe_op op" "Asap k c \<in> set ops" "foreach (run_op fl) ops s = Some (r, s')"
  shows "(User k, c) \<in> set (queue_entries (asapCallbackQueue s'))"
proof -
  obtain xs ys where split: "ops = xs @ Asap k c # ys" using assms(3) by (meson split_list)
  obtain r1 s1 where s1: "foreach (run_op fl) xs s = Some (r1, s1)" "at_rest True s1" "\<not> isl r1"
    using ops_at [OF assms(1), of xs fl] assms(2) split by (auto elim: holds_atD)
  have ok: "isBatchingUpdates s1" "queue_ok (asapCallbackQueue s1)" using s1(2) by (simp_all add: at_rest_def batching_def)
  let ?s = "s1\<lparr>asapCallbackQueue := enqueue (User k) c (asapCallbackQueue s1), asapEnqueued := True\<rparr>"
  have run: "run_op fl (Asap k c) s1 = Some (Inr (), ?s)" using ok(1) by (simp add: asap_def cmd)
  have rest: "at_rest True ?s" using s1(2)
    by (simp add: at_rest_def batching_def all_settled_def settled_def state_pending_def has_callbacks_def)
  obtain r2 s2 where s2: "foreach (run_op fl) ys ?s = Some (r2, s2)" "op_step True ?s s2"
    using ops_at [OF rest, of ys fl] assms(2) split by (auto elim: holds_atD)
  have "foreach (run_op fl) ops s = Some (r2, s2)"
    using s1(1,3) run s2(1) by (auto simp: split foreach_append after_def bind_cmd_def not_isl)
  then have "s' = s2" using assms(4) by simp
  then show ?thesis using s2(2) ok(2) by (simp add: op_step_def grows_def)
qed

lemma batched_event_run:
  assumes "user_ok q budget U" "outside s" "q \<longrightarrow> idle s \<and> (\<forall>op \<in> set ops. safe_op op)" "budget (world s) + 1 < n"
  obtains r u s' where
    "foreach (run_op (flushBatchedUpdates U n)) ops (batch_start s) = Some (r, u)" "op_step q (batch_start s) u" "at_rest q u"
    "flushing q budget u s'" "\<And>x. q \<Longrightarrow> r = Inl x \<Longrightarrow> False"
    "\<exists>r'. batched_event U n ops s = Some (r', put_strategy reinitializeTransaction (s'\<lparr>isBatchingUpdates := False\<rparr>)) \<and>
       (q \<longrightarrow> \<not> isl r' \<and> \<not> busy s')"
proof -
  let ?fl = "flushBatchedUpdates U n"
  have rest: "at_rest q (batch_start s)" using assms(2,3) by (intro batch_start_ok) simp_all
  obtain r u where u: "foreach (run_op ?fl) ops (batch_start s) = Some (r, u)" "at_rest q u" "op_step q (batch_start s) u" "q \<longrightarrow> \<not> isl r"
    using ops_at [OF rest, of ops ?fl] assms(3) by (auto elim: holds_atD)
  have "world u = world s" using u(3) by (simp add: op_step_def batch_start_def put_strategy_def)
  then have fuel: "budget (world u) + (if busy u then 1 else 0) < n" using assms(4) by simp
  obtain x s' where s': "?fl u = Some (x, s')" "flushing q budget u s'" "q \<longrightarrow> \<not> isl x" "\<not> isl x \<longrightarrow> \<not> busy s'"
    by (rule flushesD [OF flush_returns [OF assms(1)] u(2) fuel])
  have same: "strategy_tx u = strategy_tx (batch_start s)" "strategy_tx s' = strategy_tx u"
    using u(3) s'(2) by (simp_all add: op_step_def flushing_def same_frame_def)
  have "batched_event U n ops s = Some (case r of Inl e \<Rightarrow> Inl e | Inr a \<Rightarrow> (case x of Inl e \<Rightarrow> Inl e | Inr _ \<Rightarrow> Inr a),
      put_strategy reinitializeTransaction (s'\<lparr>isBatchingUpdates := False\<rparr>))"
    unfolding batched_event_def
    by (rule batchedUpdates_outside [where sa = u and sb = s' and fl = ?fl]) (rule assms(2) u(1) same s'(1))+
  moreover have "q \<longrightarrow> \<not> isl (case r of Inl e \<Rightarrow> Inl e | Inr a \<Rightarrow> (case x of Inl e \<Rightarrow> Inl e | Inr _ \<Rightarrow> Inr a)) \<and> \<not> busy s'"
    using u(4) s'(3,4) by (auto split: sum.split)
  ultimately show thesis using u(4) by (intro that [OF u(1,3,2) s'(2)]) auto
qed

lemma ended: "at_rest q s' \<Longrightarrow> outside (put_strategy reinitializeTransaction (s'\<lparr>isBatchingUpdates := False\<rparr>))"
  by (simp add: at_rest_def batching_def outside_def put_strategy_def)

text \<open> C32. An event whose code calls React returns, whatever it, the components and the callbacks do and throw, if each
  piece of code that calls React uses up some of a budget: the nested flushes and the loop over new dirty components
  come to an end. The budget plus two is fuel enough. Afterwards no batch is running, the transaction of the strategy can be
  used again, nothing is being rendered or mounted, and events are enabled as before.\<close>

theorem batched_event_returns:
  assumes "spends_budget budget U" "outside s" "budget (world s) + 1 < n"
  shows "\<exists>r s'. batched_event U n ops s = Some (r, s') \<and> outside s' \<and> events_enabled s' = events_enabled s"
proof -
  have U: "user_ok False budget U" using assms(1) by (simp add: user_ok_def)
  obtain r u s' where run: "op_step False (batch_start s) u" "flushing False budget u s'"
      "\<exists>r'. batched_event U n ops s = Some (r', put_strategy reinitializeTransaction (s'\<lparr>isBatchingUpdates := False\<rparr>))"
    by (rule batched_event_run [OF U assms(2) _ assms(3), of ops]) auto
  have "events_enabled s' = events_enabled s"
    using run(1,2) by (simp add: op_step_def flushing_def same_frame_def batch_start_def put_strategy_def)
  moreover have "at_rest False s'" using run(2) by (simp add: flushing_def)
  ultimately show ?thesis using run(3) ended [of False s'] by (auto simp: put_strategy_def)
qed


section \<open>An example\<close>

text \<open>A component that sets its state again after each of its first two updates.\<close>

definition demo_user :: "nat user" where
  "demo_user = \<lparr>code = (\<lambda>k c s. if k = DidUpdate \<and> world s > 0
       then ([SetState c (Members [(''n'', Num (int (world s)))])], None, world s - 1) else ([], None, world s)),
     has_method = (\<lambda>c k. k = DidUpdate), shouldUpdate = (\<lambda>c ps st s. True), initial = (\<lambda>c s. None), rendered = (\<lambda>c s. [])\<rparr>"

definition demo_state :: "nat sched" where
  "demo_state = \<lparr>composites = (\<lambda>c. (construct Null)\<lparr>mountOrder := c, registered := True\<rparr>), nextMountID = 10, next_address = 100,
     dirtyComponents = [], asapCallbackQueue = CallbackQueue, asapEnqueued = False, isBatchingUpdates = False,
     strategy_tx = reinitializeTransaction, currentOwner = None, currentlyMounting = None, currentlyUnmounting = None,
     events_enabled = True, world = 2, trace = []\<rparr>"

definition demo_ops :: "react_op list" where
  "demo_ops = [SetState 7 (Members [(''n'', Num 9)]), EnqueueCallback 7 3, SetState 4 (Members []), Asap 5 4]"

lemma demo_idle: "idle demo_state"
  by (simp add: idle_def outside_def demo_state_def all_settled_def settled_def state_pending_def has_callbacks_def
      composite_quiet_def construct_def)

lemma demo_code: "quiet_code demo_user" "spends_budget (\<lambda>w. w) demo_user"
  by (simp_all add: quiet_code_def spends_budget_def demo_user_def safe_partial_def)

lemma batched_event_returns_witness:
  "\<exists>r s'. batched_event demo_user 4 demo_ops demo_state = Some (r, s') \<and> outside s' \<and> events_enabled s'"
  using batched_event_returns [OF demo_code(2), of demo_state 4 demo_ops] demo_idle
  by (simp add: idle_def) (simp add: demo_state_def)


end

