(* ===== verification/ReactDOMProperty.thy ===== *)
theory ReactDOMProperty
  imports ReactElements ReactTransaction "HOL-Library.Word"
begin

unbundle bit_operations_syntax

text \<open>
  Properties of DOM nodes in \<open>webfiles/react.js\<close>: the tables that say how a property of an element is written
  (\<open>DOMProperty\<close>, filled by \<open>injectDOMPropertyConfig\<close> from \<open>HTMLDOMPropertyConfig\<close> and \<open>SVGDOMPropertyConfig\<close>), the markup
  for a property and for styles, and how properties and styles of a node are set and deleted
  (\<open>DOMPropertyOperations\<close>, \<open>CSSPropertyOperations\<close>).

  A string is a list of 8-bit characters; the code treats all characters but a few of ASCII alike. The conversion of
  a value to a string (\<open>'' + value\<close>) and to a number (\<open>None\<close>: \<open>NaN\<close>) are parameters, as they call methods of the
  value. Warnings are left out.
\<close>

section \<open>The configuration\<close>

definition MUST_USE_ATTRIBUTE :: "32 word" where "MUST_USE_ATTRIBUTE = 0x1"
definition MUST_USE_PROPERTY :: "32 word" where "MUST_USE_PROPERTY = 0x2"
definition HAS_SIDE_EFFECTS :: "32 word" where "HAS_SIDE_EFFECTS = 0x4"
definition HAS_BOOLEAN_VALUE :: "32 word" where "HAS_BOOLEAN_VALUE = 0x8"
definition HAS_NUMERIC_VALUE :: "32 word" where "HAS_NUMERIC_VALUE = 0x10"
definition HAS_POSITIVE_NUMERIC_VALUE :: "32 word" where "HAS_POSITIVE_NUMERIC_VALUE = 0x20 OR 0x10"
definition HAS_OVERLOADED_BOOLEAN_VALUE :: "32 word" where "HAS_OVERLOADED_BOOLEAN_VALUE = 0x40"

definition checkMask :: "32 word \<Rightarrow> 32 word \<Rightarrow> bool" where
  "checkMask v bitmask \<longleftrightarrow> v AND bitmask = bitmask"

text \<open>A configuration; a property whose value is null has no flags. Mutation methods are addresses of functions.\<close>

record property_config =
  isCustomAttribute_fn :: "(string \<Rightarrow> bool) option"
  Properties :: "(string \<times> 32 word) list"
  DOMAttributeNames :: "(string \<times> string) list"
  DOMPropertyNames :: "(string \<times> string) list"
  DOMMutationMethods :: "(string \<times> nat) list"

record dom_property =
  isStandardName :: "string \<rightharpoonup> bool"
  getPossibleStandardName :: "string \<rightharpoonup> string"
  getAttributeName :: "string \<rightharpoonup> string"
  getPropertyName :: "string \<rightharpoonup> string"
  getMutationMethod :: "string \<rightharpoonup> nat option"
  mustUseAttribute :: "string \<rightharpoonup> bool"
  mustUseProperty :: "string \<rightharpoonup> bool"
  hasSideEffects :: "string \<rightharpoonup> bool"
  hasBooleanValue :: "string \<rightharpoonup> bool"
  hasNumericValue :: "string \<rightharpoonup> bool"
  hasPositiveNumericValue :: "string \<rightharpoonup> bool"
  hasOverloadedBooleanValue :: "string \<rightharpoonup> bool"
  isCustomAttributeFunctions :: "(string \<Rightarrow> bool) list"

definition empty_dom_property :: dom_property where
  "empty_dom_property = \<lparr>isStandardName = Map.empty, getPossibleStandardName = Map.empty, getAttributeName = Map.empty,
     getPropertyName = Map.empty, getMutationMethod = Map.empty, mustUseAttribute = Map.empty, mustUseProperty = Map.empty,
     hasSideEffects = Map.empty, hasBooleanValue = Map.empty, hasNumericValue = Map.empty,
     hasPositiveNumericValue = Map.empty, hasOverloadedBooleanValue = Map.empty, isCustomAttributeFunctions = []\<rparr>"

text \<open>\<open>toLowerCase\<close> for the letters of ASCII.\<close>

definition lower_char :: "char \<Rightarrow> char" where
  "lower_char c = (if 65 \<le> (of_char c :: nat) \<and> (of_char c :: nat) \<le> 90 then char_of (of_char c + 32 :: nat) else c)"

definition toLowerCase :: "string \<Rightarrow> string" where
  "toLowerCase s = map lower_char s"

definition flag :: "(string \<rightharpoonup> bool) \<Rightarrow> string \<Rightarrow> bool" where
  "flag m name \<longleftrightarrow> m name = Some True"

definition with_names :: "property_config \<Rightarrow> string \<Rightarrow> dom_property \<Rightarrow> dom_property" where
  "with_names config name p =
     (let lowerCased = toLowerCase name;
          p1 = p\<lparr>isStandardName := (isStandardName p)(name \<mapsto> True),
                 getPossibleStandardName := (getPossibleStandardName p)(lowerCased \<mapsto> name)\<rparr>;
          p2 = (case map_of (DOMAttributeNames config) name of
              Some attributeName \<Rightarrow> p1\<lparr>getPossibleStandardName := (getPossibleStandardName p1)(attributeName \<mapsto> name),
                getAttributeName := (getAttributeName p1)(name \<mapsto> attributeName)\<rparr>
            | None \<Rightarrow> p1\<lparr>getAttributeName := (getAttributeName p1)(name \<mapsto> lowerCased)\<rparr>)
      in p2\<lparr>getPropertyName := (getPropertyName p2)(name \<mapsto>
               (case map_of (DOMPropertyNames config) name of Some n \<Rightarrow> n | None \<Rightarrow> name)),
            getMutationMethod := (getMutationMethod p2)(name \<mapsto> map_of (DOMMutationMethods config) name)\<rparr>)"

definition with_flags :: "string \<Rightarrow> 32 word \<Rightarrow> dom_property \<Rightarrow> dom_property" where
  "with_flags name flags p = p\<lparr>
     mustUseAttribute := (mustUseAttribute p)(name \<mapsto> checkMask flags MUST_USE_ATTRIBUTE),
     mustUseProperty := (mustUseProperty p)(name \<mapsto> checkMask flags MUST_USE_PROPERTY),
     hasSideEffects := (hasSideEffects p)(name \<mapsto> checkMask flags HAS_SIDE_EFFECTS),
     hasBooleanValue := (hasBooleanValue p)(name \<mapsto> checkMask flags HAS_BOOLEAN_VALUE),
     hasNumericValue := (hasNumericValue p)(name \<mapsto> checkMask flags HAS_NUMERIC_VALUE),
     hasPositiveNumericValue := (hasPositiveNumericValue p)(name \<mapsto> checkMask flags HAS_POSITIVE_NUMERIC_VALUE),
     hasOverloadedBooleanValue := (hasOverloadedBooleanValue p)(name \<mapsto> checkMask flags HAS_OVERLOADED_BOOLEAN_VALUE)\<rparr>"

text \<open>The sum of conditions as numbers.\<close>

definition ones :: "bool list \<Rightarrow> nat" where
  "ones bs = length (filter id bs)"

definition inject_property :: "property_config \<Rightarrow> string \<times> 32 word \<Rightarrow> (unit, dom_property) cmd" where
  "inject_property config np = (let name = fst np in
     after (invariant (\<lambda>p. isStandardName p name = None) ''property injected twice'')
       (after (modify (\<lambda>p. with_flags name (snd np) (with_names config name p)))
         (after (invariant (\<lambda>p. \<not> flag (mustUseAttribute p) name \<or> \<not> flag (mustUseProperty p) name)
             ''Cannot require using both attribute and property'')
           (after (invariant (\<lambda>p. flag (mustUseProperty p) name \<or> \<not> flag (hasSideEffects p) name)
               ''Properties that have side effects must use property'')
             (invariant (\<lambda>p. ones [flag (hasBooleanValue p) name, flag (hasNumericValue p) name,
                 flag (hasOverloadedBooleanValue p) name] \<le> 1)
               ''Value can be one of boolean, overloaded boolean, or numeric value'')))))"

definition injectDOMPropertyConfig :: "property_config \<Rightarrow> (unit, dom_property) cmd" where
  "injectDOMPropertyConfig config =
     after (modify (\<lambda>p. case isCustomAttribute_fn config of
         Some f \<Rightarrow> p\<lparr>isCustomAttributeFunctions := isCustomAttributeFunctions p @ [f]\<rparr>
       | None \<Rightarrow> p))
       (foreach (inject_property config) (Properties config))"

definition isCustomAttribute :: "dom_property \<Rightarrow> string \<Rightarrow> bool" where
  "isCustomAttribute p name \<longleftrightarrow> list_ex (\<lambda>f. f name) (isCustomAttributeFunctions p)"

text \<open>The pattern \<open>^(data|aria)-[a-z_][a-z\d_.\-]*$\<close>.\<close>

definition lower_letter :: "char \<Rightarrow> bool" where
  "lower_letter c \<longleftrightarrow> 97 \<le> (of_char c :: nat) \<and> (of_char c :: nat) \<le> 122"

definition upper_letter :: "char \<Rightarrow> bool" where
  "upper_letter c \<longleftrightarrow> 65 \<le> (of_char c :: nat) \<and> (of_char c :: nat) \<le> 90"

definition digit :: "char \<Rightarrow> bool" where
  "digit c \<longleftrightarrow> 48 \<le> (of_char c :: nat) \<and> (of_char c :: nat) \<le> 57"

definition data_or_aria :: "string \<Rightarrow> bool" where
  "data_or_aria s \<longleftrightarrow> (take 5 s = ''data-'' \<or> take 5 s = ''aria-'') \<and>
     (case drop 5 s of [] \<Rightarrow> False
      | c # cs \<Rightarrow> (lower_letter c \<or> c = CHR ''_'') \<and>
          list_all (\<lambda>d. lower_letter d \<or> digit d \<or> d = CHR ''_'' \<or> d = CHR ''.'' \<or> d = CHR ''-'') cs)"

text \<open>\<open>hasSVG\<close> is whether the browser supports SVG.\<close>

definition HTMLDOMPropertyConfig :: "bool \<Rightarrow> property_config" where
  "HTMLDOMPropertyConfig hasSVG = \<lparr>isCustomAttribute_fn = Some data_or_aria,
     Properties = [
     (''accept'', 0), (''acceptCharset'', 0), (''accessKey'', 0), (''action'', 0),
     (''allowFullScreen'', MUST_USE_ATTRIBUTE OR HAS_BOOLEAN_VALUE), (''allowTransparency'', MUST_USE_ATTRIBUTE),
     (''alt'', 0), (''async'', HAS_BOOLEAN_VALUE), (''autoComplete'', 0), (''autoPlay'', HAS_BOOLEAN_VALUE),
     (''cellPadding'', 0), (''cellSpacing'', 0), (''charSet'', MUST_USE_ATTRIBUTE),
     (''checked'', MUST_USE_PROPERTY OR HAS_BOOLEAN_VALUE), (''classID'', MUST_USE_ATTRIBUTE),
     (''className'', (if hasSVG then MUST_USE_ATTRIBUTE else MUST_USE_PROPERTY)),
     (''cols'', MUST_USE_ATTRIBUTE OR HAS_POSITIVE_NUMERIC_VALUE), (''colSpan'', 0), (''content'', 0),
     (''contentEditable'', 0), (''contextMenu'', MUST_USE_ATTRIBUTE),
     (''controls'', MUST_USE_PROPERTY OR HAS_BOOLEAN_VALUE), (''coords'', 0), (''crossOrigin'', 0), (''data'', 0),
     (''dateTime'', MUST_USE_ATTRIBUTE), (''defer'', HAS_BOOLEAN_VALUE), (''dir'', 0),
     (''disabled'', MUST_USE_ATTRIBUTE OR HAS_BOOLEAN_VALUE), (''download'', HAS_OVERLOADED_BOOLEAN_VALUE),
     (''draggable'', 0), (''encType'', 0), (''form'', MUST_USE_ATTRIBUTE), (''formAction'', MUST_USE_ATTRIBUTE),
     (''formEncType'', MUST_USE_ATTRIBUTE), (''formMethod'', MUST_USE_ATTRIBUTE),
     (''formNoValidate'', HAS_BOOLEAN_VALUE), (''formTarget'', MUST_USE_ATTRIBUTE),
     (''frameBorder'', MUST_USE_ATTRIBUTE), (''headers'', 0), (''height'', MUST_USE_ATTRIBUTE),
     (''hidden'', MUST_USE_ATTRIBUTE OR HAS_BOOLEAN_VALUE), (''href'', 0), (''hrefLang'', 0), (''htmlFor'', 0),
     (''httpEquiv'', 0), (''icon'', 0), (''id'', MUST_USE_PROPERTY), (''label'', 0), (''lang'', 0),
     (''list'', MUST_USE_ATTRIBUTE), (''loop'', MUST_USE_PROPERTY OR HAS_BOOLEAN_VALUE),
     (''manifest'', MUST_USE_ATTRIBUTE), (''marginHeight'', 0), (''marginWidth'', 0), (''max'', 0),
     (''maxLength'', MUST_USE_ATTRIBUTE), (''media'', MUST_USE_ATTRIBUTE), (''mediaGroup'', 0), (''method'', 0),
     (''min'', 0), (''multiple'', MUST_USE_PROPERTY OR HAS_BOOLEAN_VALUE),
     (''muted'', MUST_USE_PROPERTY OR HAS_BOOLEAN_VALUE), (''name'', 0), (''noValidate'', HAS_BOOLEAN_VALUE),
     (''open'', HAS_BOOLEAN_VALUE), (''pattern'', 0), (''placeholder'', 0), (''poster'', 0), (''preload'', 0),
     (''radioGroup'', 0), (''readOnly'', MUST_USE_PROPERTY OR HAS_BOOLEAN_VALUE), (''rel'', 0),
     (''required'', HAS_BOOLEAN_VALUE), (''role'', MUST_USE_ATTRIBUTE),
     (''rows'', MUST_USE_ATTRIBUTE OR HAS_POSITIVE_NUMERIC_VALUE), (''rowSpan'', 0), (''sandbox'', 0),
     (''scope'', 0), (''scrolling'', 0), (''seamless'', MUST_USE_ATTRIBUTE OR HAS_BOOLEAN_VALUE),
     (''selected'', MUST_USE_PROPERTY OR HAS_BOOLEAN_VALUE), (''shape'', 0),
     (''size'', MUST_USE_ATTRIBUTE OR HAS_POSITIVE_NUMERIC_VALUE), (''sizes'', MUST_USE_ATTRIBUTE),
     (''span'', HAS_POSITIVE_NUMERIC_VALUE), (''spellCheck'', 0), (''src'', 0), (''srcDoc'', MUST_USE_PROPERTY),
     (''srcSet'', MUST_USE_ATTRIBUTE), (''start'', HAS_NUMERIC_VALUE), (''step'', 0), (''style'', 0),
     (''tabIndex'', 0), (''target'', 0), (''title'', 0), (''type'', 0), (''useMap'', 0),
     (''value'', MUST_USE_PROPERTY OR HAS_SIDE_EFFECTS), (''width'', MUST_USE_ATTRIBUTE),
     (''wmode'', MUST_USE_ATTRIBUTE), (''autoCapitalize'', 0), (''autoCorrect'', 0),
     (''itemProp'', MUST_USE_ATTRIBUTE), (''itemScope'', MUST_USE_ATTRIBUTE OR HAS_BOOLEAN_VALUE),
     (''itemType'', MUST_USE_ATTRIBUTE), (''itemID'', MUST_USE_ATTRIBUTE), (''itemRef'', MUST_USE_ATTRIBUTE),
     (''property'', 0)],
     DOMAttributeNames = [
     (''acceptCharset'', ''accept-charset''), (''className'', ''class''), (''htmlFor'', ''for''),
     (''httpEquiv'', ''http-equiv'')],
     DOMPropertyNames = [
     (''autoCapitalize'', ''autocapitalize''), (''autoComplete'', ''autocomplete''),
     (''autoCorrect'', ''autocorrect''), (''autoFocus'', ''autofocus''), (''autoPlay'', ''autoplay''),
     (''encType'', ''encoding''), (''hrefLang'', ''hreflang''), (''radioGroup'', ''radiogroup''),
     (''spellCheck'', ''spellcheck''), (''srcDoc'', ''srcdoc''), (''srcSet'', ''srcset'')],
     DOMMutationMethods = []\<rparr>"

definition SVGDOMPropertyConfig :: property_config where
  "SVGDOMPropertyConfig = \<lparr>isCustomAttribute_fn = None,
     Properties = map (\<lambda>n. (n, MUST_USE_ATTRIBUTE)) [
     ''cx'', ''cy'', ''d'', ''dx'', ''dy'', ''fill'', ''fillOpacity'', ''fontFamily'', ''fontSize'', ''fx'',
     ''fy'', ''gradientTransform'', ''gradientUnits'', ''markerEnd'', ''markerMid'', ''markerStart'', ''offset'',
     ''opacity'', ''patternContentUnits'', ''patternUnits'', ''points'', ''preserveAspectRatio'', ''r'', ''rx'',
     ''ry'', ''spreadMethod'', ''stopColor'', ''stopOpacity'', ''stroke'', ''strokeDasharray'', ''strokeLinecap'',
     ''strokeOpacity'', ''strokeWidth'', ''textAnchor'', ''transform'', ''version'', ''viewBox'', ''x1'', ''x2'',
     ''x'', ''y1'', ''y2'', ''y''],
     DOMAttributeNames = [
     (''fillOpacity'', ''fill-opacity''), (''fontFamily'', ''font-family''), (''fontSize'', ''font-size''),
     (''gradientTransform'', ''gradientTransform''), (''gradientUnits'', ''gradientUnits''),
     (''markerEnd'', ''marker-end''), (''markerMid'', ''marker-mid''), (''markerStart'', ''marker-start''),
     (''patternContentUnits'', ''patternContentUnits''), (''patternUnits'', ''patternUnits''),
     (''preserveAspectRatio'', ''preserveAspectRatio''), (''spreadMethod'', ''spreadMethod''),
     (''stopColor'', ''stop-color''), (''stopOpacity'', ''stop-opacity''),
     (''strokeDasharray'', ''stroke-dasharray''), (''strokeLinecap'', ''stroke-linecap''),
     (''strokeOpacity'', ''stroke-opacity''), (''strokeWidth'', ''stroke-width''),
     (''textAnchor'', ''text-anchor''), (''viewBox'', ''viewBox'')],
     DOMPropertyNames = [], DOMMutationMethods = []\<rparr>"

text \<open>What \<open>ReactDefaultInjection\<close> injects.\<close>

definition default_injection :: "bool \<Rightarrow> (unit, dom_property) cmd" where
  "default_injection hasSVG =
     after (injectDOMPropertyConfig (HTMLDOMPropertyConfig hasSVG)) (injectDOMPropertyConfig SVGDOMPropertyConfig)"

section \<open>Styles\<close>

text \<open>
  What the code asks of its surroundings: the conversions of a value, the name of the member of a style that holds
  \<open>float\<close>, what a mutation method does to a node, and the value of a property in a new node.
\<close>

record dom_node =
  node_attributes :: "string \<rightharpoonup> string"
  node_properties :: "string \<rightharpoonup> js_value"
  node_style :: "string \<rightharpoonup> string"

record dom_env =
  to_string :: "js_value \<Rightarrow> string"
  to_number :: "js_value \<Rightarrow> int option"
  styleFloatAccessor :: string
  mutate :: "nat \<Rightarrow> js_value \<Rightarrow> dom_node \<Rightarrow> dom_node"
  default_value :: "string \<Rightarrow> js_value"

definition unitless_names :: "string list" where
  "unitless_names = [''boxFlex'', ''boxFlexGroup'', ''columnCount'', ''flex'', ''flexGrow'', ''flexShrink'', ''fontWeight'',
     ''lineClamp'', ''lineHeight'', ''opacity'', ''order'', ''orphans'', ''widows'', ''zIndex'', ''zoom'', ''fillOpacity'',
     ''strokeOpacity'']"

definition upper_char :: "char \<Rightarrow> char" where
  "upper_char c = (if lower_letter c then char_of (of_char c - 32 :: nat) else c)"

definition prefixKey :: "string \<Rightarrow> string \<Rightarrow> string" where
  "prefixKey prefix key = prefix @ map upper_char (take 1 key) @ drop 1 key"

definition style_prefixes :: "string list" where
  "style_prefixes = [''Webkit'', ''ms'', ''Moz'', ''O'']"

definition isUnitlessNumber :: "string \<Rightarrow> bool" where
  "isUnitlessNumber name \<longleftrightarrow> name \<in> set unitless_names \<or>
     list_ex (\<lambda>prefix. name \<in> set (map (prefixKey prefix) unitless_names)) style_prefixes"

definition whitespace :: "char \<Rightarrow> bool" where
  "whitespace c \<longleftrightarrow> (of_char c :: nat) \<in> set [9, 10, 11, 12, 13, 32, 160]"

definition trim :: "string \<Rightarrow> string" where
  "trim s = rev (dropWhile whitespace (rev (dropWhile whitespace s)))"

definition dangerousStyleValue :: "dom_env \<Rightarrow> string \<Rightarrow> js_value \<Rightarrow> string" where
  "dangerousStyleValue env name v =
     (if nullish v \<or> typeof v = ''boolean'' \<or> v = Str '''' then ''''
      else if to_number env v = None \<or> v = Num 0 \<or> isUnitlessNumber name then to_string env v
      else (case v of Str s \<Rightarrow> trim s | _ \<Rightarrow> to_string env v) @ ''px'')"

definition hyphenate :: "string \<Rightarrow> string" where
  "hyphenate s = toLowerCase (concat (map (\<lambda>c. if upper_letter c then [CHR ''-'', c] else [c]) s))"

definition hyphenateStyleName :: "string \<Rightarrow> string" where
  "hyphenateStyleName s = (let h = hyphenate s in if take 3 h = ''ms-'' then ''-ms-'' @ drop 3 h else h)"

definition style_markup :: "dom_env \<Rightarrow> string \<times> js_value \<Rightarrow> string" where
  "style_markup env nv = (if nullish (snd nv) then ''''
     else hyphenateStyleName (fst nv) @ '':'' @ dangerousStyleValue env (fst nv) (snd nv) @ '';'')"

text \<open>\<open>None\<close> is null.\<close>

definition createMarkupForStyles :: "dom_env \<Rightarrow> members \<Rightarrow> string option" where
  "createMarkupForStyles env styles =
     (let serialized = concat (map (style_markup env) styles) in if serialized = '''' then None else Some serialized)"

definition shorthandPropertyExpansions :: "(string \<times> string list) list" where
  "shorthandPropertyExpansions = [
     (''background'', [''backgroundImage'', ''backgroundPosition'', ''backgroundRepeat'', ''backgroundColor'']),
     (''border'', [''borderWidth'', ''borderStyle'', ''borderColor'']),
     (''borderBottom'', [''borderBottomWidth'', ''borderBottomStyle'', ''borderBottomColor'']),
     (''borderLeft'', [''borderLeftWidth'', ''borderLeftStyle'', ''borderLeftColor'']),
     (''borderRight'', [''borderRightWidth'', ''borderRightStyle'', ''borderRightColor'']),
     (''borderTop'', [''borderTopWidth'', ''borderTopStyle'', ''borderTopColor'']),
     (''font'', [''fontStyle'', ''fontVariant'', ''fontWeight'', ''fontSize'', ''lineHeight'', ''fontFamily''])]"

definition set_style :: "string \<Rightarrow> string \<Rightarrow> dom_node \<Rightarrow> dom_node" where
  "set_style name v node = node\<lparr>node_style := (node_style node)(name \<mapsto> v)\<rparr>"

definition setValueForStyle :: "dom_env \<Rightarrow> string \<times> js_value \<Rightarrow> dom_node \<Rightarrow> dom_node" where
  "setValueForStyle env nv node =
     (let styleValue = dangerousStyleValue env (fst nv) (snd nv);
          name = (if fst nv = ''float'' then styleFloatAccessor env else fst nv)
      in if styleValue \<noteq> '''' then set_style name styleValue node
         else (case map_of shorthandPropertyExpansions name of
             Some expansion \<Rightarrow> fold (\<lambda>individual. set_style individual '''') expansion node
           | None \<Rightarrow> set_style name '''' node))"

definition setValueForStyles :: "dom_env \<Rightarrow> members \<Rightarrow> dom_node \<Rightarrow> dom_node" where
  "setValueForStyles env styles node = fold (setValueForStyle env) styles node"

section \<open>Properties\<close>

definition is_standard :: "dom_property \<Rightarrow> string \<Rightarrow> bool" where
  "is_standard p name \<longleftrightarrow> flag (isStandardName p) name"

definition shouldIgnoreValue :: "dom_env \<Rightarrow> dom_property \<Rightarrow> string \<Rightarrow> js_value \<Rightarrow> bool" where
  "shouldIgnoreValue env p name v \<longleftrightarrow> nullish v \<or>
     flag (hasBooleanValue p) name \<and> \<not> truthy v \<or>
     flag (hasNumericValue p) name \<and> to_number env v = None \<or>
     flag (hasPositiveNumericValue p) name \<and> (case to_number env v of Some n \<Rightarrow> n < 1 | None \<Rightarrow> False) \<or>
     flag (hasOverloadedBooleanValue p) name \<and> v = Bool False"

text \<open>\<open>&\<close>, \<open>>\<close>, \<open><\<close> and both quotes are replaced.\<close>

definition escaper :: "char \<Rightarrow> string" where
  "escaper c = (if c = CHR ''&'' then ''&amp;'' else if c = CHR ''>'' then ''&gt;'' else if c = CHR ''<'' then ''&lt;''
     else if c = CHR 0x22 then ''&quot;'' else if c = CHR 0x27 then ''&#x27;'' else [c])"

definition escapeTextContentForBrowser :: "string \<Rightarrow> string" where
  "escapeTextContentForBrowser text = concat (map escaper text)"

definition quoteAttributeValueForBrowser :: "string \<Rightarrow> string" where
  "quoteAttributeValueForBrowser v = CHR 0x22 # escapeTextContentForBrowser v @ [CHR 0x22]"

definition ID_ATTRIBUTE_NAME :: string where
  "ID_ATTRIBUTE_NAME = ''data-reactid''"

definition createMarkupForID :: "string \<Rightarrow> string" where
  "createMarkupForID ident = ID_ATTRIBUTE_NAME @ ''='' @ quoteAttributeValueForBrowser ident"

definition attribute_name :: "dom_property \<Rightarrow> string \<Rightarrow> string" where
  "attribute_name p name = (case getAttributeName p name of Some n \<Rightarrow> n | None \<Rightarrow> ''undefined'')"

text \<open>The result \<open>None\<close> is null.\<close>

definition createMarkupForProperty :: "dom_env \<Rightarrow> dom_property \<Rightarrow> string \<Rightarrow> js_value \<Rightarrow> string option" where
  "createMarkupForProperty env p name v =
     (if is_standard p name then
        (if shouldIgnoreValue env p name v then Some ''''
         else if flag (hasBooleanValue p) name \<or> flag (hasOverloadedBooleanValue p) name \<and> v = Bool True
         then Some (attribute_name p name)
         else Some (attribute_name p name @ ''='' @ quoteAttributeValueForBrowser (to_string env v)))
      else if isCustomAttribute p name then
        (if nullish v then Some '''' else Some (name @ ''='' @ quoteAttributeValueForBrowser (to_string env v)))
      else None)"

definition set_attribute :: "string \<Rightarrow> string \<Rightarrow> dom_node \<Rightarrow> dom_node" where
  "set_attribute name v node = node\<lparr>node_attributes := (node_attributes node)(name \<mapsto> v)\<rparr>"

definition remove_attribute :: "string \<Rightarrow> dom_node \<Rightarrow> dom_node" where
  "remove_attribute name node = node\<lparr>node_attributes := (node_attributes node)(name := None)\<rparr>"

definition set_property :: "string \<Rightarrow> js_value \<Rightarrow> dom_node \<Rightarrow> dom_node" where
  "set_property name v node = node\<lparr>node_properties := (node_properties node)(name \<mapsto> v)\<rparr>"

definition get_property :: "dom_node \<Rightarrow> string \<Rightarrow> js_value" where
  "get_property node name = (case node_properties node name of Some v \<Rightarrow> v | None \<Rightarrow> Undefined)"

definition property_name :: "dom_property \<Rightarrow> string \<Rightarrow> string" where
  "property_name p name = (case getPropertyName p name of Some n \<Rightarrow> n | None \<Rightarrow> ''undefined'')"

definition mutation_method :: "dom_property \<Rightarrow> string \<Rightarrow> nat option" where
  "mutation_method p name = (case getMutationMethod p name of Some m \<Rightarrow> m | None \<Rightarrow> None)"

definition deleteValueForProperty :: "dom_env \<Rightarrow> dom_property \<Rightarrow> string \<Rightarrow> dom_node \<Rightarrow> dom_node" where
  "deleteValueForProperty env p name node =
     (if is_standard p name then
        (case mutation_method p name of
           Some f \<Rightarrow> mutate env f Undefined node
         | None \<Rightarrow>
             if flag (mustUseAttribute p) name then remove_attribute (attribute_name p name) node
             else (let propName = property_name p name; default = default_value env propName
               in if \<not> flag (hasSideEffects p) name \<or> Str (to_string env (get_property node propName)) \<noteq> default
                  then set_property propName default node else node))
      else if isCustomAttribute p name then remove_attribute name node
      else node)"

definition setValueForProperty :: "dom_env \<Rightarrow> dom_property \<Rightarrow> string \<Rightarrow> js_value \<Rightarrow> dom_node \<Rightarrow> dom_node" where
  "setValueForProperty env p name v node =
     (if is_standard p name then
        (case mutation_method p name of
           Some f \<Rightarrow> mutate env f v node
         | None \<Rightarrow>
             if shouldIgnoreValue env p name v then deleteValueForProperty env p name node
             else if flag (mustUseAttribute p) name then set_attribute (attribute_name p name) (to_string env v) node
             else (let propName = property_name p name
               in if \<not> flag (hasSideEffects p) name \<or> to_string env (get_property node propName) \<noteq> to_string env v
                  then set_property propName v node else node))
      else if isCustomAttribute p name then
        (if nullish v then remove_attribute name node else set_attribute name (to_string env v) node)
      else node)"

section \<open>The tables are consistent\<close>

text \<open>The attribute that a configuration gives a property.\<close>

definition configured_name :: "property_config \<Rightarrow> string \<Rightarrow> string" where
  "configured_name config n = (case map_of (DOMAttributeNames config) n of Some a \<Rightarrow> a | None \<Rightarrow> toLowerCase n)"

definition configured_property :: "property_config \<Rightarrow> string \<Rightarrow> string" where
  "configured_property config n = (case map_of (DOMPropertyNames config) n of Some m \<Rightarrow> m | None \<Rightarrow> n)"

definition flags_consistent :: "32 word \<Rightarrow> bool" where
  "flags_consistent w \<longleftrightarrow>
     \<not> (checkMask w MUST_USE_ATTRIBUTE \<and> checkMask w MUST_USE_PROPERTY) \<and>
     (checkMask w HAS_SIDE_EFFECTS \<longrightarrow> checkMask w MUST_USE_PROPERTY) \<and>
     ones [checkMask w HAS_BOOLEAN_VALUE, checkMask w HAS_NUMERIC_VALUE, checkMask w HAS_OVERLOADED_BOOLEAN_VALUE] \<le> 1"

text \<open>When a property is injected.\<close>

definition injects :: "property_config \<Rightarrow> (string \<times> 32 word) list \<Rightarrow> dom_property \<Rightarrow> dom_property \<Rightarrow> bool" where
  "injects config nps p p' \<longleftrightarrow>
     (\<forall>k. isStandardName p' k = (if k \<in> fst ` set nps then Some True else isStandardName p k)) \<and>
     (\<forall>k. getAttributeName p' k = (if k \<in> fst ` set nps then Some (configured_name config k) else getAttributeName p k)) \<and>
     (\<forall>k. getPropertyName p' k = (if k \<in> fst ` set nps then Some (configured_property config k) else getPropertyName p k)) \<and>
     (\<forall>k. getMutationMethod p' k = (if k \<in> fst ` set nps then Some (map_of (DOMMutationMethods config) k) else getMutationMethod p k)) \<and>
     (\<forall>k. mustUseAttribute p' k =
        (case map_of nps k of Some w \<Rightarrow> Some (checkMask w MUST_USE_ATTRIBUTE) | None \<Rightarrow> mustUseAttribute p k)) \<and>
     isCustomAttributeFunctions p' = isCustomAttributeFunctions p"

lemma with_flags_names [simp]:
  "isStandardName (with_flags n w p) = isStandardName p" "getAttributeName (with_flags n w p) = getAttributeName p"
  "isCustomAttributeFunctions (with_flags n w p) = isCustomAttributeFunctions p"
  "getPropertyName (with_flags n w p) = getPropertyName p" "getMutationMethod (with_flags n w p) = getMutationMethod p"
  by (simp_all add: with_flags_def)

lemma mustUseAttribute_with_flags:
  "mustUseAttribute (with_flags n w p) = (mustUseAttribute p)(n \<mapsto> checkMask w MUST_USE_ATTRIBUTE)"
  by (simp add: with_flags_def)

lemma flag_of_with_flags:
  "flag (mustUseAttribute (with_flags n w p)) n = checkMask w MUST_USE_ATTRIBUTE"
  "flag (mustUseProperty (with_flags n w p)) n = checkMask w MUST_USE_PROPERTY"
  "flag (hasSideEffects (with_flags n w p)) n = checkMask w HAS_SIDE_EFFECTS"
  "flag (hasBooleanValue (with_flags n w p)) n = checkMask w HAS_BOOLEAN_VALUE"
  "flag (hasNumericValue (with_flags n w p)) n = checkMask w HAS_NUMERIC_VALUE"
  "flag (hasOverloadedBooleanValue (with_flags n w p)) n = checkMask w HAS_OVERLOADED_BOOLEAN_VALUE"
  by (simp_all add: with_flags_def flag_def)

lemma with_names_names:
  "isStandardName (with_names config n p) = (isStandardName p)(n \<mapsto> True)"
  "getAttributeName (with_names config n p) = (getAttributeName p)(n \<mapsto> configured_name config n)"
  "isCustomAttributeFunctions (with_names config n p) = isCustomAttributeFunctions p"
  "getPropertyName (with_names config n p) = (getPropertyName p)(n \<mapsto> configured_property config n)"
  "getMutationMethod (with_names config n p) = (getMutationMethod p)(n \<mapsto> map_of (DOMMutationMethods config) n)"
  "mustUseAttribute (with_names config n p) = mustUseAttribute p"
  by (simp_all add: with_names_def configured_name_def configured_property_def Let_def split: option.split)

lemma inject_property_ok:
  assumes "isStandardName p (fst np) = None" "flags_consistent (snd np)"
  shows "inject_property config np p = Some (Inr (), with_flags (fst np) (snd np) (with_names config (fst np) p))"
  using assms by (auto simp: inject_property_def Let_def cmd flags_consistent_def flag_of_with_flags with_names_names)

lemma inject_properties_ok:
  assumes "distinct (map fst nps)" "\<forall>np \<in> set nps. isStandardName p (fst np) = None \<and> flags_consistent (snd np)"
  shows "\<exists>p'. foreach (inject_property config) nps p = Some (Inr (), p') \<and> injects config nps p p'"
  using assms
proof (induction nps arbitrary: p)
  case Nil
  then show ?case by (simp add: ret_def injects_def)
next
  case (Cons np nps)
  let ?p = "with_flags (fst np) (snd np) (with_names config (fst np) p)"
  have "inject_property config np p = Some (Inr (), ?p)" using Cons.prems by (intro inject_property_ok) simp_all
  moreover have later: "isStandardName ?p (fst mq) = None \<and> flags_consistent (snd mq)" if "mq \<in> set nps" for mq
  proof -
    have "fst mq \<noteq> fst np" using Cons.prems(1) that by (metis distinct.simps(2) image_eqI list.simps(9) set_map)
    then show ?thesis using Cons.prems(2) that by (simp add: with_names_names)
  qed
  obtain p' where "foreach (inject_property config) nps ?p = Some (Inr (), p')" "injects config nps ?p p'"
    using Cons.IH [of ?p] Cons.prems(1) later by auto
  moreover have "map_of nps (fst np) = None" using Cons.prems(1) by (simp add: map_of_eq_None_iff)
  ultimately show ?case
    by (intro exI [of _ p']) (auto simp: cmd injects_def with_names_names mustUseAttribute_with_flags split: option.split)
qed

text \<open>Strings are told apart quickly by their codes as numbers.\<close>

definition str_code :: "string \<Rightarrow> nat" where
  "str_code s = fold (\<lambda>c n. 256 * n + of_char c) s (length s)"

lemma distinct_by_codes: "distinct (map str_code xs) \<Longrightarrow> distinct xs"
  by (simp add: distinct_map)

lemma html_names_distinct: "distinct (map fst (Properties (HTMLDOMPropertyConfig b)) @ map fst (Properties SVGDOMPropertyConfig))"
  by (rule distinct_by_codes) (simp add: HTMLDOMPropertyConfig_def SVGDOMPropertyConfig_def str_code_def)

lemma html_flags: "list_all (\<lambda>np. flags_consistent (snd np)) (Properties (HTMLDOMPropertyConfig b))"
  by (cases b; simp add: HTMLDOMPropertyConfig_def flags_consistent_def checkMask_def ones_def MUST_USE_ATTRIBUTE_def MUST_USE_PROPERTY_def
      HAS_SIDE_EFFECTS_def HAS_BOOLEAN_VALUE_def HAS_NUMERIC_VALUE_def HAS_POSITIVE_NUMERIC_VALUE_def HAS_OVERLOADED_BOOLEAN_VALUE_def)

lemma svg_flags: "list_all (\<lambda>np. flags_consistent (snd np)) (Properties SVGDOMPropertyConfig)"
  by code_simp

text \<open>The default injection ends normally: no property twice, and no contradicting flags.\<close>

lemma default_injects:
  "\<exists>p1 p. default_injection b empty_dom_property = Some (Inr (), p) \<and> isCustomAttributeFunctions p = [data_or_aria] \<and>
     injects (HTMLDOMPropertyConfig b) (Properties (HTMLDOMPropertyConfig b))
       (empty_dom_property\<lparr>isCustomAttributeFunctions := [data_or_aria]\<rparr>) p1 \<and>
     injects SVGDOMPropertyConfig (Properties SVGDOMPropertyConfig) p1 p"
proof -
  let ?h = "HTMLDOMPropertyConfig b" and ?s = SVGDOMPropertyConfig
  let ?p0 = "empty_dom_property\<lparr>isCustomAttributeFunctions := [data_or_aria]\<rparr>"
  have custom: "isCustomAttribute_fn ?h = Some data_or_aria" "isCustomAttribute_fn ?s = None"
    by (simp_all add: HTMLDOMPropertyConfig_def SVGDOMPropertyConfig_def)
  have none: "isStandardName ?p0 k = None" "getAttributeName ?p0 k = None" for k by (simp_all add: empty_dom_property_def)
  have "\<forall>np \<in> set (Properties ?h). isStandardName ?p0 (fst np) = None \<and> flags_consistent (snd np)"
    using html_flags [of b] none by (simp add: list_all_iff)
  then obtain p1 where p1: "foreach (inject_property ?h) (Properties ?h) ?p0 = Some (Inr (), p1)" "injects ?h (Properties ?h) ?p0 p1"
    using inject_properties_ok [of "Properties ?h" ?p0 ?h] html_names_distinct [of b] unfolding distinct_append by blast
  have "fst ` set (Properties ?h) \<inter> fst ` set (Properties ?s) = {}"
    using html_names_distinct [of b] unfolding distinct_append set_map by blast
  then have "\<forall>np \<in> set (Properties ?s). isStandardName p1 (fst np) = None \<and> flags_consistent (snd np)"
  proof -
    assume "fst ` set (Properties ?h) \<inter> fst ` set (Properties ?s) = {}"
    moreover have "isStandardName p1 k = (if k \<in> fst ` set (Properties ?h) then Some True else None)" for k
      using p1(2) none unfolding injects_def by simp
    ultimately show ?thesis using svg_flags by (auto simp: list_all_iff disjoint_iff)
  qed
  then obtain p2 where p2: "foreach (inject_property ?s) (Properties ?s) p1 = Some (Inr (), p2)" "injects ?s (Properties ?s) p1 p2"
    using inject_properties_ok [of "Properties ?s" p1 ?s] html_names_distinct [of b] unfolding distinct_append by blast
  have "injectDOMPropertyConfig ?h empty_dom_property = Some (Inr (), p1)" "injectDOMPropertyConfig ?s p1 = Some (Inr (), p2)"
    using p1(1) p2(1) by (simp_all add: injectDOMPropertyConfig_def custom after_def bind_cmd_def modify_def empty_dom_property_def)
  then have "default_injection b empty_dom_property = Some (Inr (), p2)"
    by (simp add: default_injection_def after_def bind_cmd_def)
  then show ?thesis using p1(2) p2(2) by (intro exI [of _ p1] exI [of _ p2]) (simp add: injects_def)
qed

lemma default_injected:
  "\<exists>p. default_injection b empty_dom_property = Some (Inr (), p) \<and> isCustomAttributeFunctions p = [data_or_aria] \<and>
     (\<forall>k. isStandardName p k = (if k \<in> fst ` set (Properties (HTMLDOMPropertyConfig b)) \<union> fst ` set (Properties SVGDOMPropertyConfig)
        then Some True else None)) \<and>
     (\<forall>k. getAttributeName p k = (if k \<in> fst ` set (Properties SVGDOMPropertyConfig) then Some (configured_name SVGDOMPropertyConfig k)
        else if k \<in> fst ` set (Properties (HTMLDOMPropertyConfig b)) then Some (configured_name (HTMLDOMPropertyConfig b) k) else None))"
proof -
  obtain p1 p where "default_injection b empty_dom_property = Some (Inr (), p)" "isCustomAttributeFunctions p = [data_or_aria]"
    "injects (HTMLDOMPropertyConfig b) (Properties (HTMLDOMPropertyConfig b))
       (empty_dom_property\<lparr>isCustomAttributeFunctions := [data_or_aria]\<rparr>) p1"
    "injects SVGDOMPropertyConfig (Properties SVGDOMPropertyConfig) p1 p" using default_injects by blast
  then show ?thesis by (intro exI [of _ p]) (auto simp: injects_def empty_dom_property_def)
qed

end
