(* ===== verification/ReactEventPlugins.thy ===== *)
theory ReactEventPlugins
  imports JsObject ReactTransaction
begin

text \<open>
  The registry of event plugins (\<open>EventPluginRegistry\<close> in \<open>webfiles/react.js\<close>): the plugins that are loaded, brought into
  the injected order, and the events and registration names they publish. A plugin module is a value \<open>'p\<close>; what the
  registry reads of it is the record \<open>module\<close>, a parameter. The exceptions are named by what failed.
\<close>

section \<open>The registry\<close>

text \<open>The members of an object are in the order in which \<open>for in\<close> visits them.\<close>

record dispatch_config =
  registrationName :: "string option"
  phasedRegistrationNames :: "(string \<times> string) list option"
  dependencies :: "string list option"

record plugin_module =
  implements_extractEvents :: bool
  eventTypes :: "(string \<times> dispatch_config) list"

record 'p registry =
  EventPluginOrder :: "string list option"
  namesToPlugins :: "(string \<times> 'p) list"
  plugins :: "'p jsarr"
  eventNameDispatchConfigs :: "(string \<times> dispatch_config) list"
  registrationNameModules :: "(string \<times> 'p) list"
  registrationNameDependencies :: "(string \<times> string list option) list"

definition empty_registry :: "'p registry" where
  "empty_registry = \<lparr>EventPluginOrder = None, namesToPlugins = [], plugins = [], eventNameDispatchConfigs = [],
     registrationNameModules = [], registrationNameDependencies = []\<rparr>"

text \<open>Reading a member as a condition: objects inherit members, which are functions.\<close>

definition has_member :: "string \<Rightarrow> (string \<times> 'x) list \<Rightarrow> bool" where
  "has_member k m \<longleftrightarrow> k \<in> fst ` set m \<or> k \<in> set object_prototype_keys"

text \<open>\<open>indexOf\<close> of an array; \<open>None\<close> is \<open>-1\<close>.\<close>

fun index_of_name :: "string list \<Rightarrow> string \<Rightarrow> nat option" where
  "index_of_name [] x = None"
| "index_of_name (y # ys) x = (if y = x then Some 0 else map_option Suc (index_of_name ys x))"

text \<open>\<open>depends\<close> is \<open>PluginModule.eventTypes[eventName].dependencies\<close>.\<close>

definition publishRegistrationName ::
    "string \<Rightarrow> 'p \<Rightarrow> string list option \<Rightarrow> (unit, 'p registry) cmd" where
  "publishRegistrationName name p depends =
     after (invariant (\<lambda>r. \<not> has_member name (registrationNameModules r)) ''registration name published twice'')
       (modify (\<lambda>r. r\<lparr>registrationNameModules := js_put name p (registrationNameModules r),
          registrationNameDependencies := js_put name depends (registrationNameDependencies r)\<rparr>))"

definition publishEventForPlugin ::
    "dispatch_config \<Rightarrow> 'p \<Rightarrow> string list option \<Rightarrow> string \<Rightarrow> (bool, 'p registry) cmd" where
  "publishEventForPlugin config p depends eventName =
     after (invariant (\<lambda>r. eventName \<notin> fst ` set (eventNameDispatchConfigs r)) ''event name published twice'')
       (after (modify (\<lambda>r. r\<lparr>eventNameDispatchConfigs := js_put eventName config (eventNameDispatchConfigs r)\<rparr>))
         (case phasedRegistrationNames config of
            Some phased \<Rightarrow>
              after (foreach (\<lambda>(phase, name). publishRegistrationName name p depends) phased) (ret True)
          | None \<Rightarrow> (case registrationName config of
              Some name \<Rightarrow> if name = '''' then ret False else after (publishRegistrationName name p depends) (ret True)
            | None \<Rightarrow> ret False)))"

definition publish_event :: "'p \<Rightarrow> string \<times> dispatch_config \<Rightarrow> (unit, 'p registry) cmd" where
  "publish_event p ev = bind_cmd (publishEventForPlugin (snd ev) p (dependencies (snd ev)) (fst ev))
     (\<lambda>published. if published then ret () else throw ''failed to publish event'')"

definition recompute_plugin ::
    "('p \<Rightarrow> plugin_module) \<Rightarrow> string list \<Rightarrow> string \<times> 'p \<Rightarrow> (unit, 'p registry) cmd" where
  "recompute_plugin module order np = (\<lambda>r.
     case index_of_name order (fst np) of
       None \<Rightarrow> throw ''plugin is not in the ordering'' r
     | Some i \<Rightarrow>
         if js_get (plugins r) i \<noteq> None then ret () r
         else if \<not> implements_extractEvents (module (snd np)) then throw ''plugin has no extractEvents'' r
         else after (modify (\<lambda>r. r\<lparr>plugins := js_set (plugins r) i (Some (snd np))\<rparr>))
                (foreach (publish_event (snd np)) (eventTypes (module (snd np)))) r)"

definition recomputePluginOrdering :: "('p \<Rightarrow> plugin_module) \<Rightarrow> (unit, 'p registry) cmd" where
  "recomputePluginOrdering module = (\<lambda>r.
     case EventPluginOrder r of
       None \<Rightarrow> ret () r
     | Some order \<Rightarrow> foreach (recompute_plugin module order) (namesToPlugins r) r)"

definition injectEventPluginOrder :: "('p \<Rightarrow> plugin_module) \<Rightarrow> string list \<Rightarrow> (unit, 'p registry) cmd" where
  "injectEventPluginOrder module order =
     after (invariant (\<lambda>r. EventPluginOrder r = None) ''plugin ordering injected twice'')
       (after (modify (\<lambda>r. r\<lparr>EventPluginOrder := Some order\<rparr>)) (recomputePluginOrdering module))"

text \<open>The loop of \<open>injectEventPluginsByName\<close>; its result is \<open>isOrderingDirty\<close>.\<close>

primrec enter_plugins :: "(string \<times> 'p) list \<Rightarrow> bool \<Rightarrow> (bool, 'p registry) cmd" where
  "enter_plugins [] dirty = ret dirty"
| "enter_plugins (np # nps) dirty = (\<lambda>r.
     if map_of (namesToPlugins r) (fst np) = Some (snd np) then enter_plugins nps dirty r
     else after (invariant (\<lambda>r. \<not> has_member (fst np) (namesToPlugins r)) ''two plugins of the same name'')
            (after (modify (\<lambda>r. r\<lparr>namesToPlugins := js_put (fst np) (snd np) (namesToPlugins r)\<rparr>))
              (enter_plugins nps True)) r)"

definition injectEventPluginsByName ::
    "('p \<Rightarrow> plugin_module) \<Rightarrow> (string \<times> 'p) list \<Rightarrow> (unit, 'p registry) cmd" where
  "injectEventPluginsByName module injected =
     bind_cmd (enter_plugins injected False)
       (\<lambda>dirty. if dirty then recomputePluginOrdering module else ret ())"

text \<open>
  The plugin of the first registration name of a configuration that is registered. Names that all objects inherit
  are no registration names (see \<open>publishRegistrationName\<close>); they are not looked up here.
\<close>

definition registered_module :: "'p registry \<Rightarrow> string \<Rightarrow> 'p option" where
  "registered_module r name = map_of (registrationNameModules r) name"

fun first_module :: "'p registry \<Rightarrow> (string \<times> string) list \<Rightarrow> 'p option" where
  "first_module r [] = None"
| "first_module r ((phase, name) # rest) =
     (case registered_module r name of Some p \<Rightarrow> Some p | None \<Rightarrow> first_module r rest)"

definition phased_names :: "dispatch_config \<Rightarrow> (string \<times> string) list" where
  "phased_names config = (case phasedRegistrationNames config of Some ps \<Rightarrow> ps | None \<Rightarrow> [])"

definition getPluginModuleForEvent :: "'p registry \<Rightarrow> dispatch_config \<Rightarrow> 'p option" where
  "getPluginModuleForEvent r config = (case registrationName config of
     Some name \<Rightarrow> if name = '''' then first_module r (phased_names config) else registered_module r name
   | None \<Rightarrow> first_module r (phased_names config))"

section \<open>What publishing does\<close>

definition config_names :: "dispatch_config \<Rightarrow> string list" where
  "config_names c = (case phasedRegistrationNames c of
     Some ps \<Rightarrow> map snd ps
   | None \<Rightarrow> (case registrationName c of Some n \<Rightarrow> [n] | None \<Rightarrow> []))"

definition registration_names :: "(string \<times> dispatch_config) list \<Rightarrow> string list" where
  "registration_names evs = concat (map (config_names \<circ> snd) evs)"

text \<open>The names are new, now belong to the plugin, and the rest of the registry is the same.\<close>

definition publishes :: "'p \<Rightarrow> string set \<Rightarrow> 'p registry \<Rightarrow> 'p registry \<Rightarrow> bool" where
  "publishes p names r r' \<longleftrightarrow>
     EventPluginOrder r' = EventPluginOrder r \<and> namesToPlugins r' = namesToPlugins r \<and> plugins r' = plugins r \<and>
     (\<forall>n \<in> names. registered_module r n = None) \<and>
     (\<forall>n. registered_module r' n = (if n \<in> names then Some p else registered_module r n))"

lemma publishes_none: "publishes p {} r r"
  by (simp add: publishes_def)

lemma publishes_trans: "publishes p A r r1 \<Longrightarrow> publishes p B r1 r2 \<Longrightarrow> publishes p (A \<union> B) r r2"
  unfolding publishes_def by (auto; metis option.distinct(1))

text \<open>When a command ends normally.\<close>

lemma ends_simps:
  "ret a s = Some (Inr b, s') \<longleftrightarrow> b = a \<and> s' = s"
  "throw e s \<noteq> Some (Inr b, s')"
  "modify f s = Some (Inr (), s') \<longleftrightarrow> s' = f s"
  "invariant P msg s = Some (Inr (), s') \<longleftrightarrow> P s \<and> s' = s"
  "bind_cmd c g s = Some (Inr b, s') \<longleftrightarrow> (\<exists>a s1. c s = Some (Inr a, s1) \<and> g a s1 = Some (Inr b, s'))"
  "after c h s = Some (Inr b, s') \<longleftrightarrow> (\<exists>a s1. c s = Some (Inr a, s1) \<and> h s1 = Some (Inr b, s'))"
  by (auto simp: cmd split: option.splits sum.splits)

lemma foreach_Cons_ok:
  assumes "foreach f (x # xs) s = Some (Inr (), s')"
  obtains s1 where "f x s = Some (Inr (), s1)" "foreach f xs s1 = Some (Inr (), s')"
  using assms by (auto simp: ends_simps)

lemma publishRegistrationName_ok:
  assumes "publishRegistrationName name p depends r = Some (Inr (), r')"
  shows "publishes p {name} r r'"
proof -
  have "name \<notin> fst ` set (registrationNameModules r)"
    using assms by (auto simp: publishRegistrationName_def has_member_def ends_simps)
  then show ?thesis using assms
    by (auto simp: publishRegistrationName_def publishes_def registered_module_def map_of_eq_None_iff ends_simps)
qed

lemma publish_names_ok:
  assumes "foreach (\<lambda>(phase, name). publishRegistrationName name p depends) phased r = Some (Inr (), r')"
  shows "publishes p (snd ` set phased) r r'"
  using assms
proof (induction phased arbitrary: r)
  case Nil
  then show ?case by (simp add: cmd publishes_none)
next
  case (Cons x phased)
  obtain r1 where r1: "publishRegistrationName (snd x) p depends r = Some (Inr (), r1)"
    "foreach (\<lambda>(phase, name). publishRegistrationName name p depends) phased r1 = Some (Inr (), r')"
    by (rule foreach_Cons_ok [OF Cons.prems]) (cases x, simp)
  show ?case using publishes_trans [OF publishRegistrationName_ok [OF r1(1)] Cons.IH [OF r1(2)]] by simp
qed

lemma publish_event_ok:
  assumes "publish_event p ev r = Some (Inr (), r')"
  shows "publishes p (set (config_names (snd ev))) r r'"
proof -
  let ?c = "snd ev" and ?d = "dependencies (snd ev)"
  let ?r = "r\<lparr>eventNameDispatchConfigs := js_put (fst ev) ?c (eventNameDispatchConfigs r)\<rparr>"
  have start: "publishes p {} r ?r" by (simp add: publishes_def registered_module_def)
  have "publishes p (set (config_names ?c)) ?r r'"
  proof (cases "phasedRegistrationNames ?c")
    case (Some ps)
    then have "foreach (\<lambda>(phase, name). publishRegistrationName name p ?d) ps ?r = Some (Inr (), r')"
      using assms by (auto simp: publish_event_def publishEventForPlugin_def ends_simps split: if_splits option.splits)
    from publish_names_ok [OF this] show ?thesis by (simp add: config_names_def Some)
  next
    case None
    then obtain n where n: "registrationName ?c = Some n" "publishRegistrationName n p ?d ?r = Some (Inr (), r')"
      using assms by (auto simp: publish_event_def publishEventForPlugin_def ends_simps split: if_splits option.splits)
    from publishRegistrationName_ok [OF n(2)] show ?thesis by (simp add: config_names_def None n(1))
  qed
  from publishes_trans [OF start this] show ?thesis by simp
qed

lemma publish_events_ok:
  assumes "foreach (publish_event p) evs r = Some (Inr (), r')"
  shows "publishes p (set (registration_names evs)) r r'"
  using assms
proof (induction evs arbitrary: r)
  case Nil
  then show ?case by (simp add: cmd publishes_none registration_names_def)
next
  case (Cons ev evs)
  obtain r1 where r1: "publish_event p ev r = Some (Inr (), r1)" "foreach (publish_event p) evs r1 = Some (Inr (), r')"
    by (rule foreach_Cons_ok [OF Cons.prems])
  show ?case using publishes_trans [OF publish_event_ok [OF r1(1)] Cons.IH [OF r1(2)]] by (simp add: registration_names_def)
qed

section \<open>The registry after injections\<close>

datatype 'p injection = InjectOrder "string list" | InjectPlugins "(string \<times> 'p) list"

definition inject :: "('p \<Rightarrow> plugin_module) \<Rightarrow> 'p injection \<Rightarrow> (unit, 'p registry) cmd" where
  "inject module i = (case i of
     InjectOrder order \<Rightarrow> injectEventPluginOrder module order
   | InjectPlugins ps \<Rightarrow> injectEventPluginsByName module ps)"

definition loaded :: "'p registry \<Rightarrow> 'p set" where
  "loaded r = {p. \<exists>i. js_get (plugins r) i = Some p}"

definition slots_ok :: "string list \<Rightarrow> 'p registry \<Rightarrow> bool" where
  "slots_ok order r \<longleftrightarrow> (\<forall>i p. js_get (plugins r) i = Some p \<longrightarrow>
     (\<exists>n. index_of_name order n = Some i \<and> (n, p) \<in> set (namesToPlugins r)))"

definition modules_ok :: "('p \<Rightarrow> plugin_module) \<Rightarrow> 'p registry \<Rightarrow> bool" where
  "modules_ok module r \<longleftrightarrow> (\<forall>name p. registered_module r name = Some p \<longleftrightarrow>
     p \<in> loaded r \<and> name \<in> set (registration_names (eventTypes (module p))))"

definition registry_ok :: "('p \<Rightarrow> plugin_module) \<Rightarrow> 'p registry \<Rightarrow> bool" where
  "registry_ok module r \<longleftrightarrow> distinct (map fst (namesToPlugins r)) \<and> modules_ok module r \<and>
     (case EventPluginOrder r of None \<Rightarrow> plugins r = [] | Some order \<Rightarrow> slots_ok order r)"

text \<open>Every plugin has its place.\<close>

definition has_place :: "string list \<Rightarrow> 'p registry \<Rightarrow> string \<times> 'p \<Rightarrow> bool" where
  "has_place order r np \<longleftrightarrow> (\<exists>i. index_of_name order (fst np) = Some i \<and> js_get (plugins r) i = Some (snd np))"

definition settled_registry :: "'p registry \<Rightarrow> bool" where
  "settled_registry r \<longleftrightarrow>
     (\<forall>order. EventPluginOrder r = Some order \<longrightarrow> (\<forall>np \<in> set (namesToPlugins r). has_place order r np))"

lemma slots_ok_mono:
  "slots_ok order r \<Longrightarrow> plugins r' = plugins r \<Longrightarrow> set (namesToPlugins r) \<subseteq> set (namesToPlugins r') \<Longrightarrow> slots_ok order r'"
  unfolding slots_ok_def by (metis subsetD)

lemma js_get_set: "js_get (js_set xs i v) j = (if j = i then v else js_get xs j)"
  by (auto simp: js_get_def js_set_def nth_append)

lemma index_of_name_Some: "index_of_name xs x = Some i \<Longrightarrow> i < length xs \<and> xs ! i = x"
  by (induction xs arbitrary: i) (auto split: if_splits)

lemma index_of_name_nth: "distinct xs \<Longrightarrow> i < length xs \<Longrightarrow> index_of_name xs (xs ! i) = Some i"
proof (induction xs arbitrary: i)
  case (Cons x xs)
  then show ?case by (cases i) auto
qed simp

lemma recompute_plugin_ok:
  assumes "recompute_plugin module order np r = Some (Inr (), r')" "registry_ok module r"
    "EventPluginOrder r = Some order" "np \<in> set (namesToPlugins r)"
  shows "registry_ok module r' \<and> EventPluginOrder r' = Some order \<and> namesToPlugins r' = namesToPlugins r \<and>
    has_place order r' np \<and> (\<forall>q. has_place order r q \<longrightarrow> has_place order r' q)"
proof -
  obtain n p where np: "np = (n, p)" by (cases np)
  obtain i where i: "index_of_name order n = Some i"
    using assms(1) by (auto simp: recompute_plugin_def np ends_simps split: option.splits)
  note ok = assms(2) [unfolded registry_ok_def assms(3) option.case]
  show ?thesis
  proof (cases "js_get (plugins r) i")
    case (Some q)
    then obtain m where "index_of_name order m = Some i" "(m, q) \<in> set (namesToPlugins r)"
      using ok by (auto simp: slots_ok_def)
    moreover from this i have "m = n" using index_of_name_Some by metis
    ultimately have "q = p" using ok assms(4) by (auto simp: np dest: eq_key_imp_eq_value)
    moreover have "r' = r" using assms(1) Some by (auto simp: recompute_plugin_def np i ends_simps)
    ultimately show ?thesis using assms Some by (auto simp: has_place_def np i)
  next
    case None
    let ?r = "r\<lparr>plugins := js_set (plugins r) i (Some p)\<rparr>"
    let ?names = "set (registration_names (eventTypes (module p)))"
    have "foreach (publish_event p) (eventTypes (module p)) ?r = Some (Inr (), r')"
      using assms(1) None by (auto simp: recompute_plugin_def np i ends_simps split: if_splits)
    from publish_events_ok [OF this] have pub: "publishes p ?names ?r r'" .
    have reg: "registered_module ?r = registered_module r" by (simp add: registered_module_def fun_eq_iff)
    have get: "js_get (plugins r') j = (if j = i then Some p else js_get (plugins r) j)" for j
      using pub by (simp add: publishes_def js_get_set)
    then have "loaded r' = insert p (loaded r)" using None unfolding loaded_def by auto (metis option.distinct(1))
    then have mods: "modules_ok module r'"
      using ok pub unfolding modules_ok_def publishes_def reg by (metis insert_iff option.distinct(1) option.inject)
    have frame: "EventPluginOrder r' = Some order" "namesToPlugins r' = namesToPlugins r"
      using pub assms(3) by (simp_all add: publishes_def)
    have "slots_ok order r'"
      using ok assms(4) i unfolding slots_ok_def get frame by (auto simp: np)
    then show ?thesis
      using ok mods i None by (auto simp: registry_ok_def has_place_def get np frame)
  qed
qed

lemma recompute_plugins_ok:
  assumes "foreach (recompute_plugin module order) nps r = Some (Inr (), r')" "registry_ok module r"
    "EventPluginOrder r = Some order" "set nps \<subseteq> set (namesToPlugins r)"
  shows "registry_ok module r' \<and> EventPluginOrder r' = Some order \<and> namesToPlugins r' = namesToPlugins r \<and>
    (\<forall>np \<in> set nps. has_place order r' np) \<and> (\<forall>q. has_place order r q \<longrightarrow> has_place order r' q)"
  using assms
proof (induction nps arbitrary: r)
  case Nil
  then show ?case by (simp add: ends_simps)
next
  case (Cons np nps)
  obtain r1 where r1: "recompute_plugin module order np r = Some (Inr (), r1)"
    "foreach (recompute_plugin module order) nps r1 = Some (Inr (), r')"
    by (rule foreach_Cons_ok [OF Cons.prems(1)])
  have step: "registry_ok module r1 \<and> EventPluginOrder r1 = Some order \<and> namesToPlugins r1 = namesToPlugins r \<and>
    has_place order r1 np \<and> (\<forall>q. has_place order r q \<longrightarrow> has_place order r1 q)"
    using Cons.prems by (intro recompute_plugin_ok [OF r1(1)]) auto
  then show ?case using Cons.IH [OF r1(2)] Cons.prems(4) by (simp del: split_paired_All)
qed

lemma recompute_ok:
  assumes "recomputePluginOrdering module r = Some (Inr (), r')" "registry_ok module r"
  shows "registry_ok module r' \<and> settled_registry r' \<and> EventPluginOrder r' = EventPluginOrder r \<and>
    namesToPlugins r' = namesToPlugins r"
proof (cases "EventPluginOrder r")
  case None
  then show ?thesis using assms by (auto simp: recomputePluginOrdering_def ends_simps settled_registry_def)
next
  case (Some order)
  then have "foreach (recompute_plugin module order) (namesToPlugins r) r = Some (Inr (), r')"
    using assms(1) by (simp add: recomputePluginOrdering_def)
  from recompute_plugins_ok [OF this assms(2) Some] show ?thesis
    by (auto simp: settled_registry_def Some)
qed

lemma enter_plugins_ok:
  assumes "enter_plugins nps dirty r = Some (Inr dirty', r')" "registry_ok module r" "dirty \<or> settled_registry r"
  shows "registry_ok module r' \<and> EventPluginOrder r' = EventPluginOrder r \<and>
    set (namesToPlugins r') = set (namesToPlugins r) \<union> set nps \<and> (dirty' \<or> settled_registry r')"
  using assms
proof (induction nps arbitrary: r dirty)
  case Nil
  then show ?case by (auto simp: ends_simps)
next
  case (Cons np nps)
  obtain n p where np: "np = (n, p)" by (cases np)
  show ?case
  proof (cases "map_of (namesToPlugins r) n = Some p")
    case True
    then have "enter_plugins nps dirty r = Some (Inr dirty', r')" using Cons.prems(1) by (simp add: np)
    from Cons.IH [OF this Cons.prems(2,3)] show ?thesis using map_of_SomeD [OF True] by (auto simp: np)
  next
    case False
    let ?r = "r\<lparr>namesToPlugins := js_put n p (namesToPlugins r)\<rparr>"
    have new: "n \<notin> fst ` set (namesToPlugins r)" and rest: "enter_plugins nps True ?r = Some (Inr dirty', r')"
      using Cons.prems(1) False by (auto simp: np ends_simps has_member_def)
    have put: "namesToPlugins ?r = namesToPlugins r @ [(n, p)]"
      using new by (simp add: js_put_new map_of_eq_None_iff)
    have reg: "registered_module ?r = registered_module r" "loaded ?r = loaded r"
      by (simp_all add: registered_module_def fun_eq_iff loaded_def)
    have "registry_ok module ?r"
      using Cons.prems(2) new slots_ok_mono [of _ r ?r] unfolding registry_ok_def put modules_ok_def reg
      by (auto split: option.splits)
    from Cons.IH [OF rest this] show ?thesis unfolding put by (auto simp: np)
  qed
qed

lemma inject_ok:
  assumes "inject module i r = Some (Inr (), r')" "registry_ok module r" "settled_registry r"
  shows "registry_ok module r' \<and> settled_registry r' \<and>
    set (namesToPlugins r') = set (namesToPlugins r) \<union> (case i of InjectPlugins ps \<Rightarrow> set ps | _ \<Rightarrow> {})"
proof (cases i)
  case (InjectOrder order)
  let ?r = "r\<lparr>EventPluginOrder := Some order\<rparr>"
  have none: "EventPluginOrder r = None" and run: "recomputePluginOrdering module ?r = Some (Inr (), r')"
    using assms(1) by (auto simp: inject_def InjectOrder injectEventPluginOrder_def ends_simps)
  have reg: "registered_module ?r = registered_module r" "loaded ?r = loaded r"
    by (simp_all add: registered_module_def fun_eq_iff loaded_def)
  have "registry_ok module ?r"
    using assms(2) none unfolding registry_ok_def modules_ok_def reg by (simp add: slots_ok_def js_get_def)
  from recompute_ok [OF run this] show ?thesis by (simp add: InjectOrder)
next
  case (InjectPlugins ps)
  then obtain dirty r1 where r1: "enter_plugins ps False r = Some (Inr dirty, r1)"
    "(if dirty then recomputePluginOrdering module else ret ()) r1 = Some (Inr (), r')"
    using assms(1) by (auto simp: inject_def injectEventPluginsByName_def ends_simps)
  from enter_plugins_ok [OF r1(1) assms(2)] assms(3)
  have ok: "registry_ok module r1" "set (namesToPlugins r1) = set (namesToPlugins r) \<union> set ps" "dirty \<or> settled_registry r1"
    by auto
  show ?thesis
  proof (cases dirty)
    case True
    then have "recomputePluginOrdering module r1 = Some (Inr (), r')" using r1(2) by simp
    from recompute_ok [OF this ok(1)] show ?thesis using ok(2) by (simp add: InjectPlugins)
  next
    case False
    then show ?thesis using r1(2) ok by (simp add: ends_simps InjectPlugins)
  qed
qed

lemma injections_ok:
  assumes "foreach (inject module) steps r = Some (Inr (), r')" "registry_ok module r" "settled_registry r"
  shows "registry_ok module r' \<and> settled_registry r' \<and>
    set (namesToPlugins r') = set (namesToPlugins r) \<union> \<Union> {set ps |ps. InjectPlugins ps \<in> set steps}"
  using assms
proof (induction steps arbitrary: r)
  case Nil
  then show ?case by (simp add: ends_simps)
next
  case (Cons i steps)
  obtain r1 where r1: "inject module i r = Some (Inr (), r1)" "foreach (inject module) steps r1 = Some (Inr (), r')"
    by (rule foreach_Cons_ok [OF Cons.prems(1)])
  have "\<Union> {set ps |ps. InjectPlugins ps \<in> set (i # steps)} =
      (case i of InjectPlugins ps \<Rightarrow> set ps | _ \<Rightarrow> {}) \<union> \<Union> {set ps |ps. InjectPlugins ps \<in> set steps}"
    by (cases i) auto
  then show ?case using inject_ok [OF r1(1) Cons.prems(2,3)] Cons.IH [OF r1(2)] by (simp add: Un_assoc)
qed

lemma empty_registry_ok: "registry_ok module empty_registry" "settled_registry empty_registry"
  by (simp_all add: registry_ok_def settled_registry_def modules_ok_def empty_registry_def registered_module_def
      loaded_def js_get_def)

text \<open>
  C37. The order of plugins. Whatever injections of plugins and of the ordering were made, in whatever order, if none
  has thrown: the list of plugins has at each place of the ordering the plugin injected under that name, if any, so
  the plugins are asked for events in the injected order and not in the order of loading; and a registration name
  leads to exactly the injected plugin that publishes it.
\<close>
theorem plugins_follow_order:
  assumes "foreach (inject module) steps empty_registry = Some (Inr (), r)" "EventPluginOrder r = Some order" "distinct order"
  shows "\<exists>injected. (\<forall>n p. injected n = Some p \<longleftrightarrow> (\<exists>ps. InjectPlugins ps \<in> set steps \<and> (n, p) \<in> set ps)) \<and>
    dom injected \<subseteq> set order \<and>
    (\<forall>i. js_get (plugins r) i = (if i < length order then injected (order ! i) else None)) \<and>
    (\<forall>name p. registered_module r name = Some p \<longleftrightarrow>
       p \<in> ran injected \<and> name \<in> set (registration_names (eventTypes (module p))))"
proof (intro exI conjI)
  let ?inj = "map_of (namesToPlugins r)"
  have ok: "registry_ok module r" "settled_registry r"
    "set (namesToPlugins r) = \<Union> {set ps |ps. InjectPlugins ps \<in> set steps}"
    using injections_ok [OF assms(1) empty_registry_ok] by (simp_all add: empty_registry_def)
  have d: "distinct (map fst (namesToPlugins r))" and slots: "slots_ok order r" and mods: "modules_ok module r"
    using ok(1) assms(2) by (simp_all add: registry_ok_def)
  have place: "has_place order r (n, p)" if "?inj n = Some p" for n p
    using ok(2) assms(2) map_of_SomeD [OF that] by (auto simp: settled_registry_def)
  have slot_of: "i < length order \<and> ?inj (order ! i) = Some p" if g: "js_get (plugins r) i = Some p" for i p
  proof -
    obtain n where n: "index_of_name order n = Some i" "(n, p) \<in> set (namesToPlugins r)"
      using slots g by (auto simp: slots_ok_def)
    show ?thesis using index_of_name_Some [OF n(1)] n(2) d by simp
  qed
  have filled: "js_get (plugins r) i = Some p" if i: "i < length order" "?inj (order ! i) = Some p" for i p
    using place [OF i(2)] index_of_name_nth [OF assms(3) i(1)] by (simp add: has_place_def)
  show "\<forall>n p. ?inj n = Some p \<longleftrightarrow> (\<exists>ps. InjectPlugins ps \<in> set steps \<and> (n, p) \<in> set ps)"
    using d ok(3) by (auto simp: map_of_eq_Some_iff)
  show "dom ?inj \<subseteq> set order"
    using place index_of_name_Some nth_mem unfolding has_place_def by fastforce
  show "\<forall>i. js_get (plugins r) i = (if i < length order then ?inj (order ! i) else None)"
    using slot_of filled by (metis not_None_eq)
  have "p \<in> loaded r \<longleftrightarrow> p \<in> ran ?inj" for p
  proof
    assume "p \<in> ran ?inj"
    then obtain n where "?inj n = Some p" by (auto simp: ran_def)
    from place [OF this] show "p \<in> loaded r" by (auto simp: has_place_def loaded_def)
  qed (auto simp: loaded_def ran_def dest: slot_of)
  then show "\<forall>name p. registered_module r name = Some p \<longleftrightarrow>
       p \<in> ran ?inj \<and> name \<in> set (registration_names (eventTypes (module p)))"
    using mods by (simp add: modules_ok_def)
qed

text \<open>Two plugins, loaded before and after the ordering and against it; the place between them stays empty.\<close>

definition demo_module :: "nat \<Rightarrow> plugin_module" where
  "demo_module p = \<lparr>implements_extractEvents = True,
     eventTypes = (if p = 1 then [(''click'', \<lparr>registrationName = None,
         phasedRegistrationNames = Some [(''bubbled'', ''onClick''), (''captured'', ''onClickCapture'')],
         dependencies = Some [''topClick'']\<rparr>)]
       else [(''mouseEnter'', \<lparr>registrationName = Some ''onMouseEnter'', phasedRegistrationNames = None,
         dependencies = Some [''topMouseOut'', ''topMouseOver'']\<rparr>)])\<rparr>"

definition demo_injections :: "nat injection list" where
  "demo_injections = [InjectPlugins [(''EnterLeaveEventPlugin'', 2)],
     InjectOrder [''SimpleEventPlugin'', ''TapEventPlugin'', ''EnterLeaveEventPlugin''],
     InjectPlugins [(''SimpleEventPlugin'', 1), (''EnterLeaveEventPlugin'', 2)]]"

definition demo_registry :: "nat registry" where
  "demo_registry = \<lparr>EventPluginOrder = Some [''SimpleEventPlugin'', ''TapEventPlugin'', ''EnterLeaveEventPlugin''],
     namesToPlugins = [(''EnterLeaveEventPlugin'', 2), (''SimpleEventPlugin'', 1)],
     plugins = [Some 1, None, Some 2],
     eventNameDispatchConfigs = eventTypes (demo_module 2) @ eventTypes (demo_module 1),
     registrationNameModules = [(''onMouseEnter'', 2), (''onClick'', 1), (''onClickCapture'', 1)],
     registrationNameDependencies = [(''onMouseEnter'', Some [''topMouseOut'', ''topMouseOver'']),
       (''onClick'', Some [''topClick'']), (''onClickCapture'', Some [''topClick''])]\<rparr>"

lemma demo_injected: "foreach (inject demo_module) demo_injections empty_registry = Some (Inr (), demo_registry)"
  by code_simp

lemma demo_ordered: "EventPluginOrder demo_registry = Some [''SimpleEventPlugin'', ''TapEventPlugin'', ''EnterLeaveEventPlugin'']"
  by (simp add: demo_registry_def)

theorem plugins_follow_order_witness:
  "\<exists>injected. injected ''SimpleEventPlugin'' = Some 1 \<and> js_get (plugins demo_registry) 0 = injected ''SimpleEventPlugin'' \<and>
     js_get (plugins demo_registry) 2 = injected ''EnterLeaveEventPlugin''"
proof -
  have ordered: "distinct [''SimpleEventPlugin'', ''TapEventPlugin'', ''EnterLeaveEventPlugin'']" by simp
  obtain injected where inj:
    "\<forall>n p. injected n = Some p \<longleftrightarrow> (\<exists>ps. InjectPlugins ps \<in> set demo_injections \<and> (n, p) \<in> set ps)"
    "\<forall>i. js_get (plugins demo_registry) i = (if i < 3 then injected ([''SimpleEventPlugin'', ''TapEventPlugin'',
       ''EnterLeaveEventPlugin''] ! i) else None)"
    using plugins_follow_order [OF demo_injected demo_ordered ordered] by auto
  have "injected ''SimpleEventPlugin'' = Some 1" using inj(1) by (auto simp: demo_injections_def)
  then show ?thesis using inj(2) by (intro exI [of _ injected]) simp
qed

end
