(* ===== verification/ReactEvents.thy ===== *)
theory ReactEvents
  imports ReactEventPlugins ReactInstanceHandles
begin

text \<open>
  Events in \<open>webfiles/react.js\<close>: the store of listeners and the event queue (\<open>EventPluginHub\<close>), the collection of an
  event's listeners along the ids of the nodes (\<open>EventPropagators\<close>, over the traversals of ReactInstanceHandles),
  their execution (\<open>EventPluginUtils\<close>), pooled events (\<open>SyntheticEvent\<close>), and two of the plugins that make events of
  native ones (\<open>SimpleEventPlugin\<close>, \<open>EnterLeaveEventPlugin\<close>).

  An event is the class that made it and its address. What a listener does is a parameter \<open>call\<close>: a command on the
  whole state, so a listener may put and delete listeners, stop the propagation, persist the event or throw. Nodes of
  the document are values \<open>'n\<close>; a current target is represented by the id of its node. Of the members of an event,
  those that are copied from the native event are left out.
\<close>

section \<open>Accumulations\<close>

text \<open>Nothing (null or undefined), a single item, or an array of items. Items are no arrays.\<close>

datatype 'a accumulated = Nothing | One 'a | Many "'a list"

primrec items :: "'a accumulated \<Rightarrow> 'a list" where
  "items Nothing = []"
| "items (One x) = [x]"
| "items (Many xs) = xs"

definition accumulateInto :: "'a accumulated \<Rightarrow> 'a accumulated \<Rightarrow> exn + 'a accumulated" where
  "accumulateInto current new = (case new of
     Nothing \<Rightarrow> Inl ''Accumulated items must not be null or undefined''
   | One y \<Rightarrow> Inr (case current of Nothing \<Rightarrow> new | Many xs \<Rightarrow> Many (xs @ [y]) | One x \<Rightarrow> Many [x, y])
   | Many ys \<Rightarrow> Inr (case current of Nothing \<Rightarrow> new | Many xs \<Rightarrow> Many (xs @ ys) | One x \<Rightarrow> Many ([x] @ ys)))"

definition forEachAccumulated :: "'a accumulated \<Rightarrow> ('a \<Rightarrow> (unit, 's) cmd) \<Rightarrow> (unit, 's) cmd" where
  "forEachAccumulated arr cb = (case arr of Many xs \<Rightarrow> foreach cb xs | One x \<Rightarrow> cb x | Nothing \<Rightarrow> ret ())"

section \<open>Native events and pooled events\<close>

record 'n native_event =
  button :: int
  keyCode :: "int option"
  charCode :: "int option"
  relatedTarget :: "'n option"
  fromElement :: "'n option"
  toElement :: "'n option"
  native_defaultPrevented :: "bool option"
  returnValue :: "bool option"

text \<open>The comparisons with \<open>undefined\<close> are false.\<close>

definition getEventCharCode :: "'n native_event \<Rightarrow> int" where
  "getEventCharCode native =
     (let code = (case charCode native of
          Some c \<Rightarrow> Some (if c = 0 \<and> keyCode native = Some 13 then 13 else c)
        | None \<Rightarrow> keyCode native)
      in case code of Some c \<Rightarrow> if c \<ge> 32 \<or> c = 13 then c else 0 | None \<Rightarrow> 0)"

datatype event_class = PlainEvent | KeyboardEvent | FocusEvent | MouseEvent | DragEvent | TouchEvent | UIEvent
  | WheelEvent | ClipboardEvent | OtherEvent nat

type_synonym event = "event_class \<times> nat"

record ('l, 'n) synthetic_event =
  dispatchConfig :: "dispatch_config option"
  dispatchMarker :: "string option"
  nativeEvent :: "'n native_event option"
  dispatchListeners :: "'l accumulated"
  dispatchIDs :: "string accumulated"
  isDefaultPrevented :: bool
  isPropagationStopped :: bool
  isPersistent :: bool
  defaultPrevented :: bool
  currentTarget :: "string option"

text \<open>The listener stored for an id may be null.\<close>

record ('p, 'l, 'n) hub =
  registry :: "'p registry"
  listenerBank :: "string \<rightharpoonup> (string \<rightharpoonup> 'l option)"
  eventQueue :: "event accumulated"
  events :: "event \<Rightarrow> ('l, 'n) synthetic_event"
  pools :: "event_class \<Rightarrow> pool"

definition blank_event :: "('l, 'n) synthetic_event" where
  "blank_event = \<lparr>dispatchConfig = None, dispatchMarker = None, nativeEvent = None, dispatchListeners = Nothing,
     dispatchIDs = Nothing, isDefaultPrevented = False, isPropagationStopped = False, isPersistent = False,
     defaultPrevented = False, currentTarget = None\<rparr>"

definition update_event ::
    "event \<Rightarrow> (('l, 'n) synthetic_event \<Rightarrow> ('l, 'n) synthetic_event) \<Rightarrow> ('p, 'l, 'n, 'z) hub_scheme \<Rightarrow> ('p, 'l, 'n, 'z) hub_scheme" where
  "update_event e f s = s\<lparr>events := (events s)(e := f (events s e))\<rparr>"

text \<open>The constructor, on a new object or on a released one.\<close>

definition construct ::
    "dispatch_config \<Rightarrow> string option \<Rightarrow> 'n native_event \<Rightarrow> ('l, 'n) synthetic_event \<Rightarrow> ('l, 'n) synthetic_event" where
  "construct config marker native ev =
     (let prevented = (case native_defaultPrevented native of Some b \<Rightarrow> b | None \<Rightarrow> returnValue native = Some False)
      in ev\<lparr>dispatchConfig := Some config, dispatchMarker := marker, nativeEvent := Some native,
           currentTarget := None, defaultPrevented := (native_defaultPrevented native = Some True),
           isDefaultPrevented := prevented, isPropagationStopped := False\<rparr>)"

definition getPooledEvent ::
    "event_class \<Rightarrow> dispatch_config \<Rightarrow> string option \<Rightarrow> 'n native_event \<Rightarrow> (event, ('p, 'l, 'n, 'z) hub_scheme) cmd" where
  "getPooledEvent C config marker native s =
     (let (obj, pool') = getPooled (pools s C);
          old = (if instancePool (pools s C) = [] then blank_event else events s (C, obj))
      in ret (C, obj) (s\<lparr>pools := (pools s)(C := pool'),
           events := (events s)((C, obj) := construct config marker native old)\<rparr>))"

definition destructor :: "('l, 'n) synthetic_event \<Rightarrow> ('l, 'n) synthetic_event" where
  "destructor ev = ev\<lparr>dispatchConfig := None, dispatchMarker := None, nativeEvent := None, currentTarget := None,
     defaultPrevented := False\<rparr>"

definition releaseEvent :: "event \<Rightarrow> (unit, ('p, 'l, 'n, 'z) hub_scheme) cmd" where
  "releaseEvent e = modify (\<lambda>s. (update_event e destructor s)\<lparr>pools := (pools s)(fst e := release (snd e) (pools s (fst e)))\<rparr>)"

definition type_error :: exn where
  "type_error = ''TypeError''"

text \<open>The native event of a released event is null. The calls of the native event's methods are left out.\<close>

definition preventDefault :: "event \<Rightarrow> (unit, ('p, 'l, 'n, 'z) hub_scheme) cmd" where
  "preventDefault e =
     after (modify (update_event e (\<lambda>ev. ev\<lparr>defaultPrevented := True\<rparr>)))
       (\<lambda>s. if nativeEvent (events s e) = None then throw type_error s
            else modify (update_event e (\<lambda>ev. ev\<lparr>isDefaultPrevented := True\<rparr>)) s)"

definition stopPropagation :: "event \<Rightarrow> (unit, ('p, 'l, 'n, 'z) hub_scheme) cmd" where
  "stopPropagation e = (\<lambda>s. if nativeEvent (events s e) = None then throw type_error s
     else modify (update_event e (\<lambda>ev. ev\<lparr>isPropagationStopped := True\<rparr>)) s)"

definition persist :: "event \<Rightarrow> (unit, ('p, 'l, 'n, 'z) hub_scheme) cmd" where
  "persist e = modify (update_event e (\<lambda>ev. ev\<lparr>isPersistent := True\<rparr>))"

section \<open>The listeners\<close>

datatype 'l listener_value = Listener 'l | NoListener | NotAFunction

definition putListener :: "string \<Rightarrow> string \<Rightarrow> 'l listener_value \<Rightarrow> (unit, ('p, 'l, 'n, 'z) hub_scheme) cmd" where
  "putListener ident name v = (\<lambda>s. case v of
     NotAFunction \<Rightarrow> throw ''Expected listener to be a function'' s
   | _ \<Rightarrow> modify (\<lambda>s. s\<lparr>listenerBank := (listenerBank s)(name \<mapsto>
            (case listenerBank s name of Some bank \<Rightarrow> bank | None \<Rightarrow> Map.empty)
              (ident \<mapsto> (case v of Listener l \<Rightarrow> Some l | _ \<Rightarrow> None)))\<rparr>) s)"

definition getListener :: "('p, 'l, 'n, 'z) hub_scheme \<Rightarrow> string \<Rightarrow> string \<Rightarrow> 'l option" where
  "getListener s ident name = (case listenerBank s name of
     Some bank \<Rightarrow> (case bank ident of Some l \<Rightarrow> l | None \<Rightarrow> None)
   | None \<Rightarrow> None)"

definition deleteListener :: "string \<Rightarrow> string \<Rightarrow> (unit, ('p, 'l, 'n, 'z) hub_scheme) cmd" where
  "deleteListener ident name = modify (\<lambda>s. case listenerBank s name of
     Some bank \<Rightarrow> s\<lparr>listenerBank := (listenerBank s)(name \<mapsto> bank(ident := None))\<rparr>
   | None \<Rightarrow> s)"

definition deleteAllListeners :: "string \<Rightarrow> (unit, ('p, 'l, 'n, 'z) hub_scheme) cmd" where
  "deleteAllListeners ident =
     modify (\<lambda>s. s\<lparr>listenerBank := (\<lambda>name. map_option (\<lambda>bank. bank(ident := None)) (listenerBank s name))\<rparr>)"

section \<open>Executing the dispatches of an event\<close>

datatype returned = Boolean bool | OtherValue bool

text \<open>The truth of a returned value.\<close>

primrec truthy_value :: "returned \<Rightarrow> bool" where
  "truthy_value (Boolean b) = b"
| "truthy_value (OtherValue b) = b"

type_synonym ('p, 'l, 'n, 'z) listener_call =
  "'l \<Rightarrow> event \<Rightarrow> string \<Rightarrow> (returned, ('p, 'l, 'n, 'z) hub_scheme) cmd"

fun is_array :: "'a accumulated \<Rightarrow> bool" where
  "is_array (Many xs) = True"
| "is_array x = False"

text \<open>The empty string is no id.\<close>

definition IDsLen :: "string accumulated \<Rightarrow> nat" where
  "IDsLen ids = (if ids = One '''' then 0 else length (items ids))"

definition valid_dispatches :: "('l, 'n) synthetic_event \<Rightarrow> bool" where
  "valid_dispatches ev \<longleftrightarrow> is_array (dispatchIDs ev) = is_array (dispatchListeners ev) \<and>
     IDsLen (dispatchIDs ev) = length (items (dispatchListeners ev))"

definition validateEventDispatches :: "event \<Rightarrow> (unit, ('p, 'l, 'n, 'z) hub_scheme) cmd" where
  "validateEventDispatches e = invariant (\<lambda>s. valid_dispatches (events s e)) ''Invalid event''"

text \<open>
  The loop over the two parallel arrays, which have the same length. The callback works on what the fields of the
  event held when the loop began.
\<close>

primrec dispatch_loop ::
    "(event \<Rightarrow> 'l \<Rightarrow> string \<Rightarrow> (unit, ('p, 'l, 'n, 'z) hub_scheme) cmd) \<Rightarrow> event \<Rightarrow> ('l \<times> string) list
     \<Rightarrow> (unit, ('p, 'l, 'n, 'z) hub_scheme) cmd" where
  "dispatch_loop cb e [] = ret ()"
| "dispatch_loop cb e (d # ds) = (\<lambda>s. if isPropagationStopped (events s e) then ret () s
     else after (cb e (fst d) (snd d)) (dispatch_loop cb e ds) s)"

definition forEachEventDispatch ::
    "event \<Rightarrow> (event \<Rightarrow> 'l \<Rightarrow> string \<Rightarrow> (unit, ('p, 'l, 'n, 'z) hub_scheme) cmd) \<Rightarrow> (unit, ('p, 'l, 'n, 'z) hub_scheme) cmd" where
  "forEachEventDispatch e cb = (\<lambda>s. after (validateEventDispatches e)
     (case (dispatchListeners (events s e), dispatchIDs (events s e)) of
        (Many ls, ids) \<Rightarrow> dispatch_loop cb e (zip ls (items ids))
      | (One l, One i) \<Rightarrow> cb e l i
      | _ \<Rightarrow> ret ()) s)"

definition executeDispatch ::
    "('p, 'l, 'n, 'z) listener_call \<Rightarrow> event \<Rightarrow> 'l \<Rightarrow> string \<Rightarrow> (returned, ('p, 'l, 'n, 'z) hub_scheme) cmd" where
  "executeDispatch call e listener domID =
     after (modify (update_event e (\<lambda>ev. ev\<lparr>currentTarget := Some domID\<rparr>)))
       (bind_cmd (call listener e domID)
         (\<lambda>v. after (modify (update_event e (\<lambda>ev. ev\<lparr>currentTarget := None\<rparr>))) (ret v)))"

definition clear_dispatches :: "event \<Rightarrow> ('p, 'l, 'n, 'z) hub_scheme \<Rightarrow> ('p, 'l, 'n, 'z) hub_scheme" where
  "clear_dispatches e = update_event e (\<lambda>ev. ev\<lparr>dispatchListeners := Nothing, dispatchIDs := Nothing\<rparr>)"

definition executeDispatchesInOrder ::
    "event \<Rightarrow> (event \<Rightarrow> 'l \<Rightarrow> string \<Rightarrow> (unit, ('p, 'l, 'n, 'z) hub_scheme) cmd) \<Rightarrow> (unit, ('p, 'l, 'n, 'z) hub_scheme) cmd" where
  "executeDispatchesInOrder e cb = after (forEachEventDispatch e cb) (modify (clear_dispatches e))"

text \<open>The first id whose listener returns a true value.\<close>

primrec stop_loop ::
    "('p, 'l, 'n, 'z) listener_call \<Rightarrow> event \<Rightarrow> ('l \<times> string) list \<Rightarrow> (string option, ('p, 'l, 'n, 'z) hub_scheme) cmd" where
  "stop_loop call e [] = ret None"
| "stop_loop call e (d # ds) = (\<lambda>s. if isPropagationStopped (events s e) then ret None s
     else bind_cmd (call (fst d) e (snd d)) (\<lambda>v. if truthy_value v then ret (Some (snd d)) else stop_loop call e ds) s)"

definition executeDispatchesInOrderStopAtTrueImpl ::
    "('p, 'l, 'n, 'z) listener_call \<Rightarrow> event \<Rightarrow> (string option, ('p, 'l, 'n, 'z) hub_scheme) cmd" where
  "executeDispatchesInOrderStopAtTrueImpl call e = (\<lambda>s. after (validateEventDispatches e)
     (case (dispatchListeners (events s e), dispatchIDs (events s e)) of
        (Many ls, ids) \<Rightarrow> stop_loop call e (zip ls (items ids))
      | (One l, One i) \<Rightarrow> bind_cmd (call l e i) (\<lambda>v. ret (if truthy_value v then Some i else None))
      | _ \<Rightarrow> ret None) s)"

definition executeDispatchesInOrderStopAtTrue ::
    "('p, 'l, 'n, 'z) listener_call \<Rightarrow> event \<Rightarrow> (string option, ('p, 'l, 'n, 'z) hub_scheme) cmd" where
  "executeDispatchesInOrderStopAtTrue call e =
     bind_cmd (executeDispatchesInOrderStopAtTrueImpl call e) (\<lambda>r. after (modify (clear_dispatches e)) (ret r))"

text \<open>\<open>None\<close> is the value null when there is no listener.\<close>

definition executeDirectDispatch ::
    "('p, 'l, 'n, 'z) listener_call \<Rightarrow> event \<Rightarrow> (returned option, ('p, 'l, 'n, 'z) hub_scheme) cmd" where
  "executeDirectDispatch call e = (\<lambda>s. after (validateEventDispatches e)
     (after (invariant (\<lambda>s. \<not> is_array (dispatchListeners (events s e))) ''Invalid event'')
       (bind_cmd (case (dispatchListeners (events s e), dispatchIDs (events s e)) of
            (One l, One i) \<Rightarrow> bind_cmd (call l e i) (\<lambda>v. ret (Some v))
          | _ \<Rightarrow> ret None)
         (\<lambda>r. after (modify (clear_dispatches e)) (ret r)))) s)"

definition hasDispatches :: "('l, 'n) synthetic_event \<Rightarrow> bool" where
  "hasDispatches ev \<longleftrightarrow> dispatchListeners ev \<noteq> Nothing"

section \<open>The queue of events\<close>

text \<open>
  What a plugin does: it makes events of a native one, and may execute their dispatches in its own way. The
  arrays that plugins return are new.
\<close>

record ('l, 'n, 's) plugin_functions =
  extractEventsOf :: "string \<Rightarrow> 'n \<Rightarrow> string \<Rightarrow> 'n native_event \<Rightarrow> (event accumulated, 's) cmd"
  executeDispatchOf :: "(event \<Rightarrow> 'l \<Rightarrow> string \<Rightarrow> (unit, 's) cmd) option"

definition dispatcher ::
    "('p \<Rightarrow> ('l, 'n, ('p, 'l, 'n, 'z) hub_scheme) plugin_functions) \<Rightarrow> ('p, 'l, 'n, 'z) listener_call
     \<Rightarrow> 'p registry \<Rightarrow> dispatch_config \<Rightarrow> event \<Rightarrow> 'l \<Rightarrow> string \<Rightarrow> (unit, ('p, 'l, 'n, 'z) hub_scheme) cmd" where
  "dispatcher funs call r config =
     (case getPluginModuleForEvent r config of
        Some p \<Rightarrow> (case executeDispatchOf (funs p) of
            Some f \<Rightarrow> f
          | None \<Rightarrow> (\<lambda>e l i. after (executeDispatch call e l i) (ret ())))
      | None \<Rightarrow> (\<lambda>e l i. after (executeDispatch call e l i) (ret ())))"

definition release_unless_persistent :: "event \<Rightarrow> (unit, ('p, 'l, 'n, 'z) hub_scheme) cmd" where
  "release_unless_persistent e = (\<lambda>s. if isPersistent (events s e) then ret () s else releaseEvent e s)"

definition executeDispatchesAndRelease ::
    "('p \<Rightarrow> ('l, 'n, ('p, 'l, 'n, 'z) hub_scheme) plugin_functions) \<Rightarrow> ('p, 'l, 'n, 'z) listener_call
     \<Rightarrow> event \<Rightarrow> (unit, ('p, 'l, 'n, 'z) hub_scheme) cmd" where
  "executeDispatchesAndRelease funs call e = (\<lambda>s.
     case dispatchConfig (events s e) of
       None \<Rightarrow> throw type_error s
     | Some config \<Rightarrow> after (executeDispatchesInOrder e (dispatcher funs call (registry s) config))
         (release_unless_persistent e) s)"

text \<open>The loop over the plugins; a place of the ordering may be empty.\<close>

primrec extract_from ::
    "('p \<Rightarrow> ('l, 'n, ('p, 'l, 'n, 'z) hub_scheme) plugin_functions) \<Rightarrow> string \<Rightarrow> 'n \<Rightarrow> string \<Rightarrow> 'n native_event
     \<Rightarrow> 'p jsarr \<Rightarrow> event accumulated \<Rightarrow> (event accumulated, ('p, 'l, 'n, 'z) hub_scheme) cmd" where
  "extract_from funs topLevelType target targetID native [] evs = ret evs"
| "extract_from funs topLevelType target targetID native (p # ps) evs = (case p of
     None \<Rightarrow> extract_from funs topLevelType target targetID native ps evs
   | Some p \<Rightarrow> bind_cmd (extractEventsOf (funs p) topLevelType target targetID native)
       (\<lambda>extracted. case extracted of
          Nothing \<Rightarrow> extract_from funs topLevelType target targetID native ps evs
        | _ \<Rightarrow> (case accumulateInto evs extracted of
            Inl e \<Rightarrow> throw e
          | Inr evs' \<Rightarrow> extract_from funs topLevelType target targetID native ps evs')))"

definition extractEvents ::
    "('p \<Rightarrow> ('l, 'n, ('p, 'l, 'n, 'z) hub_scheme) plugin_functions) \<Rightarrow> string \<Rightarrow> 'n \<Rightarrow> string \<Rightarrow> 'n native_event
     \<Rightarrow> (event accumulated, ('p, 'l, 'n, 'z) hub_scheme) cmd" where
  "extractEvents funs topLevelType target targetID native =
     (\<lambda>s. extract_from funs topLevelType target targetID native (plugins (registry s)) Nothing s)"

definition enqueueEvents :: "event accumulated \<Rightarrow> (unit, ('p, 'l, 'n, 'z) hub_scheme) cmd" where
  "enqueueEvents evs = (\<lambda>s. case evs of
     Nothing \<Rightarrow> ret () s
   | _ \<Rightarrow> (case accumulateInto (eventQueue s) evs of
       Inl e \<Rightarrow> throw e s
     | Inr q \<Rightarrow> ret () (s\<lparr>eventQueue := q\<rparr>)))"

definition nothing_enqueued :: "(unit, ('p, 'l, 'n, 'z) hub_scheme) cmd" where
  "nothing_enqueued = invariant (\<lambda>s. eventQueue s = Nothing) ''Additional events were enqueued''"

definition processEventQueue ::
    "('p \<Rightarrow> ('l, 'n, ('p, 'l, 'n, 'z) hub_scheme) plugin_functions) \<Rightarrow> ('p, 'l, 'n, 'z) listener_call
     \<Rightarrow> (unit, ('p, 'l, 'n, 'z) hub_scheme) cmd" where
  "processEventQueue funs call = (\<lambda>s.
     after (forEachAccumulated (eventQueue s) (executeDispatchesAndRelease funs call)) nothing_enqueued
       (s\<lparr>eventQueue := Nothing\<rparr>))"

definition runEventQueueInBatch ::
    "('p \<Rightarrow> ('l, 'n, ('p, 'l, 'n, 'z) hub_scheme) plugin_functions) \<Rightarrow> ('p, 'l, 'n, 'z) listener_call
     \<Rightarrow> event accumulated \<Rightarrow> (unit, ('p, 'l, 'n, 'z) hub_scheme) cmd" where
  "runEventQueueInBatch funs call evs = after (enqueueEvents evs) (processEventQueue funs call)"

definition handleTopLevel ::
    "('p \<Rightarrow> ('l, 'n, ('p, 'l, 'n, 'z) hub_scheme) plugin_functions) \<Rightarrow> ('p, 'l, 'n, 'z) listener_call
     \<Rightarrow> string \<Rightarrow> 'n \<Rightarrow> string \<Rightarrow> 'n native_event \<Rightarrow> (unit, ('p, 'l, 'n, 'z) hub_scheme) cmd" where
  "handleTopLevel funs call topLevelType target targetID native =
     bind_cmd (extractEvents funs topLevelType target targetID native) (runEventQueueInBatch funs call)"

section \<open>Collecting the dispatches of an event\<close>

text \<open>A callback of a traversal returns the exception it throws, if any; it never returns \<open>false\<close>.\<close>

type_synonym 's collect = "'s \<Rightarrow> exn option \<times> 's"

definition stop_at_exception ::
    "(string \<Rightarrow> bool \<Rightarrow> 's collect) \<Rightarrow> string \<Rightarrow> bool \<Rightarrow> exn option \<times> 's \<Rightarrow> bool \<times> exn option \<times> 's" where
  "stop_at_exception cb ident up = (\<lambda>(e, s). case e of
     Some x \<Rightarrow> (True, e, s)
   | None \<Rightarrow> (let (e', s') = cb ident up s in (e' \<noteq> None, e', s')))"

definition traversed :: "(exn option \<times> 's) \<times> id_error option \<Rightarrow> ((exn + unit) \<times> 's) option" where
  "traversed r = (case r of
     ((Some e, s), _) \<Rightarrow> Some (Inl e, s)
   | ((None, s), Some err) \<Rightarrow> Some (Inl ''Invariant Violation'', s)
   | ((None, s), None) \<Rightarrow> Some (Inr (), s))"

definition listenerAtPhase :: "('p, 'l, 'n, 'z) hub_scheme \<Rightarrow> string \<Rightarrow> dispatch_config \<Rightarrow> string \<Rightarrow> 'l option" where
  "listenerAtPhase s ident config phase = (case map_of (phased_names config) phase of
     Some name \<Rightarrow> getListener s ident name
   | None \<Rightarrow> None)"

definition add_dispatch :: "event \<Rightarrow> 'l \<Rightarrow> string \<Rightarrow> ('p, 'l, 'n, 'z) hub_scheme collect" where
  "add_dispatch e listener ident s =
     (case accumulateInto (dispatchListeners (events s e)) (One listener) of
        Inl x \<Rightarrow> (Some x, s)
      | Inr ls \<Rightarrow> (let s1 = update_event e (\<lambda>ev. ev\<lparr>dispatchListeners := ls\<rparr>) s
          in case accumulateInto (dispatchIDs (events s1 e)) (One ident) of
               Inl x \<Rightarrow> (Some x, s1)
             | Inr ids \<Rightarrow> (None, update_event e (\<lambda>ev. ev\<lparr>dispatchIDs := ids\<rparr>) s1)))"

definition accumulateDirectionalDispatches ::
    "event \<Rightarrow> string \<Rightarrow> bool \<Rightarrow> ('p, 'l, 'n, 'z) hub_scheme collect" where
  "accumulateDirectionalDispatches e domID upwards s =
     (if domID = '''' then (Some ''Dispatching id must not be null'', s)
      else (case dispatchConfig (events s e) of
        None \<Rightarrow> (Some type_error, s)
      | Some config \<Rightarrow>
          (case listenerAtPhase s domID config (if upwards then ''bubbled'' else ''captured'') of
             Some listener \<Rightarrow> add_dispatch e listener domID s
           | None \<Rightarrow> (None, s))))"

definition accumulateTwoPhaseDispatchesSingle :: "event \<Rightarrow> (unit, ('p, 'l, 'n, 'z) hub_scheme) cmd" where
  "accumulateTwoPhaseDispatchesSingle e = (\<lambda>s. case dispatchConfig (events s e) of
     None \<Rightarrow> throw type_error s
   | Some config \<Rightarrow> (case phasedRegistrationNames config of
       None \<Rightarrow> ret () s
     | Some _ \<Rightarrow> traversed (traverseTwoPhase (case dispatchMarker (events s e) of Some m \<Rightarrow> m | None \<Rightarrow> '''')
         (stop_at_exception (accumulateDirectionalDispatches e)) (None, s))))"

definition accumulateTwoPhaseDispatches :: "event accumulated \<Rightarrow> (unit, ('p, 'l, 'n, 'z) hub_scheme) cmd" where
  "accumulateTwoPhaseDispatches evs = forEachAccumulated evs accumulateTwoPhaseDispatchesSingle"

text \<open>\<open>None\<close> as an event is null. An empty registration name is false.\<close>

definition accumulateDispatches :: "string \<Rightarrow> event option \<Rightarrow> ('p, 'l, 'n, 'z) hub_scheme collect" where
  "accumulateDispatches ident ev s = (case ev of
     None \<Rightarrow> (None, s)
   | Some e \<Rightarrow> (case dispatchConfig (events s e) of
       None \<Rightarrow> (Some type_error, s)
     | Some config \<Rightarrow> (case registrationName config of
         None \<Rightarrow> (None, s)
       | Some name \<Rightarrow> (if name = '''' then (None, s) else (case getListener s ident name of
           None \<Rightarrow> (None, s)
         | Some listener \<Rightarrow> add_dispatch e listener ident s)))))"

definition accumulateDirectDispatchesSingle :: "event \<Rightarrow> (unit, ('p, 'l, 'n, 'z) hub_scheme) cmd" where
  "accumulateDirectDispatchesSingle e = (\<lambda>s. case dispatchConfig (events s e) of
     None \<Rightarrow> throw type_error s
   | Some config \<Rightarrow> (case dispatchMarker (events s e) of
       None \<Rightarrow> ret () s
     | Some m \<Rightarrow> traversed (accumulateDispatches m (Some e) s, None)))"

definition accumulateDirectDispatches :: "event accumulated \<Rightarrow> (unit, ('p, 'l, 'n, 'z) hub_scheme) cmd" where
  "accumulateDirectDispatches evs = forEachAccumulated evs accumulateDirectDispatchesSingle"

definition accumulateEnterLeaveDispatches ::
    "event option \<Rightarrow> event option \<Rightarrow> string \<Rightarrow> string \<Rightarrow> (unit, ('p, 'l, 'n, 'z) hub_scheme) cmd" where
  "accumulateEnterLeaveDispatches leave enter fromID toID = (\<lambda>s. traversed (traverseEnterLeave fromID toID
     (stop_at_exception (\<lambda>ident up. accumulateDispatches ident leave))
     (stop_at_exception (\<lambda>ident up. accumulateDispatches ident enter)) (None, s)))"

section \<open>The plugins\<close>

definition isEndish :: "string \<Rightarrow> bool" where
  "isEndish t \<longleftrightarrow> t = ''topMouseUp'' \<or> t = ''topTouchEnd'' \<or> t = ''topTouchCancel''"

definition isMoveish :: "string \<Rightarrow> bool" where
  "isMoveish t \<longleftrightarrow> t = ''topMouseMove'' \<or> t = ''topTouchMove''"

definition isStartish :: "string \<Rightarrow> bool" where
  "isStartish t \<longleftrightarrow> t = ''topMouseDown'' \<or> t = ''topTouchStart''"

text \<open>The event types: name, registration name for bubbling, and for capturing.\<close>

definition simple_types :: "(string \<times> string \<times> string) list" where
  "simple_types = [
     (''blur'', ''onBlur'', ''onBlurCapture''), (''click'', ''onClick'', ''onClickCapture''),
     (''contextMenu'', ''onContextMenu'', ''onContextMenuCapture''), (''copy'', ''onCopy'', ''onCopyCapture''),
     (''cut'', ''onCut'', ''onCutCapture''), (''doubleClick'', ''onDoubleClick'', ''onDoubleClickCapture''),
     (''drag'', ''onDrag'', ''onDragCapture''), (''dragEnd'', ''onDragEnd'', ''onDragEndCapture''),
     (''dragEnter'', ''onDragEnter'', ''onDragEnterCapture''),
     (''dragExit'', ''onDragExit'', ''onDragExitCapture''),
     (''dragLeave'', ''onDragLeave'', ''onDragLeaveCapture''),
     (''dragOver'', ''onDragOver'', ''onDragOverCapture''),
     (''dragStart'', ''onDragStart'', ''onDragStartCapture''), (''drop'', ''onDrop'', ''onDropCapture''),
     (''focus'', ''onFocus'', ''onFocusCapture''), (''input'', ''onInput'', ''onInputCapture''),
     (''keyDown'', ''onKeyDown'', ''onKeyDownCapture''), (''keyPress'', ''onKeyPress'', ''onKeyPressCapture''),
     (''keyUp'', ''onKeyUp'', ''onKeyUpCapture''), (''load'', ''onLoad'', ''onLoadCapture''),
     (''error'', ''onError'', ''onErrorCapture''), (''mouseDown'', ''onMouseDown'', ''onMouseDownCapture''),
     (''mouseMove'', ''onMouseMove'', ''onMouseMoveCapture''),
     (''mouseOut'', ''onMouseOut'', ''onMouseOutCapture''),
     (''mouseOver'', ''onMouseOver'', ''onMouseOverCapture''),
     (''mouseUp'', ''onMouseUp'', ''onMouseUpCapture''), (''paste'', ''onPaste'', ''onPasteCapture''),
     (''reset'', ''onReset'', ''onResetCapture''), (''scroll'', ''onScroll'', ''onScrollCapture''),
     (''submit'', ''onSubmit'', ''onSubmitCapture''),
     (''touchCancel'', ''onTouchCancel'', ''onTouchCancelCapture''),
     (''touchEnd'', ''onTouchEnd'', ''onTouchEndCapture''),
     (''touchMove'', ''onTouchMove'', ''onTouchMoveCapture''),
     (''touchStart'', ''onTouchStart'', ''onTouchStartCapture''), (''wheel'', ''onWheel'', ''onWheelCapture'')]"

definition top_level_types :: "(string \<times> string) list" where
  "top_level_types = [
     (''topBlur'', ''blur''), (''topClick'', ''click''), (''topContextMenu'', ''contextMenu''),
     (''topCopy'', ''copy''), (''topCut'', ''cut''), (''topDoubleClick'', ''doubleClick''),
     (''topDrag'', ''drag''), (''topDragEnd'', ''dragEnd''), (''topDragEnter'', ''dragEnter''),
     (''topDragExit'', ''dragExit''), (''topDragLeave'', ''dragLeave''), (''topDragOver'', ''dragOver''),
     (''topDragStart'', ''dragStart''), (''topDrop'', ''drop''), (''topError'', ''error''),
     (''topFocus'', ''focus''), (''topInput'', ''input''), (''topKeyDown'', ''keyDown''),
     (''topKeyPress'', ''keyPress''), (''topKeyUp'', ''keyUp''), (''topLoad'', ''load''),
     (''topMouseDown'', ''mouseDown''), (''topMouseMove'', ''mouseMove''), (''topMouseOut'', ''mouseOut''),
     (''topMouseOver'', ''mouseOver''), (''topMouseUp'', ''mouseUp''), (''topPaste'', ''paste''),
     (''topReset'', ''reset''), (''topScroll'', ''scroll''), (''topSubmit'', ''submit''),
     (''topTouchCancel'', ''touchCancel''), (''topTouchEnd'', ''touchEnd''), (''topTouchMove'', ''touchMove''),
     (''topTouchStart'', ''touchStart''), (''topWheel'', ''wheel'')]"

text \<open>The dependency of a type is the top-level type that leads to it.\<close>

definition simple_config :: "string \<times> string \<Rightarrow> string list option \<Rightarrow> dispatch_config" where
  "simple_config names depends = \<lparr>registrationName = None,
     phasedRegistrationNames = Some [(''bubbled'', fst names), (''captured'', snd names)], dependencies = depends\<rparr>"

definition topLevelEventsToDispatchConfig :: "string \<Rightarrow> dispatch_config option" where
  "topLevelEventsToDispatchConfig t = (case map_of top_level_types t of
     None \<Rightarrow> None
   | Some name \<Rightarrow> map_option (\<lambda>names. simple_config names (Some [t])) (map_of simple_types name))"

text \<open>The switch; \<open>None\<close> is an unhandled type.\<close>

definition event_constructor :: "string \<Rightarrow> event_class option" where
  "event_constructor t =
     (if t \<in> set [''topInput'', ''topLoad'', ''topError'', ''topReset'', ''topSubmit''] then Some PlainEvent
      else if t \<in> set [''topKeyPress'', ''topKeyDown'', ''topKeyUp''] then Some KeyboardEvent
      else if t \<in> set [''topBlur'', ''topFocus''] then Some FocusEvent
      else if t \<in> set [''topClick'', ''topContextMenu'', ''topDoubleClick'', ''topMouseDown'', ''topMouseMove'', ''topMouseOut'',
          ''topMouseOver'', ''topMouseUp''] then Some MouseEvent
      else if t \<in> set [''topDrag'', ''topDragEnd'', ''topDragEnter'', ''topDragExit'', ''topDragLeave'', ''topDragOver'',
          ''topDragStart'', ''topDrop''] then Some DragEvent
      else if t \<in> set [''topTouchCancel'', ''topTouchEnd'', ''topTouchMove'', ''topTouchStart''] then Some TouchEvent
      else if t = ''topScroll'' then Some UIEvent
      else if t = ''topWheel'' then Some WheelEvent
      else if t \<in> set [''topCopy'', ''topCut'', ''topPaste''] then Some ClipboardEvent
      else None)"

text \<open>Native events that are not for React: key presses without a character, clicks of the right button.\<close>

definition ignored_native :: "string \<Rightarrow> 'n native_event \<Rightarrow> bool" where
  "ignored_native t native \<longleftrightarrow>
     t = ''topKeyPress'' \<and> getEventCharCode native = 0 \<or> t = ''topClick'' \<and> button native = 2"

definition simple_extractEvents ::
    "string \<Rightarrow> 'n \<Rightarrow> string \<Rightarrow> 'n native_event \<Rightarrow> (event accumulated, ('p, 'l, 'n, 'z) hub_scheme) cmd" where
  "simple_extractEvents t target targetID native = (case topLevelEventsToDispatchConfig t of
     None \<Rightarrow> ret Nothing
   | Some config \<Rightarrow> if ignored_native t native then ret Nothing
       else (case event_constructor t of
           None \<Rightarrow> throw ''Unhandled event type''
         | Some C \<Rightarrow> bind_cmd (getPooledEvent C config (Some targetID) native)
             (\<lambda>e. after (accumulateTwoPhaseDispatches (One e)) (ret (One e)))))"

definition simple_executeDispatch ::
    "('p, 'l, 'n, 'z) listener_call \<Rightarrow> event \<Rightarrow> 'l \<Rightarrow> string \<Rightarrow> (unit, ('p, 'l, 'n, 'z) hub_scheme) cmd" where
  "simple_executeDispatch call e listener domID = bind_cmd (executeDispatch call e listener domID)
     (\<lambda>v. if v = Boolean False then after (stopPropagation e) (preventDefault e) else ret ())"

text \<open>
  What the plugin asks the document for: the window, whether a node is a window, the window of a node's document
  (\<open>None\<close>: the node has no document), the first node of React at or above a node, and the id of a node.
\<close>

record 'n document =
  global_window :: "'n option"
  is_window :: "'n \<Rightarrow> bool"
  window_of :: "'n \<Rightarrow> 'n option option"
  getFirstReactDOM :: "'n \<Rightarrow> 'n option"
  getID :: "'n \<Rightarrow> string"

definition enter_config :: dispatch_config where
  "enter_config = \<lparr>registrationName = Some ''onMouseEnter'', phasedRegistrationNames = None,
     dependencies = Some [''topMouseOut'', ''topMouseOver'']\<rparr>"

definition leave_config :: dispatch_config where
  "leave_config = \<lparr>registrationName = Some ''onMouseLeave'', phasedRegistrationNames = None,
     dependencies = Some [''topMouseOut'', ''topMouseOver'']\<rparr>"

definition or_else :: "'x option \<Rightarrow> 'x option \<Rightarrow> 'x option" where
  "or_else x y = (case x of Some v \<Rightarrow> Some v | None \<Rightarrow> y)"

definition enter_leave_window :: "'n document \<Rightarrow> 'n \<Rightarrow> 'n option" where
  "enter_leave_window doc target = (if is_window doc target then Some target
     else (case window_of doc target of Some w \<Rightarrow> w | None \<Rightarrow> global_window doc))"

definition enter_leave_nodes :: "'n document \<Rightarrow> string \<Rightarrow> 'n \<Rightarrow> 'n native_event \<Rightarrow> 'n option \<times> 'n option" where
  "enter_leave_nodes doc t target native =
     (let win = enter_leave_window doc target
      in if t = ''topMouseOut'' then
           (Some target, or_else (Option.bind (or_else (relatedTarget native) (toElement native)) (getFirstReactDOM doc)) win)
         else (win, Some target))"

definition id_or_empty :: "'n document \<Rightarrow> 'n option \<Rightarrow> string" where
  "id_or_empty doc n = (case n of Some n \<Rightarrow> getID doc n | None \<Rightarrow> '''')"

text \<open>The fields \<open>type\<close>, \<open>target\<close> and \<open>relatedTarget\<close> of the events are left out.\<close>

definition enter_leave_extractEvents ::
    "'n document \<Rightarrow> string \<Rightarrow> 'n \<Rightarrow> string \<Rightarrow> 'n native_event \<Rightarrow> (event accumulated, ('p, 'l, 'n, 'z) hub_scheme) cmd" where
  "enter_leave_extractEvents doc t target targetID native =
     (if t = ''topMouseOver'' \<and> or_else (relatedTarget native) (fromElement native) \<noteq> None then ret Nothing
      else if t \<noteq> ''topMouseOut'' \<and> t \<noteq> ''topMouseOver'' then ret Nothing
      else (let (source, dest) = enter_leave_nodes doc t target native
        in if source = dest then ret Nothing
           else (let fromID = id_or_empty doc source; toID = id_or_empty doc dest
             in bind_cmd (getPooledEvent MouseEvent leave_config (Some fromID) native)
                  (\<lambda>leave. bind_cmd (getPooledEvent MouseEvent enter_config (Some toID) native)
                    (\<lambda>enter. after (accumulateEnterLeaveDispatches (Some leave) (Some enter) fromID toID)
                       (ret (Many [leave, enter])))))))"

section \<open>Listeners put at the end of a transaction\<close>

type_synonym 'l listener_to_put = "string \<times> string \<times> 'l listener_value"

definition enqueuePutListener :: "string \<Rightarrow> string \<Rightarrow> 'l listener_value \<Rightarrow> 'l listener_to_put list \<Rightarrow> 'l listener_to_put list" where
  "enqueuePutListener rootNodeID propKey propValue q = q @ [(rootNodeID, propKey, propValue)]"

definition putListeners :: "'l listener_to_put list \<Rightarrow> (unit, ('p, 'l, 'n, 'z) hub_scheme) cmd" where
  "putListeners q = foreach (\<lambda>(ident, name, v). putListener ident name v) q"

section \<open>The dispatches of an event\<close>

fun pack :: "'a list \<Rightarrow> 'a accumulated" where
  "pack [] = Nothing"
| "pack [x] = One x"
| "pack (x # y # ys) = Many (x # y # ys)"

lemma items_pack [simp]: "items (pack xs) = xs"
  by (cases xs rule: pack.cases) simp_all

lemma pack_snoc: "accumulateInto (pack xs) (One y) = Inr (pack (xs @ [y]))"
proof (cases xs rule: pack.cases)
  case (3 a b ys)
  then show ?thesis by (simp add: accumulateInto_def)
qed (simp_all add: accumulateInto_def)

lemma is_array_pack: "is_array (pack xs) \<longleftrightarrow> length xs > 1"
  by (cases xs rule: pack.cases) simp_all

text \<open>A state in which an event has these dispatches.\<close>

definition with_dispatches :: "event \<Rightarrow> ('l \<times> string) list \<Rightarrow> ('p, 'l, 'n, 'z) hub_scheme \<Rightarrow> ('p, 'l, 'n, 'z) hub_scheme" where
  "with_dispatches e ds =
     update_event e (\<lambda>ev. ev\<lparr>dispatchListeners := pack (map fst ds), dispatchIDs := pack (map snd ds)\<rparr>)"

lemma update_event_simps [simp]:
  "registry (update_event e f s) = registry s" "listenerBank (update_event e f s) = listenerBank s"
  "eventQueue (update_event e f s) = eventQueue s" "pools (update_event e f s) = pools s"
  "events (update_event e f s) e' = (if e' = e then f (events s e) else events s e')"
  by (simp_all add: update_event_def)

lemma update_event_twice: "update_event e f (update_event e g s) = update_event e (f \<circ> g) s"
  by (simp add: update_event_def)

lemma getListener_update [simp]: "getListener (update_event e f s) = getListener s"
  by (simp add: getListener_def fun_eq_iff)

lemma listenerAtPhase_update [simp]: "listenerAtPhase (update_event e f s) = listenerAtPhase s"
  by (simp add: listenerAtPhase_def fun_eq_iff split: option.split)

lemma add_dispatch_more: "add_dispatch e l i (with_dispatches e ds s) = (None, with_dispatches e (ds @ [(l, i)]) s)"
  by (simp add: add_dispatch_def with_dispatches_def pack_snoc update_event_twice comp_def)

text \<open>The listeners of a list of nodes, in order.\<close>

definition listeners_of :: "(string \<Rightarrow> 'l option) \<Rightarrow> string list \<Rightarrow> ('l \<times> string) list" where
  "listeners_of f ids = List.map_filter (\<lambda>i. map_option (\<lambda>l. (l, i)) (f i)) ids"

lemma listeners_of_simps [simp]:
  "listeners_of f [] = []"
  "listeners_of f (i # ids) = (case f i of Some l \<Rightarrow> (l, i) # listeners_of f ids | None \<Rightarrow> listeners_of f ids)"
  by (simp_all add: listeners_of_def List.map_filter_simps split: option.split)

lemma listeners_of_ids: "snd ` set (listeners_of f ids) \<subseteq> set ids"
  by (induction ids) (auto split: option.splits)

text \<open>A traversal whose callback adds the listener of a node, if it has one, to the dispatches of an event.\<close>

lemma visit_collects:
  assumes "\<And>i ds. i \<in> set ids \<Longrightarrow> cb i up (with_dispatches e ds s) =
    (case f i of Some l \<Rightarrow> add_dispatch e l i (with_dispatches e ds s) | None \<Rightarrow> (None, with_dispatches e ds s))"
  shows "visit (stop_at_exception cb) up ids (None, with_dispatches e ds s) =
    (False, None, with_dispatches e (ds @ listeners_of f ids) s)"
  using assms
proof (induction ids arbitrary: ds)
  case (Cons i ids)
  then show ?case by (cases "f i") (simp_all add: stop_at_exception_def add_dispatch_more)
qed simp

text \<open>The nodes on the way from a node down to another.\<close>

definition nodes_below :: "string list \<Rightarrow> string list \<Rightarrow> string list" where
  "nodes_below ps ns = tl (path_down ps ns)"

lemma nodes_below_nonempty: "i \<in> set (nodes_below ps ns) \<Longrightarrow> i \<noteq> []"
  using path_down_longer [of i ps ns] by (auto simp: nodes_below_def)

text \<open>The listeners of the nodes down to the target for the capturing phase, then up from it for the bubbling phase.\<close>

definition two_phase_listeners ::
    "('p, 'l, 'n, 'z) hub_scheme \<Rightarrow> dispatch_config \<Rightarrow> string list \<Rightarrow> ('l \<times> string) list" where
  "two_phase_listeners s config ns =
     listeners_of (\<lambda>i. listenerAtPhase s i config ''captured'') (nodes_below [] ns) @
     listeners_of (\<lambda>i. listenerAtPhase s i config ''bubbled'') (rev (nodes_below [] ns))"

lemma two_phase_ids: "snd ` set (two_phase_listeners s config ns) \<subseteq> set (nodes_below [] ns)"
  using listeners_of_ids by (fastforce simp: two_phase_listeners_def image_Un)

lemma no_dispatches:
  assumes "dispatchListeners (events s e) = Nothing" "dispatchIDs (events s e) = Nothing"
  shows "with_dispatches e [] s = s"
proof -
  have "(events s e)\<lparr>dispatchListeners := Nothing, dispatchIDs := Nothing\<rparr> = events s e"
    using assms by (cases "events s e") simp
  then show ?thesis by (simp add: with_dispatches_def update_event_def)
qed

lemma two_phase_collected:
  assumes "\<forall>n \<in> set ns. name_ok n" "length ns \<le> MAX_TREE_DEPTH"
    and "dispatchConfig (events s e) = Some config" "phasedRegistrationNames config \<noteq> None"
    and "dispatchMarker (events s e) = Some (id_of ns)"
    and "dispatchListeners (events s e) = Nothing" "dispatchIDs (events s e) = Nothing"
  shows "accumulateTwoPhaseDispatchesSingle e s = Some (Inr (), with_dispatches e (two_phase_listeners s config ns) s)"
proof -
  note s = no_dispatches [OF assms(6,7)]
  have visit: "visit (stop_at_exception (accumulateDirectionalDispatches e)) up ids (None, with_dispatches e ds s) =
      (False, None, with_dispatches e (ds @ listeners_of (\<lambda>i. listenerAtPhase s i config (if up then ''bubbled'' else ''captured'')) ids) s)"
    if "set ids \<subseteq> set (nodes_below [] ns)" for up ids ds
    using that nodes_below_nonempty assms(3)
    by (intro visit_collects) (auto simp: accumulateDirectionalDispatches_def with_dispatches_def split: option.split)
  have "traverseTwoPhase (id_of ns) (stop_at_exception (accumulateDirectionalDispatches e)) (None, s) =
      ((None, with_dispatches e (two_phase_listeners s config ns) s), None)"
    using visit [of "nodes_below [] ns" False "[]"] visit [of "rev (nodes_below [] ns)" True]
    by (simp add: two_phase_visits [OF assms(1,2)] s nodes_below_def [symmetric] two_phase_listeners_def)
  then show ?thesis
    using assms(3,4,5) by (auto simp: accumulateTwoPhaseDispatchesSingle_def traversed_def)
qed

section \<open>The life of an event\<close>

text \<open>Released events have no dispatches left.\<close>

definition pools_clean :: "('p, 'l, 'n, 'z) hub_scheme \<Rightarrow> bool" where
  "pools_clean s \<longleftrightarrow> (\<forall>C. \<forall>obj \<in> set (instancePool (pools s C)).
     dispatchListeners (events s (C, obj)) = Nothing \<and> dispatchIDs (events s (C, obj)) = Nothing)"

text \<open>What stays when an event is made.\<close>

definition only_new_event :: "event \<Rightarrow> ('p, 'l, 'n, 'z) hub_scheme \<Rightarrow> ('p, 'l, 'n, 'z) hub_scheme \<Rightarrow> bool" where
  "only_new_event e s s' \<longleftrightarrow> registry s' = registry s \<and> listenerBank s' = listenerBank s \<and> eventQueue s' = eventQueue s \<and>
     (\<forall>e'. e' \<noteq> e \<longrightarrow> events s' e' = events s e') \<and> (\<forall>C. C \<noteq> fst e \<longrightarrow> pools s' C = pools s C) \<and>
     hub.more s' = hub.more s"

definition event_of :: "('l, 'n) synthetic_event \<Rightarrow> dispatch_config \<Rightarrow> string \<Rightarrow> 'n native_event \<Rightarrow> bool" where
  "event_of ev config marker native \<longleftrightarrow> dispatchConfig ev = Some config \<and> dispatchMarker ev = Some marker \<and>
     nativeEvent ev = Some native \<and> \<not> isPropagationStopped ev"

lemma made_event:
  assumes "pools_clean s"
  shows "\<exists>e s1. getPooledEvent C config (Some marker) native s = Some (Inr e, s1) \<and> fst e = C \<and> only_new_event e s s1 \<and>
    event_of (events s1 e) config marker native \<and> dispatchListeners (events s1 e) = Nothing \<and> dispatchIDs (events s1 e) = Nothing"
proof -
  obtain obj pool' where g: "getPooled (pools s C) = (obj, pool')" by (cases "getPooled (pools s C)")
  let ?old = "if instancePool (pools s C) = [] then blank_event else events s (C, obj)"
  have "dispatchListeners ?old = Nothing \<and> dispatchIDs ?old = Nothing"
  proof (cases "instancePool (pools s C) = []")
    case False
    then have "obj \<in> set (instancePool (pools s C))" using g by (auto simp: getPooled_def)
    then show ?thesis using assms False by (auto simp: pools_clean_def)
  qed (simp add: blank_event_def)
  then show ?thesis
    by (auto simp: getPooledEvent_def g ret_def Let_def construct_def only_new_event_def event_of_def)
qed

lemma listenerAtPhase_bank: "listenerBank s' = listenerBank s \<Longrightarrow> listenerAtPhase s' = listenerAtPhase s"
  by (simp add: listenerAtPhase_def getListener_def fun_eq_iff split: option.split)

lemma getListener_bank: "listenerBank s' = listenerBank s \<Longrightarrow> getListener s' = getListener s"
  by (simp add: getListener_def fun_eq_iff)

text \<open>The dispatches are valid when the ids are not empty.\<close>

lemma dispatches_run:
  assumes "\<forall>d \<in> set ds. snd d \<noteq> ''''" "\<not> isPropagationStopped (events s e)"
  shows "forEachEventDispatch e cb (with_dispatches e ds s) = dispatch_loop cb e ds (with_dispatches e ds s)"
proof -
  have "IDsLen (pack (map snd ds)) = length ds"
    using assms(1) by (cases ds rule: pack.cases) (auto simp: IDsLen_def)
  then have v: "validateEventDispatches e (with_dispatches e ds s) = Some (Inr (), with_dispatches e ds s)"
    by (simp add: validateEventDispatches_def invariant_def valid_dispatches_def with_dispatches_def is_array_pack)
  have "events (with_dispatches e ds s) e = (events s e)\<lparr>dispatchListeners := pack (map fst ds), dispatchIDs := pack (map snd ds)\<rparr>"
    by (simp add: with_dispatches_def)
  then show ?thesis using v assms(2)
    by (cases ds rule: pack.cases)
      (auto simp: forEachEventDispatch_def after_def bind_cmd_def zip_map_fst_snd ret_def split: option.split sum.split)
qed

text \<open>When an event is done.\<close>

definition event_done :: "event \<Rightarrow> (unit, ('p, 'l, 'n, 'z) hub_scheme) cmd" where
  "event_done e = after (modify (clear_dispatches e)) (after (release_unless_persistent e) nothing_enqueued)"

lemma after_assoc: "after (after f g) h s = after f (after g h) s"
  by (auto simp: cmd split: option.split sum.split)

lemma queue_runs:
  assumes "\<forall>d \<in> set ds. snd d \<noteq> ''''" "event_of (events s e) config marker native" "eventQueue s = Nothing"
  shows "runEventQueueInBatch funs call (One e) (with_dispatches e ds s) =
    after (dispatch_loop (dispatcher funs call (registry s) config) e ds) (event_done e) (with_dispatches e ds s)"
proof -
  let ?s = "with_dispatches e ds s"
  have s: "?s\<lparr>eventQueue := Nothing\<rparr> = ?s"
    using assms(3) by (simp add: with_dispatches_def update_event_def)
  have ev: "dispatchConfig (events ?s e) = Some config" "registry ?s = registry s" "eventQueue ?s = Nothing"
    using assms(2,3) by (simp_all add: with_dispatches_def event_of_def)
  have "runEventQueueInBatch funs call (One e) ?s =
      after (executeDispatchesAndRelease funs call e) nothing_enqueued ?s"
    by (simp add: s runEventQueueInBatch_def enqueueEvents_def accumulateInto_def ev processEventQueue_def
        forEachAccumulated_def after_def bind_cmd_def ret_def)
  also have "\<dots> = after (after (executeDispatchesInOrder e (dispatcher funs call (registry s) config))
      (release_unless_persistent e)) nothing_enqueued ?s"
    by (simp add: executeDispatchesAndRelease_def ev after_def bind_cmd_def)
  also have "\<dots> = after (forEachEventDispatch e (dispatcher funs call (registry s) config)) (event_done e) ?s"
    by (simp add: executeDispatchesInOrder_def after_assoc event_done_def)
  also have "\<dots> = after (dispatch_loop (dispatcher funs call (registry s) config) e ds) (event_done e) ?s"
    using assms(2) by (simp add: after_def bind_cmd_def dispatches_run [OF assms(1)] event_of_def)
  finally show ?thesis .
qed

text \<open>
  The listeners that a normal end of the loop has called: the first ones, each of them before the propagation was
  stopped, and all of them if it was not.
\<close>

definition called_first ::
    "(event \<Rightarrow> 'l \<Rightarrow> string \<Rightarrow> (unit, ('p, 'l, 'n, 'z) hub_scheme) cmd) \<Rightarrow> event \<Rightarrow> ('l \<times> string) list \<Rightarrow> nat
     \<Rightarrow> ('p, 'l, 'n, 'z) hub_scheme \<Rightarrow> ('p, 'l, 'n, 'z) hub_scheme \<Rightarrow> bool" where
  "called_first cb e ds k s s' \<longleftrightarrow> k \<le> length ds \<and>
     foreach (\<lambda>(l, i). cb e l i) (take k ds) s = Some (Inr (), s') \<and>
     (\<forall>j < k. \<exists>sj. foreach (\<lambda>(l, i). cb e l i) (take j ds) s = Some (Inr (), sj) \<and> \<not> isPropagationStopped (events sj e)) \<and>
     (k = length ds \<or> isPropagationStopped (events s' e))"

lemma loop_calls_first:
  "dispatch_loop cb e ds s = Some (Inr (), s') \<Longrightarrow> \<exists>k. called_first cb e ds k s s'"
proof (induction ds arbitrary: s)
  case Nil
  then show ?case by (simp add: called_first_def ret_def)
next
  case (Cons d ds)
  show ?case
  proof (cases "isPropagationStopped (events s e)")
    case True
    then show ?thesis using Cons.prems by (intro exI [of _ 0]) (auto simp: called_first_def ret_def)
  next
    case False
    then obtain s1 where s1: "cb e (fst d) (snd d) s = Some (Inr (), s1)" "dispatch_loop cb e ds s1 = Some (Inr (), s')"
      using Cons.prems by (auto simp: ends_simps)
    from Cons.IH [OF s1(2)] obtain k where k: "called_first cb e ds k s1 s'" ..
    have "called_first cb e (d # ds) (Suc k) s s'"
      unfolding called_first_def
    proof (intro conjI allI impI)
      show "foreach (\<lambda>(l, i). cb e l i) (take (Suc k) (d # ds)) s = Some (Inr (), s')"
        using k s1 by (simp add: called_first_def after_def bind_cmd_def case_prod_unfold)
      fix j assume "j < Suc k"
      then show "\<exists>sj. foreach (\<lambda>(l, i). cb e l i) (take j (d # ds)) s = Some (Inr (), sj) \<and> \<not> isPropagationStopped (events sj e)"
        using k s1 False by (cases j) (auto simp: called_first_def ret_def after_def bind_cmd_def case_prod_unfold)
    qed (use k in \<open>auto simp: called_first_def\<close>)
    then show ?thesis ..
  qed
qed

text \<open>A plugin that makes nothing of a native event.\<close>

definition silent_plugin ::
    "('l, 'n, ('p, 'l, 'n, 'z) hub_scheme) plugin_functions \<Rightarrow> string \<Rightarrow> 'n \<Rightarrow> string \<Rightarrow> 'n native_event \<Rightarrow> bool" where
  "silent_plugin f t target targetID native \<longleftrightarrow> (\<forall>s. extractEventsOf f t target targetID native s = Some (Inr Nothing, s))"

lemma extract_silent:
  assumes "\<forall>p. Some p \<in> set ps \<longrightarrow> silent_plugin (funs p) t target targetID native"
  shows "extract_from funs t target targetID native ps evs s = Some (Inr evs, s)"
  using assms by (induction ps) (auto simp: ret_def silent_plugin_def bind_cmd_def split: option.split)

lemma extract_from_append:
  assumes "\<forall>p. Some p \<in> set ps \<longrightarrow> silent_plugin (funs p) t target targetID native"
  shows "extract_from funs t target targetID native (ps @ qs) evs s = extract_from funs t target targetID native qs evs s"
  using assms by (induction ps) (auto simp: silent_plugin_def bind_cmd_def split: option.split)

text \<open>The plugin for simple events is loaded, and the only one that makes something of this native event.\<close>

definition only_simple ::
    "('p \<Rightarrow> ('l, 'n, ('p, 'l, 'n, 'z) hub_scheme) plugin_functions) \<Rightarrow> ('p, 'l, 'n, 'z) listener_call
     \<Rightarrow> 'p registry \<Rightarrow> dispatch_config \<Rightarrow> string \<Rightarrow> 'n \<Rightarrow> string \<Rightarrow> 'n native_event \<Rightarrow> bool" where
  "only_simple funs call r config t target targetID native \<longleftrightarrow>
     (\<exists>ps p qs. plugins r = ps @ Some p # qs \<and> getPluginModuleForEvent r config = Some p \<and>
        extractEventsOf (funs p) = simple_extractEvents \<and> executeDispatchOf (funs p) = Some (simple_executeDispatch call) \<and>
        (\<forall>q. Some q \<in> set (ps @ qs) \<longrightarrow> silent_plugin (funs q) t target targetID native))"

lemma handled_types: "topLevelEventsToDispatchConfig t \<noteq> None \<Longrightarrow> event_constructor t \<noteq> None"
  by (auto simp: topLevelEventsToDispatchConfig_def top_level_types_def event_constructor_def split: option.splits if_splits)

lemma simple_config_phased:
  "topLevelEventsToDispatchConfig t = Some config \<Longrightarrow> phasedRegistrationNames config \<noteq> None"
  by (auto simp: topLevelEventsToDispatchConfig_def simple_config_def split: option.splits)

text \<open>
  C35. Events reach their listeners. A native event that React knows and that only \<open>SimpleEventPlugin\<close> looks at makes
  one event. The listeners of the capturing phase from the root down to the target and then those of the bubbling
  phase from the target up to the root are called with it, in this order, up to the one that stops the propagation or
  returns false, and no others; afterwards the event is released unless it was persisted. This holds whatever the
  listeners do; what one of them throws ends the handling.
\<close>
theorem event_reaches_listeners:
  assumes "topLevelEventsToDispatchConfig t = Some config" "\<not> ignored_native t native"
    and "only_simple funs call (registry s) config t target (id_of ns) native"
    and "\<forall>n \<in> set ns. name_ok n" "length ns \<le> MAX_TREE_DEPTH"
    and "pools_clean s" "eventQueue s = Nothing"
  shows "\<exists>e s1. event_of (events s1 e) config (id_of ns) native \<and> only_new_event e s s1 \<and>
    handleTopLevel funs call t target (id_of ns) native s =
      after (dispatch_loop (simple_executeDispatch call) e (two_phase_listeners s config ns)) (event_done e) s1 \<and>
    (\<forall>s2. dispatch_loop (simple_executeDispatch call) e (two_phase_listeners s config ns) s1 = Some (Inr (), s2) \<longrightarrow>
       (\<exists>k. called_first (simple_executeDispatch call) e (two_phase_listeners s config ns) k s1 s2))"
proof -
  obtain ps p qs where p: "plugins (registry s) = ps @ Some p # qs" "getPluginModuleForEvent (registry s) config = Some p"
    "extractEventsOf (funs p) = simple_extractEvents" "executeDispatchOf (funs p) = Some (simple_executeDispatch call)"
    "\<forall>q. Some q \<in> set ps \<longrightarrow> silent_plugin (funs q) t target (id_of ns) native"
    "\<forall>q. Some q \<in> set qs \<longrightarrow> silent_plugin (funs q) t target (id_of ns) native"
    using assms(3) by (auto simp: only_simple_def)
  obtain C where C: "event_constructor t = Some C" using handled_types assms(1) by fastforce
  obtain e s1 where made: "getPooledEvent C config (Some (id_of ns)) native s = Some (Inr e, s1)" "only_new_event e s s1"
    "event_of (events s1 e) config (id_of ns) native" "dispatchListeners (events s1 e) = Nothing" "dispatchIDs (events s1 e) = Nothing"
    using made_event [OF assms(6)] by blast
  let ?ds = "two_phase_listeners s config ns"
  let ?s = "with_dispatches e ?ds s1"
  have same: "two_phase_listeners s1 config ns = ?ds" "registry s1 = registry s" "eventQueue s1 = Nothing"
    using made(2) assms(7) listenerAtPhase_bank [of s1 s] by (auto simp: only_new_event_def two_phase_listeners_def)
  have "accumulateTwoPhaseDispatchesSingle e s1 = Some (Inr (), ?s)"
    using two_phase_collected [OF assms(4,5) _ simple_config_phased [OF assms(1)], of s1 e] made same by (auto simp: event_of_def)
  then have "simple_extractEvents t target (id_of ns) native s = Some (Inr (One e), ?s)"
    using assms(1,2) C made(1)
    by (simp add: simple_extractEvents_def accumulateTwoPhaseDispatches_def forEachAccumulated_def after_def bind_cmd_def ret_def)
  then have "extractEvents funs t target (id_of ns) native s = Some (Inr (One e), ?s)"
    using p by (simp add: extractEvents_def extract_from_append extract_silent bind_cmd_def accumulateInto_def)
  then have "handleTopLevel funs call t target (id_of ns) native s = runEventQueueInBatch funs call (One e) ?s"
    by (simp add: handleTopLevel_def bind_cmd_def)
  also have "\<dots> = after (dispatch_loop (dispatcher funs call (registry s) config) e ?ds) (event_done e) ?s"
    unfolding same(2) [symmetric] using nodes_below_nonempty two_phase_ids same made
    by (intro queue_runs) fastforce+
  also have "dispatcher funs call (registry s) config = simple_executeDispatch call"
    using p by (simp add: dispatcher_def)
  finally have "handleTopLevel funs call t target (id_of ns) native s =
    after (dispatch_loop (simple_executeDispatch call) e ?ds) (event_done e) ?s" .
  moreover have "event_of (events ?s e) config (id_of ns) native" "only_new_event e s ?s"
    using made by (auto simp: event_of_def only_new_event_def with_dispatches_def update_event_def)
  ultimately show ?thesis using loop_calls_first by blast
qed

text \<open>A click on a row: the listener of the row returns false, so the one of the table below it is not called.\<close>

definition demo_click :: "nat native_event" where
  "demo_click = \<lparr>button = 0, keyCode = None, charCode = None, relatedTarget = None, fromElement = None, toElement = None,
     native_defaultPrevented = Some False, returnValue = None\<rparr>"

definition demo_call :: "(nat, string, nat, unit) listener_call" where
  "demo_call l e i = ret (if l = ''row'' then Boolean False else OtherValue False)"

definition demo_functions :: "nat \<Rightarrow> (string, nat, (nat, string, nat) hub) plugin_functions" where
  "demo_functions p = (if p = 1 then \<lparr>extractEventsOf = simple_extractEvents, executeDispatchOf = Some (simple_executeDispatch demo_call)\<rparr>
     else \<lparr>extractEventsOf = \<lambda>t target i native. ret Nothing, executeDispatchOf = None\<rparr>)"

definition demo_hub :: "(nat, string, nat) hub" where
  "demo_hub = \<lparr>registry = demo_registry,
     listenerBank = [''onClickCapture'' \<mapsto> [''.0'' \<mapsto> Some ''capture''],
       ''onClick'' \<mapsto> [''.0'' \<mapsto> Some ''table'', ''.0.$a'' \<mapsto> Some ''row'']],
     eventQueue = Nothing, events = (\<lambda>e. blank_event), pools = (\<lambda>C. addPoolingTo None 0)\<rparr>"

definition demo_config :: dispatch_config where
  "demo_config = simple_config (''onClick'', ''onClickCapture'') (Some [''topClick''])"

lemma demo_only_simple: "only_simple demo_functions demo_call (registry demo_hub) demo_config ''topClick'' 7 ''.0.$a'' demo_click"
  unfolding only_simple_def
  by (rule exI [of _ "[]"], rule exI [of _ 1], rule exI [of _ "[None, Some 2]"])
    (simp add: demo_hub_def demo_registry_def demo_functions_def silent_plugin_def ret_def demo_config_def simple_config_def
      getPluginModuleForEvent_def phased_names_def registered_module_def)

theorem event_reaches_listeners_witness:
  "\<exists>e s1. handleTopLevel demo_functions demo_call ''topClick'' 7 ''.0.$a'' demo_click demo_hub =
      after (dispatch_loop (simple_executeDispatch demo_call) e
        [(''capture'', ''.0''), (''row'', ''.0.$a''), (''table'', ''.0'')]) (event_done e) s1"
proof -
  have ids: "id_of [''0'', ''$a''] = ''.0.$a''" by simp
  have ds: "two_phase_listeners demo_hub demo_config [''0'', ''$a''] =
      [(''capture'', ''.0''), (''row'', ''.0.$a''), (''table'', ''.0'')]"
    by (simp add: two_phase_listeners_def nodes_below_def listenerAtPhase_def demo_config_def simple_config_def phased_names_def
        getListener_def demo_hub_def)
  have config: "topLevelEventsToDispatchConfig ''topClick'' = Some demo_config"
    by (simp add: topLevelEventsToDispatchConfig_def top_level_types_def simple_types_def demo_config_def)
  have names: "\<forall>n \<in> set [''0'', ''$a'']. name_ok n" by (simp add: name_ok_def)
  have "pools_clean demo_hub" "eventQueue demo_hub = Nothing" "\<not> ignored_native ''topClick'' demo_click"
    by (simp_all add: pools_clean_def demo_hub_def blank_event_def ignored_native_def demo_click_def)
  then show ?thesis
    using event_reaches_listeners [OF config _ _ names, of demo_click demo_functions demo_call demo_hub 7]
      demo_only_simple unfolding ids ds by (auto simp: MAX_TREE_DEPTH_def)
qed

section \<open>The mouse enters and leaves\<close>

lemma made_fresh:
  assumes "getPooledEvent C config m native s = Some (Inr e, s1)" "pool_ok in_use (pools s C)"
  shows "e = (C, snd e)" "snd e \<notin> set in_use" "pool_ok (snd e # in_use) (pools s1 C)"
proof -
  obtain obj pool' where g: "getPooled (pools s C) = (obj, pool')" by (cases "getPooled (pools s C)")
  then have e: "e = (C, obj)" "pools s1 C = pool'" using assms(1) by (auto simp: getPooledEvent_def ret_def Let_def)
  show "e = (C, snd e)" "snd e \<notin> set in_use" "pool_ok (snd e # in_use) (pools s1 C)"
    using getPooled_fresh [OF assms(2) g] by (simp_all add: e)
qed

lemma made_clean:
  assumes "getPooledEvent C config m native s = Some (Inr e, s1)" "pool_ok in_use (pools s C)" "pools_clean s"
  shows "pools_clean s1"
proof -
  obtain obj pool' where g: "getPooled (pools s C) = (obj, pool')" by (cases "getPooled (pools s C)")
  have s1: "pools s1 = (pools s)(C := pool')" using assms(1) g by (auto simp: getPooledEvent_def ret_def Let_def)
  have ev: "events s1 e' = events s e'" if "e' \<noteq> (C, obj)" for e'
    using assms(1) g that by (auto simp: getPooledEvent_def ret_def Let_def)
  have out: "obj \<notin> set (instancePool pool')" using getPooled_fresh(2) [OF assms(2) g] by (simp add: pool_ok_def)
  have sub: "set (instancePool pool') \<subseteq> set (instancePool (pools s C))"
    using g by (auto simp: getPooled_def split: if_splits dest: in_set_butlastD)
  show ?thesis
    unfolding pools_clean_def
  proof (intro allI ballI)
    fix D a assume a: "a \<in> set (instancePool (pools s1 D))"
    have "a \<in> set (instancePool (pools s D))" "(D, a) \<noteq> (C, obj)" using a out sub by (auto simp: s1 split: if_splits)
    then show "dispatchListeners (events s1 (D, a)) = Nothing \<and> dispatchIDs (events s1 (D, a)) = Nothing"
      using assms(3) ev by (simp add: pools_clean_def)
  qed
qed

text \<open>The nodes from a common ancestor down to a node, and what a mouse event adds.\<close>

lemma enter_leave_collected:
  assumes "\<forall>n \<in> set (ps @ ns). name_ok n" "\<forall>n \<in> set (ps @ ms). name_ok n" "longest_common_prefix ns ms = []"
    and "length ns \<le> MAX_TREE_DEPTH" "length ms \<le> MAX_TREE_DEPTH" "leave \<noteq> enter"
    and "dispatchConfig (events s leave) = Some leave_config" "dispatchConfig (events s enter) = Some enter_config"
    and "dispatchListeners (events s leave) = Nothing" "dispatchIDs (events s leave) = Nothing"
    and "dispatchListeners (events s enter) = Nothing" "dispatchIDs (events s enter) = Nothing"
  shows "accumulateEnterLeaveDispatches (Some leave) (Some enter) (id_of (ps @ ns)) (id_of (ps @ ms)) s =
    Some (Inr (), with_dispatches enter (listeners_of (\<lambda>i. getListener s i ''onMouseEnter'') (nodes_below ps ms))
      (with_dispatches leave (listeners_of (\<lambda>i. getListener s i ''onMouseLeave'') (rev (nodes_below ps ns))) s))"
proof -
  have visit: "visit (stop_at_exception (\<lambda>ident up. accumulateDispatches ident (Some e))) up ids (None, s') =
      (False, None, with_dispatches e (listeners_of (\<lambda>i. getListener s' i name) ids) s')"
    if "dispatchConfig (events s' e) = Some config" "registrationName config = Some name" "name \<noteq> ''''"
      "dispatchListeners (events s' e) = Nothing" "dispatchIDs (events s' e) = Nothing"
    for e up ids name config and s' :: "('p, 'l, 'n, 'z) hub_scheme"
  proof -
    have step: "accumulateDispatches i (Some e) (with_dispatches e ds s') = (case getListener s' i name of
        Some l \<Rightarrow> add_dispatch e l i (with_dispatches e ds s') | None \<Rightarrow> (None, with_dispatches e ds s'))" for i ds
      using that(1-3) by (simp add: accumulateDispatches_def with_dispatches_def split: option.split)
    show ?thesis
      using visit_collects [OF step, where ids = ids and ds = "[]"] no_dispatches [OF that(4,5)] by simp
  qed
  let ?s = "with_dispatches leave (listeners_of (\<lambda>i. getListener s i ''onMouseLeave'') (rev (nodes_below ps ns))) s"
  have enter: "events ?s enter = events s enter" "getListener ?s = getListener s"
    using assms(6) by (simp_all add: with_dispatches_def)
  have "visit (stop_at_exception (\<lambda>ident up. accumulateDispatches ident (Some leave))) True (rev (tl (path_down ps ns))) (None, s) =
      (False, None, ?s)"
    using assms(7,9,10) by (subst visit [of s leave leave_config "''onMouseLeave''"]) (auto simp: leave_config_def nodes_below_def)
  moreover have "visit (stop_at_exception (\<lambda>ident up. accumulateDispatches ident (Some enter))) False (tl (path_down ps ms)) (None, ?s) =
      (False, None, with_dispatches enter (listeners_of (\<lambda>i. getListener s i ''onMouseEnter'') (nodes_below ps ms)) ?s)"
    using assms(8,11,12) enter by (subst visit [of ?s enter enter_config "''onMouseEnter''"]) (auto simp: enter_config_def nodes_below_def)
  ultimately show ?thesis
    by (simp add: accumulateEnterLeaveDispatches_def enter_leave_order [OF assms(1-5)] traversed_def del: id_of_append)
qed

text \<open>
  C36. Enter and leave. When the mouse moves from a node to another, two new events are made for them. The listeners
  for leaving are those of the nodes from the old one up to just below the nearest common ancestor, in this order;
  the listeners for entering are those of the nodes from there down to the new one. The nodes that contain both are
  told nothing.
\<close>
theorem enter_leave_listeners:
  assumes "or_else (relatedTarget native) (toElement native) = Some related" "getFirstReactDOM doc related = Some dest" "target \<noteq> dest"
    and "getID doc target = id_of (ps @ ns)" "getID doc dest = id_of (ps @ ms)" "longest_common_prefix ns ms = []"
    and "\<forall>n \<in> set (ps @ ns). name_ok n" "\<forall>n \<in> set (ps @ ms). name_ok n" "length ns \<le> MAX_TREE_DEPTH" "length ms \<le> MAX_TREE_DEPTH"
    and "pools_clean s" "pool_ok [] (pools s MouseEvent)"
  shows "\<exists>leave enter s1. leave \<noteq> enter \<and> listenerBank s1 = listenerBank s \<and> eventQueue s1 = eventQueue s \<and>
    event_of (events s1 leave) leave_config (id_of (ps @ ns)) native \<and> event_of (events s1 enter) enter_config (id_of (ps @ ms)) native \<and>
    enter_leave_extractEvents doc ''topMouseOut'' target targetID native s = Some (Inr (Many [leave, enter]),
      with_dispatches enter (listeners_of (\<lambda>i. getListener s i ''onMouseEnter'') (nodes_below ps ms))
       (with_dispatches leave (listeners_of (\<lambda>i. getListener s i ''onMouseLeave'') (rev (nodes_below ps ns))) s1))"
proof -
  obtain leave s1 where l: "getPooledEvent MouseEvent leave_config (Some (id_of (ps @ ns))) native s = Some (Inr leave, s1)"
    "only_new_event leave s s1" "event_of (events s1 leave) leave_config (id_of (ps @ ns)) native"
    "dispatchListeners (events s1 leave) = Nothing" "dispatchIDs (events s1 leave) = Nothing"
    using made_event [OF assms(11), of MouseEvent leave_config] by blast
  note fresh = made_fresh [OF l(1) assms(12)]
  obtain enter s2 where e: "getPooledEvent MouseEvent enter_config (Some (id_of (ps @ ms))) native s1 = Some (Inr enter, s2)"
    "only_new_event enter s1 s2" "event_of (events s2 enter) enter_config (id_of (ps @ ms)) native"
    "dispatchListeners (events s2 enter) = Nothing" "dispatchIDs (events s2 enter) = Nothing"
    using made_event [OF made_clean [OF l(1) assms(12,11)], of MouseEvent enter_config] by blast
  have other: "leave \<noteq> enter" using made_fresh(2) [OF e(1) fresh(3)] by auto
  have same: "events s2 leave = events s1 leave" "listenerBank s2 = listenerBank s" "eventQueue s2 = eventQueue s"
    using l(2) e(2) other unfolding only_new_event_def by metis+
  have "accumulateEnterLeaveDispatches (Some leave) (Some enter) (id_of (ps @ ns)) (id_of (ps @ ms)) s2 =
    Some (Inr (), with_dispatches enter (listeners_of (\<lambda>i. getListener s i ''onMouseEnter'') (nodes_below ps ms))
      (with_dispatches leave (listeners_of (\<lambda>i. getListener s i ''onMouseLeave'') (rev (nodes_below ps ns))) s2))"
    unfolding getListener_bank [OF same(2), symmetric]
    using l e by (intro enter_leave_collected assms other) (simp_all add: event_of_def same(1))
  moreover have "enter_leave_extractEvents doc ''topMouseOut'' target targetID native s =
      after (accumulateEnterLeaveDispatches (Some leave) (Some enter) (id_of (ps @ ns)) (id_of (ps @ ms)))
        (ret (Many [leave, enter])) s2"
    using assms(1-5) l(1) e(1)
    by (simp add: enter_leave_extractEvents_def enter_leave_nodes_def or_else_def id_or_empty_def bind_cmd_def Let_def del: id_of_append)
  ultimately show ?thesis
    using other same l(3) e(3) by (intro exI [of _ leave] exI [of _ enter] exI [of _ s2]) (simp add: after_def bind_cmd_def ret_def)
qed

text \<open>From one cell of a row to another: the row is told nothing.\<close>

definition demo_move :: "nat native_event" where
  "demo_move = demo_click\<lparr>relatedTarget := Some 2\<rparr>"

definition demo_document :: "nat document" where
  "demo_document = \<lparr>global_window = Some 0, is_window = (\<lambda>n. n = 0), window_of = (\<lambda>n. Some (Some 0)),
     getFirstReactDOM = Some, getID = (\<lambda>n. if n = 1 then ''.0.$a.0'' else if n = 2 then ''.0.$a.1'' else '''')\<rparr>"

definition demo_mouse :: "(nat, string, nat) hub" where
  "demo_mouse = demo_hub\<lparr>listenerBank := [''onMouseEnter'' \<mapsto> [''.0.$a'' \<mapsto> Some ''row'', ''.0.$a.1'' \<mapsto> Some ''light''],
     ''onMouseLeave'' \<mapsto> [''.0.$a'' \<mapsto> Some ''row'', ''.0.$a.0'' \<mapsto> Some ''dark'']]\<rparr>"

theorem enter_leave_listeners_witness:
  "\<exists>leave enter s1. enter_leave_extractEvents demo_document ''topMouseOut'' 1 ''.0.$a.0'' demo_move demo_mouse =
     Some (Inr (Many [leave, enter]), with_dispatches enter [(''light'', ''.0.$a.1'')] (with_dispatches leave [(''dark'', ''.0.$a.0'')] s1))"
proof -
  have "or_else (relatedTarget demo_move) (toElement demo_move) = Some 2" "getFirstReactDOM demo_document 2 = Some 2"
    "getID demo_document 1 = id_of ([''0'', ''$a''] @ [''0''])" "getID demo_document 2 = id_of ([''0'', ''$a''] @ [''1''])"
    "\<forall>n \<in> set ([''0'', ''$a''] @ [''0'']). name_ok n" "\<forall>n \<in> set ([''0'', ''$a''] @ [''1'']). name_ok n"
    "pools_clean demo_mouse" "pool_ok [] (pools demo_mouse MouseEvent)"
    by (simp_all add: demo_move_def demo_click_def or_else_def demo_document_def name_ok_def pools_clean_def demo_mouse_def
        demo_hub_def blank_event_def pool_ok_new)
  moreover have "listeners_of (\<lambda>i. getListener demo_mouse i ''onMouseEnter'') (nodes_below [''0'', ''$a''] [''1'']) = [(''light'', ''.0.$a.1'')]"
    "listeners_of (\<lambda>i. getListener demo_mouse i ''onMouseLeave'') (rev (nodes_below [''0'', ''$a''] [''0''])) = [(''dark'', ''.0.$a.0'')]"
    by (simp_all add: nodes_below_def getListener_def demo_mouse_def)
  ultimately show ?thesis
    using enter_leave_listeners [of demo_move 2 demo_document 2 1 "[''0'', ''$a'']" "[''0'']" "[''1'']" demo_mouse "''.0.$a.0''"]
    by (auto simp: MAX_TREE_DEPTH_def)
qed

end
