(* ===== verification/ReactMarkup.thy ===== *)
theory ReactMarkup
  imports ReactDOMProperty ReactEvents
begin

text \<open>
  The markup of a tree of native components (\<open>ReactDOMComponent\<close> and \<open>ReactDOMTextComponent\<close> in \<open>webfiles/react.js\<close>): the
  string that the browser is given when the tree is mounted, and the listeners that are put at the end of the
  transaction. A component holds the components made of its children, each with its name.

  A reader for a small part of HTML tells what the browser finds in the string. It knows start tags with quoted
  attributes, end tags and text with the references \<open>escapeTextContentForBrowser\<close> writes, and refuses anything else,
  among it the elements whose text browsers do not decode. The theorem is that it finds the components again:
  nothing in a text, an attribute or an id is taken for a tag.
\<close>

section \<open>Mounting\<close>

datatype dom_component = DomComponent string members "(string \<times> dom_component) list" | TextComponent string

definition omittedCloseTags :: "string list" where
  "omittedCloseTags = [''area'', ''base'', ''br'', ''col'', ''embed'', ''hr'', ''img'', ''input'', ''keygen'', ''link'', ''meta'',
     ''param'', ''source'', ''track'', ''wbr'']"

text \<open>The pattern \<open>^[a-zA-Z][a-zA-Z:_\.\-\d]*$\<close>.\<close>

definition letter :: "char \<Rightarrow> bool" where
  "letter c \<longleftrightarrow> lower_letter c \<or> upper_letter c"

definition name_char :: "char \<Rightarrow> bool" where
  "name_char c \<longleftrightarrow> letter c \<or> digit c \<or> c \<in> set '':_.-''"

definition valid_tag :: "string \<Rightarrow> bool" where
  "valid_tag tag \<longleftrightarrow> (case tag of [] \<Rightarrow> False | c # cs \<Rightarrow> letter c \<and> list_all name_char cs)"

text \<open>Members of a value that is no object literal are left out.\<close>

fun own_members :: "js_value \<Rightarrow> members" where
  "own_members (Obj a cs ms) = ms"
| "own_members v = []"

definition member_of :: "js_value \<Rightarrow> string \<Rightarrow> js_value" where
  "member_of v n = (case v of Obj a cs ms \<Rightarrow> get_member ms n | _ \<Rightarrow> Undefined)"

definition assertValidProps :: "members \<Rightarrow> exn option" where
  "assertValidProps props =
     (let html = get_member props ''dangerouslySetInnerHTML''; style = get_member props ''style''
      in if \<not> nullish html \<and> \<not> nullish (get_member props ''children'')
         then Some ''Can only set one of `children` or `props.dangerouslySetInnerHTML`''
         else if \<not> nullish html \<and> nullish (member_of html ''__html'')
         then Some ''`props.dangerouslySetInnerHTML` must be in the form `{__html: ...}`''
         else if \<not> (nullish style \<or> typeof style = ''object'') then Some ''The `style` prop expects a mapping''
         else None)"

definition listener_value_of :: "js_value \<Rightarrow> nat listener_value" where
  "listener_value_of v = (case v of Func f \<Rightarrow> Listener f | _ \<Rightarrow> if truthy v then NotAFunction else NoListener)"

definition style_value :: "dom_env \<Rightarrow> string \<Rightarrow> js_value \<Rightarrow> js_value" where
  "style_value env name v = (if name = ''style''
     then (case createMarkupForStyles env (own_members v) of Some s \<Rightarrow> Str s | None \<Rightarrow> Null) else v)"

text \<open>The loop over the properties; \<open>is_event\<close> tells the registration names.\<close>

fun open_tag_loop ::
    "dom_env \<Rightarrow> dom_property \<Rightarrow> (string \<Rightarrow> bool) \<Rightarrow> string \<Rightarrow> members \<Rightarrow> string \<times> nat listener_to_put list" where
  "open_tag_loop env p is_event rootID [] = ('''', [])"
| "open_tag_loop env p is_event rootID ((propKey, v) # props) =
     (let (others, listeners) = open_tag_loop env p is_event rootID props
      in if nullish v then (others, listeners)
         else if is_event propKey then (others, (rootID, propKey, listener_value_of v) # listeners)
         else (case createMarkupForProperty env p propKey (style_value env propKey v) of
             Some markup \<Rightarrow> (if markup \<noteq> '''' then '' '' @ markup @ others else others, listeners)
           | None \<Rightarrow> (others, listeners)))"

definition createOpenTagMarkupAndPutListeners ::
    "dom_env \<Rightarrow> dom_property \<Rightarrow> (string \<Rightarrow> bool) \<Rightarrow> bool \<Rightarrow> string \<Rightarrow> string \<Rightarrow> members \<Rightarrow> string \<times> nat listener_to_put list" where
  "createOpenTagMarkupAndPutListeners env p is_event static rootID tag props =
     (let (markup, listeners) = open_tag_loop env p is_event rootID props
      in (''<'' @ tag @ markup @ (if static then '''' else '' '' @ createMarkupForID rootID) @ ''>'', listeners))"

definition content_prefix :: "string \<Rightarrow> string" where
  "content_prefix tag = (if tag \<in> set [''listing'', ''pre'', ''textarea''] then [CHR 0x0A] else [])"

datatype content = HtmlContent string | TextContent string | ChildContent | NoContent

text \<open>Which content there is.\<close>

definition content_of :: "dom_env \<Rightarrow> members \<Rightarrow> content" where
  "content_of env props =
     (let html = get_member props ''dangerouslySetInnerHTML''; children = get_member props ''children''
      in if \<not> nullish html then
           (if nullish (member_of html ''__html'') then NoContent else HtmlContent (to_string env (member_of html ''__html'')))
         else if typeof children = ''string'' \<or> typeof children = ''number'' then TextContent (to_string env children)
         else if nullish children then NoContent
         else ChildContent)"

definition closeTag :: "string \<Rightarrow> string" where
  "closeTag tag = (if tag \<in> set omittedCloseTags then '''' else ''</'' @ tag @ ''>'')"

fun tag_ok :: "dom_component \<Rightarrow> bool" where
  "tag_ok (DomComponent tag props kids) = valid_tag tag"
| "tag_ok (TextComponent t) = True"

fun mountComponent :: "dom_env \<Rightarrow> dom_property \<Rightarrow> (string \<Rightarrow> bool) \<Rightarrow> bool \<Rightarrow> string \<Rightarrow> dom_component
    \<Rightarrow> exn + string \<times> nat listener_to_put list"
  and mountChildren :: "dom_env \<Rightarrow> dom_property \<Rightarrow> (string \<Rightarrow> bool) \<Rightarrow> bool \<Rightarrow> string \<Rightarrow> (string \<times> dom_component) list
    \<Rightarrow> exn + string \<times> nat listener_to_put list" where
  "mountComponent env p is_event static rootID (TextComponent t) = Inr
     (if static then escapeTextContentForBrowser t
      else ''<span '' @ createMarkupForID rootID @ ''>'' @ escapeTextContentForBrowser t @ ''</span>'', [])"
| "mountComponent env p is_event static rootID (DomComponent tag props kids) =
     (case assertValidProps props of
        Some e \<Rightarrow> Inl e
      | None \<Rightarrow>
          (let (openTag, listeners) = createOpenTagMarkupAndPutListeners env p is_event static rootID tag props;
               prefix = content_prefix tag
           in case content_of env props of
                HtmlContent html \<Rightarrow> Inr (openTag @ prefix @ html @ closeTag tag, listeners)
              | TextContent t \<Rightarrow> Inr (openTag @ prefix @ escapeTextContentForBrowser t @ closeTag tag, listeners)
              | NoContent \<Rightarrow> Inr (openTag @ prefix @ closeTag tag, listeners)
              | ChildContent \<Rightarrow>
                  if list_all (\<lambda>nc. tag_ok (snd nc)) kids then
                    (case mountChildren env p is_event static rootID kids of
                       Inl e \<Rightarrow> Inl e
                     | Inr (imgs, others) \<Rightarrow> Inr (openTag @ prefix @ imgs @ closeTag tag, listeners @ others))
                  else Inl ''Invalid tag''))"
| "mountChildren env p is_event static rootID [] = Inr ('''', [])"
| "mountChildren env p is_event static rootID ((name, kid) # kids) =
     (case mountComponent env p is_event static (rootID @ name) kid of
        Inl e \<Rightarrow> Inl e
      | Inr (img, listeners) \<Rightarrow> (case mountChildren env p is_event static rootID kids of
          Inl e \<Rightarrow> Inl e
        | Inr (imgs, others) \<Rightarrow> Inr (img @ imgs, listeners @ others)))"

section \<open>Reading markup\<close>

datatype token = StartTag string "(string \<times> string option) list" | EndTag string | Chars string

definition entities :: "(string \<times> char) list" where
  "entities = [(''&amp;'', CHR ''&''), (''&gt;'', CHR ''>''), (''&lt;'', CHR ''<''), (''&quot;'', CHR 0x22), (''&#x27;'', CHR 0x27)]"

fun first_entity :: "(string \<times> char) list \<Rightarrow> string \<Rightarrow> (char \<times> string) option" where
  "first_entity [] s = None"
| "first_entity ((e, c) # es) s = (if take (length e) s = e then Some (c, drop (length e) s) else first_entity es s)"

lemma first_entity_rest:
  "first_entity es s = Some (c, rest) \<Longrightarrow> [] \<notin> fst ` set es \<Longrightarrow> s \<noteq> [] \<Longrightarrow> length rest < length s"
  by (induction es s rule: first_entity.induct) (auto split: if_splits)

lemma entity_rest: "first_entity entities (c # s) = Some (d, rest) \<Longrightarrow> length rest < length (c # s)"
  by (rule first_entity_rest [of entities]) (simp_all add: entities_def del: first_entity.simps)

function decode :: "string \<Rightarrow> string" where
  "decode [] = []"
| "decode (c # s) = (case first_entity entities (c # s) of Some (d, rest) \<Rightarrow> d # decode rest | None \<Rightarrow> c # decode s)"
  by pat_completeness auto
termination by (relation "measure length") (auto dest: entity_rest)

text \<open>The attributes up to the end of the tag, and what follows it.\<close>

function read_attributes :: "string \<Rightarrow> ((string \<times> string option) list \<times> string) option" where
  "read_attributes s = (if s = [] then None
     else if hd s = CHR ''>'' then Some ([], tl s)
     else if hd s = CHR '' '' \<and> takeWhile name_char (tl s) \<noteq> [] then
       (let name = takeWhile name_char (tl s); r = dropWhile name_char (tl s)
        in if take 2 r = [CHR ''='', CHR 0x22] then
             (let v = takeWhile (\<lambda>c. c \<noteq> CHR 0x22) (drop 2 r); r' = dropWhile (\<lambda>c. c \<noteq> CHR 0x22) (drop 2 r)
              in if r' = [] then None else map_option (\<lambda>(as, x). ((name, Some (decode v)) # as, x)) (read_attributes (tl r')))
           else map_option (\<lambda>(as, x). ((name, None) # as, x)) (read_attributes r))
     else None)"
  by pat_completeness auto
termination
proof (relation "measure length")
  fix s name r v r'
  assume "s \<noteq> []" "r = dropWhile name_char (tl s)" "r' = dropWhile (\<lambda>c. c \<noteq> CHR 0x22) (drop 2 r)"
  then have "length r' \<le> length r" "length r \<le> length (tl s)" "length (tl s) < length s"
    using length_dropWhile_le [of "\<lambda>c. c \<noteq> CHR 0x22" "drop 2 r"] length_dropWhile_le [of name_char "tl s"] by simp_all
  then show "(tl r', s) \<in> measure length" by simp
next
  fix s name r
  assume "s \<noteq> []" "r = dropWhile name_char (tl s)"
  then have "length r \<le> length (tl s)" "length (tl s) < length s"
    using length_dropWhile_le [of name_char "tl s"] by simp_all
  then show "(r, s) \<in> measure length" by simp
qed simp

declare read_attributes.simps [simp del]

lemma read_attributes_length: "read_attributes s = Some (as, x) \<Longrightarrow> length x < length s"
proof (induction s arbitrary: as rule: read_attributes.induct)
  case (1 s)
  let ?name = "takeWhile name_char (tl s)" and ?r = "dropWhile name_char (tl s)"
  let ?v = "takeWhile (\<lambda>c. c \<noteq> CHR 0x22) (drop 2 ?r)" and ?r' = "dropWhile (\<lambda>c. c \<noteq> CHR 0x22) (drop 2 ?r)"
  have ne: "s \<noteq> []" using "1.prems" by (auto simp: read_attributes.simps)
  have len: "length ?r < length s" using ne length_dropWhile_le [of name_char "tl s"] by (cases s) auto
  show ?case
  proof (cases "hd s = CHR ''>''")
    case True
    then show ?thesis using "1.prems" ne by (auto simp: read_attributes.simps [of s])
  next
    case False
    then have h: "hd s = CHR '' '' \<and> ?name \<noteq> []"
      using "1.prems" ne by (auto simp: read_attributes.simps [of s] split: if_splits)
    show ?thesis
    proof (cases "take 2 ?r = [CHR ''='', CHR 0x22]")
      case True
      then obtain bs where "?r' \<noteq> []" "read_attributes (tl ?r') = Some (bs, x)"
        using "1.prems" ne False h by (auto simp: read_attributes.simps [of s] Let_def split: if_splits)
      then have "length x < length (tl ?r')" using "1.IH"(1) [OF ne False h refl refl True refl refl] by simp
      also have "\<dots> \<le> length ?r"
        using length_dropWhile_le [of "\<lambda>c. c \<noteq> CHR 0x22" "drop 2 ?r"] by simp
      finally show ?thesis using len by simp
    next
      case no: False
      then obtain bs where "read_attributes ?r = Some (bs, x)"
        using "1.prems" ne False h by (auto simp: read_attributes.simps [of s] Let_def)
      then show ?thesis using "1.IH"(2) [OF ne False h refl refl no] len by simp
    qed
  qed
qed

text \<open>Elements whose text the browser does not decode.\<close>

definition raw_text_tags :: "string list" where
  "raw_text_tags = [''script'', ''style'', ''xmp'', ''iframe'', ''noembed'', ''noframes'', ''plaintext'', ''noscript'']"

function tokenize :: "string \<Rightarrow> token list option" where
  "tokenize s = (if s = [] then Some []
     else if take 2 s = ''</'' then
       (let r = drop 2 s in case dropWhile name_char r of
            [] \<Rightarrow> None
          | c # x \<Rightarrow> if c = CHR ''>'' then map_option ((#) (EndTag (takeWhile name_char r))) (tokenize x) else None)
     else if hd s = CHR ''<'' then
       (let tag = takeWhile name_char (tl s)
        in if toLowerCase tag \<in> set raw_text_tags then None
           else (case read_attributes (dropWhile name_char (tl s)) of
               None \<Rightarrow> None
             | Some (as, x) \<Rightarrow> map_option ((#) (StartTag tag as)) (tokenize x)))
     else map_option ((#) (Chars (decode (takeWhile (\<lambda>c. c \<noteq> CHR ''<'') s)))) (tokenize (dropWhile (\<lambda>c. c \<noteq> CHR ''<'') s)))"
  by pat_completeness auto
termination
proof (relation "measure length")
  fix s r c x
  assume "s \<noteq> []" "r = drop 2 s" "dropWhile name_char r = c # x"
  then show "(x, s) \<in> measure length" using length_dropWhile_le [of name_char r] by (cases s) auto
next
  fix s tag a as x
  assume "s \<noteq> []" "read_attributes (dropWhile name_char (tl s)) = Some a" "(as, x) = a"
  then have "length x < length (dropWhile name_char (tl s))" using read_attributes_length by blast
  then show "(x, s) \<in> measure length" using length_dropWhile_le [of name_char "tl s"] by simp
next
  fix s :: string
  assume "s \<noteq> []" "hd s \<noteq> CHR ''<''"
  then show "(dropWhile (\<lambda>c. c \<noteq> CHR ''<'') s, s) \<in> measure length"
    using length_dropWhile_le [of "\<lambda>c. c \<noteq> CHR ''<''" "tl s"] by (cases s) auto
qed simp

declare tokenize.simps [simp del]

section \<open>What the markup should be\<close>

text \<open>The attribute of a property, if it has one; without a value for a property that is only there or not.\<close>

definition attribute_of ::
    "dom_env \<Rightarrow> dom_property \<Rightarrow> (string \<Rightarrow> bool) \<Rightarrow> string \<times> js_value \<Rightarrow> (string \<times> string option) list" where
  "attribute_of env p is_event kv =
     (let k = fst kv; v = style_value env k (snd kv)
      in if nullish (snd kv) \<or> is_event k then []
         else if is_standard p k then
           (if shouldIgnoreValue env p k v then []
            else [(attribute_name p k, if flag (hasBooleanValue p) k \<or> flag (hasOverloadedBooleanValue p) k \<and> v = Bool True
                    then None else Some (to_string env v))])
         else if isCustomAttribute p k \<and> \<not> nullish v then [(k, Some (to_string env v))]
         else [])"

definition chars :: "string \<Rightarrow> token list" where
  "chars t = (if t = '''' then [] else [Chars t])"

fun tokens_of :: "dom_env \<Rightarrow> dom_property \<Rightarrow> (string \<Rightarrow> bool) \<Rightarrow> string \<Rightarrow> dom_component \<Rightarrow> token list"
  and tokens_of_children :: "dom_env \<Rightarrow> dom_property \<Rightarrow> (string \<Rightarrow> bool) \<Rightarrow> string \<Rightarrow> (string \<times> dom_component) list \<Rightarrow> token list" where
  "tokens_of env p is_event rootID (TextComponent t) =
     [StartTag ''span'' [(ID_ATTRIBUTE_NAME, Some rootID)]] @ chars t @ [EndTag ''span'']"
| "tokens_of env p is_event rootID (DomComponent tag props kids) =
     [StartTag tag (concat (map (attribute_of env p is_event) props) @ [(ID_ATTRIBUTE_NAME, Some rootID)])] @
     (case content_of env props of
        TextContent t \<Rightarrow> chars (content_prefix tag @ t)
      | ChildContent \<Rightarrow> chars (content_prefix tag) @ tokens_of_children env p is_event rootID kids
      | _ \<Rightarrow> chars (content_prefix tag)) @
     (if tag \<in> set omittedCloseTags then [] else [EndTag tag])"
| "tokens_of_children env p is_event rootID [] = []"
| "tokens_of_children env p is_event rootID ((name, kid) # kids) =
     tokens_of env p is_event (rootID @ name) kid @ tokens_of_children env p is_event rootID kids"

text \<open>No component sets its markup itself, and none is an element with raw text. Tags are valid.\<close>

fun readable :: "dom_component \<Rightarrow> bool" where
  "readable (TextComponent t) = True"
| "readable (DomComponent tag props kids) =
     (valid_tag tag \<and> toLowerCase tag \<notin> set raw_text_tags \<and> nullish (get_member props ''dangerouslySetInnerHTML'') \<and>
      list_all (\<lambda>nc. readable (snd nc)) kids)"

text \<open>The names of attributes in the tables.\<close>

definition attribute_name_ok :: "string \<Rightarrow> bool" where
  "attribute_name_ok n \<longleftrightarrow> n \<noteq> [] \<and> list_all name_char n"

definition safe_names :: "dom_property \<Rightarrow> bool" where
  "safe_names p \<longleftrightarrow> (\<forall>k. (is_standard p k \<longrightarrow> attribute_name_ok (attribute_name p k)) \<and>
     (isCustomAttribute p k \<longrightarrow> attribute_name_ok k))"

section \<open>Text and attributes are read back\<close>

lemma decode_plain: "c \<noteq> CHR ''&'' \<Longrightarrow> decode (c # s) = c # decode s"
  by (simp add: entities_def)

lemma decode_escaper: "decode (escaper c @ s) = c # decode s"
  by (simp add: escaper_def decode_plain) (simp add: entities_def)

lemma decode_escape: "decode (escapeTextContentForBrowser s) = s"
  by (induction s) (simp_all add: escapeTextContentForBrowser_def decode_escaper del: decode.simps(2))

lemma escape_free: "c \<in> set (escapeTextContentForBrowser s) \<Longrightarrow> c \<noteq> CHR ''<'' \<and> c \<noteq> CHR ''>'' \<and> c \<noteq> CHR 0x22"
  by (auto simp: escapeTextContentForBrowser_def escaper_def split: if_splits)

lemma escape_empty [simp]: "escapeTextContentForBrowser [] = []"
  by (simp add: escapeTextContentForBrowser_def)

lemma escape_Nil [simp]: "escapeTextContentForBrowser s = [] \<longleftrightarrow> s = []"
  by (cases s) (simp_all add: escapeTextContentForBrowser_def escaper_def)

lemma escape_append: "escapeTextContentForBrowser (s @ t) = escapeTextContentForBrowser s @ escapeTextContentForBrowser t"
  by (simp add: escapeTextContentForBrowser_def)

text \<open>A rest that does not continue a name.\<close>

definition name_ends :: "string \<Rightarrow> bool" where
  "name_ends r \<longleftrightarrow> r = [] \<or> \<not> name_char (hd r)"

lemma name_split:
  assumes "list_all name_char n" "name_ends r"
  shows "takeWhile name_char (n @ r) = n" "dropWhile name_char (n @ r) = r"
  using assms by (cases r; simp add: name_ends_def list_all_iff takeWhile_append dropWhile_append; fail)+

lemma special_no_name [simp]:
  "\<not> name_char CHR ''>''" "\<not> name_char CHR '' ''" "\<not> name_char CHR ''=''" "\<not> name_char CHR ''<''" "\<not> name_char CHR ''/''"
  by (simp_all add: name_char_def letter_def lower_letter_def upper_letter_def digit_def)

definition with_attributes ::
    "(string \<times> string option) list \<Rightarrow> ((string \<times> string option) list \<times> string) option \<Rightarrow> ((string \<times> string option) list \<times> string) option" where
  "with_attributes as r = map_option (\<lambda>(bs, x). (as @ bs, x)) r"

lemma with_attributes_simps: "with_attributes [] r = r" "with_attributes as (with_attributes bs r) = with_attributes (as @ bs) r"
  by (cases r; auto simp: with_attributes_def)+

lemma read_value:
  assumes "attribute_name_ok n"
  shows "read_attributes ('' '' @ n @ ''='' @ quoteAttributeValueForBrowser v @ r) = with_attributes [(n, Some v)] (read_attributes r)"
proof -
  let ?q = "quoteAttributeValueForBrowser v @ r"
  have n: "takeWhile name_char (n @ ''='' @ ?q) = n" "dropWhile name_char (n @ ''='' @ ?q) = ''='' @ ?q" "n \<noteq> []"
    using assms name_split [of n "''='' @ ?q"] by (simp_all add: attribute_name_ok_def name_ends_def)
  have q: "?q = CHR 0x22 # escapeTextContentForBrowser v @ CHR 0x22 # r"
    by (simp add: quoteAttributeValueForBrowser_def)
  have v: "takeWhile (\<lambda>c. c \<noteq> CHR 0x22) (escapeTextContentForBrowser v @ CHR 0x22 # r) = escapeTextContentForBrowser v"
    "dropWhile (\<lambda>c. c \<noteq> CHR 0x22) (escapeTextContentForBrowser v @ CHR 0x22 # r) = CHR 0x22 # r"
    using escape_free by (auto simp: takeWhile_append dropWhile_append)
  show ?thesis
    using n by (subst read_attributes.simps) (simp add: q v decode_escape Let_def with_attributes_def)
qed

lemma read_flag:
  assumes "attribute_name_ok n" "r = CHR '' '' # r' \<or> r = CHR ''>'' # r'"
  shows "read_attributes ('' '' @ n @ r) = with_attributes [(n, None)] (read_attributes r)"
proof -
  have n: "takeWhile name_char (n @ r) = n" "dropWhile name_char (n @ r) = r" "n \<noteq> []"
    using assms name_split [of n r] by (auto simp: attribute_name_ok_def name_ends_def)
  have "take 2 r \<noteq> [CHR ''='', CHR 0x22]" using assms(2) by auto
  then show ?thesis using n by (subst read_attributes.simps) (simp add: Let_def with_attributes_def)
qed

lemma read_end: "read_attributes (CHR ''>'' # r) = Some ([], r)"
  by (subst read_attributes.simps) simp

text \<open>The markup of one property.\<close>

lemma property_markup:
  assumes "safe_names p" "\<not> nullish v" "\<not> is_event k" "r = CHR '' '' # r' \<or> r = CHR ''>'' # r'"
  shows "read_attributes (case createMarkupForProperty env p k (style_value env k v) of
      Some markup \<Rightarrow> if markup \<noteq> '''' then '' '' @ markup @ r else r | None \<Rightarrow> r) =
    with_attributes (attribute_of env p is_event (k, v)) (read_attributes r)"
proof (cases "is_standard p k")
  case True
  then have n: "attribute_name_ok (attribute_name p k)" using assms(1) by (simp add: safe_names_def)
  then have "attribute_name p k \<noteq> []" by (simp add: attribute_name_ok_def)
  then show ?thesis
    using True assms read_value [OF n] read_flag [OF n assms(4)]
    by (auto simp: createMarkupForProperty_def attribute_of_def Let_def with_attributes_simps)
next
  case False
  show ?thesis
  proof (cases "isCustomAttribute p k")
    case True
    then have n: "attribute_name_ok k" using assms(1) by (simp add: safe_names_def)
    then show ?thesis using True False assms read_value [OF n]
      by (auto simp: createMarkupForProperty_def attribute_of_def Let_def with_attributes_simps)
  next
    case no: False
    then show ?thesis using False assms
      by (auto simp: createMarkupForProperty_def attribute_of_def Let_def with_attributes_simps)
  qed
qed

text \<open>All properties: what is written begins with a space, so a name before it ends there.\<close>

lemma open_tag_starts:
  assumes "r = CHR '' '' # r' \<or> r = CHR ''>'' # r'"
  shows "\<exists>r''. fst (open_tag_loop env p is_event rootID props) @ r = CHR '' '' # r'' \<or>
    fst (open_tag_loop env p is_event rootID props) @ r = CHR ''>'' # r''"
  using assms by (induction env p is_event rootID props rule: open_tag_loop.induct) (auto simp: Let_def case_prod_unfold split: option.split)

lemma open_tag_read:
  assumes "safe_names p" "r = CHR '' '' # r' \<or> r = CHR ''>'' # r'"
  shows "read_attributes (fst (open_tag_loop env p is_event rootID props) @ r) =
    with_attributes (concat (map (attribute_of env p is_event) props)) (read_attributes r)"
proof (induction props)
  case Nil
  then show ?case by (simp add: with_attributes_simps)
next
  case (Cons kv props)
  obtain k v where kv: "kv = (k, v)" by (cases kv)
  let ?r = "fst (open_tag_loop env p is_event rootID props) @ r"
  show ?case
  proof (cases "nullish v \<or> is_event k")
    case True
    then show ?thesis using Cons by (auto simp: kv attribute_of_def Let_def case_prod_unfold)
  next
    case False
    obtain r'' where r: "?r = CHR '' '' # r'' \<or> ?r = CHR ''>'' # r''" using open_tag_starts [OF assms(2)] by blast
    have "fst (open_tag_loop env p is_event rootID (kv # props)) @ r =
        (case createMarkupForProperty env p k (style_value env k v) of
           Some markup \<Rightarrow> if markup \<noteq> '''' then '' '' @ markup @ ?r else ?r | None \<Rightarrow> ?r)"
      using False by (simp add: kv Let_def case_prod_unfold split: option.split)
    also have "read_attributes \<dots> = with_attributes (attribute_of env p is_event (k, v)) (read_attributes ?r)"
      using False by (intro property_markup [OF assms(1) _ _ r]) auto
    finally show ?thesis using Cons by (simp add: kv with_attributes_simps)
  qed
qed

section \<open>Trees are read back\<close>

definition markup_rest :: "string \<Rightarrow> bool" where
  "markup_rest r \<longleftrightarrow> r = [] \<or> hd r = CHR ''<''"

definition with_tokens :: "token list \<Rightarrow> token list option \<Rightarrow> token list option" where
  "with_tokens ts r = map_option ((@) ts) r"

lemma with_tokens_simps [simp]: "with_tokens [] r = r" "with_tokens ts (with_tokens us r) = with_tokens (ts @ us) r"
  by (cases r; simp add: with_tokens_def)+

lemma with_one_token: "with_tokens [t] r = map_option ((#) t) r"
  by (cases r) (simp_all add: with_tokens_def)

lemma valid_tag_name: "valid_tag tag \<Longrightarrow> tag \<noteq> [] \<and> list_all name_char tag \<and> hd tag \<noteq> CHR ''/''"
  by (auto simp: valid_tag_def name_char_def letter_def lower_letter_def upper_letter_def split: list.splits)

lemma read_start_tag:
  assumes "valid_tag tag" "toLowerCase tag \<notin> set raw_text_tags" "a = CHR '' '' # a' \<or> a = CHR ''>'' # a'"
    "read_attributes a = Some (as, x)"
  shows "tokenize (''<'' @ tag @ a) = with_tokens [StartTag tag as] (tokenize x)"
proof -
  have n: "takeWhile name_char (tag @ a) = tag" "dropWhile name_char (tag @ a) = a"
    using valid_tag_name [OF assms(1)] name_split [of tag a] assms(3) by (auto simp: name_ends_def)
  have "take 2 (''<'' @ tag @ a) \<noteq> ''</''" using valid_tag_name [OF assms(1)] by (cases tag) auto
  then show ?thesis using n assms(2,4) by (subst tokenize.simps) (auto simp: Let_def with_one_token)
qed

lemma read_end_tag:
  assumes "valid_tag tag"
  shows "tokenize (''</'' @ tag @ ''>'' @ x) = with_tokens [EndTag tag] (tokenize x)"
proof -
  have "takeWhile name_char (tag @ ''>'' @ x) = tag" "dropWhile name_char (tag @ ''>'' @ x) = ''>'' @ x"
    using valid_tag_name [OF assms] name_split [of tag "''>'' @ x"] by (auto simp: name_ends_def)
  then show ?thesis by (subst tokenize.simps) (auto simp: Let_def with_one_token)
qed

lemma read_text:
  assumes "markup_rest x"
  shows "tokenize (escapeTextContentForBrowser t @ x) = with_tokens (chars t) (tokenize x)"
proof (cases "t = ''''")
  case True
  then show ?thesis by (simp add: chars_def)
next
  case False
  let ?e = "escapeTextContentForBrowser t"
  have e: "?e \<noteq> []" "\<forall>c \<in> set ?e. c \<noteq> CHR ''<''" using False escape_free by auto
  then have h: "hd (?e @ x) \<noteq> CHR ''<''" "take 2 (?e @ x) \<noteq> ''</''" by (cases ?e; auto)+
  have "takeWhile (\<lambda>c. c \<noteq> CHR ''<'') (?e @ x) = ?e" "dropWhile (\<lambda>c. c \<noteq> CHR ''<'') (?e @ x) = x"
    using e(2) assms by (cases x; simp add: takeWhile_append dropWhile_append markup_rest_def)+
  then show ?thesis using e(1) h False by (subst tokenize.simps) (simp add: Let_def with_one_token chars_def decode_escape)
qed

lemma id_attribute: "read_attributes ('' '' @ createMarkupForID i @ ''>'' @ r) = Some ([(ID_ATTRIBUTE_NAME, Some i)], r)"
proof -
  have "attribute_name_ok ID_ATTRIBUTE_NAME" by (simp add: attribute_name_ok_def ID_ATTRIBUTE_NAME_def name_char_def letter_def
        lower_letter_def upper_letter_def digit_def)
  from read_value [OF this] show ?thesis by (simp add: createMarkupForID_def read_end with_attributes_def)
qed

lemma read_open_tag:
  assumes "safe_names p" "valid_tag tag" "toLowerCase tag \<notin> set raw_text_tags"
  shows "tokenize (fst (createOpenTagMarkupAndPutListeners env p is_event False rootID tag props) @ r) =
    with_tokens [StartTag tag (concat (map (attribute_of env p is_event) props) @ [(ID_ATTRIBUTE_NAME, Some rootID)])] (tokenize r)"
proof -
  let ?r = "'' '' @ createMarkupForID rootID @ ''>'' @ r"
  let ?a = "fst (open_tag_loop env p is_event rootID props) @ ?r"
  have sp: "?r = CHR '' '' # tl ?r \<or> ?r = CHR ''>'' # tl ?r" by simp
  have "read_attributes ?a = Some (concat (map (attribute_of env p is_event) props) @ [(ID_ATTRIBUTE_NAME, Some rootID)], r)"
    using open_tag_read [OF assms(1) sp] id_attribute by (simp add: with_attributes_def)
  moreover obtain a' where "?a = CHR '' '' # a' \<or> ?a = CHR ''>'' # a'" using open_tag_starts [OF sp] by blast
  moreover have "fst (createOpenTagMarkupAndPutListeners env p is_event False rootID tag props) @ r = ''<'' @ tag @ ?a"
    by (simp add: createOpenTagMarkupAndPutListeners_def Let_def case_prod_unfold)
  ultimately show ?thesis using read_start_tag [OF assms(2,3)] by metis
qed

lemma content_prefix_text: "content_prefix tag @ escapeTextContentForBrowser t = escapeTextContentForBrowser (content_prefix tag @ t)"
  by (simp add: escape_append content_prefix_def escapeTextContentForBrowser_def escaper_def)

lemma read_close_tag:
  assumes "valid_tag tag"
  shows "tokenize (closeTag tag @ x) = with_tokens (if tag \<in> set omittedCloseTags then [] else [EndTag tag]) (tokenize x)"
  using read_end_tag [OF assms] by (simp add: closeTag_def)

lemma close_tag_rest: "markup_rest x \<Longrightarrow> markup_rest (closeTag tag @ x)"
  by (simp add: closeTag_def markup_rest_def)

lemma tokens_read:
  "mountComponent env p is_event False rootID c = Inr (m, ls) \<Longrightarrow> safe_names p \<Longrightarrow> readable c \<Longrightarrow> markup_rest r \<Longrightarrow>
      markup_rest (m @ r) \<and> tokenize (m @ r) = with_tokens (tokens_of env p is_event rootID c) (tokenize r)"
  "mountChildren env p is_event False rootID kids = Inr (m, ls) \<Longrightarrow> safe_names p \<Longrightarrow> list_all (\<lambda>nc. readable (snd nc)) kids \<Longrightarrow>
      markup_rest r \<Longrightarrow>
      markup_rest (m @ r) \<and> tokenize (m @ r) = with_tokens (tokens_of_children env p is_event rootID kids) (tokenize r)"
proof (induction env p is_event rootID c and env p is_event rootID kids arbitrary: m ls r and m ls r rule: tokens_of_tokens_of_children.induct)
  case (1 env p is_event rootID t)
  let ?closing = "''</span>'' @ r"
  have m: "m @ r = ''<'' @ ''span'' @ '' '' @ createMarkupForID rootID @ ''>'' @ escapeTextContentForBrowser t @ ?closing"
    using "1.prems"(1) by auto
  have v: "valid_tag ''span''" "toLowerCase ''span'' \<notin> set raw_text_tags"
    by code_simp+
  have "tokenize ?closing = with_tokens [EndTag ''span''] (tokenize r)"
    using read_end_tag [OF v(1), of r] by simp
  moreover have "tokenize (escapeTextContentForBrowser t @ ?closing) = with_tokens (chars t) (tokenize ?closing)"
    by (rule read_text) (simp add: markup_rest_def)
  moreover have "tokenize (m @ r) = with_tokens [StartTag ''span'' [(ID_ATTRIBUTE_NAME, Some rootID)]]
      (tokenize (escapeTextContentForBrowser t @ ?closing))"
    unfolding m by (rule read_start_tag [OF v _ id_attribute]) simp
  ultimately show ?case using m by (simp add: markup_rest_def)
next
  case (2 env p is_event rootID tag props kids)
  let ?open = "createOpenTagMarkupAndPutListeners env p is_event False rootID tag props"
  have tag: "valid_tag tag" "toLowerCase tag \<notin> set raw_text_tags" and html: "nullish (get_member props ''dangerouslySetInnerHTML'')"
    using "2.prems"(3) by simp_all
  have starts: "markup_rest (fst ?open @ x)" for x
    by (simp add: createOpenTagMarkupAndPutListeners_def Let_def case_prod_unfold markup_rest_def)
  have opened: "tokenize (fst ?open @ x) = with_tokens [StartTag tag (concat (map (attribute_of env p is_event) props) @
      [(ID_ATTRIBUTE_NAME, Some rootID)])] (tokenize x)" for x
    by (rule read_open_tag [OF "2.prems"(2) tag])
  have closed: "markup_rest (closeTag tag @ r)"
    "tokenize (closeTag tag @ r) = with_tokens (if tag \<in> set omittedCloseTags then [] else [EndTag tag]) (tokenize r)"
    using close_tag_rest [OF "2.prems"(4)] read_close_tag [OF tag(1)] by auto
  have words: "tokenize (content_prefix tag @ escapeTextContentForBrowser t @ x) = with_tokens (chars (content_prefix tag @ t)) (tokenize x)"
    if "markup_rest x" for t x
    using read_text [OF that, of "content_prefix tag @ t"] by (simp add: content_prefix_text [symmetric])
  have none: "assertValidProps props = None" using "2.prems"(1) by (auto split: option.splits)
  note mounted = "2.prems"(1) [simplified, unfolded none option.case Let_def case_prod_unfold]
  show ?case
  proof (cases "content_of env props")
    case (HtmlContent h)
    then show ?thesis using html by (auto simp: content_of_def Let_def split: if_splits)
  next
    case (TextContent t)
    then have "m = fst ?open @ content_prefix tag @ escapeTextContentForBrowser t @ closeTag tag" using mounted by simp
    then show ?thesis using starts opened words [OF closed(1)] closed(2) by (simp add: TextContent)
  next
    case ChildContent
    then obtain ms ls' where kids: "mountChildren env p is_event False rootID kids = Inr (ms, ls')"
      "m = fst ?open @ content_prefix tag @ ms @ closeTag tag"
      using mounted by (auto split: if_splits sum.splits)
    have "markup_rest (ms @ closeTag tag @ r) \<and>
        tokenize (ms @ closeTag tag @ r) = with_tokens (tokens_of_children env p is_event rootID kids) (tokenize (closeTag tag @ r))"
      using "2.prems"(2,3) by (intro "2.IH" [OF ChildContent kids(1)] closed(1)) simp_all
    then show ?thesis using starts opened words [of "ms @ closeTag tag @ r" "''''"] closed(2) by (simp add: ChildContent kids(2))
  next
    case NoContent
    then have "m = fst ?open @ content_prefix tag @ closeTag tag" using mounted by simp
    then show ?thesis using starts opened words [OF closed(1), of "''''"] closed(2) by (simp add: NoContent)
  qed
next
  case (3 env p is_event rootID)
  then show ?case by simp
next
  case (4 env p is_event rootID name kid kids)
  then obtain m1 l1 m2 l2 where m: "mountComponent env p is_event False (rootID @ name) kid = Inr (m1, l1)"
    "mountChildren env p is_event False rootID kids = Inr (m2, l2)" "m = m1 @ m2"
    by (auto split: sum.splits)
  have later: "markup_rest (m2 @ r) \<and> tokenize (m2 @ r) = with_tokens (tokens_of_children env p is_event rootID kids) (tokenize r)"
    using "4.prems" by (intro "4.IH"(2) [OF m(2)]) simp_all
  then show ?case using "4.IH"(1) [OF m(1), of "m2 @ r"] "4.prems" by (simp add: m(3))
qed

lemma html_names_ok: "list_all (\<lambda>np. attribute_name_ok (configured_name (HTMLDOMPropertyConfig b) (fst np))) (Properties (HTMLDOMPropertyConfig b))"
  by (simp add: HTMLDOMPropertyConfig_def configured_name_def toLowerCase_def lower_char_def attribute_name_ok_def name_char_def
      letter_def lower_letter_def upper_letter_def digit_def)

lemma svg_names_ok: "list_all (\<lambda>np. attribute_name_ok (configured_name SVGDOMPropertyConfig (fst np))) (Properties SVGDOMPropertyConfig)"
  by (simp add: SVGDOMPropertyConfig_def configured_name_def toLowerCase_def lower_char_def attribute_name_ok_def name_char_def
      letter_def lower_letter_def upper_letter_def digit_def)

lemma custom_name_ok: "data_or_aria k \<Longrightarrow> attribute_name_ok k"
proof -
  assume k: "data_or_aria k"
  then have "take 5 k = ''data-'' \<or> take 5 k = ''aria-''" by (simp add: data_or_aria_def)
  then have "list_all name_char (take 5 k)"
    by (auto simp: name_char_def letter_def lower_letter_def upper_letter_def digit_def)
  moreover have "drop 5 k \<noteq> []" "list_all name_char (drop 5 k)"
    using k by (auto simp: data_or_aria_def name_char_def letter_def list_all_iff split: list.splits)
  ultimately have "k \<noteq> []" "list_all name_char (take 5 k @ drop 5 k)" unfolding list_all_append by auto
  then show ?thesis by (simp add: attribute_name_ok_def)
qed

lemma default_safe_names:
  assumes "default_injection b empty_dom_property = Some (Inr (), p)"
  shows "safe_names p"
proof -
  let ?h = "HTMLDOMPropertyConfig b" and ?s = SVGDOMPropertyConfig
  have p: "isCustomAttributeFunctions p = [data_or_aria]"
    "\<And>k. isStandardName p k = (if k \<in> fst ` set (Properties ?h) \<union> fst ` set (Properties ?s) then Some True else None)"
    "\<And>k. getAttributeName p k = (if k \<in> fst ` set (Properties ?s) then Some (configured_name ?s k)
        else if k \<in> fst ` set (Properties ?h) then Some (configured_name ?h k) else None)"
    using default_injected [of b] assms by auto
  have "attribute_name_ok (attribute_name p k)" if "is_standard p k" for k
    using that html_names_ok [of b] svg_names_ok
    by (auto simp: is_standard_def flag_def p attribute_name_def list_all_iff split: if_splits)
  moreover have "attribute_name_ok k" if "isCustomAttribute p k" for k
    using that custom_name_ok by (auto simp: isCustomAttribute_def p)
  ultimately show ?thesis by (simp add: safe_names_def)
qed

text \<open>
  C38. Markup says what the components are. When a tree of native components is mounted with the tables that React
  injects, the markup the browser is given, read by the reader of this theory, consists of exactly the tags of the
  components, with the attributes their properties stand for and the id, and of their texts, in order. Whatever the
  values, texts and ids contain, they are read back as they were, and nothing of them is read as a tag or an
  attribute. Components that set their markup themselves and elements with raw text are left out.
\<close>
theorem markup_reads_back:
  assumes "default_injection hasSVG empty_dom_property = Some (Inr (), p)" "readable c"
    and "mountComponent env p is_event False rootID c = Inr (markup, listeners)"
  shows "tokenize markup = Some (tokens_of env p is_event rootID c)"
proof -
  have "tokenize [] = Some []" by (simp add: tokenize.simps)
  then show ?thesis
    using tokens_read(1) [OF assms(3) default_safe_names [OF assms(1)] assms(2), of "[]"]
    by (simp add: markup_rest_def with_tokens_def)
qed

text \<open>A text and an attribute that try to be tags.\<close>

definition demo_env :: dom_env where
  "demo_env = \<lparr>to_string = (\<lambda>v. case v of Str s \<Rightarrow> s | _ \<Rightarrow> ''object''), to_number = (\<lambda>v. None), styleFloatAccessor = ''cssFloat'',
     mutate = (\<lambda>f v node. node), default_value = (\<lambda>n. Str '''')\<rparr>"

definition demo_component :: dom_component where
  "demo_component = DomComponent ''p'' [(''data-a'', Str [CHR 0x22, CHR ''>'']), (''onClick'', Func 3), (''children'', Arr 0 [])]
     [(''.0'', TextComponent ''<b>''), (''.1'', DomComponent ''br'' [] [])]"

lemma demo_readable: "readable demo_component"
  by (simp add: demo_component_def valid_tag_def name_char_def letter_def lower_letter_def toLowerCase_def lower_char_def raw_text_tags_def
      get_member_def nullish_def object_prototype_keys_def)

theorem markup_reads_back_witness:
  "\<exists>p markup. default_injection True empty_dom_property = Some (Inr (), p) \<and>
     mountComponent demo_env p (\<lambda>k. k = ''onClick'') False ''.r'' demo_component = Inr (markup, [(''.r'', ''onClick'', Listener 3)]) \<and>
     tokenize markup = Some
       [StartTag ''p'' [(''data-a'', Some [CHR 0x22, CHR ''>'']), (''data-reactid'', Some ''.r'')],
        StartTag ''span'' [(''data-reactid'', Some ''.r.0'')], Chars ''<b>'', EndTag ''span'',
        StartTag ''br'' [(''data-reactid'', Some ''.r.1'')], EndTag ''p'']"
proof -
  obtain p where p: "default_injection True empty_dom_property = Some (Inr (), p)" "isCustomAttributeFunctions p = [data_or_aria]"
    "\<forall>k. isStandardName p k = (if k \<in> fst ` set (Properties (HTMLDOMPropertyConfig True)) \<union> fst ` set (Properties SVGDOMPropertyConfig)
        then Some True else None)"
    using default_injected [of True] by auto
  have d: "\<not> is_standard p ''data-a''" "isCustomAttribute p ''data-a''" "\<not> is_standard p ''children''" "\<not> isCustomAttribute p ''children''"
    using p(2,3) by (simp_all add: is_standard_def flag_def isCustomAttribute_def data_or_aria_def lower_letter_def HTMLDOMPropertyConfig_def
        SVGDOMPropertyConfig_def)
  have "\<exists>markup. mountComponent demo_env p (\<lambda>k. k = ''onClick'') False ''.r'' demo_component = Inr (markup, [(''.r'', ''onClick'', Listener 3)])"
    using d by (simp add: demo_component_def assertValidProps_def content_of_def get_member_def nullish_def object_prototype_keys_def Let_def
        createOpenTagMarkupAndPutListeners_def createMarkupForProperty_def style_value_def listener_value_of_def valid_tag_def name_char_def letter_def
        lower_letter_def)
  then obtain markup where m: "mountComponent demo_env p (\<lambda>k. k = ''onClick'') False ''.r'' demo_component =
      Inr (markup, [(''.r'', ''onClick'', Listener 3)])" ..
  have "tokens_of demo_env p (\<lambda>k. k = ''onClick'') ''.r'' demo_component =
      [StartTag ''p'' [(''data-a'', Some [CHR 0x22, CHR ''>'']), (''data-reactid'', Some ''.r'')],
        StartTag ''span'' [(''data-reactid'', Some ''.r.0'')], Chars ''<b>'', EndTag ''span'',
        StartTag ''br'' [(''data-reactid'', Some ''.r.1'')], EndTag ''p'']"
    using d by (simp add: demo_component_def attribute_of_def style_value_def content_of_def get_member_def nullish_def
        object_prototype_keys_def chars_def content_prefix_def omittedCloseTags_def ID_ATTRIBUTE_NAME_def demo_env_def)
  then show ?thesis using p(1) m markup_reads_back [OF p(1) demo_readable m] by auto
qed

end
