(* ===== verification/ReactDOMComponent.thy ===== *)
theory ReactDOMComponent
  imports ReactMarkup
begin

text \<open>
  The update of a native component that is in the document (\<open>ReactDOMComponent.receiveComponent\<close> and what it calls,
  with \<open>ReactDOMIDOperations\<close>, in \<open>webfiles/react.js\<close>): styles, listeners and properties are compared with those of
  the element before, and the differences are applied to the node; so is the content.

  The state is that of the event hub with the node of one component and the variables of its instance. What the
  update of the children does to them is in ReactMultiChild; here the node's content is only what is shown in it.
  Changes of the content take effect at once, as they do unless the component is updated as the child of another.
  \<open>listenTo\<close>, which attaches the top level listeners to the document, is left out.

  The theorem is that after any series of updates the node shows the last element alone. It needs that a style is
  never set to null explicitly: the code does not forget the old style then (\<open>style_lost_after_null\<close>).
\<close>

section \<open>The state\<close>

datatype node_content = EmptyContent | ShownText string | ShownHtml string | ShownChildren js_value

record ('p, 'n) dom_client = "('p, nat, 'n) hub" +
  client_node :: dom_node
  currentProps :: members
  previousStyleCopy :: "members option"
  styleUpdates :: "members option"
  putListenerQueue :: "nat listener_to_put list"
  node_content :: node_content

text \<open>The operations on the node of an id; the two names are refused.\<close>

definition INVALID_PROPERTY_ERRORS :: "string list" where
  "INVALID_PROPERTY_ERRORS = [''dangerouslySetInnerHTML'', ''style'']"

definition change_node :: "(dom_node \<Rightarrow> dom_node) \<Rightarrow> (unit, ('p, 'n) dom_client) cmd" where
  "change_node f = modify (\<lambda>s. s\<lparr>client_node := f (client_node s)\<rparr>)"

definition updatePropertyByID :: "dom_env \<Rightarrow> dom_property \<Rightarrow> string \<Rightarrow> js_value \<Rightarrow> (unit, ('p, 'n) dom_client) cmd" where
  "updatePropertyByID env p name v =
     after (invariant (\<lambda>s. name \<notin> set INVALID_PROPERTY_ERRORS) ''updatePropertyByID'')
       (change_node (if \<not> nullish v then setValueForProperty env p name v else deleteValueForProperty env p name))"

definition deletePropertyByID :: "dom_env \<Rightarrow> dom_property \<Rightarrow> string \<Rightarrow> (unit, ('p, 'n) dom_client) cmd" where
  "deletePropertyByID env p name =
     after (invariant (\<lambda>s. name \<notin> set INVALID_PROPERTY_ERRORS) ''updatePropertyByID'')
       (change_node (deleteValueForProperty env p name))"

definition updateStylesByID :: "dom_env \<Rightarrow> members \<Rightarrow> (unit, ('p, 'n) dom_client) cmd" where
  "updateStylesByID env styles = change_node (setValueForStyles env styles)"

section \<open>The update of the properties\<close>

text \<open>\<open>styleUpdates = styleUpdates || {}; styleUpdates[name] = v\<close>\<close>

definition put_update :: "string \<Rightarrow> js_value \<Rightarrow> members option \<Rightarrow> members option" where
  "put_update name v u = Some (js_put name v (case u of Some ms \<Rightarrow> ms | None \<Rightarrow> []))"

definition unset_updates :: "members \<Rightarrow> (string \<Rightarrow> bool) \<Rightarrow> members option \<Rightarrow> members option" where
  "unset_updates lastStyle gone u = fold (\<lambda>(name, v) u. if gone name then put_update name (Str '''') u else u) lastStyle u"

definition changed_updates :: "members \<Rightarrow> members \<Rightarrow> members option \<Rightarrow> members option" where
  "changed_updates lastStyle nextStyle u =
     fold (\<lambda>(name, v) u. if \<not> strict_eq (get_member lastStyle name) v then put_update name v u else u) nextStyle u"

text \<open>The first loop.\<close>

definition drop_property ::
    "dom_env \<Rightarrow> dom_property \<Rightarrow> (string \<Rightarrow> bool) \<Rightarrow> string \<Rightarrow> members \<Rightarrow> string \<Rightarrow> (unit, ('p, 'n) dom_client) cmd" where
  "drop_property env p is_event rootID nextProps propKey =
     (if map_of nextProps propKey \<noteq> None then ret ()
      else if propKey = ''style'' then
        modify (\<lambda>s. s\<lparr>styleUpdates := unset_updates (case previousStyleCopy s of Some c \<Rightarrow> c | None \<Rightarrow> []) (\<lambda>_. True) (styleUpdates s),
          previousStyleCopy := None\<rparr>)
      else if is_event propKey then deleteListener rootID propKey
      else if is_standard p propKey \<or> isCustomAttribute p propKey then deletePropertyByID env p propKey
      else ret ())"

text \<open>The copy that is kept of a style; the copy itself is never the style of an element.\<close>

definition style_copy :: "js_value \<Rightarrow> members option" where
  "style_copy v = (if truthy v then Some (own_members v) else None)"

definition update_style :: "js_value \<Rightarrow> ('p, 'n) dom_client \<Rightarrow> ('p, 'n) dom_client" where
  "update_style nextProp s =
     (let lastProp = previousStyleCopy s; nextCopy = style_copy nextProp;
          s1 = (if truthy nextProp then s\<lparr>previousStyleCopy := nextCopy\<rparr> else s)
      in if lastProp = None \<and> nextProp = Null then s
         else case lastProp of
           Some lastStyle \<Rightarrow> s1\<lparr>styleUpdates :=
             changed_updates lastStyle (case nextCopy of Some c \<Rightarrow> c | None \<Rightarrow> [])
               (unset_updates lastStyle (\<lambda>name. case nextCopy of Some c \<Rightarrow> map_of c name = None | None \<Rightarrow> True) (styleUpdates s1))\<rparr>
         | None \<Rightarrow> s1\<lparr>styleUpdates := nextCopy\<rparr>)"

text \<open>The second loop.\<close>

definition update_property ::
    "dom_env \<Rightarrow> dom_property \<Rightarrow> (string \<Rightarrow> bool) \<Rightarrow> string \<Rightarrow> members \<Rightarrow> string \<times> js_value \<Rightarrow> (unit, ('p, 'n) dom_client) cmd" where
  "update_property env p is_event rootID lastProps kv = (let propKey = fst kv; nextProp = snd kv in
     if propKey = ''style'' then modify (update_style nextProp)
     else if strict_eq nextProp (get_member lastProps propKey) then ret ()
     else if is_event propKey then
       modify (\<lambda>s. s\<lparr>putListenerQueue := enqueuePutListener rootID propKey (listener_value_of nextProp) (putListenerQueue s)\<rparr>)
     else if is_standard p propKey \<or> isCustomAttribute p propKey then updatePropertyByID env p propKey nextProp
     else ret ())"

definition flush_styles :: "dom_env \<Rightarrow> (unit, ('p, 'n) dom_client) cmd" where
  "flush_styles env = (\<lambda>s. case styleUpdates s of Some u \<Rightarrow> updateStylesByID env u s | None \<Rightarrow> ret () s)"

definition updateDOMProperties ::
    "dom_env \<Rightarrow> dom_property \<Rightarrow> (string \<Rightarrow> bool) \<Rightarrow> string \<Rightarrow> members \<Rightarrow> (unit, ('p, 'n) dom_client) cmd" where
  "updateDOMProperties env p is_event rootID lastProps = (\<lambda>s. let nextProps = currentProps s in
     after (modify (\<lambda>s. s\<lparr>styleUpdates := None\<rparr>))
       (after (foreach (drop_property env p is_event rootID nextProps) (map fst lastProps))
         (after (foreach (update_property env p is_event rootID lastProps) nextProps) (flush_styles env))) s)"

section \<open>The update of the content\<close>

text \<open>\<open>CONTENT_TYPES[typeof children] ? children : null\<close>\<close>

definition content_to_use :: "js_value \<Rightarrow> js_value" where
  "content_to_use children = (if typeof children = ''string'' \<or> typeof children = ''number'' then children else Null)"

definition children_to_use :: "js_value \<Rightarrow> js_value" where
  "children_to_use children = (if \<not> nullish (content_to_use children) then Null else children)"

text \<open>\<open>v && v.__html\<close>\<close>

definition html_to_use :: "js_value \<Rightarrow> js_value" where
  "html_to_use v = (if truthy v then member_of v ''__html'' else v)"

text \<open>What the operations leave in the node.\<close>

definition text_content :: "string \<Rightarrow> node_content" where
  "text_content t = (if t = '''' then EmptyContent else ShownText t)"

definition html_content :: "string \<Rightarrow> node_content" where
  "html_content t = (if t = '''' then EmptyContent else ShownHtml t)"

definition updateTextContent :: "string \<Rightarrow> (unit, ('p, 'n) dom_client) cmd" where
  "updateTextContent t = modify (\<lambda>s. s\<lparr>node_content := text_content t\<rparr>)"

definition updateInnerHTMLByID :: "string \<Rightarrow> (unit, ('p, 'n) dom_client) cmd" where
  "updateInnerHTMLByID html = modify (\<lambda>s. s\<lparr>node_content := html_content html\<rparr>)"

definition show_children :: "js_value \<Rightarrow> (unit, ('p, 'n) dom_client) cmd" where
  "show_children children = modify (\<lambda>s. s\<lparr>node_content := (if nullish children then EmptyContent else ShownChildren children)\<rparr>)"

definition updateDOMChildren :: "dom_env \<Rightarrow> members \<Rightarrow> (unit, ('p, 'n) dom_client) cmd" where
  "updateDOMChildren env lastProps = (\<lambda>s.
     let nextProps = currentProps s;
         lastContent = content_to_use (get_member lastProps ''children'');
         nextContent = content_to_use (get_member nextProps ''children'');
         lastHtml = html_to_use (get_member lastProps ''dangerouslySetInnerHTML'');
         nextHtml = html_to_use (get_member nextProps ''dangerouslySetInnerHTML'');
         lastChildren = children_to_use (get_member lastProps ''children'');
         nextChildren = children_to_use (get_member nextProps ''children'');
         lastHasContentOrHtml = (\<not> nullish lastContent \<or> \<not> nullish lastHtml);
         nextHasContentOrHtml = (\<not> nullish nextContent \<or> \<not> nullish nextHtml)
     in after (if \<not> nullish lastChildren \<and> nullish nextChildren then show_children Null
               else if lastHasContentOrHtml \<and> \<not> nextHasContentOrHtml then updateTextContent '''' else ret ())
          (if \<not> nullish nextContent then
             (if \<not> strict_eq lastContent nextContent then updateTextContent (to_string env nextContent) else ret ())
           else if \<not> nullish nextHtml then
             (if \<not> strict_eq lastHtml nextHtml then updateInnerHTMLByID (to_string env nextHtml) else ret ())
           else if \<not> nullish nextChildren then show_children nextChildren else ret ()) s)"

section \<open>Receiving an element, and unmounting\<close>

definition updateComponent ::
    "dom_env \<Rightarrow> dom_property \<Rightarrow> (string \<Rightarrow> bool) \<Rightarrow> string \<Rightarrow> members \<Rightarrow> (unit, ('p, 'n) dom_client) cmd" where
  "updateComponent env p is_event rootID prevProps = (\<lambda>s.
     after (invariant (\<lambda>s. assertValidProps (currentProps s) = None) (case assertValidProps (currentProps s) of Some e \<Rightarrow> e | None \<Rightarrow> ''''))
       (after (updateDOMProperties env p is_event rootID prevProps) (updateDOMChildren env prevProps)) s)"

definition receiveComponent ::
    "dom_env \<Rightarrow> dom_property \<Rightarrow> (string \<Rightarrow> bool) \<Rightarrow> string \<Rightarrow> members \<Rightarrow> (unit, ('p, 'n) dom_client) cmd" where
  "receiveComponent env p is_event rootID nextProps = (\<lambda>s.
     after (modify (\<lambda>s. s\<lparr>currentProps := nextProps\<rparr>)) (updateComponent env p is_event rootID (currentProps s)) s)"

text \<open>The queue is emptied when the transaction closes.\<close>

definition close_putListenerQueue :: "(unit, ('p, 'n) dom_client) cmd" where
  "close_putListenerQueue = (\<lambda>s. after (putListeners (putListenerQueue s)) (modify (\<lambda>s. s\<lparr>putListenerQueue := []\<rparr>)) s)"

definition update_transaction ::
    "dom_env \<Rightarrow> dom_property \<Rightarrow> (string \<Rightarrow> bool) \<Rightarrow> string \<Rightarrow> members \<Rightarrow> (unit, ('p, 'n) dom_client) cmd" where
  "update_transaction env p is_event rootID nextProps =
     after (receiveComponent env p is_event rootID nextProps) close_putListenerQueue"

definition unmount_dom_component :: "string \<Rightarrow> (unit, ('p, 'n) dom_client) cmd" where
  "unmount_dom_component rootID = after (show_children Null) (deleteAllListeners rootID)"

section \<open>What a node shows for a property\<close>

text \<open>The own member of an element's properties.\<close>

definition own :: "members \<Rightarrow> string \<Rightarrow> js_value" where
  "own props k = (case map_of props k of Some v \<Rightarrow> v | None \<Rightarrow> Undefined)"

definition shows_property :: "dom_env \<Rightarrow> dom_property \<Rightarrow> string \<Rightarrow> js_value \<Rightarrow> dom_node \<Rightarrow> bool" where
  "shows_property env p name v node \<longleftrightarrow>
     (if is_standard p name then
        (let ignored = shouldIgnoreValue env p name v; propName = property_name p name;
             w = (if ignored then default_value env propName else v)
         in if flag (mustUseAttribute p) name
            then node_attributes node (attribute_name p name) = (if ignored then None else Some (to_string env v))
            else if flag (hasSideEffects p) name then to_string env (get_property node propName) = to_string env w
            else get_property node propName = w)
      else node_attributes node name = (if nullish v then None else Some (to_string env v)))"

datatype slot = AttributeSlot string | PropertySlot string

definition slot_of :: "dom_property \<Rightarrow> string \<Rightarrow> slot" where
  "slot_of p name = (if is_standard p name then
       (if flag (mustUseAttribute p) name then AttributeSlot (attribute_name p name) else PropertySlot (property_name p name))
     else AttributeSlot name)"

definition managed :: "dom_property \<Rightarrow> (string \<Rightarrow> bool) \<Rightarrow> string \<Rightarrow> bool" where
  "managed p is_event name \<longleftrightarrow> name \<notin> set INVALID_PROPERTY_ERRORS \<and> \<not> is_event name \<and> (is_standard p name \<or> isCustomAttribute p name)"

text \<open>Every property has a place of its own, set by no mutation method.\<close>

definition slots_apart :: "dom_property \<Rightarrow> (string \<Rightarrow> bool) \<Rightarrow> bool" where
  "slots_apart p is_event \<longleftrightarrow> inj_on (slot_of p) {k. managed p is_event k} \<and>
     (\<forall>k. managed p is_event k \<longrightarrow> mutation_method p k = None) \<and>
     (\<forall>k \<in> set INVALID_PROPERTY_ERRORS. \<not> is_event k) \<and>
     \<not> is_standard p ''dangerouslySetInnerHTML'' \<and> \<not> isCustomAttribute p ''dangerouslySetInnerHTML''"

definition env_ok :: "dom_env \<Rightarrow> bool" where
  "env_ok env \<longleftrightarrow> (\<forall>s. to_string env (Str s) = s)"

fun slot_value :: "slot \<Rightarrow> dom_node \<Rightarrow> string option \<times> js_value" where
  "slot_value (AttributeSlot a) node = (node_attributes node a, Undefined)"
| "slot_value (PropertySlot n) node = (None, get_property node n)"

lemma shows_by_slot:
  "slot_value (slot_of p k) node = slot_value (slot_of p k) node' \<Longrightarrow> shows_property env p k v node = shows_property env p k v node'"
  by (auto simp: shows_property_def slot_of_def Let_def split: if_splits)

lemma node_access [simp]:
  "node_attributes (set_attribute a t node) = (node_attributes node)(a \<mapsto> t)"
  "node_attributes (remove_attribute a node) = (node_attributes node)(a := None)"
  "node_attributes (set_property n v node) = node_attributes node"
  "get_property (set_attribute a t node) = get_property node" "get_property (remove_attribute a node) = get_property node"
  "get_property (set_property n v node) = (get_property node)(n := v)"
  "node_style (set_attribute a t node) = node_style node" "node_style (remove_attribute a node) = node_style node"
  "node_style (set_property n v node) = node_style node"
  by (auto simp: set_attribute_def remove_attribute_def set_property_def get_property_def fun_eq_iff)

text \<open>A write changes the place of its property, and shows its value there.\<close>

lemma delete_other_slot:
  assumes "mutation_method p k = None" "sl \<noteq> slot_of p k"
  shows "slot_value sl (deleteValueForProperty env p k node) = slot_value sl node"
  using assms by (cases sl) (auto simp: deleteValueForProperty_def slot_of_def Let_def split: if_splits)

lemma set_other_slot:
  assumes "mutation_method p k = None" "sl \<noteq> slot_of p k"
  shows "slot_value sl (setValueForProperty env p k v node) = slot_value sl node"
proof (cases "is_standard p k \<and> shouldIgnoreValue env p k v")
  case True
  then show ?thesis using delete_other_slot [OF assms] assms(1) by (simp add: setValueForProperty_def)
next
  case False
  then show ?thesis using assms by (cases sl) (auto simp: setValueForProperty_def slot_of_def Let_def split: if_splits)
qed

lemma delete_shows:
  assumes "mutation_method p k = None" "env_ok env" "is_standard p k \<or> isCustomAttribute p k"
    "if is_standard p k then shouldIgnoreValue env p k v else nullish v"
  shows "shows_property env p k v (deleteValueForProperty env p k node)"
  using assms by (auto simp: deleteValueForProperty_def shows_property_def Let_def env_ok_def split: if_splits; metis)

lemma set_shows:
  assumes "mutation_method p k = None" "env_ok env" "is_standard p k \<or> isCustomAttribute p k"
  shows "shows_property env p k v (setValueForProperty env p k v node)"
proof (cases "is_standard p k \<and> shouldIgnoreValue env p k v")
  case True
  then show ?thesis using delete_shows [of p k env v node] assms by (simp add: setValueForProperty_def)
next
  case False
  then show ?thesis using assms
    by (auto simp: setValueForProperty_def shows_property_def Let_def split: if_splits)
qed

lemma write_styles [simp]:
  assumes "mutation_method p k = None"
  shows "node_style (deleteValueForProperty env p k node) = node_style node"
    "node_style (setValueForProperty env p k v node) = node_style node"
  using assms by (auto simp: setValueForProperty_def deleteValueForProperty_def Let_def)

text \<open>The values of all properties, as a function of their names.\<close>

definition shows_properties :: "dom_env \<Rightarrow> dom_property \<Rightarrow> (string \<Rightarrow> bool) \<Rightarrow> (string \<Rightarrow> js_value) \<Rightarrow> dom_node \<Rightarrow> bool" where
  "shows_properties env p is_event V node \<longleftrightarrow> (\<forall>k. managed p is_event k \<longrightarrow> shows_property env p k (V k) node)"

definition written :: "dom_env \<Rightarrow> dom_property \<Rightarrow> string \<Rightarrow> js_value \<Rightarrow> dom_node \<Rightarrow> dom_node" where
  "written env p k v = (if \<not> nullish v then setValueForProperty env p k v else deleteValueForProperty env p k)"

lemma written_shows:
  assumes "slots_apart p is_event" "env_ok env" "managed p is_event k" "shows_properties env p is_event V node"
  shows "shows_properties env p is_event (V(k := v)) (written env p k v node)"
  unfolding shows_properties_def
proof (intro allI impI)
  fix j assume j: "managed p is_event j"
  have mm: "mutation_method p k = None" and std: "is_standard p k \<or> isCustomAttribute p k"
    using assms(1,3) by (auto simp: slots_apart_def managed_def)
  show "shows_property env p j ((V(k := v)) j) (written env p k v node)"
  proof (cases "j = k")
    case True
    then show ?thesis using set_shows [OF mm assms(2) std] delete_shows [OF mm assms(2) std, of v node]
      by (auto simp: written_def shouldIgnoreValue_def)
  next
    case False
    then have "slot_of p j \<noteq> slot_of p k" using assms(1,3) j by (auto simp: slots_apart_def inj_on_def)
    then have "slot_value (slot_of p j) (written env p k v node) = slot_value (slot_of p j) node"
      by (simp add: written_def set_other_slot [OF mm] delete_other_slot [OF mm])
    from shows_by_slot [OF this] show ?thesis using False j assms(4) by (simp add: shows_properties_def)
  qed
qed

section \<open>What a node shows of a style\<close>

definition shown_style :: "dom_node \<Rightarrow> string \<Rightarrow> string" where
  "shown_style node n = (case node_style node n of Some v \<Rightarrow> v | None \<Rightarrow> '''')"

definition style_values :: "dom_env \<Rightarrow> members \<Rightarrow> string \<Rightarrow> string" where
  "style_values env st n = (case map_of st n of Some v \<Rightarrow> dangerousStyleValue env n v | None \<Rightarrow> '''')"

text \<open>Names that stand for themselves only, and values that are no objects.\<close>

definition plain_name :: "string \<Rightarrow> bool" where
  "plain_name n \<longleftrightarrow> n \<noteq> ''float'' \<and> map_of shorthandPropertyExpansions n = None \<and> n \<notin> set object_prototype_keys"

definition plain_style :: "members \<Rightarrow> bool" where
  "plain_style st \<longleftrightarrow> distinct (map fst st) \<and> list_all (\<lambda>(n, v). plain_name n \<and> address v = None) st"

lemma set_one_style:
  "plain_name n \<Longrightarrow> shown_style (setValueForStyle env (n, v) node) = (shown_style node)(n := dangerousStyleValue env n v)"
  by (auto simp: setValueForStyle_def shown_style_def plain_name_def set_style_def fun_eq_iff Let_def)

lemma set_styles:
  assumes "distinct (map fst u)" "\<forall>n \<in> fst ` set u. plain_name n"
  shows "shown_style (setValueForStyles env u node) m =
    (case map_of u m of Some v \<Rightarrow> dangerousStyleValue env m v | None \<Rightarrow> shown_style node m)"
  using assms
proof (induction u arbitrary: node)
  case (Cons nv u)
  have "map_of u (fst nv) = None" using Cons.prems(1) by (simp add: map_of_eq_None_iff)
  moreover have "setValueForStyles env (nv # u) node = setValueForStyles env u (setValueForStyle env nv node)"
    by (simp add: setValueForStyles_def)
  ultimately show ?case using Cons set_one_style [of "fst nv" env "snd nv" node] by (auto split: option.split)
qed (simp add: setValueForStyles_def)

lemma set_styles_frame [simp]:
  "node_attributes (setValueForStyles env u node) = node_attributes node"
  "get_property (setValueForStyles env u node) = get_property node"
proof -
  have fold_frame: "f (fold (\<lambda>i. set_style i '''') ns node) = f node" if "\<And>n v node. f (set_style n v node) = f node"
    for f :: "dom_node \<Rightarrow> 'b" and ns node using that by (induction ns arbitrary: node) simp_all
  have one: "f (setValueForStyle env nv node) = f node" if "\<And>n v node. f (set_style n v node) = f node"
    for f :: "dom_node \<Rightarrow> 'b" and nv node
    using that by (simp add: setValueForStyle_def Let_def fold_frame split: option.split)
  have all: "f (setValueForStyles env u node) = f node" if "\<And>n v node. f (set_style n v node) = f node"
    for f :: "dom_node \<Rightarrow> 'b" and node
    using that by (induction u arbitrary: node) (simp_all add: setValueForStyles_def one)
  show "node_attributes (setValueForStyles env u node) = node_attributes node"
    "get_property (setValueForStyles env u node) = get_property node"
    by (rule all; simp add: set_style_def get_property_def fun_eq_iff)+
qed

text \<open>Updates as a map.\<close>

definition update_map :: "members option \<Rightarrow> string \<rightharpoonup> js_value" where
  "update_map u = (case u of Some ms \<Rightarrow> map_of ms | None \<Rightarrow> Map.empty)"

definition updates_ok :: "members option \<Rightarrow> bool" where
  "updates_ok u \<longleftrightarrow> (case u of Some ms \<Rightarrow> distinct (map fst ms) \<and> (\<forall>n \<in> fst ` set ms. plain_name n) | None \<Rightarrow> True)"

lemma update_map_put [simp]: "update_map (put_update n v u) = (update_map u)(n \<mapsto> v)"
  by (auto simp: update_map_def put_update_def split: option.split)

lemma updates_ok_put: "updates_ok u \<Longrightarrow> plain_name n \<Longrightarrow> updates_ok (put_update n v u)"
proof -
  assume u: "updates_ok u" and n: "plain_name n"
  have keys: "fst ` set (js_put n v ms) = insert n (fst ` set ms)" for ms :: members
    using arg_cong [OF js_put_keys [of n v ms], of set] by auto
  show ?thesis using u n by (auto simp: updates_ok_def put_update_def distinct_js_put keys split: option.splits)
qed

lemma unset_updates_map:
  "update_map (unset_updates st gone u) m = (if m \<in> fst ` set st \<and> gone m then Some (Str '''') else update_map u m)"
  by (induction st arbitrary: u) (auto simp: unset_updates_def)

lemma unset_updates_ok: "updates_ok u \<Longrightarrow> \<forall>n \<in> fst ` set st. plain_name n \<Longrightarrow> updates_ok (unset_updates st gone u)"
  by (induction st arbitrary: u) (auto simp: unset_updates_def updates_ok_put)

lemma changed_updates_map:
  "distinct (map fst st) \<Longrightarrow> update_map (changed_updates old st u) m =
    (case map_of st m of Some v \<Rightarrow> if strict_eq (get_member old m) v then update_map u m else Some v | None \<Rightarrow> update_map u m)"
proof (induction st arbitrary: u)
  case (Cons nv st)
  have "map_of st (fst nv) = None" using Cons.prems by (simp add: map_of_eq_None_iff)
  then show ?case using Cons by (cases nv) (auto simp: changed_updates_def split: option.split)
qed (simp add: changed_updates_def)

lemma changed_updates_ok: "updates_ok u \<Longrightarrow> \<forall>n \<in> fst ` set st. plain_name n \<Longrightarrow> updates_ok (changed_updates old st u)"
  by (induction st arbitrary: u) (auto simp: changed_updates_def updates_ok_put)

text \<open>What is shown once the updates have been applied.\<close>

definition pending_style :: "dom_env \<Rightarrow> members option \<Rightarrow> dom_node \<Rightarrow> string \<Rightarrow> string" where
  "pending_style env u node m = (case update_map u m of Some v \<Rightarrow> dangerousStyleValue env m v | None \<Rightarrow> shown_style node m)"

lemma dangerous_empty [simp]: "dangerousStyleValue env n (Str '''') = ''''" "dangerousStyleValue env n Undefined = ''''"
  by (simp_all add: dangerousStyleValue_def nullish_def)

lemma plain_names: "plain_style st \<Longrightarrow> \<forall>n \<in> fst ` set st. plain_name n"
  by (auto simp: plain_style_def list_all_iff)

text \<open>The comparison of two styles finds the updates that turn the one into the other.\<close>

lemma style_diff:
  assumes st: "plain_style old" "plain_style new" and u: "update_map u = Map.empty"
    and shown: "\<And>m. shown_style node m = style_values env old m"
  shows "pending_style env (changed_updates old new (unset_updates old (\<lambda>n. map_of new n = None) u)) node m = style_values env new m"
proof -
  have new: "distinct (map fst new)" and addr: "map_of new m = Some v \<Longrightarrow> plain_name m \<and> address v = None"
    "map_of old m = Some v \<Longrightarrow> plain_name m \<and> address v = None" for v
    using st by (auto simp: plain_style_def list_all_iff dest: map_of_SomeD)
  have keys: "m \<in> fst ` set old \<longleftrightarrow> map_of old m \<noteq> None" by (simp add: map_of_eq_None_iff)
  show ?thesis
  proof (cases "map_of new m")
    case None
    then show ?thesis
      by (auto simp: pending_style_def changed_updates_map [OF new] unset_updates_map u shown style_values_def keys split: option.split)
  next
    case (Some v)
    have same: "style_values env old m = dangerousStyleValue env m v" if eq: "strict_eq (get_member old m) v"
    proof (cases "map_of old m")
      case None
      then have "v = Undefined" using eq addr(1) [OF Some]
        by (auto simp: get_member_def strict_eq_def plain_name_def split: if_splits)
      then show ?thesis using None by (simp add: style_values_def)
    next
      case old: (Some w)
      then have "w = v" using eq addr(1) [OF Some] addr(2) [OF old] by (auto simp: get_member_def strict_eq_def)
      then show ?thesis using old by (simp add: style_values_def)
    qed
    have "style_values env new m = dangerousStyleValue env m v" using Some by (simp add: style_values_def)
    moreover have "update_map (unset_updates old (\<lambda>n. map_of new n = None) u) m = None" using Some
      by (simp add: unset_updates_map u)
    ultimately show ?thesis using Some same
      by (simp add: pending_style_def changed_updates_map [OF new] shown split: if_splits)
  qed
qed

section \<open>The listeners\<close>

definition listener_option :: "'l listener_value \<Rightarrow> 'l option" where
  "listener_option v = (case v of Listener l \<Rightarrow> Some l | _ \<Rightarrow> None)"

text \<open>The listeners of a node once those of a queue have been put.\<close>

definition after_queue :: "'l listener_to_put list \<Rightarrow> (string \<Rightarrow> 'l option) \<Rightarrow> string \<Rightarrow> 'l option" where
  "after_queue q L = fold (\<lambda>(i, k, v) L. L(k := listener_option v)) q L"

lemma putListener_get:
  assumes "v \<noteq> NotAFunction"
  shows "\<exists>s'. putListener ident name v s = Some (Inr (), s') \<and> listenerBank s' = (listenerBank s)(name \<mapsto>
      (case listenerBank s name of Some bank \<Rightarrow> bank | None \<Rightarrow> Map.empty)(ident \<mapsto> listener_option v)) \<and>
    getListener s' ident = (getListener s ident)(name := listener_option v) \<and> s' = s\<lparr>listenerBank := listenerBank s'\<rparr>"
  using assms by (cases v) (auto simp: putListener_def cmd listener_option_def getListener_def fun_eq_iff split: option.split)

lemma putListeners_get:
  assumes "\<forall>(i, k, v) \<in> set q. i = rootID \<and> v \<noteq> NotAFunction"
  shows "\<exists>s'. putListeners q s = Some (Inr (), s') \<and> getListener s' rootID = after_queue q (getListener s rootID) \<and>
    s' = s\<lparr>listenerBank := listenerBank s'\<rparr>"
  using assms
proof (induction q arbitrary: s)
  case Nil
  then show ?case by (simp add: putListeners_def after_queue_def cmd)
next
  case (Cons x q)
  obtain k v where x: "x = (rootID, k, v)" "v \<noteq> NotAFunction" using Cons.prems by (cases x) auto
  obtain s1 where s1: "putListener rootID k v s = Some (Inr (), s1)"
    "getListener s1 rootID = (getListener s rootID)(k := listener_option v)" "s1 = s\<lparr>listenerBank := listenerBank s1\<rparr>"
    using putListener_get [OF x(2)] by metis
  have "\<forall>(i, k, v) \<in> set q. i = rootID \<and> v \<noteq> NotAFunction" using Cons.prems by auto
  then obtain s2 where s2: "putListeners q s1 = Some (Inr (), s2)" "getListener s2 rootID = after_queue q (getListener s1 rootID)"
    "s2 = s1\<lparr>listenerBank := listenerBank s2\<rparr>" using Cons.IH by metis
  have "s2 = s\<lparr>listenerBank := listenerBank s2\<rparr>" by (subst s2(3), subst s1(3)) simp
  with s1 s2 show ?case by (intro exI [of _ s2]) (simp add: x putListeners_def cmd after_queue_def)
qed

section \<open>The loops\<close>

lemma foreach_invariant:
  assumes "\<And>ys x zs s. xs = ys @ x # zs \<Longrightarrow> I ys s \<Longrightarrow> \<exists>s'. f x s = Some (Inr (), s') \<and> I (ys @ [x]) s'" "I [] s"
  shows "\<exists>s'. foreach f xs s = Some (Inr (), s') \<and> I xs s'"
proof -
  have "\<exists>s'. foreach f zs s = Some (Inr (), s') \<and> I (ys @ zs) s'" if "xs = ys @ zs" "I ys s" for ys zs s
    using that
  proof (induction zs arbitrary: ys s)
    case (Cons x zs)
    obtain s1 where s1: "f x s = Some (Inr (), s1)" "I (ys @ [x]) s1" using assms(1) [OF Cons.prems] by blast
    have "xs = (ys @ [x]) @ zs" using Cons.prems(1) by simp
    from Cons.IH [OF this s1(2)] show ?case by (auto simp: cmd s1(1))
  qed (simp add: cmd)
  then show ?thesis using assms(2) by fastforce
qed

text \<open>The state in the middle of an update: what the node will show, as a function of the name, and the copy of the style.\<close>

definition in_update ::
    "dom_env \<Rightarrow> dom_property \<Rightarrow> (string \<Rightarrow> bool) \<Rightarrow> string \<Rightarrow> (string \<Rightarrow> js_value) \<Rightarrow> members option \<Rightarrow> ('p, 'n) dom_client \<Rightarrow> bool" where
  "in_update env p is_event rootID V c s \<longleftrightarrow>
     shows_properties env p is_event V (client_node s) \<and>
     (\<forall>k. is_event k \<longrightarrow> after_queue (putListenerQueue s) (getListener s rootID) k = listener_option (listener_value_of (V k))) \<and>
     (\<forall>(i, k, v) \<in> set (putListenerQueue s). i = rootID \<and> v \<noteq> NotAFunction) \<and>
     previousStyleCopy s = c \<and> updates_ok (styleUpdates s) \<and>
     (\<forall>m. pending_style env (styleUpdates s) (client_node s) m = style_values env (case c of Some st \<Rightarrow> st | None \<Rightarrow> []) m)"

definition same_rest :: "('p, 'n) dom_client \<Rightarrow> ('p, 'n) dom_client \<Rightarrow> bool" where
  "same_rest s s' \<longleftrightarrow> currentProps s' = currentProps s \<and> node_content s' = node_content s"

lemma pending_style_node: "node_style node' = node_style node \<Longrightarrow> pending_style env u node' m = pending_style env u node m"
  by (simp add: pending_style_def shown_style_def split: option.split)

lemma getListener_client [simp]:
  "getListener (s\<lparr>client_node := n\<rparr>) = getListener s" "getListener (s\<lparr>putListenerQueue := q\<rparr>) = getListener s"
  "getListener (s\<lparr>previousStyleCopy := c\<rparr>) = getListener s" "getListener (s\<lparr>styleUpdates := u\<rparr>) = getListener s"
  "getListener (s\<lparr>currentProps := ps\<rparr>) = getListener s" "getListener (s\<lparr>node_content := nc\<rparr>) = getListener s"
  for s :: "('p, 'n) dom_client"
  by (simp_all add: getListener_def fun_eq_iff)

lemma shows_properties_cong:
  "\<forall>k. managed p is_event k \<longrightarrow> V k = V' k \<Longrightarrow> shows_properties env p is_event V node = shows_properties env p is_event V' node"
  by (simp add: shows_properties_def)

lemma in_update_cong:
  assumes "in_update env p is_event rootID V c s" "\<forall>k. k \<noteq> ''style'' \<longrightarrow> V k = V' k" "\<not> is_event ''style''"
  shows "in_update env p is_event rootID V' c s"
proof -
  have "managed p is_event k \<Longrightarrow> k \<noteq> ''style''" for k by (auto simp: managed_def INVALID_PROPERTY_ERRORS_def)
  then have "\<forall>k. managed p is_event k \<longrightarrow> V k = V' k" using assms(2) by blast
  from shows_properties_cong [OF this] have "shows_properties env p is_event V' (client_node s)"
    using assms(1) by (simp add: in_update_def)
  moreover have "V k = V' k" if "is_event k" for k
  proof -
    have "k \<noteq> ''style''" using assms(3) that by metis
    then show ?thesis using assms(2) by blast
  qed
  ultimately show ?thesis using assms(1) unfolding in_update_def by simp
qed

text \<open>A property, a listener and the style change one name each.\<close>

lemma write_in_update:
  assumes "slots_apart p is_event" "env_ok env" "managed p is_event k" "in_update env p is_event rootID V c s"
  shows "in_update env p is_event rootID (V(k := v)) c (s\<lparr>client_node := written env p k v (client_node s)\<rparr>)"
proof -
  have mm: "mutation_method p k = None" and ev: "\<not> is_event k" using assms(1,3) by (auto simp: slots_apart_def managed_def)
  have "shows_properties env p is_event (V(k := v)) (written env p k v (client_node s))"
    using written_shows [OF assms(1-3)] assms(4) by (simp add: in_update_def)
  moreover have "node_style (written env p k v (client_node s)) = node_style (client_node s)" by (simp add: written_def mm)
  moreover have "(V(k := v)) j = V j" if "is_event j" for j using ev that by auto
  ultimately show ?thesis using assms(4) pending_style_node [of "written env p k v (client_node s)" "client_node s"]
    unfolding in_update_def by simp
qed

lemma enqueue_in_update:
  assumes "is_event k" "listener_value_of v \<noteq> NotAFunction" "in_update env p is_event rootID V c s"
  shows "in_update env p is_event rootID (V(k := v)) c
    (s\<lparr>putListenerQueue := enqueuePutListener rootID k (listener_value_of v) (putListenerQueue s)\<rparr>)"
proof -
  have "\<forall>j. managed p is_event j \<longrightarrow> V j = (V(k := v)) j" using assms(1) by (auto simp: managed_def)
  from shows_properties_cong [OF this] have "shows_properties env p is_event (V(k := v)) (client_node s)"
    using assms(3) unfolding in_update_def by blast
  moreover have "after_queue (q @ [(rootID, k, l)]) L = (after_queue q L)(k := listener_option l)" for q l and L :: "string \<Rightarrow> nat option"
    by (simp add: after_queue_def)
  ultimately show ?thesis using assms unfolding in_update_def enqueuePutListener_def by simp
qed

lemma delete_in_update:
  assumes "is_event k" "putListenerQueue s = []" "in_update env p is_event rootID V c s"
  shows "\<exists>s'. deleteListener rootID k s = Some (Inr (), s') \<and> in_update env p is_event rootID (V(k := Undefined)) c s' \<and>
    same_rest s s' \<and> putListenerQueue s' = [] \<and> styleUpdates s' = styleUpdates s"
proof -
  have "\<forall>j. managed p is_event j \<longrightarrow> V j = (V(k := Undefined)) j" using assms(1) by (auto simp: managed_def)
  from shows_properties_cong [OF this] have shown: "shows_properties env p is_event (V(k := Undefined)) (client_node s)"
    using assms(3) unfolding in_update_def by blast
  obtain s' where s': "deleteListener rootID k s = Some (Inr (), s')" "s' = s\<lparr>listenerBank := listenerBank s'\<rparr>"
    "getListener s' rootID = (getListener s rootID)(k := None)"
    by (cases "listenerBank s k") (auto simp: deleteListener_def cmd getListener_def fun_eq_iff)
  have rest: "client_node s' = client_node s" "putListenerQueue s' = []" "previousStyleCopy s' = previousStyleCopy s"
    "styleUpdates s' = styleUpdates s" "same_rest s s'"
    by (subst s'(2), simp add: assms(2) same_rest_def)+
  have "in_update env p is_event rootID (V(k := Undefined)) c s'"
    using assms(2,3) shown unfolding in_update_def rest s'(3)
    by (simp add: after_queue_def listener_value_of_def listener_option_def)
  then show ?thesis using s'(1) rest by blast
qed

definition plain_copy :: "members option \<Rightarrow> bool" where
  "plain_copy c \<longleftrightarrow> (case c of Some st \<Rightarrow> plain_style st | None \<Rightarrow> True)"

lemma drop_style_in_update:
  assumes "in_update env p is_event rootID V c s" "plain_copy c"
  shows "in_update env p is_event rootID V None
    (s\<lparr>styleUpdates := unset_updates (case previousStyleCopy s of Some c \<Rightarrow> c | None \<Rightarrow> []) (\<lambda>_. True) (styleUpdates s), previousStyleCopy := None\<rparr>)"
proof -
  let ?st = "case c of Some st \<Rightarrow> st | None \<Rightarrow> []"
  have c: "previousStyleCopy s = c" and ok: "updates_ok (styleUpdates s)"
    and shown: "\<And>m. pending_style env (styleUpdates s) (client_node s) m = style_values env ?st m"
    using assms(1) unfolding in_update_def by blast+
  have names: "\<forall>n \<in> fst ` set ?st. plain_name n" using assms(2) by (cases c) (simp_all add: plain_copy_def plain_names)
  have "pending_style env (unset_updates ?st (\<lambda>_. True) (styleUpdates s)) (client_node s) m = style_values env [] m" for m
  proof (cases "m \<in> fst ` set ?st")
    case False
    then have "map_of ?st m = None" by (simp only: map_of_eq_None_iff not_False_eq_True)
    then show ?thesis using shown [of m] False by (simp add: pending_style_def unset_updates_map style_values_def)
  qed (simp add: pending_style_def unset_updates_map style_values_def)
  then show ?thesis using assms(1) unset_updates_ok [OF ok names] unfolding in_update_def by (simp add: c)
qed

definition style_ok :: "js_value \<Rightarrow> bool" where
  "style_ok v \<longleftrightarrow> nullish v \<or> (case v of Obj a cs ms \<Rightarrow> plain_style ms | _ \<Rightarrow> False)"

lemma style_ok_cases:
  assumes "style_ok v"
  obtains "nullish v" "style_copy v = None" | a cs ms where "v = Obj a cs ms" "style_copy v = Some ms" "plain_style ms"
  using assms by (cases v) (auto simp: style_ok_def nullish_def style_copy_def)

lemma plain_style_copy: "style_ok v \<Longrightarrow> plain_copy (style_copy v)"
  by (erule style_ok_cases) (simp_all add: plain_copy_def)

lemma update_style_rest:
  "same_rest s (update_style v s)" "putListenerQueue (update_style v s) = putListenerQueue s"
  "client_node (update_style v s) = client_node s" "getListener (update_style v s) = getListener s"
  by (simp_all add: update_style_def same_rest_def Let_def split: option.split)

lemma update_style_in_update:
  assumes up: "in_update env p is_event rootID V c s" "styleUpdates s = None" and c: "plain_copy c"
    and v: "style_ok v" "nullish v \<Longrightarrow> c = None"
  shows "in_update env p is_event rootID V (style_copy v) (update_style v s)"
proof -
  have sc: "previousStyleCopy s = c" using up(1) unfolding in_update_def by blast
  have shown: "shown_style (client_node s) m = style_values env (case c of Some st \<Rightarrow> st | None \<Rightarrow> []) m" for m
    using up unfolding in_update_def by (simp add: pending_style_def update_map_def)
  have goal: "previousStyleCopy (update_style v s) = style_copy v \<and> updates_ok (styleUpdates (update_style v s)) \<and>
    (\<forall>m. pending_style env (styleUpdates (update_style v s)) (client_node s) m =
       style_values env (case style_copy v of Some st \<Rightarrow> st | None \<Rightarrow> []) m)"
    using v(1)
  proof (cases rule: style_ok_cases)
    case 1
    then have "previousStyleCopy (update_style v s) = None" "styleUpdates (update_style v s) = None"
      using v(2) up(2) sc by (auto simp: update_style_def nullish_def)
    then show ?thesis using shown v(2) 1 by (simp add: updates_ok_def pending_style_def update_map_def)
  next
    case (2 a cs ms)
    show ?thesis
    proof (cases c)
      case None
      then have "styleUpdates (update_style v s) = Some ms" "previousStyleCopy (update_style v s) = Some ms"
        using 2 sc by (simp_all add: update_style_def Let_def)
      moreover have "distinct (map fst ms) \<and> (\<forall>n \<in> fst ` set ms. plain_name n)"
        using 2(3) plain_names [OF 2(3)] by (simp add: plain_style_def)
      ultimately show ?thesis using shown None 2
        by (auto simp: updates_ok_def pending_style_def update_map_def style_values_def split: option.split)
    next
      case (Some st)
      have st: "plain_style st" using c Some by (simp add: plain_copy_def)
      let ?u = "changed_updates st ms (unset_updates st (\<lambda>n. map_of ms n = None) None)"
      have "styleUpdates (update_style v s) = ?u" "previousStyleCopy (update_style v s) = Some ms"
        using 2 sc Some up(2) by (simp_all add: update_style_def Let_def)
      moreover have "updates_ok ?u"
        by (rule changed_updates_ok [OF unset_updates_ok]) (use plain_names [OF st] plain_names [OF 2(3)] in \<open>simp_all add: updates_ok_def\<close>)
      moreover have "pending_style env ?u (client_node s) m = style_values env ms m" for m
        by (rule style_diff [OF st 2(3)]) (simp_all add: update_map_def shown Some)
      ultimately show ?thesis using 2 by simp
    qed
  qed
  then show ?thesis using up(1) unfolding in_update_def by (simp add: update_style_rest)
qed

text \<open>Properties that can be updated, and two that may follow one another.\<close>

definition valid_props :: "(string \<Rightarrow> bool) \<Rightarrow> members \<Rightarrow> bool" where
  "valid_props is_event props \<longleftrightarrow> distinct (map fst props) \<and> (\<forall>k \<in> fst ` set props. k \<notin> set object_prototype_keys) \<and>
     assertValidProps props = None \<and> (\<forall>k \<in> fst ` set props. is_event k \<longrightarrow> listener_value_of (own props k) \<noteq> NotAFunction) \<and>
     style_ok (own props ''style'') \<and> address (html_to_use (own props ''dangerouslySetInnerHTML'')) = None"

definition may_follow :: "members \<Rightarrow> members \<Rightarrow> bool" where
  "may_follow lastProps nextProps \<longleftrightarrow>
     (\<forall>k \<in> fst ` set nextProps. strict_eq (own nextProps k) (own lastProps k) \<longrightarrow> own nextProps k = own lastProps k) \<and>
     (''style'' \<in> fst ` set nextProps \<and> nullish (own nextProps ''style'') \<longrightarrow> nullish (own lastProps ''style''))"

lemma own_simps:
  "k \<notin> fst ` set props \<Longrightarrow> own props k = Undefined"
  "distinct (map fst props) \<Longrightarrow> (k, v) \<in> set props \<Longrightarrow> own props k = v"
  "k \<notin> set object_prototype_keys \<Longrightarrow> get_member props k = own props k"
  by (auto simp: own_def get_member_def map_of_eq_None_iff [symmetric] split: option.split)

text \<open>What is shown after part of a loop.\<close>

definition dropped :: "members \<Rightarrow> members \<Rightarrow> string list \<Rightarrow> string \<Rightarrow> js_value" where
  "dropped lastProps nextProps ys k =
     (if k \<in> set ys \<and> k \<notin> fst ` set nextProps then Undefined else own lastProps k)"

definition taken :: "members \<Rightarrow> members \<Rightarrow> members \<Rightarrow> string \<Rightarrow> js_value" where
  "taken lastProps nextProps ys k = (if k \<in> fst ` set ys then own nextProps k
     else if k \<in> fst ` set nextProps then own lastProps k else Undefined)"

lemma dropped_all: "dropped lastProps nextProps (map fst lastProps) = taken lastProps nextProps []"
  by (auto simp: dropped_def taken_def own_simps fun_eq_iff)

lemma taken_all: "taken lastProps nextProps nextProps = own nextProps"
  by (auto simp: taken_def own_simps fun_eq_iff)

lemma dropped_snoc:
  "k \<notin> fst ` set nextProps \<Longrightarrow> dropped lastProps nextProps (ys @ [k]) = (dropped lastProps nextProps ys)(k := Undefined)"
  "k \<in> fst ` set nextProps \<Longrightarrow> dropped lastProps nextProps (ys @ [k]) = dropped lastProps nextProps ys"
  by (auto simp: dropped_def fun_eq_iff)

lemma taken_snoc: "taken lastProps nextProps (ys @ [kv]) = (taken lastProps nextProps ys)(fst kv := own nextProps (fst kv))"
  by (auto simp: taken_def fun_eq_iff)

lemma not_managed_cong:
  assumes "slots_apart p is_event" "in_update env p is_event rootID V c s" "\<not> managed p is_event k" "\<not> is_event k"
  shows "in_update env p is_event rootID (V(k := v)) c s"
proof -
  have "\<forall>j. managed p is_event j \<longrightarrow> V j = (V(k := v)) j" using assms(3) by auto
  from shows_properties_cong [OF this] have "shows_properties env p is_event (V(k := v)) (client_node s)"
    using assms(2) unfolding in_update_def by blast
  moreover have "(V(k := v)) j = V j" if "is_event j" for j using assms(4) that by auto
  ultimately show ?thesis using assms(2) unfolding in_update_def by simp
qed

lemma special_names:
  assumes "slots_apart p is_event"
  shows "\<not> is_event ''style''" "\<not> managed p is_event ''style''"
    "k \<noteq> ''style'' \<Longrightarrow> \<not> is_event k \<Longrightarrow> is_standard p k \<or> isCustomAttribute p k \<Longrightarrow> managed p is_event k"
  using assms by (auto simp: slots_apart_def managed_def INVALID_PROPERTY_ERRORS_def)

text \<open>The first loop: the properties that are gone.\<close>

lemma drop_property_step:
  assumes ok: "slots_apart p is_event" "env_ok env" and c: "plain_copy c" and q: "putListenerQueue s = []"
    and up: "in_update env p is_event rootID (dropped lastProps nextProps ys) c s"
  shows "\<exists>s'. drop_property env p is_event rootID nextProps k s = Some (Inr (), s') \<and>
    in_update env p is_event rootID (dropped lastProps nextProps (ys @ [k]))
      (if k = ''style'' \<and> k \<notin> fst ` set nextProps then None else c) s' \<and>
    same_rest s s' \<and> putListenerQueue s' = [] \<and>
    (\<not> (k = ''style'' \<and> k \<notin> fst ` set nextProps) \<longrightarrow> styleUpdates s' = styleUpdates s)"
proof (cases "k \<in> fst ` set nextProps")
  case True
  then have "map_of nextProps k \<noteq> None" by (simp add: map_of_eq_None_iff)
  then show ?thesis using up q True by (simp add: drop_property_def cmd dropped_snoc same_rest_def)
next
  case False
  then have gone: "map_of nextProps k = None" by (simp add: map_of_eq_None_iff)
  consider "k = ''style''" | "k \<noteq> ''style''" "is_event k" | "k \<noteq> ''style''" "\<not> is_event k" "managed p is_event k"
    | "k \<noteq> ''style''" "\<not> is_event k" "\<not> (is_standard p k \<or> isCustomAttribute p k)" "\<not> managed p is_event k"
    using special_names(3) [OF ok(1)] by (auto simp: managed_def)
  then show ?thesis
  proof cases
    case 1
    have "in_update env p is_event rootID (dropped lastProps nextProps (ys @ [k])) c s"
      unfolding dropped_snoc(1) [OF False] using not_managed_cong [OF ok(1) up] special_names(1,2) [OF ok(1)] 1 by blast
    from drop_style_in_update [OF this c] show ?thesis using False 1 q gone
      by (simp add: drop_property_def cmd same_rest_def)
  next
    case 2
    from delete_in_update [OF 2(2) q up] show ?thesis using 2 False gone
      by (auto simp: drop_property_def dropped_snoc(1) [OF False])
  next
    case 3
    then have "k \<notin> set INVALID_PROPERTY_ERRORS" "is_standard p k \<or> isCustomAttribute p k" by (auto simp: managed_def)
    then show ?thesis using write_in_update [OF ok 3(3) up, of Undefined] 3 False gone q
      by (simp add: drop_property_def dropped_snoc(1) [OF False] deletePropertyByID_def change_node_def cmd written_def
          nullish_def same_rest_def)
  next
    case 4
    then show ?thesis using not_managed_cong [OF ok(1) up 4(4,2), of Undefined] False gone q
      by (simp add: drop_property_def dropped_snoc(1) [OF False] cmd same_rest_def)
  qed
qed

lemma drop_properties:
  assumes ok: "slots_apart p is_event" "env_ok env" and c: "plain_copy c" "map_of lastProps ''style'' = None \<Longrightarrow> c = None"
    and s: "putListenerQueue s = []" "styleUpdates s = None" "in_update env p is_event rootID (own lastProps) c s"
  shows "\<exists>s'. foreach (drop_property env p is_event rootID nextProps) (map fst lastProps) s = Some (Inr (), s') \<and>
    in_update env p is_event rootID (taken lastProps nextProps []) (if ''style'' \<in> fst ` set nextProps then c else None) s' \<and>
    same_rest s s' \<and> (''style'' \<in> fst ` set nextProps \<longrightarrow> styleUpdates s' = None)"
proof -
  let ?c = "\<lambda>ys. if ''style'' \<in> set ys \<and> ''style'' \<notin> fst ` set nextProps then None else c"
  let ?I = "\<lambda>ys s'. in_update env p is_event rootID (dropped lastProps nextProps ys) (?c ys) s' \<and> same_rest s s' \<and>
    putListenerQueue s' = [] \<and> (''style'' \<in> fst ` set nextProps \<longrightarrow> styleUpdates s' = None)"
  have "\<exists>s'. foreach (drop_property env p is_event rootID nextProps) (map fst lastProps) s = Some (Inr (), s') \<and> ?I (map fst lastProps) s'"
  proof (rule foreach_invariant [where I = ?I])
    fix ys k zs s1 assume I: "?I ys s1"
    have plain: "plain_copy (?c ys)" using c(1) by (simp add: plain_copy_def)
    obtain s2 where s2: "drop_property env p is_event rootID nextProps k s1 = Some (Inr (), s2)"
      "in_update env p is_event rootID (dropped lastProps nextProps (ys @ [k]))
        (if k = ''style'' \<and> k \<notin> fst ` set nextProps then None else ?c ys) s2" "same_rest s1 s2" "putListenerQueue s2 = []"
      "\<not> (k = ''style'' \<and> k \<notin> fst ` set nextProps) \<longrightarrow> styleUpdates s2 = styleUpdates s1"
      using drop_property_step [OF ok plain, of s1 rootID lastProps nextProps ys k] I by blast
    have "(if k = ''style'' \<and> k \<notin> fst ` set nextProps then None else ?c ys) = ?c (ys @ [k])" by auto
    then show "\<exists>s'. drop_property env p is_event rootID nextProps k s1 = Some (Inr (), s') \<and> ?I (ys @ [k]) s'"
      using s2 I by (intro exI [of _ s2]) (auto simp: same_rest_def)
  next
    have "dropped lastProps nextProps [] = own lastProps" by (simp add: dropped_def fun_eq_iff)
    then show "?I [] s" using s by (simp add: same_rest_def)
  qed
  then obtain s' where s': "foreach (drop_property env p is_event rootID nextProps) (map fst lastProps) s = Some (Inr (), s')"
    "?I (map fst lastProps) s'" by blast
  have "?c (map fst lastProps) = (if ''style'' \<in> fst ` set nextProps then c else None)"
    using c(2) by (auto simp: map_of_eq_None_iff)
  then show ?thesis using s' by (simp only: dropped_all) blast
qed

text \<open>The second loop: the properties of the new element.\<close>

lemma update_property_step:
  assumes ok: "slots_apart p is_event" "env_ok env" and valid: "valid_props is_event nextProps" and follow: "may_follow lastProps nextProps"
    and kv: "(k, v) \<in> set nextProps" "k \<notin> fst ` set ys" and c: "plain_copy c" "k = ''style'' \<Longrightarrow> nullish (own lastProps ''style'') \<Longrightarrow> c = None"
    and s: "in_update env p is_event rootID (taken lastProps nextProps ys) c s" "k = ''style'' \<Longrightarrow> styleUpdates s = None"
  shows "\<exists>s'. update_property env p is_event rootID lastProps (k, v) s = Some (Inr (), s') \<and>
    in_update env p is_event rootID (taken lastProps nextProps (ys @ [(k, v)])) (if k = ''style'' then style_copy v else c) s' \<and>
    same_rest s s' \<and> (k \<noteq> ''style'' \<longrightarrow> styleUpdates s' = styleUpdates s)"
proof -
  have k: "k \<in> fst ` set nextProps" using kv(1) by force
  have proto: "k \<notin> set object_prototype_keys" using valid k by (auto simp: valid_props_def)
  have v: "own nextProps k = v" using valid kv(1) by (simp add: valid_props_def own_simps(2))
  note V = taken_snoc [of lastProps nextProps ys "(k, v)", unfolded fst_conv v]
  consider "k = ''style''" | "k \<noteq> ''style''" "strict_eq v (get_member lastProps k)"
    | "k \<noteq> ''style''" "\<not> strict_eq v (get_member lastProps k)" "is_event k"
    | "k \<noteq> ''style''" "\<not> strict_eq v (get_member lastProps k)" "\<not> is_event k" "managed p is_event k"
    | "k \<noteq> ''style''" "\<not> strict_eq v (get_member lastProps k)" "\<not> is_event k" "\<not> managed p is_event k"
      "\<not> (is_standard p k \<or> isCustomAttribute p k)"
    using special_names(3) [OF ok(1)] by (auto simp: managed_def)
  then show ?thesis
  proof cases
    case 1
    have sty: "style_ok v" "nullish v \<Longrightarrow> c = None" using valid follow v k c(2) 1 by (auto simp: valid_props_def may_follow_def)
    have "in_update env p is_event rootID ((taken lastProps nextProps ys)(k := v)) c s"
      using not_managed_cong [OF ok(1) s(1)] special_names(1,2) [OF ok(1)] 1 by blast
    from update_style_in_update [OF this s(2) [OF 1] c(1) sty] show ?thesis
      using 1 update_style_rest(1) [of s v] by (simp add: V [unfolded 1] update_property_def cmd)
  next
    case 2
    have "own lastProps k = v" using 2(2) v k follow by (auto simp: own_simps(3) [OF proto] may_follow_def)
    then have "(taken lastProps nextProps ys)(k := v) = taken lastProps nextProps ys" using k kv(2)
      by (auto simp: taken_def fun_eq_iff)
    then show ?thesis using 2 s(1) by (simp add: V update_property_def cmd same_rest_def)
  next
    case 3
    have "listener_value_of v \<noteq> NotAFunction" using valid k v 3(3) by (auto simp: valid_props_def)
    from enqueue_in_update [OF 3(3) this s(1)] show ?thesis using 3 by (simp add: V update_property_def cmd same_rest_def)
  next
    case 4
    then have "k \<notin> set INVALID_PROPERTY_ERRORS" "is_standard p k \<or> isCustomAttribute p k" by (auto simp: managed_def)
    then show ?thesis using write_in_update [OF ok 4(4) s(1), of v] 4
      by (auto simp: V update_property_def updatePropertyByID_def change_node_def cmd written_def same_rest_def)
  next
    case 5
    then show ?thesis using not_managed_cong [OF ok(1) s(1) 5(4,3), of v] by (simp add: V update_property_def cmd same_rest_def)
  qed
qed

lemma take_properties:
  assumes ok: "slots_apart p is_event" "env_ok env" and valid: "valid_props is_event nextProps" and follow: "may_follow lastProps nextProps"
    and c: "plain_copy c" "nullish (own lastProps ''style'') \<Longrightarrow> c = None"
    and s: "in_update env p is_event rootID (taken lastProps nextProps []) c s" "''style'' \<in> fst ` set nextProps \<Longrightarrow> styleUpdates s = None"
  shows "\<exists>s'. foreach (update_property env p is_event rootID lastProps) nextProps s = Some (Inr (), s') \<and>
    in_update env p is_event rootID (own nextProps)
      (if ''style'' \<in> fst ` set nextProps then style_copy (own nextProps ''style'') else c) s' \<and> same_rest s s'"
proof -
  let ?c = "\<lambda>ys. if ''style'' \<in> fst ` set ys then style_copy (own nextProps ''style'') else c"
  let ?I = "\<lambda>ys s'. in_update env p is_event rootID (taken lastProps nextProps ys) (?c ys) s' \<and> same_rest s s' \<and>
    (''style'' \<in> fst ` set nextProps \<and> ''style'' \<notin> fst ` set ys \<longrightarrow> styleUpdates s' = None)"
  have dist: "distinct (map fst nextProps)" using valid by (simp add: valid_props_def)
  have sty: "style_ok (own nextProps ''style'')" using valid by (simp add: valid_props_def)
  have "\<exists>s'. foreach (update_property env p is_event rootID lastProps) nextProps s = Some (Inr (), s') \<and> ?I nextProps s'"
  proof (rule foreach_invariant [where I = ?I])
    fix ys kv zs s1 assume xs: "nextProps = ys @ kv # zs" and I: "?I ys s1"
    obtain k v where kv: "kv = (k, v)" by (cases kv)
    have mem: "(k, v) \<in> set nextProps" and new: "k \<notin> fst ` set ys" using xs kv dist by auto
    have style_new: "\<not> ''style'' \<in> fst ` set ys" if "k = ''style''" using new that by simp
    have c1: "plain_copy (?c ys)" "k = ''style'' \<Longrightarrow> nullish (own lastProps ''style'') \<Longrightarrow> ?c ys = None"
      using c plain_style_copy [OF sty] style_new by simp_all
    have now: "k = ''style'' \<Longrightarrow> styleUpdates s1 = None" using I mem style_new by force
    obtain s2 where s2: "update_property env p is_event rootID lastProps (k, v) s1 = Some (Inr (), s2)"
      "in_update env p is_event rootID (taken lastProps nextProps (ys @ [(k, v)])) (if k = ''style'' then style_copy v else ?c ys) s2"
      "same_rest s1 s2" "k \<noteq> ''style'' \<longrightarrow> styleUpdates s2 = styleUpdates s1"
      using update_property_step [OF ok valid follow mem new c1(1) c1(2) conjunct1 [OF I] now] by blast
    have "(if k = ''style'' then style_copy v else ?c ys) = ?c (ys @ [kv])"
      using kv own_simps(2) [OF dist mem] by auto
    then show "\<exists>s'. update_property env p is_event rootID lastProps kv s1 = Some (Inr (), s') \<and> ?I (ys @ [kv]) s'"
      using s2 I kv by (intro exI [of _ s2]) (auto simp: same_rest_def)
  next
    show "?I [] s" using s by (simp add: same_rest_def)
  qed
  then show ?thesis by (simp only: taken_all) blast
qed

section \<open>The node mirrors the element\<close>

definition content_shown :: "dom_env \<Rightarrow> members \<Rightarrow> node_content" where
  "content_shown env props = (case content_of env props of
     HtmlContent h \<Rightarrow> html_content h | TextContent t \<Rightarrow> text_content t | NoContent \<Rightarrow> EmptyContent
   | ChildContent \<Rightarrow> ShownChildren (own props ''children''))"

definition mirrors ::
    "dom_env \<Rightarrow> dom_property \<Rightarrow> (string \<Rightarrow> bool) \<Rightarrow> string \<Rightarrow> members \<Rightarrow> ('p, 'n) dom_client \<Rightarrow> bool" where
  "mirrors env p is_event rootID props s \<longleftrightarrow>
     currentProps s = props \<and> shows_properties env p is_event (own props) (client_node s) \<and>
     (\<forall>k. is_event k \<longrightarrow> getListener s rootID k = listener_option (listener_value_of (own props k))) \<and>
     (\<forall>m. shown_style (client_node s) m = style_values env (own_members (own props ''style'')) m) \<and>
     node_content s = content_shown env props \<and>
     previousStyleCopy s = style_copy (own props ''style'') \<and> putListenerQueue s = []"

lemma style_copy_members: "style_ok v \<Longrightarrow> (case style_copy v of Some st \<Rightarrow> st | None \<Rightarrow> []) = own_members v"
  by (erule style_ok_cases) (auto simp: nullish_def)

lemma flush_styles_in_update:
  assumes "in_update env p is_event rootID V c s"
  shows "\<exists>s'. flush_styles env s = Some (Inr (), s') \<and> same_rest s s' \<and> shows_properties env p is_event V (client_node s') \<and>
    (\<forall>k. is_event k \<longrightarrow> after_queue (putListenerQueue s') (getListener s' rootID) k = listener_option (listener_value_of (V k))) \<and>
    (\<forall>(i, k, v) \<in> set (putListenerQueue s'). i = rootID \<and> v \<noteq> NotAFunction) \<and> previousStyleCopy s' = c \<and>
    (\<forall>m. shown_style (client_node s') m = style_values env (case c of Some st \<Rightarrow> st | None \<Rightarrow> []) m)"
proof (cases "styleUpdates s")
  case None
  then show ?thesis using assms
    by (simp add: flush_styles_def cmd same_rest_def in_update_def pending_style_def update_map_def)
next
  case (Some u)
  have ok: "distinct (map fst u)" "\<forall>n \<in> fst ` set u. plain_name n" using assms Some by (simp_all add: in_update_def updates_ok_def)
  let ?node = "setValueForStyles env u (client_node s)"
  have "slot_value sl ?node = slot_value sl (client_node s)" for sl by (cases sl) simp_all
  then have "shows_properties env p is_event V ?node = shows_properties env p is_event V (client_node s)"
    unfolding shows_properties_def using shows_by_slot by metis
  moreover have "shown_style ?node m = pending_style env (styleUpdates s) (client_node s) m" for m
    unfolding set_styles [OF ok] by (simp add: pending_style_def update_map_def Some)
  ultimately show ?thesis using assms Some
    by (simp add: flush_styles_def updateStylesByID_def change_node_def cmd same_rest_def in_update_def)
qed

lemma updateDOMProperties_mirrors:
  assumes ok: "slots_apart p is_event" "env_ok env" and valid: "valid_props is_event lastProps" "valid_props is_event nextProps"
    and follow: "may_follow lastProps nextProps" and s: "mirrors env p is_event rootID lastProps s0" "s = s0\<lparr>currentProps := nextProps\<rparr>"
  shows "\<exists>s'. updateDOMProperties env p is_event rootID lastProps s = Some (Inr (), s') \<and> same_rest s s' \<and>
    shows_properties env p is_event (own nextProps) (client_node s') \<and>
    (\<forall>k. is_event k \<longrightarrow> after_queue (putListenerQueue s') (getListener s' rootID) k = listener_option (listener_value_of (own nextProps k))) \<and>
    (\<forall>(i, k, v) \<in> set (putListenerQueue s'). i = rootID \<and> v \<noteq> NotAFunction) \<and>
    previousStyleCopy s' = style_copy (own nextProps ''style'') \<and>
    (\<forall>m. shown_style (client_node s') m = style_values env (own_members (own nextProps ''style'')) m)"
proof -
  let ?c = "style_copy (own lastProps ''style'')" and ?s = "s\<lparr>styleUpdates := None\<rparr>" and ?d = "style_copy (own nextProps ''style'')"
  have sty: "style_ok (own lastProps ''style'')" "style_ok (own nextProps ''style'')" using valid by (simp_all add: valid_props_def)
  have c: "plain_copy ?c" "map_of lastProps ''style'' = None \<Longrightarrow> ?c = None" "nullish (own lastProps ''style'') \<Longrightarrow> ?c = None"
    using plain_style_copy [OF sty(1)] by (auto simp: own_def style_copy_def nullish_def)
  have start: "in_update env p is_event rootID (own lastProps) ?c ?s" using s
    by (simp add: mirrors_def in_update_def after_queue_def updates_ok_def pending_style_def update_map_def style_copy_members [OF sty(1)])
  obtain s1 where s1: "foreach (drop_property env p is_event rootID nextProps) (map fst lastProps) ?s = Some (Inr (), s1)"
    "in_update env p is_event rootID (taken lastProps nextProps []) (if ''style'' \<in> fst ` set nextProps then ?c else None) s1"
    "same_rest ?s s1" "''style'' \<in> fst ` set nextProps \<longrightarrow> styleUpdates s1 = None"
    using drop_properties [OF ok c(1,2) _ _ start, of nextProps] s by (auto simp: mirrors_def)
  have c1: "plain_copy (if ''style'' \<in> fst ` set nextProps then ?c else None)"
    "nullish (own lastProps ''style'') \<Longrightarrow> (if ''style'' \<in> fst ` set nextProps then ?c else None) = None"
    using c by (auto simp: plain_copy_def)
  obtain s2 where s2: "foreach (update_property env p is_event rootID lastProps) nextProps s1 = Some (Inr (), s2)"
    "in_update env p is_event rootID (own nextProps) (if ''style'' \<in> fst ` set nextProps then ?d
       else if ''style'' \<in> fst ` set nextProps then ?c else None) s2" "same_rest s1 s2"
    using take_properties [OF ok valid(2) follow c1 s1(2)] s1(4) by blast
  have "''style'' \<notin> fst ` set nextProps \<Longrightarrow> ?d = None" by (simp add: own_simps style_copy_def)
  then have "in_update env p is_event rootID (own nextProps) ?d s2" using s2(2) by (simp split: if_splits)
  from flush_styles_in_update [OF this] obtain s3 where s3: "flush_styles env s2 = Some (Inr (), s3)" "same_rest s2 s3"
    "shows_properties env p is_event (own nextProps) (client_node s3)"
    "\<forall>k. is_event k \<longrightarrow> after_queue (putListenerQueue s3) (getListener s3 rootID) k = listener_option (listener_value_of (own nextProps k))"
    "\<forall>(i, k, v) \<in> set (putListenerQueue s3). i = rootID \<and> v \<noteq> NotAFunction" "previousStyleCopy s3 = ?d"
    "\<forall>m. shown_style (client_node s3) m = style_values env (case ?d of Some st \<Rightarrow> st | None \<Rightarrow> []) m" by blast
  have "updateDOMProperties env p is_event rootID lastProps s = Some (Inr (), s3)"
    using s1(1) s2(1) s3(1) s(2) by (simp add: updateDOMProperties_def Let_def cmd)
  moreover have "same_rest s s3" using s1(3) s2(3) s3(2) by (simp add: same_rest_def)
  ultimately show ?thesis using s3 unfolding style_copy_members [OF sty(2)] by blast
qed

text \<open>The three kinds of content exclude each other.\<close>

lemma content_cases:
  assumes "valid_props is_event props"
  defines "C \<equiv> content_to_use (get_member props ''children'')" and "H \<equiv> html_to_use (get_member props ''dangerouslySetInnerHTML'')"
    and "K \<equiv> children_to_use (get_member props ''children'')"
  shows "content_shown env props = (if \<not> nullish H then html_content (to_string env H)
      else if \<not> nullish C then text_content (to_string env C) else if \<not> nullish K then ShownChildren K else EmptyContent)"
    "\<not> nullish H \<Longrightarrow> nullish C \<and> nullish K" "\<not> nullish C \<Longrightarrow> nullish K" "address C = None" "address H = None"
proof -
  have keys: "get_member props ''children'' = own props ''children''"
    "get_member props ''dangerouslySetInnerHTML'' = own props ''dangerouslySetInnerHTML''"
    by (rule own_simps(3), simp add: object_prototype_keys_def)+
  let ?h = "own props ''dangerouslySetInnerHTML''" and ?k = "own props ''children''"
  have valid: "assertValidProps props = None" using assms(1) by (simp add: valid_props_def)
  have html: "nullish ?h \<or> nullish ?k \<and> truthy ?h \<and> \<not> nullish (member_of ?h ''__html'')"
    using valid unfolding assertValidProps_def Let_def keys
    by (cases ?h) (auto simp: member_of_def nullish_def split: if_splits)
  have falsy: "nullish v \<Longrightarrow> \<not> truthy v \<and> typeof v \<noteq> ''string'' \<and> typeof v \<noteq> ''number''" for v by (auto simp: nullish_def)
  have kinds: "nullish ?k \<Longrightarrow> nullish C \<and> nullish K" "nullish C \<longleftrightarrow> nullish ?k \<or> \<not> (typeof ?k = ''string'' \<or> typeof ?k = ''number'')"
    "nullish C \<Longrightarrow> K = ?k" "\<not> nullish C \<Longrightarrow> C = ?k \<and> nullish K"
    unfolding C_def K_def keys using falsy [of ?k] by (auto simp: content_to_use_def children_to_use_def nullish_def)
  have H: "nullish H \<longleftrightarrow> nullish ?h" "\<not> nullish ?h \<Longrightarrow> H = member_of ?h ''__html''"
    unfolding H_def keys using html falsy [of ?h] by (auto simp: html_to_use_def)
  show "\<not> nullish H \<Longrightarrow> nullish C \<and> nullish K" using html H(1) kinds(1) by blast
  show "\<not> nullish C \<Longrightarrow> nullish K" using kinds(4) by blast
  show "address C = None" unfolding C_def content_to_use_def by (cases ?k) (simp_all add: keys)
  show "address H = None" using assms(1) unfolding H_def keys by (simp add: valid_props_def)
  show "content_shown env props = (if \<not> nullish H then html_content (to_string env H)
      else if \<not> nullish C then text_content (to_string env C) else if \<not> nullish K then ShownChildren K else EmptyContent)"
  proof (cases "nullish ?h")
    case True
    then have nH: "nullish H" by (simp add: H(1))
    show ?thesis
    proof (cases "nullish C")
      case C: True
      then have K: "K = ?k" using kinds(3) by blast
      have "content_of env props = (if nullish ?k then NoContent else ChildContent)"
        using C kinds(2) falsy [of ?k] True by (auto simp: content_of_def keys)
      then show ?thesis using nH C by (simp add: content_shown_def K)
    next
      case C: False
      then have "C = ?k" "typeof ?k = ''string'' \<or> typeof ?k = ''number''" using kinds(2,4) by blast+
      then have "content_of env props = TextContent (to_string env C)" using True by (simp add: content_of_def keys)
      then show ?thesis using nH C by (simp add: content_shown_def)
    qed
  next
    case False
    then have "content_of env props = HtmlContent (to_string env H)" using html H(2) by (simp add: content_of_def keys)
    then show ?thesis using False H(1) by (simp add: content_shown_def)
  qed
qed

lemma strict_eq_plain: "strict_eq u v \<Longrightarrow> address v = None \<Longrightarrow> u = v"
  by (auto simp: strict_eq_def split: if_splits)

lemma updateDOMChildren_shows:
  assumes valid: "valid_props is_event lastProps" "valid_props is_event nextProps"
    and s: "node_content s = content_shown env lastProps" "currentProps s = nextProps"
  shows "updateDOMChildren env lastProps s = Some (Inr (), s\<lparr>node_content := content_shown env nextProps\<rparr>)"
proof -
  note [simp] = updateDOMChildren_def Let_def cmd show_children_def updateTextContent_def updateInnerHTMLByID_def s(2)
  let ?C = "\<lambda>props. content_to_use (get_member props ''children'')" and ?K = "\<lambda>props. children_to_use (get_member props ''children'')"
    and ?H = "\<lambda>props. html_to_use (get_member props ''dangerouslySetInnerHTML'')"
  note old = content_cases [OF valid(1)] and new = content_cases [OF valid(2)]
  have keep: "s\<lparr>node_content := content_shown env lastProps\<rparr> = s" using s(1) by (cases s) simp
  have null: "nullish Null" "text_content '''' = EmptyContent" by (simp_all add: nullish_def text_content_def)
  consider "\<not> nullish (?C nextProps)" | "\<not> nullish (?H nextProps)" "nullish (?C nextProps)" "nullish (?K nextProps)"
    | "\<not> nullish (?K nextProps)" "nullish (?C nextProps)" "nullish (?H nextProps)"
    | "nullish (?K nextProps)" "nullish (?C nextProps)" "nullish (?H nextProps)"
    using new(2,3) by blast
  then show ?thesis
  proof cases
    case 1
    then have "nullish (?H nextProps)" using new(2) by blast
    then have shown: "content_shown env nextProps = text_content (to_string env (?C nextProps))" using 1 by (simp add: new(1))
    show ?thesis
    proof (cases "strict_eq (?C lastProps) (?C nextProps)")
      case True
      then have same: "?C lastProps = ?C nextProps" by (rule strict_eq_plain [OF _ new(4)])
      then have "nullish (?H lastProps)" "nullish (?K lastProps)" using old(2,3) 1 by metis+
      then have "content_shown env lastProps = content_shown env nextProps" using 1 same by (simp add: old(1) shown)
      then show ?thesis using True 1 \<open>nullish (?K lastProps)\<close> keep by simp
    qed (use 1 shown in \<open>simp\<close>)
  next
    case 2
    then have shown: "content_shown env nextProps = html_content (to_string env (?H nextProps))" by (simp add: new(1))
    show ?thesis
    proof (cases "strict_eq (?H lastProps) (?H nextProps)")
      case True
      then have same: "?H lastProps = ?H nextProps" by (rule strict_eq_plain [OF _ new(5)])
      then have "nullish (?C lastProps)" "nullish (?K lastProps)" using old(2) 2(1) by metis+
      moreover have "content_shown env lastProps = content_shown env nextProps" using 2 same by (simp add: old(1) shown)
      ultimately show ?thesis using True 2 keep by simp
    qed (use 2 shown in \<open>simp\<close>)
  next
    case 3
    then show ?thesis by (simp add: new(1))
  next
    case 4
    then have shown: "content_shown env nextProps = EmptyContent" by (simp add: new(1))
    show ?thesis
    proof (cases "nullish (?C lastProps) \<and> nullish (?H lastProps) \<and> nullish (?K lastProps)")
      case True
      then have "s\<lparr>node_content := EmptyContent\<rparr> = s" using keep by (simp add: old(1))
      then show ?thesis using 4 True by (simp add: shown)
    qed (use 4 shown null in \<open>auto\<close>)
  qed
qed

section \<open>React's own tables\<close>

text \<open>The place a configuration gives a property.\<close>

definition config_slot :: "property_config \<Rightarrow> string \<times> 32 word \<Rightarrow> slot" where
  "config_slot config nw = (if checkMask (snd nw) MUST_USE_ATTRIBUTE then AttributeSlot (configured_name config (fst nw))
     else PropertySlot (configured_property config (fst nw)))"

fun slot_name :: "slot \<Rightarrow> string" where
  "slot_name (AttributeSlot n) = n"
| "slot_name (PropertySlot n) = n"

definition default_slot_names :: "string list" where
  "default_slot_names =
     map (\<lambda>nw. slot_name (config_slot (HTMLDOMPropertyConfig True) nw)) (Properties (HTMLDOMPropertyConfig True)) @
     map (\<lambda>nw. slot_name (config_slot SVGDOMPropertyConfig nw)) (Properties SVGDOMPropertyConfig)"

lemma default_slot_names_distinct: "distinct default_slot_names"
  unfolding default_slot_names_def
  by (rule distinct_by_codes)
    (simp add: HTMLDOMPropertyConfig_def SVGDOMPropertyConfig_def str_code_def config_slot_def configured_name_def
      configured_property_def toLowerCase_def lower_char_def checkMask_def MUST_USE_ATTRIBUTE_def MUST_USE_PROPERTY_def
      HAS_SIDE_EFFECTS_def HAS_BOOLEAN_VALUE_def HAS_NUMERIC_VALUE_def HAS_POSITIVE_NUMERIC_VALUE_def HAS_OVERLOADED_BOOLEAN_VALUE_def)

lemma default_slot_names_custom: "list_all (\<lambda>n. \<not> data_or_aria n) default_slot_names"
  by code_simp

lemma default_slots_apart:
  assumes p: "default_injection True empty_dom_property = Some (Inr (), p)"
    and ev: "\<not> is_event ''style''" "\<not> is_event ''dangerouslySetInnerHTML''"
  shows "slots_apart p is_event"
proof -
  let ?h = "HTMLDOMPropertyConfig True" and ?s = SVGDOMPropertyConfig
  obtain p1 where custom: "isCustomAttributeFunctions p = [data_or_aria]"
    and h: "injects ?h (Properties ?h) (empty_dom_property\<lparr>isCustomAttributeFunctions := [data_or_aria]\<rparr>) p1"
    and s: "injects ?s (Properties ?s) p1 p"
    using default_injects [of True] p by auto
  have dist: "distinct (map fst (Properties ?h))" "distinct (map fst (Properties ?s))"
    "fst ` set (Properties ?h) \<inter> fst ` set (Properties ?s) = {}"
    using html_names_distinct [of True] unfolding distinct_append set_map by blast+
  have std: "is_standard p k \<longleftrightarrow> k \<in> fst ` set (Properties ?h) \<or> k \<in> fst ` set (Properties ?s)" for k
    using h s by (auto simp: injects_def is_standard_def flag_def empty_dom_property_def)
  have mm: "mutation_method p k = None" for k
    using h s by (auto simp: injects_def mutation_method_def empty_dom_property_def HTMLDOMPropertyConfig_def SVGDOMPropertyConfig_def
        split: option.split)
  have entry: "k \<in> fst ` set X \<Longrightarrow> \<exists>w. (k, w) \<in> set X" for k and X :: "(string \<times> 32 word) list" by force
  have slot_s: "slot_of p k = config_slot ?s (k, w)" if kw: "(k, w) \<in> set (Properties ?s)" for k w
  proof -
    have k: "k \<in> fst ` set (Properties ?s)" using kw by force
    have "map_of (Properties ?s) k = Some w" by (rule map_of_is_SomeI [OF dist(2) kw])
    then show ?thesis using s k std [of k]
      by (simp add: slot_of_def injects_def flag_def config_slot_def attribute_name_def property_name_def)
  qed
  have slot_h: "slot_of p k = config_slot ?h (k, w)" if kw: "(k, w) \<in> set (Properties ?h)" for k w
  proof -
    have k: "k \<in> fst ` set (Properties ?h)" "k \<notin> fst ` set (Properties ?s)" using kw dist(3) by force+
    have "map_of (Properties ?h) k = Some w" "map_of (Properties ?s) k = None"
      using map_of_is_SomeI [OF dist(1) kw] k(2) by (auto simp: map_of_eq_None_iff)
    then show ?thesis using h s k std [of k]
      by (simp add: slot_of_def injects_def flag_def config_slot_def attribute_name_def property_name_def)
  qed
  have names: "slot_name (slot_of p k) \<in> set default_slot_names" if "is_standard p k" for k
    using that unfolding std default_slot_names_def using slot_h slot_s by (fastforce simp: image_iff)
  have apart: "k = k'" if st: "is_standard p k" "is_standard p k'" "slot_name (slot_of p k) = slot_name (slot_of p k')" for k k'
  proof -
    note d = default_slot_names_distinct [unfolded default_slot_names_def distinct_append distinct_map set_map]
    have inj: "inj_on (\<lambda>nw. slot_name (config_slot ?h nw)) (set (Properties ?h))"
      "inj_on (\<lambda>nw. slot_name (config_slot ?s nw)) (set (Properties ?s))"
      "(\<lambda>nw. slot_name (config_slot ?h nw)) ` set (Properties ?h) \<inter> (\<lambda>nw. slot_name (config_slot ?s nw)) ` set (Properties ?s) = {}"
      using d by blast+
    consider w w' where "(k, w) \<in> set (Properties ?h)" "(k', w') \<in> set (Properties ?h)"
      | w w' where "(k, w) \<in> set (Properties ?s)" "(k', w') \<in> set (Properties ?s)"
      | w w' where "(k, w) \<in> set (Properties ?h)" "(k', w') \<in> set (Properties ?s)"
      | w w' where "(k, w) \<in> set (Properties ?s)" "(k', w') \<in> set (Properties ?h)"
      using st(1,2) entry [of k] entry [of k'] unfolding std by blast
    then show ?thesis
    proof cases
      case (1 w w')
      then show ?thesis using inj_onD [OF inj(1), of "(k, w)" "(k', w')"] st(3) slot_h by simp
    next
      case (2 w w')
      then show ?thesis using inj_onD [OF inj(2), of "(k, w)" "(k', w')"] st(3) slot_s by simp
    next
      case (3 w w')
      then have "slot_name (config_slot ?h (k, w)) = slot_name (config_slot ?s (k', w'))" using st(3) slot_h slot_s by simp
      then show ?thesis using 3 inj(3) by (metis (no_types, lifting) IntI empty_iff imageI)
    next
      case (4 w w')
      then have "slot_name (config_slot ?h (k', w')) = slot_name (config_slot ?s (k, w))" using st(3) slot_h slot_s by simp
      then show ?thesis using 4 inj(3) by (metis (no_types, lifting) IntI empty_iff imageI)
    qed
  qed
  have custom_slot: "slot_of p k = AttributeSlot k" "data_or_aria k" if "managed p is_event k" "\<not> is_standard p k" for k
    using that custom by (simp_all add: slot_of_def managed_def isCustomAttribute_def)
  have not_custom: "\<not> data_or_aria (slot_name (slot_of p k))" if "is_standard p k" for k
    using names [OF that] default_slot_names_custom by (auto simp: list_all_iff)
  have "inj_on (slot_of p) {k. managed p is_event k}"
  proof (rule inj_onI)
    fix k k' assume k: "k \<in> {k. managed p is_event k}" "k' \<in> {k. managed p is_event k}" "slot_of p k = slot_of p k'"
    then show "k = k'" using apart custom_slot not_custom by (metis mem_Collect_eq slot.inject(1) slot_name.simps(1))
  qed
  moreover have "\<not> is_standard p ''dangerouslySetInnerHTML''"
    unfolding std by (simp add: HTMLDOMPropertyConfig_def SVGDOMPropertyConfig_def)
  moreover have "\<not> isCustomAttribute p ''dangerouslySetInnerHTML''"
    by (simp add: isCustomAttribute_def custom data_or_aria_def)
  ultimately show ?thesis using mm ev by (simp add: slots_apart_def INVALID_PROPERTY_ERRORS_def)
qed

section \<open>Series of updates\<close>

lemma update_transaction_mirrors:
  assumes ok: "slots_apart p is_event" "env_ok env" and valid: "valid_props is_event lastProps" "valid_props is_event nextProps"
    and follow: "may_follow lastProps nextProps" and s: "mirrors env p is_event rootID lastProps s"
  shows "\<exists>s'. update_transaction env p is_event rootID nextProps s = Some (Inr (), s') \<and> mirrors env p is_event rootID nextProps s'"
proof -
  let ?s = "s\<lparr>currentProps := nextProps\<rparr>"
  have current: "currentProps s = lastProps" and content: "node_content s = content_shown env lastProps"
    using s by (simp_all add: mirrors_def)
  obtain s1 where s1: "updateDOMProperties env p is_event rootID lastProps ?s = Some (Inr (), s1)" "same_rest ?s s1"
    "shows_properties env p is_event (own nextProps) (client_node s1)"
    "\<forall>k. is_event k \<longrightarrow> after_queue (putListenerQueue s1) (getListener s1 rootID) k = listener_option (listener_value_of (own nextProps k))"
    "\<forall>(i, k, v) \<in> set (putListenerQueue s1). i = rootID \<and> v \<noteq> NotAFunction"
    "previousStyleCopy s1 = style_copy (own nextProps ''style'')"
    "\<forall>m. shown_style (client_node s1) m = style_values env (own_members (own nextProps ''style'')) m"
    using updateDOMProperties_mirrors [OF ok valid follow s refl] by blast
  let ?s2 = "s1\<lparr>node_content := content_shown env nextProps\<rparr>"
  have "updateDOMChildren env lastProps s1 = Some (Inr (), ?s2)"
    by (rule updateDOMChildren_shows [OF valid]) (use s1(2) content in \<open>simp_all add: same_rest_def\<close>)
  then have received: "receiveComponent env p is_event rootID nextProps s = Some (Inr (), ?s2)"
    using s1(1) valid(2) current by (simp add: receiveComponent_def updateComponent_def cmd valid_props_def)
  obtain s3 where s3: "putListeners (putListenerQueue ?s2) ?s2 = Some (Inr (), s3)"
    "getListener s3 rootID = after_queue (putListenerQueue ?s2) (getListener ?s2 rootID)" "s3 = ?s2\<lparr>listenerBank := listenerBank s3\<rparr>"
    using putListeners_get [of "putListenerQueue ?s2" rootID ?s2] s1(5) by auto
  have fields: "client_node s3 = client_node s1" "currentProps s3 = nextProps" "previousStyleCopy s3 = previousStyleCopy s1"
    "node_content s3 = content_shown env nextProps"
    using s1(2) by (subst s3(3), simp add: same_rest_def)+
  have "update_transaction env p is_event rootID nextProps s = Some (Inr (), s3\<lparr>putListenerQueue := []\<rparr>)"
    using received s3(1) by (simp add: update_transaction_def close_putListenerQueue_def cmd)
  moreover have "mirrors env p is_event rootID nextProps (s3\<lparr>putListenerQueue := []\<rparr>)"
    using s1 s3(2) by (simp add: mirrors_def fields)
  ultimately show ?thesis by blast
qed


text \<open>A node without properties in a page, and two elements for it.\<close>

definition demo_client :: "(nat, nat) dom_client" where
  "demo_client = \<lparr>registry = demo_registry, listenerBank = Map.empty, eventQueue = Nothing, events = (\<lambda>e. blank_event),
     pools = (\<lambda>C. addPoolingTo None 0),
     client_node = \<lparr>node_attributes = Map.empty, node_properties = (\<lambda>n. Some (default_value demo_env n)), node_style = Map.empty\<rparr>,
     currentProps = [], previousStyleCopy = None, styleUpdates = None, putListenerQueue = [], node_content = EmptyContent\<rparr>"

definition demo_props :: "members list" where
  "demo_props = [
     [(''style'', Obj 1 [] [(''color'', Str ''red''), (''margin'', Str ''2em'')]), (''onClick'', Func 3), (''children'', Str ''x'')],
     [(''style'', Obj 2 [] [(''color'', Str ''red''), (''width'', Str ''1em'')]), (''data-a'', Str ''b'')]]"


text \<open>
  Why a null is excluded: an explicit null takes the style away, but the copy of the style before stays. When that style
  comes back, it is compared with the copy, found unchanged, and not set again.
\<close>

definition red :: members where
  "red = [(''style'', Obj 1 [] [(''color'', Str ''red'')])]"

lemma style_lost_after_null:
  "\<exists>s'. foreach (update_transaction demo_env p (\<lambda>k. k = ''onClick'') ''.r'') [red, [(''style'', Null)], red] demo_client = Some (Inr (), s') \<and>
     currentProps s' = red \<and> shown_style (client_node s') ''color'' = ''''"
  by (simp add: red_def demo_client_def update_transaction_def receiveComponent_def updateComponent_def updateDOMProperties_def
      updateDOMChildren_def drop_property_def update_property_def update_style_def style_copy_def flush_styles_def updateStylesByID_def
      change_node_def setValueForStyles_def setValueForStyle_def set_style_def shorthandPropertyExpansions_def close_putListenerQueue_def
      putListeners_def assertValidProps_def get_member_def object_prototype_keys_def nullish_def content_to_use_def children_to_use_def
      html_to_use_def changed_updates_def unset_updates_def put_update_def strict_eq_def dangerousStyleValue_def demo_env_def shown_style_def
      Let_def cmd)

text \<open>Unmounting leaves no listener of the node.\<close>

lemma unmounted_without_listeners:
  "\<exists>s'. unmount_dom_component rootID s = Some (Inr (), s') \<and> getListener s' rootID name = None"
  by (simp add: unmount_dom_component_def show_children_def deleteAllListeners_def cmd getListener_def split: option.split)

end
