(* ===== verification/ReactMount.thy ===== *)
theory ReactMount
  imports ReactEvents "HOL-Library.Word"
begin

unbundle bit_operations_syntax

text \<open>
  \<open>ReactMount\<close> in \<open>webfiles/react.js\<close>: the containers that components are rendered into, the ids of the nodes
  (the attribute \<open>data-reactid\<close>), and the cache that finds the node of an id without asking the document.

  The page is a list of trees: the document and whatever is detached from it. A node has an address, its \<open>nodeType\<close>,
  the value of the attribute and its children. What the browser does (\<open>contains\<close>, \<open>parentNode\<close>) is read off the trees.
  The module's variables are fields of the state. Mounting the component and unmounting it are parameters of
  \<open>render\<close>; warnings are left out.

  The theorem is that \<open>getNode\<close> finds the node with an id whenever the page is as React left it, whatever is in the cache,
  and that it fills the cache with nothing wrong.
\<close>

section \<open>The page\<close>

datatype node = Node (node_address: nat) (node_type: nat) (node_reactid: string) (child_nodes: "node list")

fun nodes_of :: "node \<Rightarrow> node list" where
  "nodes_of (Node a t i ks) = Node a t i ks # concat (map nodes_of ks)"

record 'c mount_state =
  page :: "node list"
  nodeCache :: "string \<rightharpoonup> nat"
  instancesByReactRootID :: "string \<rightharpoonup> 'c"
  containersByReactRootID :: "string \<rightharpoonup> nat"
  rootElementsByReactRootID :: "string \<rightharpoonup> nat"
  deepestNodeSoFar :: "nat option"
  nextReactRootIndex :: nat

definition all_nodes :: "('c, 'z) mount_state_scheme \<Rightarrow> node list" where
  "all_nodes s = concat (map nodes_of (page s))"

definition find_node :: "('c, 'z) mount_state_scheme \<Rightarrow> nat \<Rightarrow> node option" where
  "find_node s a = find (\<lambda>n. node_address n = a) (all_nodes s)"

text \<open>\<open>parentNode\<close>, \<open>firstChild\<close>.\<close>

definition parentNode :: "('c, 'z) mount_state_scheme \<Rightarrow> nat \<Rightarrow> nat option" where
  "parentNode s a = map_option node_address (find (\<lambda>n. a \<in> node_address ` set (child_nodes n)) (all_nodes s))"

definition firstChild :: "node \<Rightarrow> node option" where
  "firstChild n = (case child_nodes n of [] \<Rightarrow> None | k # ks \<Rightarrow> Some k)"

definition containsNode :: "('c, 'z) mount_state_scheme \<Rightarrow> nat \<Rightarrow> nat \<Rightarrow> bool" where
  "containsNode s outer inner = (case find_node s outer of
     Some n \<Rightarrow> inner \<in> node_address ` set (nodes_of n) | None \<Rightarrow> False)"

definition ELEMENT_NODE_TYPE :: nat where "ELEMENT_NODE_TYPE = 1"
definition DOC_NODE_TYPE :: nat where "DOC_NODE_TYPE = 9"

text \<open>The root element of a document is its first child that is an element.\<close>

definition getReactRootElementInContainer :: "node \<Rightarrow> node option" where
  "getReactRootElementInContainer n = (if node_type n = DOC_NODE_TYPE
     then find (\<lambda>k. node_type k = ELEMENT_NODE_TYPE) (child_nodes n) else firstChild n)"

text \<open>Only elements have attributes.\<close>

definition internalGetID :: "node \<Rightarrow> string" where
  "internalGetID n = (if node_type n = ELEMENT_NODE_TYPE then node_reactid n else '''')"

section \<open>Ids and their nodes\<close>

text \<open>The container of an id. The record of root elements, kept in development, is checked and corrected.\<close>

definition findReactContainerForID :: "string \<Rightarrow> (nat option, ('c, 'z) mount_state_scheme) cmd" where
  "findReactContainerForID ident = (\<lambda>s. case getReactRootIDFromNodeID ident of
     None \<Rightarrow> ret None s
   | Some reactRootID \<Rightarrow>
       (let container = containersByReactRootID s reactRootID in
        case rootElementsByReactRootID s reactRootID of
          None \<Rightarrow> ret container s
        | Some rootElement \<Rightarrow>
            if parentNode s rootElement \<noteq> container then
              after (invariant (\<lambda>s. map_option internalGetID (find_node s rootElement) = Some reactRootID)
                  ''ReactMount: Root element ID differed from reactRootID'')
                (\<lambda>s. case Option.bind container (find_node s) of
                   None \<Rightarrow> throw ''TypeError'' s
                 | Some c \<Rightarrow> (case firstChild c of
                     Some containerChild \<Rightarrow>
                       if internalGetID containerChild = reactRootID
                       then after (modify (\<lambda>s. s\<lparr>rootElementsByReactRootID :=
                           (rootElementsByReactRootID s)(reactRootID \<mapsto> node_address containerChild)\<rparr>)) (ret container) s
                       else ret container s
                   | None \<Rightarrow> ret container s)) s
            else ret container s))"

definition isValid :: "nat \<Rightarrow> string \<Rightarrow> (bool, ('c, 'z) mount_state_scheme) cmd" where
  "isValid a ident =
     after (invariant (\<lambda>s. map_option internalGetID (find_node s a) = Some ident) ''ReactMount: Unexpected modification'')
       (bind_cmd (findReactContainerForID ident) (\<lambda>container s. ret (case container of
          Some c \<Rightarrow> containsNode s c a | None \<Rightarrow> False) s))"

definition set_cached :: "string \<Rightarrow> nat \<Rightarrow> (unit, ('c, 'z) mount_state_scheme) cmd" where
  "set_cached ident a = modify (\<lambda>s. s\<lparr>nodeCache := (nodeCache s)(ident \<mapsto> a)\<rparr>)"

definition getID :: "node \<Rightarrow> (string, ('c, 'z) mount_state_scheme) cmd" where
  "getID n = (\<lambda>s. let ident = internalGetID n; a = node_address n in
     if ident \<noteq> '''' then
       (case nodeCache s ident of
          Some cached \<Rightarrow>
            if cached \<noteq> a then
              bind_cmd (isValid cached ident) (\<lambda>valid.
                after (invariant (\<lambda>s. \<not> valid) ''ReactMount: Two valid but unequal nodes'')
                  (after (set_cached ident a) (ret ident))) s
            else ret ident s
        | None \<Rightarrow> after (set_cached ident a) (ret ident) s)
     else ret ident s)"

definition purgeID :: "string \<Rightarrow> (unit, ('c, 'z) mount_state_scheme) cmd" where
  "purgeID ident = modify (\<lambda>s. s\<lparr>nodeCache := (nodeCache s)(ident := None)\<rparr>)"

definition findDeepestCachedAncestorImpl :: "string \<Rightarrow> (bool, ('c, 'z) mount_state_scheme) cmd" where
  "findDeepestCachedAncestorImpl ancestorID = (\<lambda>s. case nodeCache s ancestorID of
     None \<Rightarrow> ret False s
   | Some ancestor \<Rightarrow> bind_cmd (isValid ancestor ancestorID) (\<lambda>valid.
       if valid then after (modify (\<lambda>s. s\<lparr>deepestNodeSoFar := Some ancestor\<rparr>)) (ret True) else ret False) s)"

text \<open>The callback of the traversal: it stops at an exception, and at \<open>false\<close>.\<close>

definition stop_at_false ::
    "(string \<Rightarrow> (bool, 's) cmd) \<Rightarrow> string \<Rightarrow> bool \<Rightarrow> exn option \<times> 's \<Rightarrow> bool \<times> exn option \<times> 's" where
  "stop_at_false cb ident up = (\<lambda>(e, s). case e of
     Some x \<Rightarrow> (True, e, s)
   | None \<Rightarrow> (case cb ident s of
       Some (Inr go, s') \<Rightarrow> (\<not> go, None, s') | Some (Inl x, s') \<Rightarrow> (True, Some x, s') | None \<Rightarrow> (True, Some ''undefined'', s)))"

definition findDeepestCachedAncestor :: "string \<Rightarrow> (nat option, ('c, 'z) mount_state_scheme) cmd" where
  "findDeepestCachedAncestor targetID =
     after (modify (\<lambda>s. s\<lparr>deepestNodeSoFar := None\<rparr>))
       (after (\<lambda>s. traversed (traverseAncestors targetID (stop_at_false findDeepestCachedAncestorImpl) (None, s)))
         (\<lambda>s. after (modify (\<lambda>s. s\<lparr>deepestNodeSoFar := None\<rparr>)) (ret (deepestNodeSoFar s)) s))"

text \<open>One list of siblings: the lists of children still to be searched, and the node if it is among them.\<close>

fun search_siblings :: "string \<Rightarrow> node list \<Rightarrow> node list list \<Rightarrow> node option
    \<Rightarrow> (node list list \<times> node option, ('c, 'z) mount_state_scheme) cmd" where
  "search_siblings targetID [] firstChildren targetChild = ret (firstChildren, targetChild)"
| "search_siblings targetID (child # siblings) firstChildren targetChild =
     bind_cmd (getID child) (\<lambda>childID.
       if childID \<noteq> '''' then
         (if targetID = childID then search_siblings targetID siblings firstChildren (Some child)
          else if isAncestorIDOf childID targetID then search_siblings targetID siblings [child_nodes child] targetChild
          else search_siblings targetID siblings firstChildren targetChild)
       else search_siblings targetID siblings (firstChildren @ [child_nodes child]) targetChild)"

text \<open>The number of nodes bounds the search.\<close>

definition weight :: "node list list \<Rightarrow> nat" where
  "weight q = length q + sum_list (map (\<lambda>ks. sum_list (map (\<lambda>n. 2 * length (nodes_of n)) ks)) q)"

lemma weight_simps [simp]:
  "weight [] = 0" "weight (ks # q) = 1 + sum_list (map (\<lambda>n. 2 * length (nodes_of n)) ks) + weight q"
  "weight (q @ q') = weight q + weight q'"
  by (simp_all add: weight_def)

lemma weight_children: "weight [child_nodes n] < 2 * length (nodes_of n)"
proof -
  have "sum_list (map (\<lambda>n. 2 * length (nodes_of n)) ks) = 2 * length (concat (map nodes_of ks))" for ks
    by (induction ks) simp_all
  then show ?thesis by (cases n) simp
qed

lemma search_siblings_weight:
  "search_siblings targetID ks q found s = Some (Inr (q', found'), s') \<Longrightarrow>
   weight q' \<le> weight q + sum_list (map (\<lambda>n. 2 * length (nodes_of n)) ks)"
proof (induction ks arbitrary: q found s)
  case (Cons child ks)
  let ?w = "sum_list (map (\<lambda>n. 2 * length (nodes_of n)) ks)"
  obtain childID s1 where getid: "getID child s = Some (Inr childID, s1)"
    using Cons.prems by (auto simp: bind_cmd_def split: option.splits sum.splits)
  note step = Cons.prems [unfolded search_siblings.simps bind_cmd_def getid, simplified]
  consider (none) "childID = ''''" | (target) "childID \<noteq> ''''" "targetID = childID"
    | (ancestor) "childID \<noteq> ''''" "targetID \<noteq> childID" "isAncestorIDOf childID targetID"
    | (other) "childID \<noteq> ''''" "targetID \<noteq> childID" "\<not> isAncestorIDOf childID targetID" by blast
  then show ?case
  proof cases
    case none
    then have "weight q' \<le> weight (q @ [child_nodes child]) + ?w" using step by (intro Cons.IH) simp
    then show ?thesis using weight_children [of child] by simp
  next
    case target
    then have "weight q' \<le> weight q + ?w" using step by (intro Cons.IH) simp
    then show ?thesis by simp
  next
    case ancestor
    then have "weight q' \<le> weight [child_nodes child] + ?w" using step by (intro Cons.IH) simp
    then show ?thesis using weight_children [of child] by simp
  next
    case other
    then have "weight q' \<le> weight q + ?w" using step by (intro Cons.IH) simp
    then show ?thesis by simp
  qed
qed (simp add: cmd)

function search_nodes :: "string \<Rightarrow> node list list \<Rightarrow> (node, ('c, 'z) mount_state_scheme) cmd" where
  "search_nodes targetID [] s = throw ''findComponentRoot: Unable to find element'' s"
| "search_nodes targetID (siblings # firstChildren) s =
     (case search_siblings targetID siblings firstChildren None s of
        None \<Rightarrow> None
      | Some (Inl e, s1) \<Rightarrow> Some (Inl e, s1)
      | Some (Inr (rest, targetChild), s1) \<Rightarrow>
          (case targetChild of Some n \<Rightarrow> ret n s1 | None \<Rightarrow> search_nodes targetID rest s1))"
  by pat_completeness auto
termination
  by (relation "measure (\<lambda>(targetID, q, s). weight q)") (auto dest!: search_siblings_weight)

text \<open>A null container has no first child.\<close>

definition findComponentRoot :: "nat option \<Rightarrow> string \<Rightarrow> (nat, ('c, 'z) mount_state_scheme) cmd" where
  "findComponentRoot ancestorNode targetID =
     bind_cmd (findDeepestCachedAncestor targetID) (\<lambda>deepest s.
       (case Option.bind (case deepest of Some a \<Rightarrow> Some a | None \<Rightarrow> ancestorNode) (find_node s) of
          None \<Rightarrow> throw ''TypeError'' s
        | Some n \<Rightarrow> bind_cmd (search_nodes targetID [child_nodes n]) (\<lambda>found. ret (node_address found)) s))"

definition findReactNodeByID :: "string \<Rightarrow> (nat, ('c, 'z) mount_state_scheme) cmd" where
  "findReactNodeByID ident = bind_cmd (findReactContainerForID ident) (\<lambda>reactRoot. findComponentRoot reactRoot ident)"

definition getNode :: "string \<Rightarrow> (nat, ('c, 'z) mount_state_scheme) cmd" where
  "getNode ident = (\<lambda>s.
     let refind = bind_cmd (findReactNodeByID ident) (\<lambda>a. after (set_cached ident a) (ret a))
     in case nodeCache s ident of
          None \<Rightarrow> refind s
        | Some a \<Rightarrow> bind_cmd (isValid a ident) (\<lambda>valid. if valid then ret a else refind) s)"

section \<open>A page as React left it\<close>

definition inside :: "node \<Rightarrow> node list" where
  "inside n = concat (map nodes_of (child_nodes n))"

text \<open>
  The ids in a container belong to its root, and an id is an ancestor of another exactly if its node contains the
  other's node. Between them there may be nodes without ids, as a browser adds them.
\<close>

definition ids_mirror :: "string \<Rightarrow> node \<Rightarrow> bool" where
  "ids_mirror r C \<longleftrightarrow> internalGetID C = '''' \<and>
     (\<forall>x \<in> set (inside C). internalGetID x \<noteq> '''' \<longrightarrow> getReactRootIDFromNodeID (internalGetID x) = Some r) \<and>
     (\<forall>x \<in> set (inside C). \<forall>y \<in> set (inside C). internalGetID x \<noteq> '''' \<and> internalGetID y \<noteq> '''' \<longrightarrow>
        (isAncestorIDOf (internalGetID x) (internalGetID y) \<longleftrightarrow> y \<in> set (nodes_of x)))"

text \<open>What is cached has had the id, and may have been detached since.\<close>

definition mount_ok :: "('c, 'z) mount_state_scheme \<Rightarrow> bool" where
  "mount_ok s \<longleftrightarrow> distinct (map node_address (all_nodes s)) \<and>
     (\<forall>r c. containersByReactRootID s r = Some c \<longrightarrow>
        (\<exists>C. find_node s c = Some C \<and> ids_mirror r C) \<and>
        (\<forall>e. rootElementsByReactRootID s r = Some e \<longrightarrow> parentNode s e = Some c)) \<and>
     (\<forall>r. containersByReactRootID s r = None \<longrightarrow> rootElementsByReactRootID s r = None) \<and>
     (\<forall>i a. nodeCache s i = Some a \<longrightarrow> i \<noteq> '''' \<and> map_option internalGetID (find_node s a) = Some i)"

text \<open>A change of the cache leaves the page alone.\<close>

definition only_cache :: "('c, 'z) mount_state_scheme \<Rightarrow> ('c, 'z) mount_state_scheme \<Rightarrow> bool" where
  "only_cache s s' \<longleftrightarrow> (\<exists>f d. s' = s\<lparr>nodeCache := f, deepestNodeSoFar := d\<rparr>)"

lemma only_cache_refl: "only_cache s s"
  unfolding only_cache_def by (rule exI [of _ "nodeCache s"], rule exI [of _ "deepestNodeSoFar s"]) simp

lemma only_cache_trans:
  assumes "only_cache s s'" "only_cache s' s''"
  shows "only_cache s s''"
proof -
  obtain f d f' d' where "s' = s\<lparr>nodeCache := f, deepestNodeSoFar := d\<rparr>" "s'' = s'\<lparr>nodeCache := f', deepestNodeSoFar := d'\<rparr>"
    using assms unfolding only_cache_def by blast
  then have "s'' = s\<lparr>nodeCache := f', deepestNodeSoFar := d'\<rparr>" by simp
  then show ?thesis unfolding only_cache_def by blast
qed

lemma only_cache_same:
  assumes "only_cache s s'"
  shows "page s' = page s" "all_nodes s' = all_nodes s" "find_node s' = find_node s" "parentNode s' = parentNode s"
    "containsNode s' = containsNode s" "containersByReactRootID s' = containersByReactRootID s"
    "rootElementsByReactRootID s' = rootElementsByReactRootID s"
  using assms by (auto simp: only_cache_def all_nodes_def find_node_def parentNode_def containsNode_def fun_eq_iff)

lemma mount_ok_cache:
  assumes "mount_ok s" "only_cache s s'"
    and "\<And>i a. nodeCache s' i = Some a \<Longrightarrow> nodeCache s i \<noteq> Some a \<Longrightarrow> i \<noteq> '''' \<and> map_option internalGetID (find_node s a) = Some i"
  shows "mount_ok s'"
proof -
  have "i \<noteq> '''' \<and> map_option internalGetID (find_node s a) = Some i" if "nodeCache s' i = Some a" for i a
    using assms(1,3) that unfolding mount_ok_def by (cases "nodeCache s i = Some a") blast+
  then show ?thesis using assms(1) unfolding mount_ok_def only_cache_same [OF assms(2)] by blast
qed

section \<open>Trees\<close>

lemma self_in_nodes [simp]: "n \<in> set (nodes_of n)"
  by (cases n) simp

lemma nodes_of_inside: "nodes_of n = n # inside n"
  by (cases n) (simp add: inside_def)

lemma nodes_of_trans: "y \<in> set (nodes_of x) \<Longrightarrow> set (nodes_of y) \<subseteq> set (nodes_of x)"
proof (induction x)
  case (Node a t i ks)
  then show ?case by (cases "y = Node a t i ks") fastforce+
qed

lemma nodes_of_size: "y \<in> set (nodes_of x) \<Longrightarrow> y = x \<or> size y < size x"
proof (induction x)
  case (Node a t i ks)
  then consider "y = Node a t i ks" | k where "k \<in> set ks" "y \<in> set (nodes_of k)" by auto
  then show ?case
  proof cases
    case (2 k)
    have "size k < size (Node a t i ks)" using 2(1) by (simp add: size_list_estimation' less_Suc_eq_le)
    then show ?thesis using Node.IH [OF 2] by auto
  qed simp
qed

lemma nodes_of_antisym: "y \<in> set (nodes_of x) \<Longrightarrow> x \<in> set (nodes_of y) \<Longrightarrow> x = y"
  using nodes_of_size [of y x] nodes_of_size [of x y] by auto

lemma find_node_in: "find_node s a = Some n \<Longrightarrow> n \<in> set (all_nodes s) \<and> node_address n = a"
  by (auto simp: find_node_def find_Some_iff)

lemma inside_in_page:
  assumes "find_node s c = Some C"
  shows "set (nodes_of C) \<subseteq> set (all_nodes s)"
proof -
  obtain t where t: "t \<in> set (page s)" "C \<in> set (nodes_of t)" using find_node_in [OF assms] by (auto simp: all_nodes_def)
  from nodes_of_trans [OF t(2)] show ?thesis using t(1) unfolding all_nodes_def by auto
qed

lemma find_node_address:
  assumes "mount_ok s" "n \<in> set (all_nodes s)"
  shows "find_node s (node_address n) = Some n"
proof (cases "find_node s (node_address n)")
  case None
  then show ?thesis using assms(2) unfolding find_node_def find_None_iff by blast
next
  case (Some m)
  have "inj_on node_address (set (all_nodes s))" using assms(1) unfolding mount_ok_def distinct_map by blast
  from inj_onD [OF this] show ?thesis using find_node_in [OF Some] assms(2) Some by simp
qed

lemma containsNode_iff:
  assumes "mount_ok s" "find_node s c = Some C" "find_node s a = Some n"
  shows "containsNode s c a \<longleftrightarrow> n \<in> set (nodes_of C)"
proof -
  have n: "node_address n = a" using find_node_in [OF assms(3)] by blast
  have "m = n" if "m \<in> set (nodes_of C)" "node_address m = a" for m
  proof -
    have "m \<in> set (all_nodes s)" using inside_in_page [OF assms(2)] that(1) by blast
    from find_node_address [OF assms(1) this] show ?thesis using that(2) assms(3) by simp
  qed
  then show ?thesis using n assms(2) by (auto simp: containsNode_def)
qed

text \<open>Two nodes of a container with ids: the id tells the node.\<close>

lemma id_tells_node:
  assumes "ids_mirror r C" "x \<in> set (inside C)" "y \<in> set (inside C)" "internalGetID x = internalGetID y" "internalGetID x \<noteq> ''''"
  shows "x = y"
proof -
  have refl: "isAncestorIDOf i i" for i by (simp add: isAncestorIDOf_def isBoundary_def)
  have "y \<in> set (nodes_of x)" "x \<in> set (nodes_of y)"
    using assms refl [of "internalGetID x"] unfolding ids_mirror_def by metis+
  then show ?thesis by (rule nodes_of_antisym)
qed

section \<open>Validity of a cached node\<close>

lemma container_found:
  assumes "mount_ok s"
  shows "findReactContainerForID ident s = Some (Inr (Option.bind (getReactRootIDFromNodeID ident) (containersByReactRootID s)), s)"
proof (cases "getReactRootIDFromNodeID ident")
  case None
  then show ?thesis by (simp add: findReactContainerForID_def cmd)
next
  case (Some r)
  show ?thesis
  proof (cases "rootElementsByReactRootID s r")
    case None
    then show ?thesis using Some by (simp add: findReactContainerForID_def cmd)
  next
    case e: (Some e)
    have none: "containersByReactRootID s r = None \<Longrightarrow> rootElementsByReactRootID s r = None"
      using assms unfolding mount_ok_def by blast
    then obtain c where "containersByReactRootID s r = Some c" using e by (cases "containersByReactRootID s r") auto
    moreover from this have "parentNode s e = Some c" using assms e unfolding mount_ok_def by blast
    ultimately show ?thesis using Some e by (simp add: findReactContainerForID_def cmd)
  qed
qed

definition valid_now :: "('c, 'z) mount_state_scheme \<Rightarrow> nat \<Rightarrow> string \<Rightarrow> bool" where
  "valid_now s a ident = (case Option.bind (getReactRootIDFromNodeID ident) (containersByReactRootID s) of
     Some c \<Rightarrow> containsNode s c a | None \<Rightarrow> False)"

lemma isValid_now:
  assumes "mount_ok s" "nodeCache s ident = Some a"
  shows "isValid a ident s = Some (Inr (valid_now s a ident), s)"
proof -
  have "map_option internalGetID (find_node s a) = Some ident" using assms unfolding mount_ok_def by blast
  then show ?thesis by (simp add: isValid_def cmd container_found [OF assms(1)] valid_now_def)
qed

text \<open>A valid node is inside its container.\<close>

lemma valid_inside:
  assumes ok: "mount_ok s" and cached: "nodeCache s ident = Some a"
    and c: "getReactRootIDFromNodeID ident = Some r" "containersByReactRootID s r = Some c" "find_node s c = Some C"
    and valid: "valid_now s a ident"
  shows "\<exists>n. n \<in> set (inside C) \<and> node_address n = a \<and> internalGetID n = ident \<and> find_node s a = Some n"
proof -
  have "ident \<noteq> ''''" "map_option internalGetID (find_node s a) = Some ident" using ok cached unfolding mount_ok_def by blast+
  then obtain n where n: "find_node s a = Some n" "internalGetID n = ident" "ident \<noteq> ''''" by blast
  have "ids_mirror r C" using ok c(2,3) unfolding mount_ok_def by (metis option.inject)
  then have "internalGetID C = ''''" unfolding ids_mirror_def by blast
  moreover have "n \<in> set (nodes_of C)" using valid c containsNode_iff [OF ok c(3) n(1)] by (simp add: valid_now_def)
  ultimately have "n \<in> set (inside C)" using n by (auto simp: nodes_of_inside)
  then show ?thesis using n find_node_in [OF n(1)] by blast
qed

lemma inside_facts:
  assumes ok: "mount_ok s" and c: "containersByReactRootID s r = Some c" "find_node s c = Some C" and n: "n \<in> set (inside C)"
  shows "find_node s (node_address n) = Some n" "ids_mirror r C"
    "internalGetID n \<noteq> '''' \<Longrightarrow> getReactRootIDFromNodeID (internalGetID n) = Some r"
proof -
  have "n \<in> set (all_nodes s)" using inside_in_page [OF c(2)] n by (auto simp: nodes_of_inside)
  then show "find_node s (node_address n) = Some n" by (rule find_node_address [OF ok])
  show m: "ids_mirror r C" using ok c unfolding mount_ok_def by (metis option.inject)
  show "internalGetID n \<noteq> '''' \<Longrightarrow> getReactRootIDFromNodeID (internalGetID n) = Some r"
    using m n unfolding ids_mirror_def by blast
qed

text \<open>Asking for the id of a node in a container caches it, and never finds two valid nodes.\<close>

lemma getID_inside:
  assumes ok: "mount_ok s" and c: "containersByReactRootID s r = Some c" "find_node s c = Some C" and n: "n \<in> set (inside C)"
  shows "\<exists>s'. getID n s = Some (Inr (internalGetID n), s') \<and> only_cache s s' \<and> mount_ok s'"
proof (cases "internalGetID n = ''''")
  case True
  then show ?thesis using ok only_cache_refl by (auto simp: getID_def Let_def cmd)
next
  case False
  let ?i = "internalGetID n" and ?a = "node_address n"
  let ?s = "s\<lparr>nodeCache := (nodeCache s)(?i \<mapsto> ?a)\<rparr>"
  note f = inside_facts [OF ok c n]
  have cache: "only_cache s ?s"
    unfolding only_cache_def by (rule exI [of _ "(nodeCache s)(?i \<mapsto> ?a)"], rule exI [of _ "deepestNodeSoFar s"]) simp
  have ok': "mount_ok ?s" by (rule mount_ok_cache [OF ok cache]) (use f(1) False in \<open>auto split: if_splits\<close>)
  show ?thesis
  proof (cases "nodeCache s ?i")
    case None
    then show ?thesis using cache ok' False by (simp add: getID_def set_cached_def Let_def cmd)
  next
    case (Some b)
    show ?thesis
    proof (cases "b = ?a")
      case True
      then show ?thesis using Some ok only_cache_refl False by (auto simp: getID_def Let_def cmd)
    next
      case other: False
      have "\<not> valid_now s b ?i"
      proof
        assume "valid_now s b ?i"
        then obtain m where m: "m \<in> set (inside C)" "node_address m = b" "internalGetID m = ?i"
          using valid_inside [OF ok Some f(3) [OF False] c] by blast
        from id_tells_node [OF f(2) m(1) n m(3)] show False using m other False by auto
      qed
      then show ?thesis using Some other cache ok' False by (simp add: getID_def set_cached_def Let_def cmd isValid_now [OF ok Some])
    qed
  qed
qed

section \<open>The search\<close>

text \<open>What the search knows: the target has been found, or is below a node still to be looked at.\<close>

definition on_track :: "node \<Rightarrow> node list \<Rightarrow> node option \<Rightarrow> bool" where
  "on_track T todo found \<longleftrightarrow> found = Some T \<or> found = None \<and> T \<in> set (concat (map nodes_of todo))"

lemma children_inside:
  assumes "n \<in> set (nodes_of C)"
  shows "set (concat (map nodes_of (child_nodes n))) \<subseteq> set (inside C)"
proof (cases "n = C")
  case False
  then have n: "n \<in> set (inside C)" using assms by (auto simp: nodes_of_inside)
  then obtain k where "k \<in> set (child_nodes C)" "n \<in> set (nodes_of k)" by (auto simp: inside_def)
  then have "set (nodes_of n) \<subseteq> set (inside C)" using nodes_of_trans by (force simp: inside_def)
  then show ?thesis by (simp add: nodes_of_inside [of n] inside_def [symmetric])
qed (simp add: inside_def)

lemma search_siblings_finds:
  assumes c: "containersByReactRootID s r = Some c" "find_node s c = Some C"
    and T: "T \<in> set (inside C)" "internalGetID T = targetID" "targetID \<noteq> ''''"
    and s: "mount_ok s" "set ks \<subseteq> set (inside C)" "set (concat q) \<subseteq> set (inside C)" "on_track T (ks @ concat q) found"
  shows "\<exists>q' found' s'. search_siblings targetID ks q found s = Some (Inr (q', found'), s') \<and> mount_ok s' \<and> only_cache s s' \<and>
    set (concat q') \<subseteq> set (inside C) \<and> on_track T (concat q') found'"
  using c s
proof (induction ks arbitrary: q found s)
  case Nil
  then show ?case using only_cache_refl by (auto simp: cmd)
next
  case (Cons n ks)
  have n: "n \<in> set (inside C)" using Cons.prems(4) by simp
  obtain s1 where s1: "getID n s = Some (Inr (internalGetID n), s1)" "only_cache s s1" "mount_ok s1"
    using getID_inside [OF Cons.prems(3,1,2) n] by blast
  note mirror = inside_facts(2) [OF Cons.prems(3,1,2) n]
  have kids: "set (child_nodes n) \<subseteq> set (inside C)"
  proof
    fix x assume "x \<in> set (child_nodes n)"
    then have "x \<in> set (concat (map nodes_of (child_nodes n)))" by force
    then show "x \<in> set (inside C)" using children_inside [of n C] n by (auto simp: nodes_of_inside [of C])
  qed
  have below: "T \<in> set (nodes_of n) \<longleftrightarrow> T = n \<or> T \<in> set (concat (map nodes_of (child_nodes n)))"
    by (simp add: nodes_of_inside [of n] inside_def)
  have go: "\<exists>q' found' s'. search_siblings targetID ks p f s1 = Some (Inr (q', found'), s') \<and> mount_ok s' \<and> only_cache s s' \<and>
      set (concat q') \<subseteq> set (inside C) \<and> on_track T (concat q') found'"
    if "set (concat p) \<subseteq> set (inside C)" "on_track T (ks @ concat p) f" for p f
  proof -
    have "containersByReactRootID s1 r = Some c" "find_node s1 c = Some C"
      using Cons.prems(1,2) only_cache_same [OF s1(2)] by simp_all
    from Cons.IH [OF this s1(3) _ that] Cons.prems(4) show ?thesis using only_cache_trans [OF s1(2)] by fastforce
  qed
  consider (none) "internalGetID n = ''''" | (target) "internalGetID n \<noteq> ''''" "targetID = internalGetID n"
    | (ancestor) "internalGetID n \<noteq> ''''" "targetID \<noteq> internalGetID n" "isAncestorIDOf (internalGetID n) targetID"
    | (other) "internalGetID n \<noteq> ''''" "targetID \<noteq> internalGetID n" "\<not> isAncestorIDOf (internalGetID n) targetID" by blast
  then show ?case
  proof cases
    case none
    then have "T \<noteq> n" using T by auto
    then have "on_track T (ks @ concat (q @ [child_nodes n])) found" using Cons.prems(6) below by (auto simp: on_track_def)
    from go [OF _ this] show ?thesis using none s1(1) kids Cons.prems(5) by (simp add: bind_cmd_def)
  next
    case target
    then have "T = n" using id_tells_node [OF mirror T(1) n] T by simp
    then have "on_track T (ks @ concat q) (Some n)" by (simp add: on_track_def)
    from go [OF Cons.prems(5) this] show ?thesis using target s1(1) by (simp add: bind_cmd_def)
  next
    case ancestor
    have "T \<in> set (nodes_of n)" using mirror n T ancestor unfolding ids_mirror_def by blast
    then have "T \<in> set (concat (map nodes_of (child_nodes n)))" using below ancestor(2) T(2) by auto
    then have "on_track T (ks @ concat [child_nodes n]) found" using Cons.prems(6) by (auto simp: on_track_def)
    from go [OF _ this] show ?thesis using ancestor s1(1) kids by (simp add: bind_cmd_def)
  next
    case other
    have "T \<notin> set (nodes_of n)" using mirror n T other unfolding ids_mirror_def by blast
    then have "on_track T (ks @ concat q) found" using Cons.prems(6) by (auto simp: on_track_def)
    from go [OF Cons.prems(5) this] show ?thesis using other s1(1) by (simp add: bind_cmd_def)
  qed
qed

lemma search_nodes_finds:
  assumes "containersByReactRootID s r = Some c" "find_node s c = Some C"
    and T: "T \<in> set (inside C)" "internalGetID T = targetID" "targetID \<noteq> ''''"
    and "mount_ok s" "set (concat q) \<subseteq> set (inside C)" "on_track T (concat q) None"
  shows "\<exists>s'. search_nodes targetID q s = Some (Inr T, s') \<and> mount_ok s' \<and> only_cache s s'"
  using assms
proof (induction targetID q s rule: search_nodes.induct)
  case (1 targetID s)
  then show ?case by (simp add: on_track_def)
next
  case (2 targetID ks q s)
  have "set ks \<subseteq> set (inside C)" "set (concat q) \<subseteq> set (inside C)" "on_track T (ks @ concat q) None" using "2.prems"(7,8) by auto
  from search_siblings_finds [OF "2.prems"(1-6) this]
  obtain q' found s1 where s1: "search_siblings targetID ks q None s = Some (Inr (q', found), s1)" "mount_ok s1" "only_cache s s1"
    "set (concat q') \<subseteq> set (inside C)" "on_track T (concat q') found" by blast
  show ?case
  proof (cases found)
    case None
    have "containersByReactRootID s1 r = Some c" "find_node s1 c = Some C" using "2.prems"(1,2) only_cache_same [OF s1(3)] by simp_all
    moreover have "on_track T (concat q') None" using s1(5) None by simp
    ultimately obtain s2 where "search_nodes targetID q' s1 = Some (Inr T, s2)" "mount_ok s2" "only_cache s1 s2"
      using "2.IH" [OF s1(1) refl refl refl None] "2.prems"(3-5) s1(2,4) by blast
    then show ?thesis using s1(1) None only_cache_trans [OF s1(3)] by auto
  next
    case (Some n)
    then have "n = T" using s1(5) by (simp add: on_track_def)
    then show ?thesis using s1 Some by (simp add: cmd)
  qed
qed

section \<open>Finding a node\<close>

text \<open>The deepest cached ancestor is above the target.\<close>

definition deepest_above :: "node \<Rightarrow> node \<Rightarrow> ('c, 'z) mount_state_scheme \<Rightarrow> bool" where
  "deepest_above C T s \<longleftrightarrow> (case deepestNodeSoFar s of
     None \<Rightarrow> True
   | Some a \<Rightarrow> (\<exists>n. find_node s a = Some n \<and> n \<in> set (inside C) \<and> T \<in> set (concat (map nodes_of (child_nodes n)))))"

definition not_cached :: "('c, 'z) mount_state_scheme \<Rightarrow> string \<Rightarrow> bool" where
  "not_cached s ident \<longleftrightarrow> (\<forall>a. nodeCache s ident = Some a \<longrightarrow> \<not> valid_now s a ident)"

lemma only_deepest: "only_cache s (s\<lparr>deepestNodeSoFar := d\<rparr>)"
  unfolding only_cache_def by (rule exI [of _ "nodeCache s"], rule exI [of _ d]) simp

lemma valid_now_deepest [simp]: "valid_now (s\<lparr>deepestNodeSoFar := d\<rparr>) = valid_now s"
  by (simp add: valid_now_def fun_eq_iff only_cache_same [OF only_deepest] split: option.split)

lemma mount_ok_deepest: "mount_ok s \<Longrightarrow> mount_ok (s\<lparr>deepestNodeSoFar := d\<rparr>)"
  by (erule mount_ok_cache [OF _ only_deepest]) simp

lemma ancestors_visited:
  assumes "mount_ok s" "containersByReactRootID s r = Some c" "find_node s c = Some C"
    and T: "T \<in> set (inside C)" "internalGetID T = targetID" "targetID \<noteq> ''''"
    and "not_cached s targetID" "deepest_above C T s"
    and xs: "\<forall>x \<in> set xs. isAncestorIDOf x targetID \<and> getReactRootIDFromNodeID x = Some r"
  shows "\<exists>b s'. visit (stop_at_false findDeepestCachedAncestorImpl) False xs (None, s) = (b, None, s') \<and>
    mount_ok s' \<and> only_cache s s' \<and> deepest_above C T s'"
  using assms(1-3,7-9)
proof (induction xs arbitrary: s)
  case Nil
  then show ?case using only_cache_refl [of s] by (intro exI [of _ False] exI [of _ s]) simp
next
  case (Cons x xs)
  show ?case
  proof (cases "\<exists>a. nodeCache s x = Some a \<and> valid_now s a x")
    case False
    then have "stop_at_false findDeepestCachedAncestorImpl x False (None, s) = (True, None, s)"
      using isValid_now [OF Cons.prems(1)]
      by (cases "nodeCache s x") (auto simp: stop_at_false_def findDeepestCachedAncestorImpl_def cmd)
    then show ?thesis using Cons.prems(1,5) only_cache_refl by auto
  next
    case True
    then obtain a where a: "nodeCache s x = Some a" "valid_now s a x" by blast
    have anc: "isAncestorIDOf x targetID" "getReactRootIDFromNodeID x = Some r" using Cons.prems(6) by simp_all
    obtain n where n: "n \<in> set (inside C)" "node_address n = a" "internalGetID n = x" "find_node s a = Some n"
      using valid_inside [OF Cons.prems(1) a(1) anc(2) Cons.prems(2,3) a(2)] by blast
    have "x \<noteq> ''''" using Cons.prems(1) a(1) unfolding mount_ok_def by blast
    moreover have "x \<noteq> targetID" using a Cons.prems(4) by (auto simp: not_cached_def)
    ultimately have "T \<in> set (nodes_of n)" "T \<noteq> n"
      using inside_facts(2) [OF Cons.prems(1-3) n(1)] n T anc(1) unfolding ids_mirror_def by blast+
    then have below: "T \<in> set (concat (map nodes_of (child_nodes n)))" by (simp add: nodes_of_inside [of n] inside_def)
    let ?s = "s\<lparr>deepestNodeSoFar := Some a\<rparr>"
    have "stop_at_false findDeepestCachedAncestorImpl x False (None, s) = (False, None, ?s)"
      using a isValid_now [OF Cons.prems(1) a(1)] by (simp add: stop_at_false_def findDeepestCachedAncestorImpl_def cmd)
    moreover have same: "find_node ?s = find_node s" "containersByReactRootID ?s = containersByReactRootID s"
      using only_cache_same [OF only_deepest] by blast+
    moreover have "deepest_above C T ?s" using n below by (auto simp: deepest_above_def same)
    moreover have "not_cached ?s targetID" using Cons.prems(4) by (simp add: not_cached_def)
    ultimately show ?thesis
      using Cons.IH [of ?s] mount_ok_deepest [OF Cons.prems(1)] Cons.prems(2,3,6) only_cache_trans [OF only_deepest] by fastforce
  qed
qed

lemma path_down_prefix: "x \<in> set (path_down ns ms) \<Longrightarrow> \<exists>ks. prefix ks ms \<and> x = id_of (ns @ ks)"
proof (induction ms arbitrary: ns)
  case (Cons m ms)
  then consider "x = id_of ns" | "x \<in> set (path_down (ns @ [m]) ms)" by auto
  then show ?case
  proof cases
    case 1
    then show ?thesis by (intro exI [of _ "[]"]) simp
  next
    case 2
    from Cons.IH [OF 2] obtain ks where "prefix ks ms" "x = id_of ((ns @ [m]) @ ks)" by blast
    then show ?thesis by (intro exI [of _ "m # ks"]) simp
  qed
qed simp

lemma deepest_found:
  assumes s: "mount_ok s" "containersByReactRootID s r = Some c" "find_node s c = Some C"
    and T: "T \<in> set (inside C)" "internalGetID T = id_of ns" "ns \<noteq> []"
    and ns: "\<forall>n \<in> set ns. name_ok n" "length ns \<le> MAX_TREE_DEPTH"
    and nc: "not_cached s (id_of ns)"
  shows "\<exists>d s'. findDeepestCachedAncestor (id_of ns) s = Some (Inr d, s') \<and> mount_ok s' \<and> only_cache s s' \<and>
    deepest_above C T (s'\<lparr>deepestNodeSoFar := d\<rparr>)"
proof -
  let ?s = "s\<lparr>deepestNodeSoFar := None\<rparr>" and ?xs = "tl (path_down [] ns)"
  have idT: "id_of ns \<noteq> ''''" using T(3) by simp
  have root: "getReactRootIDFromNodeID (id_of ns) = Some r" using inside_facts(3) [OF s T(1)] T idT by simp
  have xs: "\<forall>x \<in> set ?xs. isAncestorIDOf x (id_of ns) \<and> getReactRootIDFromNodeID x = Some r"
  proof
    fix x assume x: "x \<in> set ?xs"
    then have "x \<in> set (path_down [] ns)" by (cases "path_down [] ns") simp_all
    then obtain ks where ks: "prefix ks ns" "x = id_of ks" using path_down_prefix [of x "[]" ns] by auto
    have "ks \<noteq> []" using path_down_longer [OF x] ks(2) by auto
    then obtain k ks' where k: "ks = k # ks'" by (cases ks) auto
    then obtain ns' where n: "ns = k # ns'" using ks(1) by (auto simp: prefix_def)
    have names: "name_ok k" "\<forall>m \<in> set ks'. name_ok m" "\<forall>m \<in> set ns'. name_ok m" "\<forall>m \<in> set ks. name_ok m"
      using ns(1) ks(1) k n by (auto simp: prefix_def)
    have "getReactRootIDFromNodeID x = getReactRootIDFromNodeID (id_of ns)"
      unfolding ks(2) k n root_of_path [OF names(1,2)] root_of_path [OF names(1,3)] ..
    moreover have "isAncestorIDOf x (id_of ns)" using isAncestor_id_of [OF names(4) ns(1)] ks by simp
    ultimately show "isAncestorIDOf x (id_of ns) \<and> getReactRootIDFromNodeID x = Some r" using root by simp
  qed
  have same: "find_node ?s = find_node s" "containersByReactRootID ?s = containersByReactRootID s"
    using only_cache_same [OF only_deepest] by blast+
  obtain b s1 where s1: "visit (stop_at_false findDeepestCachedAncestorImpl) False ?xs (None, ?s) = (b, None, s1)"
    "mount_ok s1" "only_cache ?s s1" "deepest_above C T s1"
    using ancestors_visited [OF mount_ok_deepest [OF s(1)] _ _ T(1,2) idT _ _ xs, of None c] s nc
    by (auto simp: same not_cached_def deepest_above_def)
  have "traverseAncestors (id_of ns) (stop_at_false findDeepestCachedAncestorImpl) (None, ?s) = ((None, s1), None)"
    using traverse_down(1) [of "[]" ns "stop_at_false findDeepestCachedAncestorImpl" True False "(None, ?s)"] ns T(3) s1(1)
      skip_first [of "[]" "id_of ns" ns] by (simp add: traverseAncestors_def)
  then have "findDeepestCachedAncestor (id_of ns) s = Some (Inr (deepestNodeSoFar s1), s1\<lparr>deepestNodeSoFar := None\<rparr>)"
    by (simp add: findDeepestCachedAncestor_def cmd traversed_def)
  moreover have "only_cache s (s1\<lparr>deepestNodeSoFar := None\<rparr>)"
    using only_cache_trans [OF only_cache_trans [OF only_deepest s1(3)] only_deepest] .
  moreover have "s1\<lparr>deepestNodeSoFar := None, deepestNodeSoFar := deepestNodeSoFar s1\<rparr> = s1" by simp
  ultimately show ?thesis using s1(4) mount_ok_deepest [OF s1(2)] by metis
qed

lemma cached_valid:
  assumes s: "mount_ok s" "containersByReactRootID s r = Some c" "find_node s c = Some C"
    and T: "T \<in> set (inside C)" "internalGetID T \<noteq> ''''" and cached: "nodeCache s (internalGetID T) = Some (node_address T)"
  shows "getNode (internalGetID T) s = Some (Inr (node_address T), s)"
proof -
  note f = inside_facts [OF s T(1)]
  have "T \<in> set (nodes_of C)" using T(1) by (simp add: nodes_of_inside)
  then have "valid_now s (node_address T) (internalGetID T)"
    using containsNode_iff [OF s(1,3) f(1)] f(3) [OF T(2)] s(2) by (simp add: valid_now_def)
  then show ?thesis using cached isValid_now [OF s(1) cached] by (simp add: getNode_def Let_def cmd)
qed

lemma findComponentRoot_finds:
  assumes s: "mount_ok s" "containersByReactRootID s r = Some c" "find_node s c = Some C"
    and T: "T \<in> set (inside C)" "internalGetID T = id_of ns" "ns \<noteq> []"
    and ns: "\<forall>n \<in> set ns. name_ok n" "length ns \<le> MAX_TREE_DEPTH" and nc: "not_cached s (id_of ns)"
  shows "\<exists>s'. findComponentRoot (Some c) (id_of ns) s = Some (Inr (node_address T), s') \<and> mount_ok s' \<and> only_cache s s'"
proof -
  obtain d s1 where s1: "findDeepestCachedAncestor (id_of ns) s = Some (Inr d, s1)" "mount_ok s1" "only_cache s s1"
    "deepest_above C T (s1\<lparr>deepestNodeSoFar := d\<rparr>)"
    using deepest_found [OF assms] by blast
  have c1: "containersByReactRootID s1 r = Some c" "find_node s1 c = Some C"
    using s(2,3) only_cache_same [OF s1(3)] by simp_all
  obtain n where n: "find_node s1 (case d of Some a \<Rightarrow> a | None \<Rightarrow> c) = Some n" "n \<in> set (nodes_of C)"
    "T \<in> set (concat (map nodes_of (child_nodes n)))"
  proof (cases d)
    case None
    then show ?thesis using that [of C] c1(2) T(1) by (simp add: inside_def)
  next
    case (Some a)
    then obtain n where "find_node s1 a = Some n" "n \<in> set (inside C)" "T \<in> set (concat (map nodes_of (child_nodes n)))"
      using s1(4) by (auto simp: deepest_above_def only_cache_same [OF only_deepest])
    then show ?thesis using that [of n] Some by (simp add: nodes_of_inside)
  qed
  have "set (child_nodes n) \<subseteq> set (inside C)"
  proof
    fix x assume "x \<in> set (child_nodes n)"
    then have "x \<in> set (concat (map nodes_of (child_nodes n)))" by force
    then show "x \<in> set (inside C)" using children_inside [OF n(2)] by blast
  qed
  then obtain s2 where s2: "search_nodes (id_of ns) [child_nodes n] s1 = Some (Inr T, s2)" "mount_ok s2" "only_cache s1 s2"
    using search_nodes_finds [OF c1 T(1,2) _ s1(2), of "[child_nodes n]"] n(3) T(3) by (auto simp: on_track_def)
  have "findComponentRoot (Some c) (id_of ns) s = Some (Inr (node_address T), s2)"
    using s1(1) n(1) s2(1) by (cases d) (simp_all add: findComponentRoot_def cmd)
  then show ?thesis using s2(2) only_cache_trans [OF s1(3) s2(3)] by blast
qed

lemma getNode_found:
  assumes s: "mount_ok s" "containersByReactRootID s r = Some c" "find_node s c = Some C"
    and T: "T \<in> set (inside C)" "internalGetID T = id_of ns" "ns \<noteq> []"
    and ns: "\<forall>n \<in> set ns. name_ok n" "length ns \<le> MAX_TREE_DEPTH"
  shows "\<exists>s'. getNode (id_of ns) s = Some (Inr (node_address T), s') \<and> mount_ok s' \<and> only_cache s s' \<and>
    nodeCache s' (id_of ns) = Some (node_address T)"
proof -
  have idT: "internalGetID T \<noteq> ''''" using T by simp
  note f = inside_facts [OF s T(1)]
  show ?thesis
  proof (cases "not_cached s (id_of ns)")
    case True
    obtain s1 where s1: "findComponentRoot (Some c) (id_of ns) s = Some (Inr (node_address T), s1)" "mount_ok s1" "only_cache s s1"
      using findComponentRoot_finds [OF assms True] by blast
    let ?s = "s1\<lparr>nodeCache := (nodeCache s1)(id_of ns \<mapsto> node_address T)\<rparr>"
    have cache: "only_cache s1 ?s" unfolding only_cache_def
      by (rule exI [of _ "(nodeCache s1)(id_of ns \<mapsto> node_address T)"], rule exI [of _ "deepestNodeSoFar s1"]) simp
    have ok: "mount_ok ?s"
      by (rule mount_ok_cache [OF s1(2) cache]) (use f(1) T idT only_cache_same [OF s1(3)] in \<open>auto split: if_splits\<close>)
    have "findReactNodeByID (id_of ns) s = Some (Inr (node_address T), s1)"
      using s1(1) f(3) [OF idT] s(2) T(2) by (simp add: findReactNodeByID_def cmd container_found [OF s(1)])
    then have "getNode (id_of ns) s = Some (Inr (node_address T), ?s)"
      using True isValid_now [OF s(1)] by (cases "nodeCache s (id_of ns)") (simp_all add: getNode_def Let_def cmd set_cached_def not_cached_def)
    then show ?thesis using ok only_cache_trans [OF s1(3) cache] by auto
  next
    case False
    then obtain a where a: "nodeCache s (id_of ns) = Some a" "valid_now s a (id_of ns)" by (auto simp: not_cached_def)
    have root: "getReactRootIDFromNodeID (id_of ns) = Some r" using f(3) [OF idT] T(2) by simp
    obtain n where n: "n \<in> set (inside C)" "node_address n = a" "internalGetID n = id_of ns"
      using valid_inside [OF s(1) a(1) root s(2,3) a(2)] by blast
    then have "n = T" using id_tells_node [OF f(2) n(1) T(1)] T idT by simp
    then have cached: "nodeCache s (id_of ns) = Some (node_address T)" using a n by simp
    then show ?thesis using cached_valid [OF s T(1) idT] T(2) s(1) only_cache_refl by auto
  qed
qed

text \<open>
  C40. Finding the node of an id. Let a container be as React left it: the ids in it belong to its root and mirror the
  tree, with whatever nodes without ids the browser has put between. Then \<open>getNode\<close> returns the node in the container
  that has the id, whatever nodes are cached, current or detached long ago; it leaves the page as it is and
  the cache in order, and the next call for the same id finds the node in the cache and changes nothing.
\<close>

theorem getNode_finds:
  assumes "mount_ok s" "containersByReactRootID s r = Some c" "find_node s c = Some C"
    and "T \<in> set (inside C)" "internalGetID T = id_of ns" "ns \<noteq> []"
    and "\<forall>n \<in> set ns. name_ok n" "length ns \<le> MAX_TREE_DEPTH"
  shows "\<exists>s'. getNode (id_of ns) s = Some (Inr (node_address T), s') \<and> page s' = page s \<and> mount_ok s' \<and>
    getNode (id_of ns) s' = Some (Inr (node_address T), s')"
proof -
  obtain s' where s': "getNode (id_of ns) s = Some (Inr (node_address T), s')" "mount_ok s'" "only_cache s s'"
    "nodeCache s' (id_of ns) = Some (node_address T)" using getNode_found [OF assms] by blast
  note same = only_cache_same [OF s'(3)]
  have "getNode (internalGetID T) s' = Some (Inr (node_address T), s')"
    by (rule cached_valid [OF s'(2), of r c C]) (use assms(2-6) s'(4) same in simp_all)
  then show ?thesis using s' same(1) assms(5) by auto
qed

text \<open>A table into which the browser has put a body, and a row of an earlier table that is still cached.\<close>

definition demo_page :: "nat mount_state" where
  "demo_page = \<lparr>page = [Node 0 9 '''' [Node 1 1 '''' [Node 2 1 ''.0'' [Node 3 1 '''' [Node 4 1 ''.0.$a'' [], Node 5 1 ''.0.$b'' []]]]],
       Node 9 1 ''.0.$b'' []],
     nodeCache = [''.0.$b'' \<mapsto> 9], instancesByReactRootID = [''.0'' \<mapsto> 0], containersByReactRootID = [''.0'' \<mapsto> 1],
     rootElementsByReactRootID = [''.0'' \<mapsto> 2], deepestNodeSoFar = None, nextReactRootIndex = 1\<rparr>"

lemma demo_page_ok: "mount_ok demo_page"
proof -
  have root: "getReactRootIDFromNodeID ''.0'' = Some ''.0''" "getReactRootIDFromNodeID ''.0.$a'' = Some ''.0''"
    "getReactRootIDFromNodeID ''.0.$b'' = Some ''.0''"
    by (simp_all add: getReactRootIDFromNodeID_def char_at_def SEPARATOR_def)
  have "ids_mirror ''.0'' (Node 1 1 '''' [Node 2 1 ''.0'' [Node 3 1 '''' [Node 4 1 ''.0.$a'' [], Node 5 1 ''.0.$b'' []]]])"
    by (simp add: ids_mirror_def inside_def internalGetID_def ELEMENT_NODE_TYPE_def root isAncestorIDOf_def isBoundary_def char_at_def
        SEPARATOR_def)
  then show ?thesis
    by (simp add: mount_ok_def demo_page_def all_nodes_def find_node_def parentNode_def internalGetID_def ELEMENT_NODE_TYPE_def
        split: if_splits)
qed

theorem getNode_finds_witness:
  "\<exists>s'. getNode ''.0.$b'' demo_page = Some (Inr 5, s') \<and> page s' = page demo_page \<and> getNode ''.0.$b'' s' = Some (Inr 5, s')"
proof -
  let ?C = "Node 1 1 '''' [Node 2 1 ''.0'' [Node 3 1 '''' [Node 4 1 ''.0.$a'' [], Node 5 1 ''.0.$b'' []]]]"
  have "containersByReactRootID demo_page ''.0'' = Some 1" "find_node demo_page 1 = Some ?C" "Node 5 1 ''.0.$b'' [] \<in> set (inside ?C)"
    "internalGetID (Node 5 1 ''.0.$b'' []) = id_of [''0'', ''$b'']" "[''0'', ''$b''] \<noteq> []" "\<forall>n \<in> set [''0'', ''$b'']. name_ok n"
    "length [''0'', ''$b''] \<le> MAX_TREE_DEPTH"
    by (simp_all add: demo_page_def find_node_def all_nodes_def inside_def internalGetID_def ELEMENT_NODE_TYPE_def name_ok_def MAX_TREE_DEPTH_def)
  from getNode_finds [OF demo_page_ok this] show ?thesis by auto
qed

section \<open>Roots\<close>

text \<open>\<open>index.toString(36)\<close>\<close>

definition digit36 :: "nat \<Rightarrow> char" where
  "digit36 d = (if d < 10 then char_of (48 + d) else char_of (87 + d))"

fun to_base36 :: "nat \<Rightarrow> string" where
  "to_base36 n = (if n < 36 then [digit36 n] else to_base36 (n div 36) @ [digit36 (n mod 36)])"

declare to_base36.simps [simp del]

definition createReactRootID :: "(string, ('c, 'z) mount_state_scheme) cmd" where
  "createReactRootID = (\<lambda>s. after (modify (\<lambda>s. s\<lparr>nextReactRootIndex := nextReactRootIndex s + 1\<rparr>))
     (ret (SEPARATOR @ to_base36 (nextReactRootIndex s))) s)"

definition getReactRootID :: "nat \<Rightarrow> (string option, ('c, 'z) mount_state_scheme) cmd" where
  "getReactRootID container = (\<lambda>s. case Option.bind (find_node s container) getReactRootElementInContainer of
     None \<Rightarrow> ret None s
   | Some rootElement \<Rightarrow> bind_cmd (getID rootElement) (\<lambda>ident. ret (Some ident)) s)"

definition isRenderedByReact :: "node \<Rightarrow> (bool, ('c, 'z) mount_state_scheme) cmd" where
  "isRenderedByReact n = (if node_type n \<noteq> 1 then ret False
     else bind_cmd (getID n) (\<lambda>ident. ret (ident \<noteq> '''' \<and> char_at ident 0 = SEPARATOR)))"

text \<open>The attribute of a node that is in the page.\<close>

fun set_reactid :: "nat \<Rightarrow> string \<Rightarrow> node \<Rightarrow> node" where
  "set_reactid a ident (Node b t i children) = Node b t (if a = b then ident else i) (map (set_reactid a ident) children)"

definition setID :: "nat \<Rightarrow> string \<Rightarrow> (unit, ('c, 'z) mount_state_scheme) cmd" where
  "setID a ident = (\<lambda>s.
     let oldID = (case find_node s a of Some n \<Rightarrow> internalGetID n | None \<Rightarrow> '''')
     in after (if oldID \<noteq> ident then purgeID oldID else ret ())
          (after (modify (\<lambda>s. s\<lparr>page := map (set_reactid a ident) (page s)\<rparr>)) (set_cached ident a)) s)"

definition registerContainer :: "nat \<Rightarrow> (string, ('c, 'z) mount_state_scheme) cmd" where
  "registerContainer container = bind_cmd (getReactRootID container) (\<lambda>reactRootID.
     bind_cmd (case (case reactRootID of Some i \<Rightarrow> if i \<noteq> '''' then getReactRootIDFromNodeID i else None | None \<Rightarrow> None) of
         Some r \<Rightarrow> ret r | None \<Rightarrow> createReactRootID)
       (\<lambda>r. after (modify (\<lambda>s. s\<lparr>containersByReactRootID := (containersByReactRootID s)(r \<mapsto> container)\<rparr>)) (ret r)))"

definition is_container :: "('c, 'z) mount_state_scheme \<Rightarrow> nat \<Rightarrow> bool" where
  "is_container s container \<longleftrightarrow> (case find_node s container of
     Some n \<Rightarrow> node_type n = ELEMENT_NODE_TYPE \<or> node_type n = DOC_NODE_TYPE | None \<Rightarrow> False)"

definition registerComponent :: "'c \<Rightarrow> nat \<Rightarrow> (string, ('c, 'z) mount_state_scheme) cmd" where
  "registerComponent nextComponent container =
     after (invariant (\<lambda>s. is_container s container) ''_registerComponent: Target container is not a DOM element'')
       (bind_cmd (registerContainer container) (\<lambda>r.
         after (modify (\<lambda>s. s\<lparr>instancesByReactRootID := (instancesByReactRootID s)(r \<mapsto> nextComponent)\<rparr>)) (ret r)))"

text \<open>The other modules that rendering calls.\<close>

record ('e, 'c, 's) mount_ops =
  valid_element :: "'e \<Rightarrow> bool"
  instantiate :: "'e \<Rightarrow> 'c"
  batched_mount :: "'c \<Rightarrow> string \<Rightarrow> nat \<Rightarrow> bool \<Rightarrow> (unit, 's) cmd"
  enqueue_element :: "'c \<Rightarrow> 'e \<Rightarrow> (unit, 's) cmd"
  unmount_component :: "'c \<Rightarrow> (unit, 's) cmd"
  current_element :: "'c \<Rightarrow> 's \<Rightarrow> 'e"
  should_update :: "'e \<Rightarrow> 'e \<Rightarrow> bool"

definition record_root_element :: "string \<Rightarrow> nat \<Rightarrow> (unit, ('c, 'z) mount_state_scheme) cmd" where
  "record_root_element r container = modify (\<lambda>s. s\<lparr>rootElementsByReactRootID := (rootElementsByReactRootID s)
     (r := map_option node_address (Option.bind (find_node s container) getReactRootElementInContainer))\<rparr>)"

definition updateRootComponent ::
    "('e, 'c, ('c, 'z) mount_state_scheme) mount_ops \<Rightarrow> 'c \<Rightarrow> 'e \<Rightarrow> nat \<Rightarrow> ('c, ('c, 'z) mount_state_scheme) cmd" where
  "updateRootComponent ops prevComponent nextElement container =
     after (enqueue_element ops prevComponent nextElement)
       (bind_cmd (getReactRootID container) (\<lambda>r.
         after (case r of Some r \<Rightarrow> record_root_element r container | None \<Rightarrow> ret ()) (ret prevComponent)))"

definition renderNewRootComponent ::
    "('e, 'c, ('c, 'z) mount_state_scheme) mount_ops \<Rightarrow> 'e \<Rightarrow> nat \<Rightarrow> bool \<Rightarrow> ('c, ('c, 'z) mount_state_scheme) cmd" where
  "renderNewRootComponent ops nextElement container shouldReuseMarkup =
     (let componentInstance = instantiate ops nextElement
      in bind_cmd (registerComponent componentInstance container) (\<lambda>r.
           after (batched_mount ops componentInstance r container shouldReuseMarkup)
             (after (record_root_element r container) (ret componentInstance))))"

text \<open>Emptying a node leaves its children detached.\<close>

fun set_children :: "nat \<Rightarrow> node list \<Rightarrow> node \<Rightarrow> node" where
  "set_children a ks (Node b t i children) = Node b t i (if a = b then ks else map (set_children a ks) children)"

definition empty_node :: "nat \<Rightarrow> (unit, ('c, 'z) mount_state_scheme) cmd" where
  "empty_node a = modify (\<lambda>s. s\<lparr>page := map (set_children a []) (page s) @
     (case find_node s a of Some n \<Rightarrow> child_nodes n | None \<Rightarrow> [])\<rparr>)"

definition unmountComponentFromNode ::
    "('e, 'c, ('c, 'z) mount_state_scheme) mount_ops \<Rightarrow> 'c \<Rightarrow> nat \<Rightarrow> (unit, ('c, 'z) mount_state_scheme) cmd" where
  "unmountComponentFromNode ops component container = after (unmount_component ops component) (\<lambda>s.
     case find_node s container of
       Some n \<Rightarrow> (if node_type n = DOC_NODE_TYPE
         then (case getReactRootElementInContainer n of Some root \<Rightarrow> empty_node (node_address root) s | None \<Rightarrow> throw ''TypeError'' s)
         else empty_node container s)
     | None \<Rightarrow> throw ''TypeError'' s)"

definition unmountComponentAtNode ::
    "('e, 'c, ('c, 'z) mount_state_scheme) mount_ops \<Rightarrow> nat \<Rightarrow> (bool, ('c, 'z) mount_state_scheme) cmd" where
  "unmountComponentAtNode ops container =
     after (invariant (\<lambda>s. is_container s container) ''unmountComponentAtNode: Target container is not a DOM element'')
       (bind_cmd (getReactRootID container) (\<lambda>reactRootID s. case reactRootID of
          None \<Rightarrow> ret False s
        | Some r \<Rightarrow> (case instancesByReactRootID s r of
            None \<Rightarrow> ret False s
          | Some component \<Rightarrow> after (unmountComponentFromNode ops component container)
              (after (modify (\<lambda>s. s\<lparr>instancesByReactRootID := (instancesByReactRootID s)(r := None),
                 containersByReactRootID := (containersByReactRootID s)(r := None),
                 rootElementsByReactRootID := (rootElementsByReactRootID s)(r := None)\<rparr>)) (ret True)) s)))"

text \<open>The check for other markup of React beside the root stops at the first such node.\<close>

fun check_siblings :: "node list \<Rightarrow> (unit, ('c, 'z) mount_state_scheme) cmd" where
  "check_siblings [] = ret ()"
| "check_siblings (n # ns) = bind_cmd (isRenderedByReact n) (\<lambda>rendered. if rendered then ret () else check_siblings ns)"

definition render_new ::
    "('e, 'c, ('c, 'z) mount_state_scheme) mount_ops \<Rightarrow> 'e \<Rightarrow> nat \<Rightarrow> bool \<Rightarrow> ('c, ('c, 'z) mount_state_scheme) cmd" where
  "render_new ops nextElement container had_component = (\<lambda>s.
     let children = (case find_node s container of Some n \<Rightarrow> child_nodes n | None \<Rightarrow> []);
         root = Option.bind (find_node s container) getReactRootElementInContainer;
         siblings = (case root of Some n \<Rightarrow> dropWhile (\<lambda>k. k \<noteq> n) children | None \<Rightarrow> [])
     in bind_cmd (case root of Some n \<Rightarrow> isRenderedByReact n | None \<Rightarrow> ret False) (\<lambda>containerHasReactMarkup.
          after (if \<not> containerHasReactMarkup \<or> length siblings > 1 then check_siblings siblings else ret ())
            (renderNewRootComponent ops nextElement container (containerHasReactMarkup \<and> \<not> had_component))) s)"

definition render :: "('e, 'c, ('c, 'z) mount_state_scheme) mount_ops \<Rightarrow> 'e \<Rightarrow> nat \<Rightarrow> ('c, ('c, 'z) mount_state_scheme) cmd" where
  "render ops nextElement container =
     after (invariant (\<lambda>s. valid_element ops nextElement) ''React.render: Invalid component element'')
       (bind_cmd (getReactRootID container) (\<lambda>reactRootID s.
          case Option.bind reactRootID (instancesByReactRootID s) of
            Some prevComponent \<Rightarrow>
              if should_update ops (current_element ops prevComponent s) nextElement
              then updateRootComponent ops prevComponent nextElement container s
              else after (unmountComponentAtNode ops container) (render_new ops nextElement container True) s
          | None \<Rightarrow> render_new ops nextElement container False s))"

text \<open>The checksum of markup that the server has rendered: two sums in one 32-bit number.\<close>

definition adler_step :: "char \<Rightarrow> nat \<times> nat \<Rightarrow> nat \<times> nat" where
  "adler_step c ab = (let a = (fst ab + of_char c) mod 65521 in (a, (snd ab + a) mod 65521))"

definition adler32 :: "string \<Rightarrow> 32 word" where
  "adler32 data = (let (a, b) = fold adler_step data (1, 0) in word_of_nat a OR push_bit 16 (word_of_nat b))"

text \<open>The number in the attribute, if it is there.\<close>

definition canReuseMarkup :: "string \<Rightarrow> int option \<Rightarrow> bool" where
  "canReuseMarkup markup existingChecksum \<longleftrightarrow> existingChecksum = Some (sint (adler32 markup))"

definition mountImageIntoNode ::
    "(nat \<Rightarrow> string \<Rightarrow> (unit, ('c, 'z) mount_state_scheme) cmd) \<Rightarrow> (node \<Rightarrow> int option) \<Rightarrow> string \<Rightarrow> nat \<Rightarrow> bool
     \<Rightarrow> (unit, ('c, 'z) mount_state_scheme) cmd" where
  "mountImageIntoNode setInnerHTML checksum_of markup container shouldReuseMarkup =
     (let no_document = invariant (\<lambda>s. map_option node_type (find_node s container) \<noteq> Some DOC_NODE_TYPE) ''rendering a document'';
          insert_markup = after no_document (setInnerHTML container markup)
      in after (invariant (\<lambda>s. is_container s container) ''mountComponentIntoNode: Target container is not valid'')
           (\<lambda>s. if shouldReuseMarkup then
                  (case Option.bind (find_node s container) getReactRootElementInContainer of
                     None \<Rightarrow> throw ''TypeError'' s
                   | Some rootElement \<Rightarrow>
                       if canReuseMarkup markup (checksum_of rootElement) then ret () s else after no_document insert_markup s)
                else insert_markup s))"

section \<open>Roots are told apart, and forgotten\<close>

lemma digit36_inject: "n < 36 \<Longrightarrow> m < 36 \<Longrightarrow> digit36 n = digit36 m \<longleftrightarrow> n = m"
proof -
  assume nm: "n < 36" "m < 36"
  have code: "(of_char (digit36 d) :: nat) = (if d < 10 then 48 + d else 87 + d)" if "d < 36" for d
    using that by (simp add: digit36_def)
  have "digit36 n = digit36 m \<Longrightarrow> n = m"
  proof -
    assume "digit36 n = digit36 m"
    then have "(if n < 10 then 48 + n else 87 + n) = (if m < 10 then 48 + m else 87 + m)" using code [OF nm(1)] code [OF nm(2)] by simp
    then show "n = m" using nm by (auto split: if_splits)
  qed
  then show ?thesis by blast
qed

lemma to_base36_nonempty: "to_base36 n \<noteq> []"
  by (subst to_base36.simps) simp

lemma to_base36_inject: "to_base36 n = to_base36 m \<Longrightarrow> n = m"
proof (induction n arbitrary: m rule: to_base36.induct)
  case (1 n)
  have small: "to_base36 k = [digit36 k]" if "k < 36" for k using that by (simp add: to_base36.simps [of k])
  have large: "to_base36 k = to_base36 (k div 36) @ [digit36 (k mod 36)]" if "\<not> k < 36" for k
    using that by (simp add: to_base36.simps [of k])
  show ?case
  proof (cases "n < 36"; cases "m < 36")
    assume n: "n < 36" and m: "m < 36"
    then show "n = m" using "1.prems" small [OF n] small [OF m] digit36_inject [OF n m] by simp
  next
    assume n: "n < 36" and m: "\<not> m < 36"
    then show "n = m" using "1.prems" small [OF n] large [OF m] to_base36_nonempty [of "m div 36"] by simp
  next
    assume n: "\<not> n < 36" and m: "m < 36"
    then show "n = m" using "1.prems" large [OF n] small [OF m] to_base36_nonempty [of "n div 36"] by simp
  next
    assume n: "\<not> n < 36" and m: "\<not> m < 36"
    then have "to_base36 (n div 36) = to_base36 (m div 36)" "n mod 36 = m mod 36"
      using "1.prems" large [OF n] large [OF m] digit36_inject [of "n mod 36" "m mod 36"] by simp_all
    then have "n div 36 = m div 36" "n mod 36 = m mod 36" using "1.IH" [OF n, of "m div 36"] by blast+
    then have "n div 36 * 36 + n mod 36 = m div 36 * 36 + m mod 36" by simp
    then show "n = m" unfolding div_mult_mod_eq .
  qed
qed

lemma root_ids_distinct:
  assumes "createReactRootID s = Some (Inr r, s1)" "createReactRootID s' = Some (Inr r', s1')"
  shows "r = r' \<longleftrightarrow> nextReactRootIndex s = nextReactRootIndex s'"
  using assms to_base36_inject by (auto simp: createReactRootID_def cmd)

text \<open>After unmounting no id of the root has a container.\<close>

lemma unmounted_forgotten:
  assumes "unmountComponentAtNode ops container s = Some (Inr True, s')" "getReactRootID container s = Some (Inr (Some r), s1)"
  shows "instancesByReactRootID s' r = None"
    "getReactRootIDFromNodeID ident = Some r \<Longrightarrow> findReactContainerForID ident s' = Some (Inr None, s')"
proof -
  have "instancesByReactRootID s' r = None \<and> containersByReactRootID s' r = None \<and> rootElementsByReactRootID s' r = None"
    using assms by (auto simp: unmountComponentAtNode_def cmd split: option.splits sum.splits prod.splits if_splits)
  then show "instancesByReactRootID s' r = None"
    "getReactRootIDFromNodeID ident = Some r \<Longrightarrow> findReactContainerForID ident s' = Some (Inr None, s')"
    by (simp_all add: findReactContainerForID_def cmd)
qed

text \<open>One wrong character changes the checksum.\<close>

lemma adler_fst: "fst (fold adler_step xs (a, b)) = (if xs = [] then a else (a + sum_list (map of_char xs)) mod 65521)"
proof (induction xs arbitrary: a b)
  case (Cons c xs)
  show ?case using Cons.IH [of "(a + of_char c) mod 65521" "(b + (a + of_char c) mod 65521) mod 65521"]
    by (simp add: adler_step_def Let_def mod_simps algebra_simps)
qed simp

lemma adler_low: "take_bit 16 (adler32 xs) = word_of_nat (fst (fold adler_step xs (1, 0)))"
proof -
  have "fst (fold adler_step xs (1, 0)) < 65521" by (simp add: adler_fst)
  then have "take_bit 16 (word_of_nat (fst (fold adler_step xs (1, 0))) :: 32 word) = word_of_nat (fst (fold adler_step xs (1, 0)))"
    by (simp add: take_bit_of_nat take_bit_nat_eq_self)
  then show ?thesis by (simp add: adler32_def case_prod_unfold Let_def take_bit_push_bit)
qed

lemma adler32_one_character:
  assumes "c \<noteq> d"
  shows "adler32 (xs @ c # ys) \<noteq> adler32 (xs @ d # ys)"
proof
  let ?n = "1 + sum_list (map of_char xs) + sum_list (map of_char ys) :: nat"
  have fold: "fst (fold adler_step (xs @ e # ys) (1, 0)) = (?n + of_char e) mod 65521" for e
    unfolding adler_fst by (simp add: ac_simps)
  assume "adler32 (xs @ c # ys) = adler32 (xs @ d # ys)"
  then have "(word_of_nat ((?n + of_char c) mod 65521) :: 32 word) = word_of_nat ((?n + of_char d) mod 65521)"
    using adler_low [of "xs @ c # ys"] adler_low [of "xs @ d # ys"] unfolding fold by simp
  moreover have "unat (word_of_nat (k mod 65521) :: 32 word) = k mod 65521" for k :: nat
    by (simp add: unat_of_nat take_bit_nat_eq_self less_trans [OF mod_less_divisor])
  ultimately have "(?n + of_char c) mod 65521 = (?n + of_char d) mod 65521" by metis
  moreover have "(of_char c :: nat) < 256" "(of_char d :: nat) < 256" by (simp_all add: nat_of_char_less_256)
  moreover have "a = b" if ab: "a < 256" "b < 256" "(m + a) mod 65521 = (m + b) mod 65521" for a b m :: nat
  proof -
    obtain q q' where "m + a + 65521 * q = m + b + 65521 * q'" using ab(3) by (auto simp: nat_mod_eq_iff)
    then have "(a + 65521 * q) mod 65521 = (b + 65521 * q') mod 65521" by simp
    then show ?thesis using ab(1,2) by simp
  qed
  ultimately have "(of_char c :: nat) = of_char d" by blast
  then show False using assms by simp
qed

end
